(* ===== verification/Prelude.thy ===== *)
theory Prelude
  imports Main "HOL-Library.Word" "HOL-Library.Monad_Syntax"
begin

text \<open>
  Shared vocabulary of the development: the widths of the device's C types, the convention for
  undefined behaviour, generic facts on lists that several components use, and the collections
  of simplification rules.

  The device is a 32-bit ARM: \<open>int\<close>, \<open>long\<close>, \<open>size_t\<close>, \<open>ssize_t\<close>, \<open>off_t\<close> and pointers
  are 32 bits wide, \<open>long long\<close> 64.  A C buffer is a list of bytes and a pointer into it an
  index.  A function that may touch memory outside of a buffer returns an \<open>option\<close>, and
  \<open>None\<close> is C's undefined behaviour: it is never an error return of the code.
\<close>

section \<open>C types\<close>

type_synonym u8 = "8 word"
type_synonym u16 = "16 word"
type_synonym u32 = "32 word"
type_synonym u64 = "64 word"
type_synonym bytes = "u8 list"

named_theorems byte_simps \<open>evaluation of reads and writes of fixed-width integers\<close>
named_theorems frame_simps \<open>what an operation leaves unchanged\<close>

unbundle bit_operations_syntax

lemma unat_u32: "unat (w :: u32) < 2 ^ 32"
proof -
  have "unat w < 2 ^ LENGTH(32)" by (rule unsigned_less)
  then show ?thesis by simp
qed

lemma bit_nat_ge: "bit (n :: nat) k \<Longrightarrow> 2 ^ k \<le> n"
  by (metis bit_take_bit_iff leI less_irrefl take_bit_nat_eq_self)

lemma unat_of_nat_u32 [simp]: "n < 2 ^ 32 \<Longrightarrow> unat (of_nat n :: u32) = n"
  by (simp add: unat_of_nat take_bit_nat_eq_self)

lemma ucast_u16 [simp]: "unat (ucast (w :: u16) :: u32) = unat w"
  using unsigned_less [of w, where 'a = nat] by (simp add: unsigned_ucast_eq take_bit_eq_mod)

lemma unat_ucast_u8 [simp]: "unat (ucast (w :: u8) :: u32) = unat w"
  using unsigned_less [of w, where 'a = nat] by (simp add: unsigned_ucast_eq take_bit_eq_mod)

lemma sint_diff_small:
  fixes a b :: u32
  assumes "unat a < 2 ^ 31" and "unat b < 2 ^ 31"
  shows "sint (a - b) = int (unat a) - int (unat b)"
proof -
  have "a - b = word_of_int (int (unat a) - int (unat b))" by simp
  then have "sint (a - b) = signed_take_bit 31 (int (unat a) - int (unat b))"
    by (simp only: Word.sint_sbintrunc') simp
  also have "\<dots> = int (unat a) - int (unat b)"
  proof (rule signed_take_bit_int_eq_self)
    have "int (unat a) < 2 ^ 31" "int (unat b) < 2 ^ 31"
      using assms by (metis of_nat_less_iff of_nat_numeral of_nat_power)+
    then show "- (2 ^ 31) \<le> int (unat a) - int (unat b)" "int (unat a) - int (unat b) < 2 ^ 31"
      by linarith+
  qed
  finally show ?thesis .
qed

lemma sint_small: "unat (x :: u32) < 2 ^ 31 \<Longrightarrow> sint x = int (unat x)"
  using sint_diff_small [of x 0] by simp

lemma sint_nonneg: "0 \<le> sint (x :: u32) \<Longrightarrow> sint x = int (unat x)"
proof -
  assume nonneg: "0 \<le> sint x"
  have "uint x < 2 ^ 32" using unsigned_less [of x, where 'a = int] by simp
  moreover from this have "take_bit 32 (uint x) = uint x" by (simp add: take_bit_int_eq_self)
  then have "sint x = uint x - 2 ^ 32 * of_bool (bit (uint x) 31)"
    by (simp add: sint_uint signed_take_bit_eq_take_bit_minus)
  ultimately show ?thesis using nonneg by (cases "bit (uint x) 31") simp_all
qed

section \<open>Buffers\<close>

text \<open>Reading one byte, and overwriting part of a buffer; both stay inside the buffer.\<close>

definition rd :: "'a list \<Rightarrow> nat \<Rightarrow> 'a option" where
  "rd b p = (if p < length b then Some (b ! p) else None)"

definition rd_slice :: "'a list \<Rightarrow> nat \<Rightarrow> nat \<Rightarrow> 'a list option" where
  "rd_slice b p n = (if p + n \<le> length b then Some (take n (drop p b)) else None)"

definition wr_slice :: "'a list \<Rightarrow> nat \<Rightarrow> 'a list \<Rightarrow> 'a list option" where
  "wr_slice b p xs =
     (if p + length xs \<le> length b then Some (take p b @ xs @ drop (p + length xs) b) else None)"

lemma rd_Some [byte_simps]: "p < length b \<Longrightarrow> rd b p = Some (b ! p)"
  by (simp add: rd_def)

lemma rd_eq_None [simp]: "rd b p = None \<longleftrightarrow> length b \<le> p"
  by (simp add: rd_def)

lemma rd_eq_Some: "rd b p = Some x \<longleftrightarrow> p < length b \<and> x = b ! p"
  by (auto simp: rd_def)

lemma rd_slice_Some [byte_simps]:
  "p + n \<le> length b \<Longrightarrow> rd_slice b p n = Some (take n (drop p b))"
  by (simp add: rd_slice_def)

lemma rd_slice_length: "rd_slice b p n = Some xs \<Longrightarrow> length xs = n"
  by (auto simp: rd_slice_def split: if_splits)

lemma wr_slice_length: "wr_slice b p xs = Some b' \<Longrightarrow> length b' = length b"
  by (auto simp: wr_slice_def split: if_splits)

lemma wr_slice_eq_None [simp]: "wr_slice b p xs = None \<longleftrightarrow> length b < p + length xs"
  by (auto simp: wr_slice_def)

lemma rd_slice_wr_slice:
  assumes "wr_slice b p xs = Some b'"
  shows "rd_slice b' p (length xs) = Some xs"
  using assms by (auto simp: rd_slice_def wr_slice_def split: if_splits)

text \<open>Every byte of a slice that was read (or written) can be read back.\<close>

lemma rd_of_slice:
  assumes "rd_slice b p n = Some xs" and "k < n"
  shows "rd b (p + k) = Some (xs ! k)"
  using assms by (auto simp: rd_slice_def rd_def split: if_splits)

lemma rd_of_written:
  assumes "wr_slice b p xs = Some b'" and "k < length xs"
  shows "rd b' (p + k) = Some (xs ! k)"
  using rd_of_slice [OF rd_slice_wr_slice [OF assms(1)] assms(2)] .

lemma rd_of_written0:
  assumes "wr_slice b p xs = Some b'" and "xs \<noteq> []"
  shows "rd b' p = Some (hd xs)"
  using rd_of_written [OF assms(1), of 0] assms(2) by (simp add: hd_conv_nth)

lemma rd_of_written12:
  assumes "wr_slice b p xs = Some b'"
  shows "1 < length xs \<Longrightarrow> rd b' (Suc p) = Some (xs ! 1)"
    and "2 < length xs \<Longrightarrow> rd b' (Suc (Suc p)) = Some (xs ! 2)"
  using rd_of_written [OF assms, of 1] rd_of_written [OF assms, of 2]
  by (simp_all add: numeral_2_eq_2)

lemmas written_simps = rd_of_written rd_of_written0 rd_of_written12

lemma nth_wr_slice:
  assumes "wr_slice b p xs = Some b'" and "i < length b"
  shows "b' ! i = (if p \<le> i \<and> i < p + length xs then xs ! (i - p) else b ! i)"
  using assms by (auto simp: wr_slice_def nth_append split: if_splits)

section \<open>Defined results\<close>

text \<open>
  \<open>returns m P\<close>: the computation \<open>m\<close> is defined (no access outside of a buffer, no endless
  loop) and its result satisfies \<open>P\<close>.  The rules follow the text of a function: each read has
  to be shown to stay inside, and what it read is known afterwards.
\<close>

definition returns :: "'a option \<Rightarrow> ('a \<Rightarrow> bool) \<Rightarrow> bool" where
  "returns m P \<longleftrightarrow> (\<exists>r. m = Some r \<and> P r)"

named_theorems returns_rules \<open>step through a computation that must be defined\<close>

lemma returns_Some [returns_rules]: "P r \<Longrightarrow> returns (Some r) P"
  by (simp add: returns_def)

lemma returns_bind [returns_rules]:
  "returns m (\<lambda>_. True) \<Longrightarrow> (\<And>v. m = Some v \<Longrightarrow> returns (f v) P) \<Longrightarrow> returns (m \<bind> f) P"
  by (auto simp: returns_def)

lemma returns_if [returns_rules]:
  "(c \<Longrightarrow> returns a P) \<Longrightarrow> (\<not> c \<Longrightarrow> returns b P) \<Longrightarrow> returns (if c then a else b) P"
  by simp

lemma returns_Let [returns_rules]: "(\<And>x. x = t \<Longrightarrow> returns (f x) P) \<Longrightarrow> returns (Let t f) P"
  by (simp add: Let_def)

lemma returns_option [returns_rules]:
  "(m = None \<Longrightarrow> returns a P) \<Longrightarrow> (\<And>x. m = Some x \<Longrightarrow> returns (f x) P) \<Longrightarrow>
   returns (case m of None \<Rightarrow> a | Some x \<Rightarrow> f x) P"
  by (simp split: option.split)

lemma returns_sum [returns_rules]:
  "(\<And>x. m = Inl x \<Longrightarrow> returns (f x) P) \<Longrightarrow> (\<And>y. m = Inr y \<Longrightarrow> returns (g y) P) \<Longrightarrow>
   returns (case m of Inl x \<Rightarrow> f x | Inr y \<Rightarrow> g y) P"
  by (simp split: sum.split)

lemma returnsD: "returns m P \<Longrightarrow> m = Some r \<Longrightarrow> P r"
  by (simp add: returns_def)

lemma returns_pairE:
  assumes "returns m (\<lambda>(a, b). P a b)"
  obtains a b where "m = Some (a, b)" and "P a b"
  using assms by (auto simp: returns_def)

lemma returns_defined: "returns m P \<Longrightarrow> m \<noteq> None"
  by (auto simp: returns_def)

lemma returns_mono: "returns m P \<Longrightarrow> (\<And>r. m = Some r \<Longrightarrow> P r \<Longrightarrow> Q r) \<Longrightarrow> returns m Q"
  by (auto simp: returns_def)

lemma returns_true: "returns m (\<lambda>_. True) \<longleftrightarrow> m \<noteq> None"
  by (auto simp: returns_def)

section \<open>Lists\<close>

lemma length_filter_update:
  assumes "i < length xs"
  shows "length (filter P (xs[i := x])) + (if P (xs ! i) then 1 else 0) =
         length (filter P xs) + (if P x then 1 else 0)"
proof -
  have split: "xs = take i xs @ xs ! i # drop (Suc i) xs"
    using assms by (rule id_take_nth_drop)
  have upd: "xs[i := x] = take i xs @ x # drop (Suc i) xs"
    using assms by (rule upd_conv_take_nth_drop)
  show ?thesis by (subst upd, subst (3) split) simp
qed

lemma exists_not_if_filter_less:
  "length (filter P xs) < length xs \<Longrightarrow> \<exists>i < length xs. \<not> P (xs ! i)"
  by (metis length_filter_less nth_mem filter_id_conv in_set_conv_nth less_irrefl)

lemma set_update_nth:
  "i < length xs \<Longrightarrow> distinct xs \<Longrightarrow> set (xs[i := x]) = insert x (set xs - {xs ! i})"
  by (auto simp: set_update_distinct)

section \<open>Comparing memory\<close>

text \<open>
  \<open>memcmp\<close> and \<open>strncmp\<close> on the memory that two pointers point to (the lists are what is
  left of the two buffers): running past either one is undefined.  \<open>strncmp\<close> stops at a
  terminator that both strings have.
\<close>

fun memcmp :: "bytes \<Rightarrow> bytes \<Rightarrow> nat \<Rightarrow> int option" where
  "memcmp a b 0 = Some 0"
| "memcmp (x # a) (y # b) (Suc n) = (if x \<noteq> y then Some (uint x - uint y) else memcmp a b n)"
| "memcmp _ _ (Suc n) = None"

fun strncmp :: "bytes \<Rightarrow> bytes \<Rightarrow> nat \<Rightarrow> int option" where
  "strncmp a b 0 = Some 0"
| "strncmp (x # a) (y # b) (Suc n) =
     (if x \<noteq> y then Some (uint x - uint y) else if x = 0 then Some 0 else strncmp a b n)"
| "strncmp _ _ (Suc n) = None"

lemma memcmp_in: "n \<le> length a \<Longrightarrow> n \<le> length b \<Longrightarrow> \<exists>d. memcmp a b n = Some d"
  by (induction a b n rule: memcmp.induct) auto

lemma strncmp_in: "n \<le> length a \<Longrightarrow> n \<le> length b \<Longrightarrow> \<exists>d. strncmp a b n = Some d"
  by (induction a b n rule: strncmp.induct) auto

lemma memcmp_zero:
  "memcmp a b n = Some d \<Longrightarrow> d = 0 \<longleftrightarrow> take n a = take n b"
  by (induction a b n rule: memcmp.induct) (auto simp: word_uint_eq_iff split: if_splits)

lemma memcmp_eq_zero:
  "n \<le> length a \<Longrightarrow> n \<le> length b \<Longrightarrow> memcmp a b n = Some 0 \<longleftrightarrow> take n a = take n b"
  using memcmp_in [of n a b] memcmp_zero [of a b n] by auto

lemma strncmp_zero:
  "strncmp a b n = Some d \<Longrightarrow> 0 \<notin> set (take n a) \<Longrightarrow> d = 0 \<longleftrightarrow> take n a = take n b"
  by (induction a b n rule: strncmp.induct) (auto simp: word_uint_eq_iff split: if_splits)

end
