(* ===== verification/Bytes.thy ===== *)
theory Bytes
  imports Prelude
begin

text \<open>
  Fixed-width integers in byte buffers: the readers and writers of \<open>minzip/Bits.h\<close> and the
  little-endian helpers of \<open>applypatch/utils.c\<close>.  A reader takes the buffer and the pointer
  (an index) and is undefined behaviour (\<open>None\<close>) where it would run past the buffer; the
  pointer-advancing variants return the new pointer too.  The lemmas give the round trips
  between writers and readers and the agreement of the two families.
\<close>

section \<open>minzip/Bits.h: reading\<close>

definition get1 :: "bytes \<Rightarrow> nat \<Rightarrow> u8 option" where
  "get1 pSrc p = rd pSrc p"

definition get2BE :: "bytes \<Rightarrow> nat \<Rightarrow> u16 option" where
  "get2BE pSrc p = do {
     b0 \<leftarrow> rd pSrc p;
     b1 \<leftarrow> rd pSrc (p + 1);
     Some (push_bit 8 (ucast b0) OR ucast b1) }"

definition get4BE :: "bytes \<Rightarrow> nat \<Rightarrow> u32 option" where
  "get4BE pSrc p = do {
     b0 \<leftarrow> rd pSrc p;
     b1 \<leftarrow> rd pSrc (p + 1);
     b2 \<leftarrow> rd pSrc (p + 2);
     b3 \<leftarrow> rd pSrc (p + 3);
     Some (push_bit 24 (ucast b0) OR push_bit 16 (ucast b1) OR push_bit 8 (ucast b2) OR ucast b3) }"

definition get8BE :: "bytes \<Rightarrow> nat \<Rightarrow> u64 option" where
  "get8BE pSrc p = do {
     b0 \<leftarrow> rd pSrc p;
     b1 \<leftarrow> rd pSrc (p + 1);
     b2 \<leftarrow> rd pSrc (p + 2);
     b3 \<leftarrow> rd pSrc (p + 3);
     b4 \<leftarrow> rd pSrc (p + 4);
     b5 \<leftarrow> rd pSrc (p + 5);
     b6 \<leftarrow> rd pSrc (p + 6);
     b7 \<leftarrow> rd pSrc (p + 7);
     Some (push_bit 56 (ucast b0) OR push_bit 48 (ucast b1) OR push_bit 40 (ucast b2)
           OR push_bit 32 (ucast b3) OR push_bit 24 (ucast b4) OR push_bit 16 (ucast b5)
           OR push_bit 8 (ucast b6) OR ucast b7) }"

definition get2LE :: "bytes \<Rightarrow> nat \<Rightarrow> u16 option" where
  "get2LE pSrc p = do {
     b0 \<leftarrow> rd pSrc p;
     b1 \<leftarrow> rd pSrc (p + 1);
     Some (ucast b0 OR push_bit 8 (ucast b1)) }"

definition get4LE :: "bytes \<Rightarrow> nat \<Rightarrow> u32 option" where
  "get4LE pSrc p = do {
     b0 \<leftarrow> rd pSrc p;
     b1 \<leftarrow> rd pSrc (p + 1);
     b2 \<leftarrow> rd pSrc (p + 2);
     b3 \<leftarrow> rd pSrc (p + 3);
     Some (ucast b0 OR push_bit 8 (ucast b1) OR push_bit 16 (ucast b2) OR push_bit 24 (ucast b3)) }"

definition get8LE :: "bytes \<Rightarrow> nat \<Rightarrow> u64 option" where
  "get8LE pSrc p = do {
     b0 \<leftarrow> rd pSrc p;
     b1 \<leftarrow> rd pSrc (p + 1);
     b2 \<leftarrow> rd pSrc (p + 2);
     b3 \<leftarrow> rd pSrc (p + 3);
     b4 \<leftarrow> rd pSrc (p + 4);
     b5 \<leftarrow> rd pSrc (p + 5);
     b6 \<leftarrow> rd pSrc (p + 6);
     b7 \<leftarrow> rd pSrc (p + 7);
     Some (ucast b0 OR push_bit 8 (ucast b1) OR push_bit 16 (ucast b2) OR push_bit 24 (ucast b3)
           OR push_bit 32 (ucast b4) OR push_bit 40 (ucast b5) OR push_bit 48 (ucast b6)
           OR push_bit 56 (ucast b7)) }"

text \<open>The pointer-advancing readers: \<open>*ppSrc\<close> is the second component of the result.\<close>

definition advance :: "(bytes \<Rightarrow> nat \<Rightarrow> 'a option) \<Rightarrow> nat \<Rightarrow> bytes \<Rightarrow> nat \<Rightarrow> ('a \<times> nat) option" where
  "advance get n pSrc p = do { v \<leftarrow> get pSrc p; Some (v, p + n) }"

definition read1 :: "bytes \<Rightarrow> nat \<Rightarrow> (u8 \<times> nat) option" where "read1 = advance get1 1"
definition read2BE :: "bytes \<Rightarrow> nat \<Rightarrow> (u16 \<times> nat) option" where "read2BE = advance get2BE 2"
definition read4BE :: "bytes \<Rightarrow> nat \<Rightarrow> (u32 \<times> nat) option" where "read4BE = advance get4BE 4"
definition read8BE :: "bytes \<Rightarrow> nat \<Rightarrow> (u64 \<times> nat) option" where "read8BE = advance get8BE 8"
definition read2LE :: "bytes \<Rightarrow> nat \<Rightarrow> (u16 \<times> nat) option" where "read2LE = advance get2LE 2"
definition read4LE :: "bytes \<Rightarrow> nat \<Rightarrow> (u32 \<times> nat) option" where "read4LE = advance get4LE 4"
definition read8LE :: "bytes \<Rightarrow> nat \<Rightarrow> (u64 \<times> nat) option" where "read8LE = advance get8LE 8"

text \<open>
  Length-prefixed UTF-8 strings.  \<open>skipUtf8String\<close> only moves the pointer;
  \<open>readUtf8String\<close> copies at most \<open>bufLen - 1\<close> bytes into the caller's buffer, terminates
  it, and returns the length that the source announced (so a longer string is truncated but
  still skipped as a whole); \<open>bufLen\<close> is a \<open>size_t\<close>, so \<open>bufLen - 1\<close> wraps at 0.
\<close>

definition skipUtf8String :: "bytes \<Rightarrow> nat \<Rightarrow> nat option" where
  "skipUtf8String src p = do { (len, p) \<leftarrow> read4BE src p; Some (p + unat len) }"

definition readUtf8String :: "bytes \<Rightarrow> nat \<Rightarrow> bytes \<Rightarrow> u32 \<Rightarrow> (u32 \<times> bytes \<times> nat) option" where
  "readUtf8String src p buf bufLen = do {
     (len, p) \<leftarrow> read4BE src p;
     let copyLen = (if len < bufLen then len else bufLen - 1);
     chunk \<leftarrow> rd_slice src p (unat copyLen);
     buf \<leftarrow> wr_slice buf 0 chunk;
     buf \<leftarrow> wr_slice buf (unat copyLen) [0];
     Some (len, buf, p + unat len) }"

definition readNewUtf8String :: "bytes \<Rightarrow> nat \<Rightarrow> (bytes \<times> u32 \<times> nat) option" where
  "readNewUtf8String src p = do {
     (len, p) \<leftarrow> read4BE src p;
     let buf = replicate (unat (len + 1)) 0;
     chunk \<leftarrow> rd_slice src p (unat len);
     buf \<leftarrow> wr_slice buf 0 chunk;
     buf \<leftarrow> wr_slice buf (unat len) [0];
     Some (buf, len, p + unat len) }"

section \<open>minzip/Bits.h: writing\<close>

definition set1 :: "bytes \<Rightarrow> nat \<Rightarrow> u8 \<Rightarrow> bytes option" where
  "set1 buf p val = wr_slice buf p [val]"

definition set2BE :: "bytes \<Rightarrow> nat \<Rightarrow> u16 \<Rightarrow> bytes option" where
  "set2BE buf p val = wr_slice buf p [ucast (drop_bit 8 val), ucast val]"

definition set4BE :: "bytes \<Rightarrow> nat \<Rightarrow> u32 \<Rightarrow> bytes option" where
  "set4BE buf p val = wr_slice buf p
     [ucast (drop_bit 24 val), ucast (drop_bit 16 val), ucast (drop_bit 8 val), ucast val]"

definition set8BE :: "bytes \<Rightarrow> nat \<Rightarrow> u64 \<Rightarrow> bytes option" where
  "set8BE buf p val = wr_slice buf p
     [ucast (drop_bit 56 val), ucast (drop_bit 48 val), ucast (drop_bit 40 val),
      ucast (drop_bit 32 val), ucast (drop_bit 24 val), ucast (drop_bit 16 val),
      ucast (drop_bit 8 val), ucast val]"

definition set2LE :: "bytes \<Rightarrow> nat \<Rightarrow> u16 \<Rightarrow> bytes option" where
  "set2LE buf p val = wr_slice buf p [ucast val, ucast (drop_bit 8 val)]"

definition set4LE :: "bytes \<Rightarrow> nat \<Rightarrow> u32 \<Rightarrow> bytes option" where
  "set4LE buf p val = wr_slice buf p
     [ucast val, ucast (drop_bit 8 val), ucast (drop_bit 16 val), ucast (drop_bit 24 val)]"

definition set8LE :: "bytes \<Rightarrow> nat \<Rightarrow> u64 \<Rightarrow> bytes option" where
  "set8LE buf p val = wr_slice buf p
     [ucast val, ucast (drop_bit 8 val), ucast (drop_bit 16 val), ucast (drop_bit 24 val),
      ucast (drop_bit 32 val), ucast (drop_bit 40 val), ucast (drop_bit 48 val),
      ucast (drop_bit 56 val)]"

text \<open>\<open>str\<close> is a C string without its terminator.\<close>

definition setUtf8String :: "bytes \<Rightarrow> nat \<Rightarrow> bytes \<Rightarrow> bytes option" where
  "setUtf8String buf p str = do {
     buf \<leftarrow> set4BE buf p (of_nat (length str));
     wr_slice buf (p + 4) str }"

section \<open>applypatch/utils.c\<close>

text \<open>
  \<open>Write4\<close> and \<open>Write8\<close> append to a stream; the model returns the bytes that are put.
  The arguments are signed, and \<open>>>\<close> is the arithmetic shift of the device's compiler.
\<close>

definition Write4 :: "u32 \<Rightarrow> bytes" where
  "Write4 val =
     [ucast (val AND 0xff), ucast (signed_drop_bit 8 val AND 0xff),
      ucast (signed_drop_bit 16 val AND 0xff), ucast (signed_drop_bit 24 val AND 0xff)]"

definition Write8 :: "u64 \<Rightarrow> bytes" where
  "Write8 val =
     [ucast (val AND 0xff), ucast (signed_drop_bit 8 val AND 0xff),
      ucast (signed_drop_bit 16 val AND 0xff), ucast (signed_drop_bit 24 val AND 0xff),
      ucast (signed_drop_bit 32 val AND 0xff), ucast (signed_drop_bit 40 val AND 0xff),
      ucast (signed_drop_bit 48 val AND 0xff), ucast (signed_drop_bit 56 val AND 0xff)]"

definition Read2 :: "bytes \<Rightarrow> nat \<Rightarrow> u32 option" where
  "Read2 pv p = do {
     b0 \<leftarrow> rd pv p;
     b1 \<leftarrow> rd pv (p + 1);
     Some (push_bit 8 (ucast b1) OR ucast b0) }"

definition Read4 :: "bytes \<Rightarrow> nat \<Rightarrow> u32 option" where
  "Read4 pv p = do {
     b0 \<leftarrow> rd pv p;
     b1 \<leftarrow> rd pv (p + 1);
     b2 \<leftarrow> rd pv (p + 2);
     b3 \<leftarrow> rd pv (p + 3);
     Some (push_bit 24 (ucast b3) OR push_bit 16 (ucast b2) OR push_bit 8 (ucast b1) OR ucast b0) }"

definition Read8 :: "bytes \<Rightarrow> nat \<Rightarrow> u64 option" where
  "Read8 pv p = do {
     b0 \<leftarrow> rd pv p;
     b1 \<leftarrow> rd pv (p + 1);
     b2 \<leftarrow> rd pv (p + 2);
     b3 \<leftarrow> rd pv (p + 3);
     b4 \<leftarrow> rd pv (p + 4);
     b5 \<leftarrow> rd pv (p + 5);
     b6 \<leftarrow> rd pv (p + 6);
     b7 \<leftarrow> rd pv (p + 7);
     Some (push_bit 56 (ucast b7) OR push_bit 48 (ucast b6) OR push_bit 40 (ucast b5)
           OR push_bit 32 (ucast b4) OR push_bit 24 (ucast b3) OR push_bit 16 (ucast b2)
           OR push_bit 8 (ucast b1) OR ucast b0) }"

section \<open>Safety of the readers\<close>

lemmas get_defs =
  get1_def get2BE_def get4BE_def get8BE_def get2LE_def get4LE_def get8LE_def
  Read2_def Read4_def Read8_def

lemma get1_eq_None [simp]: "get1 b p = None \<longleftrightarrow> length b < p + 1"
  by (auto simp: get_defs rd_def)

lemma get2_eq_None [simp]:
  "get2LE b p = None \<longleftrightarrow> length b < p + 2" "get2BE b p = None \<longleftrightarrow> length b < p + 2"
  "Read2 b p = None \<longleftrightarrow> length b < p + 2"
  by (auto simp: get_defs rd_def Option.bind_eq_None_conv)

lemma get4_eq_None [simp]:
  "get4LE b p = None \<longleftrightarrow> length b < p + 4" "get4BE b p = None \<longleftrightarrow> length b < p + 4"
  "Read4 b p = None \<longleftrightarrow> length b < p + 4"
  by (auto simp: get_defs rd_def Option.bind_eq_None_conv)

lemma get8_eq_None [simp]:
  "get8LE b p = None \<longleftrightarrow> length b < p + 8" "get8BE b p = None \<longleftrightarrow> length b < p + 8"
  "Read8 b p = None \<longleftrightarrow> length b < p + 8"
  by (auto simp: get_defs rd_def Option.bind_eq_None_conv)

lemma get4LE_in: "p + 4 \<le> length b \<Longrightarrow> \<exists>v. get4LE b p = Some v"
  by (metis get4_eq_None(1) linorder_not_less option.exhaust)

lemma get2LE_in: "p + 2 \<le> length b \<Longrightarrow> \<exists>v. get2LE b p = Some v"
  by (metis get2_eq_None(1) linorder_not_less option.exhaust)

lemma Read4_in: "p + 4 \<le> length b \<Longrightarrow> \<exists>v. Read4 b p = Some v"
  by (metis get4_eq_None(3) linorder_not_less option.exhaust)

lemma Read8_in: "p + 8 \<le> length b \<Longrightarrow> \<exists>v. Read8 b p = Some v"
  by (metis get8_eq_None(3) linorder_not_less option.exhaust)

section \<open>Round trips\<close>

text \<open>Which bits a byte cut out of a word and moved back contributes.\<close>

lemma bit_byte_slot:
  fixes v :: "'a::len word"
  shows "bit (push_bit k (ucast (ucast (drop_bit k v) :: u8)) :: 'a word) n \<longleftrightarrow>
         k \<le> n \<and> n < k + 8 \<and> n < LENGTH('a) \<and> bit v n"
  by (auto simp: bit_simps)

lemma bit_byte_slot0:
  fixes v :: "'a::len word"
  shows "bit (ucast (ucast v :: u8) :: 'a word) n \<longleftrightarrow> n < 8 \<and> n < LENGTH('a) \<and> bit v n"
  by (auto simp: bit_simps)

lemmas byte_slots = bit_byte_slot bit_byte_slot0

text \<open>The bytes of a word put together again, at each width.\<close>

lemma join2: "ucast (ucast v :: u8) OR push_bit 8 (ucast (ucast (drop_bit 8 v) :: u8)) = (v :: u16)"
  by (rule bit_word_eqI) (simp only: bit_or_iff byte_slots; auto)

lemma join4:
  "ucast (ucast v :: u8) OR push_bit 8 (ucast (ucast (drop_bit 8 v) :: u8)) OR
   push_bit 16 (ucast (ucast (drop_bit 16 v) :: u8)) OR
   push_bit 24 (ucast (ucast (drop_bit 24 v) :: u8)) = (v :: u32)"
  by (rule bit_word_eqI) (simp only: bit_or_iff byte_slots; auto)

lemma join8:
  "ucast (ucast v :: u8) OR push_bit 8 (ucast (ucast (drop_bit 8 v) :: u8)) OR
   push_bit 16 (ucast (ucast (drop_bit 16 v) :: u8)) OR
   push_bit 24 (ucast (ucast (drop_bit 24 v) :: u8)) OR
   push_bit 32 (ucast (ucast (drop_bit 32 v) :: u8)) OR
   push_bit 40 (ucast (ucast (drop_bit 40 v) :: u8)) OR
   push_bit 48 (ucast (ucast (drop_bit 48 v) :: u8)) OR
   push_bit 56 (ucast (ucast (drop_bit 56 v) :: u8)) = (v :: u64)" (is "?l = v")
proof (rule bit_word_eqI)
  fix n assume "n < LENGTH(64)"
  then have "n < 8 \<or> 8 \<le> n \<and> n < 16 \<or> 16 \<le> n \<and> n < 24 \<or> 24 \<le> n \<and> n < 32 \<or>
    32 \<le> n \<and> n < 40 \<or> 40 \<le> n \<and> n < 48 \<or> 48 \<le> n \<and> n < 56 \<or> 56 \<le> n \<and> n < 64"
    by simp arith
  then show "bit ?l n = bit v n"
    unfolding bit_or_iff byte_slots by (elim disjE) simp_all
qed

text \<open>
  \<open>get4LE\<close> and \<open>Read4\<close> are the same function, and so are the other little-endian pairs
  (\<open>Read2\<close> widens to \<open>int\<close>).
\<close>

lemma Read4_eq_get4LE: "Read4 = get4LE"
  by (simp add: fun_eq_iff get_defs or.assoc or.commute or.left_commute)

lemma Read8_eq_get8LE: "Read8 = get8LE"
  by (simp add: fun_eq_iff get_defs or.assoc or.commute or.left_commute)

text \<open>Reading back what a writer wrote, for every width and both byte orders.\<close>

lemma get2LE_set2LE: "set2LE b p v = Some b' \<Longrightarrow> get2LE b' p = Some v"
  by (simp add: set2LE_def get2LE_def written_simps join2)

lemma get4LE_set4LE: "set4LE b p v = Some b' \<Longrightarrow> get4LE b' p = Some v"
  by (simp add: set4LE_def get4LE_def written_simps join4)

lemma get8LE_set8LE: "set8LE b p v = Some b' \<Longrightarrow> get8LE b' p = Some v"
  by (simp add: set8LE_def get8LE_def written_simps join8)

lemmas or_ac = or.assoc or.commute or.left_commute

lemma get2BE_set2BE: "set2BE b p v = Some b' \<Longrightarrow> get2BE b' p = Some v"
  using join2 [of v]
  by (simp add: set2BE_def get2BE_def written_simps or_ac)

lemma get4BE_set4BE: "set4BE b p v = Some b' \<Longrightarrow> get4BE b' p = Some v"
  using join4 [of v]
  by (simp add: set4BE_def get4BE_def written_simps or_ac)

lemma get8BE_set8BE: "set8BE b p v = Some b' \<Longrightarrow> get8BE b' p = Some v"
  using join8 [of v]
  by (simp add: set8BE_def get8BE_def written_simps or_ac)

text \<open>The bytes that \<open>Write4\<close> and \<open>Write8\<close> put are those of \<open>set4LE\<close> and \<open>set8LE\<close>.\<close>

lemma byte_of_shift:
  fixes v :: "'a::len word"
  assumes "k + 8 \<le> LENGTH('a)"
  shows "(ucast (signed_drop_bit k v) :: u8) = ucast (drop_bit k v)"
  using assms by (intro bit_word_eqI) (auto simp: bit_simps)

lemma byte_of_low:
  fixes v :: "'a::len word"
  assumes "8 \<le> LENGTH('a)"
  shows "(ucast (v AND 0xff) :: u8) = ucast v"
proof -
  have ff: "(0xff :: 'a word) = mask 8"
    by (simp add: mask_eq_exp_minus_1)
  show ?thesis
    unfolding ff using assms by (intro bit_word_eqI) (auto simp: bit_simps)
qed

lemma Write4_eq_set4LE: "wr_slice b p (Write4 v) = set4LE b p v"
  by (simp add: Write4_def set4LE_def byte_of_shift byte_of_low)

lemma Write8_eq_set8LE: "wr_slice b p (Write8 v) = set8LE b p v"
  by (simp add: Write8_def set8LE_def byte_of_shift byte_of_low)

lemma length_Write [simp]: "length (Write4 v) = 4" "length (Write8 w) = 8"
  by (simp_all add: Write4_def Write8_def)

lemma Read4_written: "wr_slice b p (Write4 v) = Some b' \<Longrightarrow> Read4 b' p = Some v"
  by (simp add: Write4_eq_set4LE Read4_eq_get4LE get4LE_set4LE)

lemma Read8_written: "wr_slice b p (Write8 v) = Some b' \<Longrightarrow> Read8 b' p = Some v"
  by (simp add: Write8_eq_set8LE Read8_eq_get8LE get8LE_set8LE)

text \<open>The same for a stream: a value that was put at the end of what was put before.\<close>

lemma wr_slice_append: "length pre = p \<Longrightarrow> length ys = length xs \<Longrightarrow>
    wr_slice (pre @ ys @ post) p xs = Some (pre @ xs @ post)"
  by (auto simp: wr_slice_def)

lemma Read4_Write4: "length pre = p \<Longrightarrow> Read4 (pre @ Write4 v @ post) p = Some v"
  by (rule Read4_written [OF wr_slice_append [where ys = "Write4 v"]]) simp_all

lemma Read8_Write8: "length pre = p \<Longrightarrow> Read8 (pre @ Write8 v @ post) p = Some v"
  by (rule Read8_written [OF wr_slice_append [where ys = "Write8 v"]]) simp_all

section \<open>UTF-8 strings\<close>

text \<open>
  What \<open>setUtf8String\<close> writes, \<open>readUtf8String\<close> gives back whole when the caller's buffer
  has room for the string and its terminator, and \<open>readNewUtf8String\<close> always.
\<close>

lemma setUtf8String_read4BE:
  assumes "setUtf8String b p str = Some b'"
  shows "get4BE b' p = Some (of_nat (length str))" and "rd_slice b' (p + 4) (length str) = Some str"
proof -
  obtain b1 where b1: "set4BE b p (of_nat (length str)) = Some b1"
    and b2: "wr_slice b1 (p + 4) str = Some b'"
    using assms by (auto simp: setUtf8String_def bind_eq_Some_conv)
  show "rd_slice b' (p + 4) (length str) = Some str"
    using b2 by (rule rd_slice_wr_slice)
  have "get4BE b1 p = Some (of_nat (length str))"
    using b1 by (rule get4BE_set4BE)
  moreover have "rd b' (p + k) = rd b1 (p + k)" if "k < 4" for k
    using b2 that nth_wr_slice [OF b2, of "p + k"] wr_slice_length [OF b2] by (simp add: rd_def)
  from this [of 0] this [of 1] this [of 2] this [of 3]
  have "get4BE b' p = get4BE b1 p" by (simp add: get4BE_def)
  ultimately show "get4BE b' p = Some (of_nat (length str))" by simp
qed

lemma readNewUtf8String_setUtf8String:
  assumes "setUtf8String b p str = Some b'" and "length str < 2 ^ 32 - 1"
  shows "readNewUtf8String b' p = Some (str @ [0], of_nat (length str), p + 4 + length str)"
proof -
  note rb = setUtf8String_read4BE [OF assms(1)]
  have "unat (of_nat (length str) + 1 :: u32) = length str + 1"
    using assms(2) unat_of_nat_u32 [of "length str + 1"] by (simp add: add.commute)
  then show ?thesis
    using rb assms(2)
    by (simp add: readNewUtf8String_def read4BE_def advance_def wr_slice_def Let_def)
qed

lemma readUtf8String_setUtf8String:
  assumes "setUtf8String b p str = Some b'" and "length str < unat bufLen"
    and "length buf = unat bufLen"
  shows "readUtf8String b' p buf bufLen =
    Some (of_nat (length str), str @ [0] @ drop (length str + 1) buf, p + 4 + length str)"
proof -
  note rb = setUtf8String_read4BE [OF assms(1)]
  have small: "length str < 2 ^ 32"
    using less_trans [OF assms(2) unat_u32] .
  then have "of_nat (length str) < bufLen"
    using assms(2) by (simp add: word_less_nat_alt)
  then show ?thesis
    using rb assms(2,3) small
    by (simp add: readUtf8String_def read4BE_def advance_def wr_slice_def Let_def)
qed

text \<open>A field whose last byte is not \<open>0xff\<close> is below \<open>0xff000000\<close>.\<close>

lemma get4LE_no_ff:
  assumes "get4LE buf p = Some v" and "255 \<notin> set buf"
  shows "unat v < 255 * 2 ^ 24"
proof -
  obtain b0 b1 b2 b3 where v: "v = ucast (b0 :: u8) OR push_bit 8 (ucast (b1 :: u8)) OR push_bit 16 (ucast (b2 :: u8)) OR push_bit 24 (ucast (b3 :: u8))"
    and "rd buf (p + 3) = Some b3"
    using assms(1) by (auto simp: get4LE_def bind_eq_Some_conv)
  then have "b3 \<noteq> 255" using assms(2) by (metis nth_mem rd_eq_Some)
  then have "unat b3 \<noteq> 255" by (simp add: word_unat_eq_iff)
  moreover have "unat b3 < 256" using unsigned_less [of b3, where 'a = nat] by simp
  ultimately have "unat b3 < 255" by linarith
  moreover have "drop_bit 24 v = ucast b3"
    unfolding v by (rule bit_word_eqI) (auto simp: bit_simps dest: bit_imp_le_length)
  then have "unat v div 2 ^ 24 = unat b3"
    by (metis unat_drop_bit_eq drop_bit_eq_div unat_ucast_u8)
  ultimately show ?thesis by (simp add: div_less_iff_less_mult)
qed

end
