(* ===== verification/MzHash.thy ===== *)
theory MzHash
  imports Prelude "HOL-Library.Multiset"
begin

text \<open>
  The open-addressing hash table of \<open>minzip/Hash.c\<close> and \<open>minzip/Hash.h\<close>.  A slot holds a
  hash value and a pointer that is \<open>NULL\<close> (never used), the tombstone (removed) or the data.
  The table is probed linearly and cyclically from the slot its hash value selects.

  The probing loops end only at a \<open>NULL\<close> slot or a match, so they are
  \<^theory_text>\<open>partial_function (option)\<close>s: \<open>None\<close> is the loop that never ends.  A failed
  \<open>assert\<close>, the \<open>abort()\<close> after a failed resize, and the access to the slot after the last
  one are values of \<open>hash_error\<close>, and so is a result of the arithmetic that is no \<open>int\<close>.
  \<open>calloc\<close> is a parameter that says whether an allocation of that many slots succeeds.  The code
  asks for the size of a \<open>HashTable\<close> per slot, 20 bytes, and \<open>calloc\<close> refuses when the product does
  not fit into a \<open>size\_t\<close> of 32 bits; that bounds every table, and is why the counters, which are
  numbers without bounds here, never overflow (\<open>hash\_run\_safe\<close>).

  \<open>hash_ok\<close> is the invariant of the table.  Every operation keeps it, every probe ends under
  it, and the operations implement a map from keys to data (\<open>hash_assoc\<close>).
\<close>

section \<open>Sizes\<close>

definition LOAD_NUMER :: nat where "LOAD_NUMER = 5"
definition LOAD_DENOM :: nat where "LOAD_DENOM = 8"

definition mzHashSize :: "nat \<Rightarrow> nat" where
  "mzHashSize n = (n * LOAD_DENOM) div LOAD_NUMER + 1"

definition roundUpPower2 :: "u32 \<Rightarrow> u32" where
  "roundUpPower2 val =
     (let val = val - 1;
          val = val OR drop_bit 1 val;
          val = val OR drop_bit 2 val;
          val = val OR drop_bit 4 val;
          val = val OR drop_bit 8 val;
          val = val OR drop_bit 16 val
      in val + 1)"

section \<open>Tables\<close>

datatype 'd hdata = NULL | HASH_TOMBSTONE | Ptr 'd

record 'd HashEntry =
  hashValue :: u32
  data :: "'d hdata"

record 'd HashTable =
  tableSize :: nat
  numEntries :: int
  numDeadEntries :: int
  pEntries :: "'d HashEntry list"
  hasFreeFunc :: bool

datatype hash_error = AssertionFailed | Aborted | PastEnd | Overflow

text \<open>
  What the code can allocate, and the numbers an \<open>int\<close> holds.  The slots are allocated with the
  size of the whole table, \<open>sizeof(HashTable)\<close>, and a product that leaves 32 bits is refused.
\<close>

definition SLOT_BYTES :: nat where "SLOT_BYTES = 20"

definition calloc_slots :: "(nat \<Rightarrow> bool) \<Rightarrow> nat \<Rightarrow> bool" where
  "calloc_slots calloc n \<longleftrightarrow> n * SLOT_BYTES < 2 ^ 32 \<and> calloc n"

definition is_int :: "int \<Rightarrow> bool" where
  "is_int x \<longleftrightarrow> - (2 ^ 31) \<le> x \<and> x < 2 ^ 31"

abbreviation empty_entry :: "'d HashEntry" where
  "empty_entry \<equiv> \<lparr>hashValue = 0, data = NULL\<rparr>"

text \<open>
  A size of \<open>2\<^sup>3\<^sup>1\<close> would make \<open>tableSize\<close> negative, but cannot be allocated.
\<close>

definition mzHashTableCreate :: "(nat \<Rightarrow> bool) \<Rightarrow> u32 \<Rightarrow> bool \<Rightarrow> hash_error + 'd HashTable option" where
  "mzHashTableCreate calloc initialSize freeFunc =
     (if initialSize = 0 then Inl AssertionFailed
      else let n = unat (roundUpPower2 initialSize) in
        if calloc_slots calloc n
        then Inr (Some \<lparr>tableSize = n, numEntries = 0, numDeadEntries = 0,
                        pEntries = replicate n empty_entry, hasFreeFunc = freeFunc\<rparr>)
        else Inr None)"

text \<open>\<open>mzHashTableClear\<close> also returns the data it hands to the free function, in order.\<close>

definition mzHashTableClear :: "'d HashTable \<Rightarrow> 'd HashTable \<times> 'd list" where
  "mzHashTableClear t =
     (t\<lparr>pEntries := map (\<lambda>e. e\<lparr>data := NULL\<rparr>) (pEntries t),
        numEntries := 0, numDeadEntries := 0\<rparr>,
      if hasFreeFunc t
      then concat (map (\<lambda>e. case data e of Ptr d \<Rightarrow> [d] | _ \<Rightarrow> []) (pEntries t)) else [])"

text \<open>\<open>mzHashTableFree\<close> clears the table and releases it; a \<open>NULL\<close> table is left alone.\<close>

definition mzHashTableFree :: "'d HashTable option \<Rightarrow> 'd list" where
  "mzHashTableFree t = (case t of None \<Rightarrow> [] | Some t \<Rightarrow> snd (mzHashTableClear t))"

definition countTombStones :: "'d HashTable \<Rightarrow> int" where
  "countTombStones t = int (length (filter (\<lambda>e. data e = HASH_TOMBSTONE) (pEntries t)))"

text \<open>The slot a hash value (or an index) selects: \<open>x & (size-1)\<close>.\<close>

definition slot :: "nat \<Rightarrow> nat \<Rightarrow> nat" where
  "slot n x = x AND (n - 1)"

partial_function (option) free_slot :: "'d HashEntry list \<Rightarrow> nat \<Rightarrow> nat option" where
  "free_slot es i =
     (if data (es ! i) \<noteq> NULL then free_slot es (slot (length es) (i + 1)) else Some i)"

declare free_slot.simps [code]

fun rehash :: "'d HashEntry list \<Rightarrow> 'd HashEntry list \<Rightarrow> 'd HashEntry list option" where
  "rehash [] new = Some new"
| "rehash (e # es) new =
     (case data e of
        Ptr d \<Rightarrow> do {
          i \<leftarrow> free_slot new (slot (length new) (unat (hashValue e)));
          rehash es (new[i := \<lparr>hashValue = hashValue e, data = Ptr d\<rparr>]) }
      | _ \<Rightarrow> rehash es new)"

definition resizeHash ::
    "(nat \<Rightarrow> bool) \<Rightarrow> 'd HashTable \<Rightarrow> nat \<Rightarrow> (hash_error + bool \<times> 'd HashTable) option" where
  "resizeHash calloc t newSize =
     (if countTombStones t \<noteq> numDeadEntries t then Some (Inl AssertionFailed)
      else if \<not> calloc_slots calloc newSize then Some (Inr (False, t))
      else do {
        new \<leftarrow> rehash (pEntries t) (replicate newSize empty_entry);
        let t' = t\<lparr>pEntries := new, tableSize := newSize, numDeadEntries := 0\<rparr>;
        Some (if countTombStones t' \<noteq> 0 then Inl AssertionFailed else Inr (True, t')) })"

text \<open>
  The probing loop shared by lookup, removal and the probe counter: it stops at a \<open>NULL\<close>
  slot or one the caller matches, wraps around at the end, and for a table of one slot breaks
  out with the pointer behind the last slot.
\<close>

partial_function (option) probe ::
    "('d HashEntry \<Rightarrow> bool) \<Rightarrow> 'd HashEntry list \<Rightarrow> nat \<Rightarrow> nat option" where
  "probe match es i =
     (if data (es ! i) = NULL \<or> match (es ! i) then Some i
      else if i + 1 = length es then (if length es = 1 then Some (i + 1) else probe match es 0)
      else probe match es (i + 1))"

declare probe.simps [code]

definition matches :: "('d \<Rightarrow> 'i \<Rightarrow> int) \<Rightarrow> u32 \<Rightarrow> 'i \<Rightarrow> 'd HashEntry \<Rightarrow> bool" where
  "matches cmpFunc itemHash item e =
     (case data e of Ptr d \<Rightarrow> hashValue e = itemHash \<and> cmpFunc d item = 0 | _ \<Rightarrow> False)"

text \<open>
  \<open>item\<close> is a \<open>void *\<close>: compared as whatever \<open>cmpFunc\<close> takes it for, and stored as data
  (\<open>cast\<close>) when it is added.
\<close>

definition mzHashTableLookup ::
    "(nat \<Rightarrow> bool) \<Rightarrow> ('i \<Rightarrow> 'd) \<Rightarrow> 'd HashTable \<Rightarrow> u32 \<Rightarrow> 'i \<Rightarrow> ('d \<Rightarrow> 'i \<Rightarrow> int) \<Rightarrow> bool \<Rightarrow>
     (hash_error + 'd hdata \<times> 'd HashTable) option" where
  "mzHashTableLookup calloc cast t itemHash item cmpFunc doAdd =
     (if tableSize t = 0 then Some (Inl AssertionFailed)
      else do {
        i \<leftarrow> probe (matches cmpFunc itemHash item) (pEntries t) (slot (tableSize t) (unat itemHash));
        if i = tableSize t then Some (Inl PastEnd)
        else if data (pEntries t ! i) = NULL then
          (if doAdd then
             let t1 = t\<lparr>pEntries := (pEntries t)[i := \<lparr>hashValue = itemHash, data = Ptr (cast item)\<rparr>],
                        numEntries := numEntries t + 1\<rparr>;
                 load = (numEntries t1 + numDeadEntries t1) * int LOAD_DENOM;
                 limit = int (tableSize t1) * int LOAD_NUMER in
             do {
               r \<leftarrow> (if \<not> is_int (numEntries t1) \<or> \<not> is_int load \<or> \<not> is_int limit then Some (Inl Overflow)
                     else if load > limit then
                       (if \<not> is_int (int (tableSize t1) * 2) then Some (Inl Overflow)
                        else resizeHash calloc t1 (tableSize t1 * 2))
                     else Some (Inr (True, t1)));
               case r of
                 Inl err \<Rightarrow> Some (Inl err)
               | Inr (resized, t2) \<Rightarrow>
                   if \<not> resized then Some (Inl Aborted)
                   else if \<not> numEntries t2 < int (tableSize t2) then Some (Inl AssertionFailed)
                   else Some (Inr (Ptr (cast item), t2)) }
           else Some (Inr (NULL, t)))
        else Some (Inr (data (pEntries t ! i), t)) })"

definition mzHashTableRemove ::
    "'d HashTable \<Rightarrow> u32 \<Rightarrow> 'd \<Rightarrow> (hash_error + bool \<times> 'd HashTable) option" where
  "mzHashTableRemove t itemHash item =
     (if tableSize t = 0 then Some (Inl AssertionFailed)
      else do {
        i \<leftarrow> probe (\<lambda>e. data e = Ptr item) (pEntries t) (slot (tableSize t) (unat itemHash));
        if i \<noteq> tableSize t \<and> data (pEntries t ! i) = Ptr item
        then Some (Inr (True, t\<lparr>pEntries := (pEntries t)[i := (pEntries t ! i)\<lparr>data := HASH_TOMBSTONE\<rparr>],
                                numEntries := numEntries t - 1,
                                numDeadEntries := numDeadEntries t + 1\<rparr>))
        else Some (Inr (False, t)) })"

text \<open>\<open>func\<close> takes the data and the mutable argument; a nonzero result ends the walk.\<close>

fun foreach_entries :: "('d \<Rightarrow> 'a \<Rightarrow> int \<times> 'a) \<Rightarrow> 'd HashEntry list \<Rightarrow> 'a \<Rightarrow> int \<times> 'a" where
  "foreach_entries func [] arg = (0, arg)"
| "foreach_entries func (e # es) arg =
     (case data e of
        Ptr d \<Rightarrow> (let (val, arg) = func d arg in
                   if val \<noteq> 0 then (val, arg) else foreach_entries func es arg)
      | _ \<Rightarrow> foreach_entries func es arg)"

definition mzHashForeach :: "'d HashTable \<Rightarrow> ('d \<Rightarrow> 'a \<Rightarrow> int \<times> 'a) \<Rightarrow> 'a \<Rightarrow> int \<times> 'a" where
  "mzHashForeach t func arg = foreach_entries func (pEntries t) arg"

section \<open>The iterator and the probe counter\<close>

text \<open>An iterator holds the table and an index, \<open>-1\<close> before the first step.\<close>

record HashIter =
  idx :: int

fun iter_scan :: "'d HashEntry list \<Rightarrow> nat \<Rightarrow> nat" where
  "iter_scan [] i = i"
| "iter_scan (e # es) i = (case data e of Ptr d \<Rightarrow> i | _ \<Rightarrow> iter_scan es (i + 1))"

definition mzHashIterNext :: "'d HashTable \<Rightarrow> HashIter \<Rightarrow> HashIter" where
  "mzHashIterNext t it =
     (let i = nat (idx it + 1) in it\<lparr>idx := int (iter_scan (drop i (pEntries t)) i)\<rparr>)"

definition mzHashIterBegin :: "'d HashTable \<Rightarrow> HashIter" where
  "mzHashIterBegin t = mzHashIterNext t \<lparr>idx = -1\<rparr>"

definition mzHashIterDone :: "'d HashTable \<Rightarrow> HashIter \<Rightarrow> bool" where
  "mzHashIterDone t it = (idx it \<ge> int (tableSize t))"

definition mzHashIterData :: "'d HashTable \<Rightarrow> HashIter \<Rightarrow> hash_error + 'd hdata" where
  "mzHashIterData t it =
     (if 0 \<le> idx it \<and> idx it < int (tableSize t) then Inr (data (pEntries t ! nat (idx it)))
      else Inl AssertionFailed)"

text \<open>\<open>countProbes\<close> walks like a lookup and counts the steps; \<open>-1\<close> when it ends at a \<open>NULL\<close> slot.\<close>

partial_function (option) count_steps ::
    "('d HashEntry \<Rightarrow> bool) \<Rightarrow> 'd HashEntry list \<Rightarrow> nat \<Rightarrow> int \<Rightarrow> (nat \<times> int) option" where
  "count_steps match es i cnt =
     (if data (es ! i) = NULL \<or> match (es ! i) then Some (i, cnt)
      else if i + 1 = length es then (if length es = 1 then Some (i + 1, cnt)
                                      else count_steps match es 0 (cnt + 1))
      else count_steps match es (i + 1) (cnt + 1))"

definition countProbes ::
    "'d HashTable \<Rightarrow> u32 \<Rightarrow> 'i \<Rightarrow> ('d \<Rightarrow> 'i \<Rightarrow> int) \<Rightarrow> (hash_error + int) option" where
  "countProbes t itemHash item cmpFunc =
     (if tableSize t = 0 then Some (Inl AssertionFailed)
      else do {
        (i, cnt) \<leftarrow> count_steps (matches cmpFunc itemHash item) (pEntries t)
                        (slot (tableSize t) (unat itemHash)) 0;
        Some (if i = tableSize t then Inl PastEnd
              else if data (pEntries t ! i) = NULL then Inr (-1) else Inr cnt) })"

section \<open>Rounding up to a power of two\<close>

text \<open>Each \<open>val |= val >> m\<close> doubles how far down every bit is smeared.\<close>

lemma smear_step:
  fixes v w :: "'a::len word"
  assumes "\<And>i. bit v i \<longleftrightarrow> (\<exists>k < m. bit w (i + k))"
  shows "bit (v OR drop_bit m v) i \<longleftrightarrow> (\<exists>k < 2 * m. bit w (i + k))"
proof
  assume "bit (v OR drop_bit m v) i"
  then have "bit v i \<or> bit v (m + i)" by (simp add: bit_or_iff bit_drop_bit_eq)
  then consider k where "k < m" "bit w (i + k)" | k where "k < m" "bit w (m + i + k)"
    using assms by blast
  then show "\<exists>k < 2 * m. bit w (i + k)"
  proof cases
    case (1 k)
    then show ?thesis by (intro exI [of _ k]) simp
  next
    case (2 k)
    then show ?thesis by (intro exI [of _ "m + k"]) (simp add: ac_simps)
  qed
next
  assume "\<exists>k < 2 * m. bit w (i + k)"
  then obtain k where k: "k < 2 * m" "bit w (i + k)" by blast
  show "bit (v OR drop_bit m v) i"
  proof (cases "k < m")
    case True
    with k assms show ?thesis by (auto simp: bit_or_iff)
  next
    case False
    with k have "k - m < m" "bit w (m + i + (k - m))" by (simp_all add: ac_simps)
    with assms have "bit v (m + i)" by blast
    then show ?thesis by (simp add: bit_or_iff bit_drop_bit_eq)
  qed
qed

lemma bit_roundUpPower2:
  "\<exists>s. roundUpPower2 val = s + 1 \<and> (\<forall>i. bit s i \<longleftrightarrow> (\<exists>k < 32. bit (val - 1) (i + k)))"
proof -
  define w where "w = val - 1"
  define s1 where "s1 = w OR drop_bit 1 w"
  define s2 where "s2 = s1 OR drop_bit 2 s1"
  define s4 where "s4 = s2 OR drop_bit 4 s2"
  define s8 where "s8 = s4 OR drop_bit 8 s4"
  define s16 where "s16 = s8 OR drop_bit 16 s8"
  have 1: "bit s1 i \<longleftrightarrow> (\<exists>k < 2. bit w (i + k))" for i
    unfolding s1_def using smear_step [of w 1 w i] by simp
  have 2: "bit s2 i \<longleftrightarrow> (\<exists>k < 4. bit w (i + k))" for i
    unfolding s2_def using smear_step [of s1 2 w i, OF 1] by simp
  have 4: "bit s4 i \<longleftrightarrow> (\<exists>k < 8. bit w (i + k))" for i
    unfolding s4_def using smear_step [of s2 4 w i, OF 2] by simp
  have 8: "bit s8 i \<longleftrightarrow> (\<exists>k < 16. bit w (i + k))" for i
    unfolding s8_def using smear_step [of s4 8 w i, OF 4] by simp
  have 16: "bit s16 i \<longleftrightarrow> (\<exists>k < 32. bit w (i + k))" for i
    unfolding s16_def using smear_step [of s8 16 w i, OF 8] by simp
  moreover have "roundUpPower2 val = s16 + 1"
    by (simp add: roundUpPower2_def Let_def s16_def s8_def s4_def s2_def s1_def w_def)
  ultimately show ?thesis unfolding w_def by blast
qed

lemma roundUpPower2_spec:
  assumes "0 < unat val" and "unat val \<le> 2 ^ 31"
  obtains k where "k \<le> 31" and "unat (roundUpPower2 val) = 2 ^ k"
    and "unat val \<le> 2 ^ k" and "2 ^ k < 2 * unat val"
proof -
  define w where "w = val - 1"
  have w: "unat w = unat val - 1"
    using assms(1) unfolding w_def by (simp add: unat_minus_one unat_gt_0)
  obtain s where s: "roundUpPower2 val = s + 1" and bits: "\<And>i. bit s i \<longleftrightarrow> (\<exists>k < 32. bit w (i + k))"
    using bit_roundUpPower2 [of val] unfolding w_def by blast
  have high: "\<not> bit w i" if "31 \<le> i" for i
  proof
    assume "bit w i"
    then have "2 ^ i \<le> unat w" by (intro bit_nat_ge) (simp add: bit_unsigned_iff)
    moreover have "(2 :: nat) ^ 31 \<le> 2 ^ i" using that by (intro power_increasing) simp_all
    ultimately show False using w assms by linarith
  qed
  define m where "m = (LEAST m. \<forall>i \<ge> m. \<not> bit w i)"
  have m: "\<not> bit w i" if "m \<le> i" for i
    using LeastI [of "\<lambda>m. \<forall>i \<ge> m. \<not> bit w i" 31] high that unfolding m_def by blast
  have m31: "m \<le> 31"
    unfolding m_def using high by (intro Least_le) blast
  have top: "bit w (m - 1)" if "0 < m"
  proof (rule ccontr)
    assume "\<not> bit w (m - 1)"
    then have "\<forall>i \<ge> m - 1. \<not> bit w i"
      using m by (metis Suc_diff_1 Suc_leI le_neq_implies_less that)
    then have "m \<le> m - 1" unfolding m_def by (rule Least_le)
    then show False using that by simp
  qed
  have "s = mask m"
  proof (rule bit_word_eqI)
    fix i assume i: "i < LENGTH(32)"
    show "bit s i = bit (mask m :: u32) i"
    proof (cases "i < m")
      case True
      then have "m - 1 - i < 32" "bit w (i + (m - 1 - i))" using m31 top by simp_all
      then have "bit s i" using bits by blast
      then show ?thesis using True i by (simp add: bit_mask_iff)
    next
      case False
      then have "\<not> bit s i" using bits m by (meson le_add1 le_trans not_le)
      then show ?thesis using False by (simp add: bit_mask_iff)
    qed
  qed
  then have r: "roundUpPower2 val = 2 ^ m" by (simp add: s mask_eq_exp_minus_1)
  have "unat (2 ^ m :: u32) = 2 ^ m"
    using m31 unat_of_nat_u32 [of "2 ^ m"] power_strict_increasing [of m 32 "2 :: nat"] by simp
  moreover have "unat w < 2 ^ m"
  proof -
    have "i < m \<or> \<not> bit w i" for i using m not_le by blast
    then have "take_bit m w = w" by (intro bit_word_eqI) (auto simp: bit_take_bit_iff)
    then have "unat w = take_bit m (unat w)" by (metis unsigned_take_bit_eq)
    then show ?thesis by (metis take_bit_nat_less_exp)
  qed
  moreover have "2 ^ m < 2 * unat val"
  proof (cases "m = 0")
    case True then show ?thesis using assms(1) by simp
  next
    case False
    then have "2 ^ (m - 1) \<le> unat w"
      using top by (intro bit_nat_ge) (simp add: bit_unsigned_iff)
    then show ?thesis using False w assms(1) by (cases m) simp_all
  qed
  ultimately show ?thesis using that [of m] m31 r w assms(1) by simp
qed

section \<open>Probing\<close>

lemma slot_mod: "slot (2 ^ k) x = x mod 2 ^ k"
proof -
  have "slot (2 ^ k) x = x AND mask k"
    by (simp add: slot_def mask_eq_exp_minus_1)
  then show ?thesis by (simp add: take_bit_eq_mask [symmetric] take_bit_eq_mod)
qed

lemma mod_step: "0 < n \<Longrightarrow> (i mod n + 1) mod n = (i + 1) mod (n :: nat)"
  by (simp add: mod_Suc_eq)

lemma probe_stops:
  assumes "i < length es" and "k < length es"
    and "\<forall>j < k. data (es ! ((i + j) mod length es)) \<noteq> NULL \<and> \<not> match (es ! ((i + j) mod length es))"
    and "data (es ! ((i + k) mod length es)) = NULL \<or> match (es ! ((i + k) mod length es))"
  shows "probe match es i = Some ((i + k) mod length es)"
  using assms
proof (induction k arbitrary: i)
  case 0
  then show ?case by (subst probe.simps) simp
next
  case (Suc k)
  let ?n = "length es" and ?i = "if i + 1 = length es then 0 else i + 1"
  have first: "data (es ! i) \<noteq> NULL" "\<not> match (es ! i)"
    using Suc.prems(1,3) by (force dest: spec [of _ 0])+
  have i: "?i = (i + 1) mod ?n" using Suc.prems(1) by auto
  have shift: "(?i + j) mod ?n = (i + Suc j) mod ?n" for j
    unfolding i by (simp add: mod_add_left_eq)
  have "probe match es ?i = Some ((?i + k) mod ?n)"
  proof (rule Suc.IH)
    show "?i < ?n" using Suc.prems(1) by auto
    show "k < ?n" using Suc.prems(2) by simp
    show "\<forall>j<k. data (es ! ((?i + j) mod ?n)) \<noteq> NULL \<and> \<not> match (es ! ((?i + j) mod ?n))"
      unfolding shift using Suc.prems(3) by auto
    show "data (es ! ((?i + k) mod ?n)) = NULL \<or> match (es ! ((?i + k) mod ?n))"
      unfolding shift by (rule Suc.prems(4))
  qed
  moreover have "?n \<noteq> 1" using Suc.prems(2) by simp
  ultimately show ?case
    using first shift [of k] by (subst probe.simps) (auto split: if_splits)
qed

lemma free_slot_stops:
  assumes n: "length es = 2 ^ b" and "i < length es" and "k < length es"
    and "\<forall>j < k. data (es ! ((i + j) mod length es)) \<noteq> NULL"
    and "data (es ! ((i + k) mod length es)) = NULL"
  shows "free_slot es i = Some ((i + k) mod length es)"
  using assms(2-)
proof (induction k arbitrary: i)
  case 0
  then show ?case by (subst free_slot.simps) simp
next
  case (Suc k)
  let ?n = "length es" and ?i = "(i + 1) mod length es"
  have first: "data (es ! i) \<noteq> NULL"
    using Suc.prems(1,3) by (force dest: spec [of _ 0])
  have shift: "(?i + j) mod ?n = (i + Suc j) mod ?n" for j
    by (simp add: mod_add_left_eq)
  have "free_slot es ?i = Some ((?i + k) mod ?n)"
  proof (rule Suc.IH)
    show "?i < ?n" using Suc.prems(1) by (intro mod_less_divisor) linarith
    show "k < ?n" using Suc.prems(2) by simp
    show "\<forall>j<k. data (es ! ((?i + j) mod ?n)) \<noteq> NULL"
      unfolding shift using Suc.prems(3) by auto
    show "data (es ! ((?i + k) mod ?n)) = NULL"
      unfolding shift by (rule Suc.prems(4))
  qed
  then show ?case
    using first shift [of k] by (subst free_slot.simps) (simp add: n slot_mod)
qed

text \<open>From any start, the first slot of the cyclic walk that satisfies a predicate.\<close>

lemma cyclic_first:
  fixes n :: nat
  assumes "i < n" and "p < n" and "P p"
  obtains k where "k < n" and "P ((i + k) mod n)" and "\<forall>j < k. \<not> P ((i + j) mod n)"
proof -
  have "(i + (p + n - i) mod n) mod n = (i + (p + n - i)) mod n"
    by (simp add: mod_add_right_eq)
  also have "\<dots> = p" using assms(1,2) by simp
  finally have "P ((i + (p + n - i) mod n) mod n)" using assms(3) by simp
  then have ex: "\<exists>k. P ((i + k) mod n)" by blast
  define k where "k = (LEAST k. P ((i + k) mod n))"
  have k: "P ((i + k) mod n)" unfolding k_def by (rule LeastI_ex [OF ex])
  have before: "\<forall>j < k. \<not> P ((i + j) mod n)" unfolding k_def by (auto dest: not_less_Least)
  have "k \<le> (p + n - i) mod n"
    unfolding k_def by (rule Least_le) fact
  moreover have "(p + n - i) mod n < n" using assms(1) by simp
  ultimately have "k < n" by linarith
  with k before show ?thesis using that by blast
qed

section \<open>The invariant\<close>

text \<open>The live items of a table, in slot order, with the hash values they were stored under.\<close>

fun items :: "'d HashEntry list \<Rightarrow> (u32 \<times> 'd) list" where
  "items [] = []"
| "items (e # es) = (case data e of Ptr d \<Rightarrow> (hashValue e, d) # items es | _ \<Rightarrow> items es)"

definition occupied :: "'d HashEntry list \<Rightarrow> nat" where
  "occupied es = length (filter (\<lambda>e. data e \<noteq> NULL) es)"

text \<open>An item lies behind an unbroken run of used slots that starts at its home slot.\<close>

definition reachable_at :: "'d HashEntry list \<Rightarrow> nat \<Rightarrow> u32 \<Rightarrow> bool" where
  "reachable_at es i h \<longleftrightarrow> (\<exists>k < length es. i = (unat h + k) mod length es \<and>
     (\<forall>j < k. data (es ! ((unat h + j) mod length es)) \<noteq> NULL))"

definition paths_ok :: "'d HashEntry list \<Rightarrow> bool" where
  "paths_ok es \<longleftrightarrow> (\<forall>i < length es. \<forall>d. data (es ! i) = Ptr d \<longrightarrow> reachable_at es i (hashValue (es ! i)))"

definition hash_ok :: "'d HashTable \<Rightarrow> bool" where
  "hash_ok t \<longleftrightarrow>
     (\<exists>b. tableSize t = 2 ^ b) \<and> length (pEntries t) = tableSize t \<and>
     numEntries t = int (length (items (pEntries t))) \<and> numDeadEntries t = countTombStones t \<and>
     occupied (pEntries t) * LOAD_DENOM \<le> tableSize t * LOAD_NUMER \<and>
     paths_ok (pEntries t) \<and> tableSize t * SLOT_BYTES < 2 ^ 32"

lemmas load_defs = LOAD_NUMER_def LOAD_DENOM_def

lemma items_append [simp]: "items (xs @ ys) = items xs @ items ys"
  by (induction xs) (auto split: hdata.splits)

lemma set_items: "(h, d) \<in> set (items es) \<longleftrightarrow> (\<exists>i < length es. data (es ! i) = Ptr d \<and> hashValue (es ! i) = h)"
proof -
  have "(h, d) \<in> set (items es) \<longleftrightarrow> (\<exists>e \<in> set es. data e = Ptr d \<and> hashValue e = h)"
    by (induction es) (auto split: hdata.splits)
  then show ?thesis by (metis in_set_conv_nth)
qed

lemma occupied_split: "int (occupied es) =
    int (length (items es)) + int (length (filter (\<lambda>e. data e = HASH_TOMBSTONE) es))"
  by (induction es) (auto simp: occupied_def split: hdata.splits)

lemma items_update:
  assumes "i < length es" and "\<forall>d. data (es ! i) \<noteq> Ptr d"
  obtains xs ys where "items es = xs @ ys"
    and "\<And>e d. data e = Ptr d \<Longrightarrow> items (es[i := e]) = xs @ (hashValue e, d) # ys"
proof
  let ?l = "take i es" and ?r = "drop (Suc i) es"
  have "items es = items (?l @ es ! i # ?r)"
    using assms(1) by (simp add: id_take_nth_drop [symmetric])
  then show "items es = items ?l @ items ?r"
    using assms(2) by (simp split: hdata.splits)
  show "items (es[i := e]) = items ?l @ (hashValue e, d) # items ?r" if "data e = Ptr d" for e d
    using assms(1) that by (simp add: upd_conv_take_nth_drop)
qed


lemma occupied_update:
  assumes "i < length es" and "data e \<noteq> NULL"
  shows "occupied (es[i := e]) = occupied es + (if data (es ! i) = NULL then 1 else 0)"
  using length_filter_update [OF assms(1), of "\<lambda>e. data e \<noteq> NULL" e] assms(2)
  by (auto simp: occupied_def)

lemma null_slot_if_load:
  assumes "length es = n" and "0 < n" and "occupied es * LOAD_DENOM \<le> n * LOAD_NUMER"
  obtains p where "p < n" and "data (es ! p) = NULL"
proof -
  have "occupied es < length es" using assms by (simp add: load_defs)
  then show ?thesis
    using exists_not_if_filter_less [of "\<lambda>e. data e \<noteq> NULL" es] that assms(1)
    by (auto simp: occupied_def)
qed

text \<open>Filling or marking slots keeps every path; no operation makes a used slot \<open>NULL\<close>.\<close>

lemma reachable_at_update:
  assumes "reachable_at es i h" and "data e \<noteq> NULL"
  shows "reachable_at (es[p := e]) i h"
proof -
  obtain k where k: "k < length es" "i = (unat h + k) mod length es"
      "\<forall>j < k. data (es ! ((unat h + j) mod length es)) \<noteq> NULL"
    using assms(1) by (auto simp: reachable_at_def)
  have "data (es[p := e] ! x) \<noteq> NULL" if "x < length es" "data (es ! x) \<noteq> NULL" for x
    using that assms(2) by (cases "p = x") simp_all
  moreover have "(unat h + j) mod length es < length es" for j
    using k(1) by (intro mod_less_divisor) linarith
  ultimately show ?thesis
    unfolding reachable_at_def length_list_update using k by blast
qed

lemma paths_ok_update:
  assumes "paths_ok es" and "data e \<noteq> NULL" and "\<And>d. data e = Ptr d \<Longrightarrow> reachable_at es p (hashValue e)"
  shows "paths_ok (es[p := e])"
  unfolding paths_ok_def
proof (intro allI impI)
  fix i d assume i: "i < length (es[p := e])" and d: "data (es[p := e] ! i) = Ptr d"
  show "reachable_at (es[p := e]) i (hashValue (es[p := e] ! i))"
    using assms i d by (cases "i = p") (auto simp: paths_ok_def intro!: reachable_at_update)
qed

lemma probe_cases:
  assumes n: "length es = 2 ^ b" and p: "p < length es" "data (es ! p) = NULL" and paths: "paths_ok es"
  obtains i where "probe match es (slot (length es) (unat h)) = Some i" and "i < length es"
    and "data (es ! i) = NULL \<and> reachable_at es i h \<and>
           (\<forall>i' d. i' < length es \<longrightarrow> data (es ! i') = Ptr d \<longrightarrow> hashValue (es ! i') = h \<longrightarrow> \<not> match (es ! i')) \<or>
         data (es ! i) \<noteq> NULL \<and> match (es ! i)"
proof -
  let ?n = "length es" and ?s = "unat h mod length es"
  define P where "P x \<longleftrightarrow> data (es ! x) = NULL \<or> match (es ! x)" for x
  have s: "?s < ?n" using p(1) by (intro mod_less_divisor) linarith
  have walk: "(?s + j) mod ?n = (unat h + j) mod ?n" for j by (simp add: mod_add_left_eq)
  obtain k where k: "k < ?n" "P ((?s + k) mod ?n)" "\<forall>j < k. \<not> P ((?s + j) mod ?n)"
    using cyclic_first [OF s p(1), of P] p(2) by (auto simp: P_def)
  let ?i = "(unat h + k) mod ?n"
  have "probe match es ?s = Some ?i"
    using probe_stops [OF s k(1), of match] k(2,3) walk by (auto simp: P_def)
  moreover have "?i < ?n" using p(1) by (intro mod_less_divisor) linarith
  moreover have "reachable_at es ?i h" if "data (es ! ?i) = NULL"
    using k walk unfolding reachable_at_def P_def by (intro exI [of _ k]) auto
  moreover have False if null: "data (es ! ?i) = NULL" and i': "i' < ?n" "data (es ! i') = Ptr d"
    "hashValue (es ! i') = h" "match (es ! i')" for i' d
  proof -
    obtain k' where k': "i' = (unat h + k') mod ?n"
        "\<forall>j < k'. data (es ! ((unat h + j) mod ?n)) \<noteq> NULL"
      using paths i' unfolding paths_ok_def reachable_at_def by blast
    have "P i'" using i' by (simp add: P_def)
    then have "\<not> k' < k" using k(3) k'(1) walk by auto
    moreover have "\<not> k < k'" using k'(2) null by blast
    ultimately have "i' = ?i" using k'(1) by (metis linorder_neqE_nat)
    then show False using i'(2) null by simp
  qed
  moreover have "match (es ! ?i)" if "data (es ! ?i) \<noteq> NULL"
    using that k(2) walk by (simp add: P_def)
  ultimately show ?thesis using that [of ?i] by (simp add: n slot_mod) blast
qed

lemma lookup_probe:
  assumes n: "length es = 2 ^ b" and p: "p < length es" "data (es ! p) = NULL" and paths: "paths_ok es"
  obtains i where "probe (matches cmp h item) es (slot (length es) (unat h)) = Some i"
    and "i < length es"
    and "data (es ! i) = NULL \<and> reachable_at es i h \<and> (\<forall>d. (h, d) \<in> set (items es) \<longrightarrow> cmp d item \<noteq> 0) \<or>
         (\<exists>d. data (es ! i) = Ptr d \<and> hashValue (es ! i) = h \<and> cmp d item = 0)"
proof -
  obtain i where i: "probe (matches cmp h item) es (slot (length es) (unat h)) = Some i" "i < length es"
    "data (es ! i) = NULL \<and> reachable_at es i h \<and>
       (\<forall>i' d. i' < length es \<longrightarrow> data (es ! i') = Ptr d \<longrightarrow> hashValue (es ! i') = h \<longrightarrow>
          \<not> matches cmp h item (es ! i')) \<or>
     data (es ! i) \<noteq> NULL \<and> matches cmp h item (es ! i)"
    using probe_cases [OF assms, of "matches cmp h item" h] by metis
  show ?thesis
  proof (cases "data (es ! i) = NULL")
    case True
    then show ?thesis using that [of i] i by (auto simp: set_items matches_def)
  next
    case False
    then show ?thesis using that [of i] i by (auto simp: matches_def split: hdata.splits)
  qed
qed

section \<open>Insertion and rehashing\<close>

lemma insert_slot:
  fixes d
  assumes "i < length es" and "data (es ! i) = NULL" and "reachable_at es i h" and "paths_ok es"
  defines "es' \<equiv> es[i := \<lparr>hashValue = h, data = Ptr d\<rparr>]"
  shows "paths_ok es'" and "occupied es' = occupied es + 1" and "length es' = length es"
    and "mset (items es') = add_mset (h, d) (mset (items es))"
proof -
  show "paths_ok es'" unfolding es'_def using assms by (intro paths_ok_update) simp_all
  show "occupied es' = occupied es + 1" unfolding es'_def using assms by (simp add: occupied_update)
  show "length es' = length es" by (simp add: es'_def)
  have "\<forall>d. data (es ! i) \<noteq> Ptr d" using assms(2) by simp
  then obtain xs ys where "items es = xs @ ys"
      "\<And>e d. data e = Ptr d \<Longrightarrow> items (es[i := e]) = xs @ (hashValue e, d) # ys"
    using items_update assms(1) by metis
  then show "mset (items es') = add_mset (h, d) (mset (items es))" by (simp add: es'_def)
qed

lemma free_slot_finds:
  assumes n: "length es = 2 ^ b" and room: "occupied es < length es"
  obtains i where "free_slot es (slot (length es) (unat h)) = Some i" and "i < length es"
    and "data (es ! i) = NULL" and "reachable_at es i h"
proof -
  let ?n = "length es" and ?s = "unat h mod length es"
  obtain p where p: "p < ?n" "data (es ! p) = NULL"
    using room exists_not_if_filter_less [of "\<lambda>e. data e \<noteq> NULL" es] by (auto simp: occupied_def)
  have s: "?s < ?n" using p(1) by (intro mod_less_divisor) linarith
  have walk: "(?s + j) mod ?n = (unat h + j) mod ?n" for j by (simp add: mod_add_left_eq)
  obtain k where k: "k < ?n" "data (es ! ((?s + k) mod ?n)) = NULL"
      "\<forall>j < k. data (es ! ((?s + j) mod ?n)) \<noteq> NULL"
    using cyclic_first [OF s p(1), of "\<lambda>x. data (es ! x) = NULL"] p(2) by auto
  have "free_slot es ?s = Some ((unat h + k) mod ?n)"
    using free_slot_stops [OF n s k(1) k(3,2)] walk by simp
  moreover have "reachable_at es ((unat h + k) mod ?n) h"
    using k walk unfolding reachable_at_def by (intro exI [of _ k]) auto
  moreover have "(unat h + k) mod ?n < ?n" using p(1) by (intro mod_less_divisor) linarith
  ultimately show ?thesis using that k(2) walk by (simp add: n slot_mod)
qed

lemma rehash_spec:
  assumes "length new = 2 ^ b" and "paths_ok new" and "occupied new + length (items es) < length new"
  shows "\<exists>new'. rehash es new = Some new' \<and> length new' = length new \<and> paths_ok new' \<and>
    mset (items new') = mset (items new) + mset (items es) \<and>
    occupied new' = occupied new + length (items es)"
  using assms
proof (induction es arbitrary: new)
  case Nil
  then show ?case by simp
next
  case (Cons e es)
  show ?case
  proof (cases "data e")
    case (Ptr d)
    from Cons.prems Ptr have "occupied new < length new" by simp
    then obtain i where i: "free_slot new (slot (length new) (unat (hashValue e))) = Some i"
        "i < length new" "data (new ! i) = NULL" "reachable_at new i (hashValue e)"
      using free_slot_finds Cons.prems(1) by metis
    let ?new = "new[i := \<lparr>hashValue = hashValue e, data = Ptr d\<rparr>]"
    note ins = insert_slot [OF i(2-4) Cons.prems(2), of d]
    have "length ?new = 2 ^ b" "occupied ?new + length (items es) < length ?new"
      using Cons.prems Ptr ins(2) by simp_all
    from Cons.IH [OF this(1) ins(1) this(2)] obtain new' where
      "rehash es ?new = Some new'" "length new' = length ?new" "paths_ok new'"
      "mset (items new') = mset (items ?new) + mset (items es)"
      "occupied new' = occupied ?new + length (items es)" by blast
    then show ?thesis using Ptr i(1) ins by simp
  qed (use Cons in simp_all)
qed

lemma items_replicate_empty [simp]: "items (replicate n empty_entry) = []"
  by (induction n) simp_all

lemma occupied_replicate_empty [simp]: "occupied (replicate n empty_entry) = 0"
  by (simp add: occupied_def)

lemma paths_ok_replicate_empty [simp]: "paths_ok (replicate n empty_entry)"
  by (simp add: paths_ok_def)

lemma no_tombs: "occupied es = length (items es) \<Longrightarrow> filter (\<lambda>e. data e = HASH_TOMBSTONE) es = []"
  using occupied_split [of es] by simp

lemma resizeHash_spec:
  assumes "countTombStones t = numDeadEntries t" and "length (items (pEntries t)) < 2 ^ b"
  shows "\<not> calloc_slots calloc (2 ^ b) \<Longrightarrow> resizeHash calloc t (2 ^ b) = Some (Inr (False, t))"
    and "calloc_slots calloc (2 ^ b) \<Longrightarrow> \<exists>new. resizeHash calloc t (2 ^ b) =
        Some (Inr (True, t\<lparr>pEntries := new, tableSize := 2 ^ b, numDeadEntries := 0\<rparr>)) \<and>
      length new = 2 ^ b \<and> paths_ok new \<and> mset (items new) = mset (items (pEntries t)) \<and>
      occupied new = length (items (pEntries t))"
proof -
  show "\<not> calloc_slots calloc (2 ^ b) \<Longrightarrow> resizeHash calloc t (2 ^ b) = Some (Inr (False, t))"
    using assms(1) by (simp add: resizeHash_def)
  have len: "length (replicate (2 ^ b) empty_entry) = 2 ^ b" by simp
  obtain new where new: "rehash (pEntries t) (replicate (2 ^ b) empty_entry) = Some new"
    "length new = 2 ^ b" "paths_ok new" "mset (items new) = mset (items (pEntries t))"
    "occupied new = length (items (pEntries t))"
    using rehash_spec [OF len paths_ok_replicate_empty, of "pEntries t"] assms(2) by auto
  have "occupied new = length (items new)"
    using new(4,5) by (metis size_mset)
  then have "filter (\<lambda>e. data e = HASH_TOMBSTONE) new = []" by (rule no_tombs)
  then show "calloc_slots calloc (2 ^ b) \<Longrightarrow> \<exists>new. resizeHash calloc t (2 ^ b) =
        Some (Inr (True, t\<lparr>pEntries := new, tableSize := 2 ^ b, numDeadEntries := 0\<rparr>)) \<and>
      length new = 2 ^ b \<and> paths_ok new \<and> mset (items new) = mset (items (pEntries t)) \<and>
      occupied new = length (items (pEntries t))"
    using assms(1) new by (intro impI exI [of _ new]) (simp add: resizeHash_def countTombStones_def)
qed

section \<open>The operations under the invariant\<close>

lemma hash_okD:
  assumes "hash_ok t"
  obtains b p where "tableSize t = 2 ^ b" and "length (pEntries t) = 2 ^ b"
    and "p < length (pEntries t)" and "data (pEntries t ! p) = NULL"
    and "paths_ok (pEntries t)" and "occupied (pEntries t) * LOAD_DENOM \<le> 2 ^ b * LOAD_NUMER"
    and "numEntries t = int (length (items (pEntries t)))"
    and "numDeadEntries t = countTombStones t" and "2 ^ b * SLOT_BYTES < (2 :: nat) ^ 32"
proof -
  from assms obtain b where b: "tableSize t = 2 ^ b" by (auto simp: hash_ok_def)
  with assms have l: "length (pEntries t) = 2 ^ b"
    and o: "occupied (pEntries t) * LOAD_DENOM \<le> 2 ^ b * LOAD_NUMER" by (auto simp: hash_ok_def)
  obtain p where "p < 2 ^ b" "data (pEntries t ! p) = NULL"
    using null_slot_if_load [OF l _ o] by auto
  then show ?thesis using that b l o assms by (auto simp: hash_ok_def)
qed

lemma lookup_finds:
  assumes ok: "hash_ok t" and one: "\<And>d'. (h, d') \<in> set (items (pEntries t)) \<Longrightarrow> cmp d' item = 0 \<Longrightarrow> d' = d"
    and mem: "(h, d) \<in> set (items (pEntries t))" and cmp: "cmp d item = 0"
  shows "mzHashTableLookup calloc cast t h item cmp doAdd = Some (Inr (Ptr d, t))"
proof -
  obtain b p where t: "tableSize t = 2 ^ b" "length (pEntries t) = 2 ^ b" "p < length (pEntries t)"
    "data (pEntries t ! p) = NULL" "paths_ok (pEntries t)"
    using hash_okD [OF ok] by metis
  obtain i where i: "probe (matches cmp h item) (pEntries t) (slot (length (pEntries t)) (unat h)) = Some i"
    "i < length (pEntries t)"
    "data (pEntries t ! i) = NULL \<and> reachable_at (pEntries t) i h \<and>
        (\<forall>d. (h, d) \<in> set (items (pEntries t)) \<longrightarrow> cmp d item \<noteq> 0) \<or>
      (\<exists>d. data (pEntries t ! i) = Ptr d \<and> hashValue (pEntries t ! i) = h \<and> cmp d item = 0)"
    using lookup_probe [OF t(2-5), of cmp h item] by metis
  then obtain d' where d': "data (pEntries t ! i) = Ptr d'" "hashValue (pEntries t ! i) = h" "cmp d' item = 0"
    using mem cmp by blast
  then have "d' = d" using one i(2) by (auto simp: set_items)
  then show ?thesis using i(1,2) d'(1) t(1,2) by (simp add: mzHashTableLookup_def)
qed

lemma lookup_absent:
  assumes ok: "hash_ok t" and none: "\<forall>d. (h, d) \<in> set (items (pEntries t)) \<longrightarrow> cmp d item \<noteq> 0"
  obtains i where "probe (matches cmp h item) (pEntries t) (slot (tableSize t) (unat h)) = Some i"
    and "i < tableSize t" and "data (pEntries t ! i) = NULL" and "reachable_at (pEntries t) i h"
proof -
  obtain b p where t: "tableSize t = 2 ^ b" "length (pEntries t) = 2 ^ b" "p < length (pEntries t)"
    "data (pEntries t ! p) = NULL" "paths_ok (pEntries t)"
    using hash_okD [OF ok] by metis
  obtain i where i: "probe (matches cmp h item) (pEntries t) (slot (length (pEntries t)) (unat h)) = Some i"
    "i < length (pEntries t)"
    "data (pEntries t ! i) = NULL \<and> reachable_at (pEntries t) i h \<and>
        (\<forall>d. (h, d) \<in> set (items (pEntries t)) \<longrightarrow> cmp d item \<noteq> 0) \<or>
      (\<exists>d. data (pEntries t ! i) = Ptr d \<and> hashValue (pEntries t ! i) = h \<and> cmp d item = 0)"
    using lookup_probe [OF t(2-5), of cmp h item] by metis
  then have "data (pEntries t ! i) = NULL" "reachable_at (pEntries t) i h"
    using none by (auto simp: set_items)
  then show ?thesis using that i t by simp
qed

lemma lookup_not_found:
  assumes "hash_ok t" and "\<forall>d. (h, d) \<in> set (items (pEntries t)) \<longrightarrow> cmp d item \<noteq> 0"
  shows "mzHashTableLookup calloc cast t h item cmp False = Some (Inr (NULL, t))"
proof -
  obtain i where "probe (matches cmp h item) (pEntries t) (slot (tableSize t) (unat h)) = Some i"
    "i < tableSize t" "data (pEntries t ! i) = NULL"
    using lookup_absent [where cmp = cmp and item = item, OF assms] by metis
  then show ?thesis by (simp add: mzHashTableLookup_def)
qed

lemma load_room:
  "l \<le> occ \<Longrightarrow> occ * LOAD_DENOM \<le> N * LOAD_NUMER \<Longrightarrow> 1 \<le> N \<Longrightarrow> l + 1 < N * 2"
  unfolding load_defs by linarith

lemma load_grow:
  "l \<le> occ \<Longrightarrow> occ * LOAD_DENOM \<le> N * LOAD_NUMER \<Longrightarrow> 1 \<le> N \<Longrightarrow>
    (l + 1) * LOAD_DENOM \<le> N * 2 * LOAD_NUMER"
  unfolding load_defs add_mult_distrib mult.assoc by (cases "occ = 0") simp_all

lemma load_lt: "l \<le> occ \<Longrightarrow> occ * LOAD_DENOM \<le> N * LOAD_NUMER \<Longrightarrow> 0 < N \<Longrightarrow> l < N"
  unfolding load_defs by linarith

text \<open>
  Adding: the table has one more item, and grows only when its load asks for it; a failed
  allocation then aborts.
\<close>

definition fits :: "'d HashTable \<Rightarrow> bool" where
  "fits t \<longleftrightarrow> (occupied (pEntries t) + 1) * LOAD_DENOM \<le> tableSize t * LOAD_NUMER"

lemma lookup_adds:
  assumes ok: "hash_ok t" and none: "\<forall>d. (h, d) \<in> set (items (pEntries t)) \<longrightarrow> cmp d item \<noteq> 0"
  shows "\<not> fits t \<Longrightarrow> \<not> calloc_slots calloc (tableSize t * 2) \<Longrightarrow>
      mzHashTableLookup calloc cast t h item cmp True = Some (Inl Aborted)"
    and "fits t \<or> calloc_slots calloc (tableSize t * 2) \<Longrightarrow>
      \<exists>t'. mzHashTableLookup calloc cast t h item cmp True = Some (Inr (Ptr (cast item), t')) \<and> hash_ok t' \<and>
        mset (items (pEntries t')) = add_mset (h, cast item) (mset (items (pEntries t))) \<and>
        tableSize t' = (if fits t then tableSize t else tableSize t * 2) \<and>
        (fits t \<longrightarrow> occupied (pEntries t') = occupied (pEntries t) + 1) \<and>
        occupied (pEntries t') \<le> occupied (pEntries t) + 1"
proof -
  obtain b where t: "tableSize t = 2 ^ b" "length (pEntries t) = 2 ^ b" "paths_ok (pEntries t)"
    "occupied (pEntries t) * LOAD_DENOM \<le> 2 ^ b * LOAD_NUMER"
    "numEntries t = int (length (items (pEntries t)))" "numDeadEntries t = countTombStones t"
    "2 ^ b * SLOT_BYTES < (2 :: nat) ^ 32"
    using hash_okD [OF ok] by metis
  obtain i where i: "probe (matches cmp h item) (pEntries t) (slot (tableSize t) (unat h)) = Some i"
    "i < tableSize t" "data (pEntries t ! i) = NULL" "reachable_at (pEntries t) i h"
    using lookup_absent [where cmp = cmp and item = item, OF ok none] by metis
  define es where "es = (pEntries t)[i := \<lparr>hashValue = h, data = Ptr (cast item)\<rparr>]"
  define t1 where "t1 = t\<lparr>pEntries := es, numEntries := numEntries t + 1\<rparr>"
  have "i < length (pEntries t)" using i(2) t by simp
  note ins = insert_slot [OF this i(3,4) t(3), of "cast item", folded es_def]
  have len: "length (items es) = length (items (pEntries t)) + 1"
    using ins(4) by (metis add.commute plus_1_eq_Suc size_add_mset size_mset)
  have tombs: "countTombStones t1 = numDeadEntries t1"
    using occupied_split [of es] occupied_split [of "pEntries t"] ins(2) len t(6)
    by (simp add: t1_def countTombStones_def)
  have count: "numEntries t1 + numDeadEntries t1 = int (occupied es)"
    using occupied_split [of "pEntries t"] ins(2) t(5,6) by (simp add: t1_def countTombStones_def)
  have big: "(numEntries t1 + numDeadEntries t1) * int LOAD_DENOM > int (tableSize t1) * int LOAD_NUMER
      \<longleftrightarrow> \<not> fits t"
    unfolding count ins(2) fits_def not_le of_nat_mult [symmetric] of_nat_less_iff
    by (simp add: t1_def)
  have ints: "is_int (numEntries t1)" "is_int ((numEntries t1 + numDeadEntries t1) * int LOAD_DENOM)"
    "is_int (int (tableSize t1) * int LOAD_NUMER)" "is_int (int (tableSize t1) * 2)"
  proof -
    have "occupied es \<le> length es" by (simp add: occupied_def)
    then have "occupied es < 214748365" "tableSize t1 < 214748365"
      using t(1,2,7) by (simp_all add: es_def t1_def SLOT_BYTES_def)
    moreover have "numEntries t1 \<le> int (occupied es)" "0 \<le> numEntries t1"
      using occupied_split [of es] len t(5) by (simp_all add: t1_def)
    ultimately show "is_int (numEntries t1)" "is_int ((numEntries t1 + numDeadEntries t1) * int LOAD_DENOM)"
      "is_int (int (tableSize t1) * int LOAD_NUMER)" "is_int (int (tableSize t1) * 2)"
      unfolding count by (simp_all add: is_int_def load_defs)
  qed
  have run: "mzHashTableLookup calloc cast t h item cmp True =
    (do { r \<leftarrow> (if \<not> fits t then resizeHash calloc t1 (tableSize t1 * 2) else Some (Inr (True, t1)));
          case r of
            Inl err \<Rightarrow> Some (Inl err)
          | Inr (resized, t2) \<Rightarrow>
              if \<not> resized then Some (Inl Aborted)
              else if \<not> numEntries t2 < int (tableSize t2) then Some (Inl AssertionFailed)
              else Some (Inr (Ptr (cast item), t2)) })"
    using i(1-3) big ints by (simp add: mzHashTableLookup_def Let_def es_def [symmetric] t1_def [symmetric])
  have size2: "tableSize t1 * 2 = 2 ^ (b + 1)" using t(1) by (simp add: t1_def)
  have items_le: "length (items (pEntries t)) \<le> occupied (pEntries t)"
    using occupied_split [of "pEntries t"] by simp
  have pos: "1 \<le> (2 :: nat) ^ b" by simp
  have small: "length (items (pEntries t1)) < 2 ^ (b + 1)"
    using load_room [OF items_le t(4) pos] len by (simp add: t1_def mult.commute)
  note rs = resizeHash_spec [OF tombs small, folded size2]
  show "\<not> fits t \<Longrightarrow> \<not> calloc_slots calloc (tableSize t * 2) \<Longrightarrow>
      mzHashTableLookup calloc cast t h item cmp True = Some (Inl Aborted)"
    using run rs(1) by (simp add: t1_def)
  assume room: "fits t \<or> calloc_slots calloc (tableSize t * 2)"
  show "\<exists>t'. mzHashTableLookup calloc cast t h item cmp True = Some (Inr (Ptr (cast item), t')) \<and> hash_ok t' \<and>
        mset (items (pEntries t')) = add_mset (h, cast item) (mset (items (pEntries t))) \<and>
        tableSize t' = (if fits t then tableSize t else tableSize t * 2) \<and>
        (fits t \<longrightarrow> occupied (pEntries t') = occupied (pEntries t) + 1) \<and>
        occupied (pEntries t') \<le> occupied (pEntries t) + 1"
  proof (cases "fits t")
    case True
    then have fit: "occupied es * LOAD_DENOM \<le> tableSize t * LOAD_NUMER" by (simp add: fits_def ins(2))
    have "length (items es) < tableSize t"
      using load_lt [of "length (items es)" "occupied es"] fit items_le len ins(2) t(1) by simp
    then have "numEntries t1 < int (tableSize t1)" using t(5) len by (simp add: t1_def)
    moreover have "hash_ok t1"
      using ins t tombs len fit
      by (auto simp: hash_ok_def t1_def)
    ultimately have "hash_ok t1" "numEntries t1 < int (tableSize t1)" by simp_all
    then show ?thesis using run True ins by (intro exI [of _ t1]) (simp add: t1_def)
  next
    case False
    then obtain new where new: "resizeHash calloc t1 (tableSize t1 * 2) =
        Some (Inr (True, t1\<lparr>pEntries := new, tableSize := tableSize t1 * 2, numDeadEntries := 0\<rparr>))"
      "length new = tableSize t1 * 2" "paths_ok new" "mset (items new) = mset (items (pEntries t1))"
      "occupied new = length (items (pEntries t1))"
      using rs(2) room by (auto simp: t1_def)
    define t2 where "t2 = t1\<lparr>pEntries := new, tableSize := tableSize t1 * 2, numDeadEntries := 0\<rparr>"
    have leni: "length (items new) = length (items es)"
      using new(4) by (metis size_mset HashTable.select_convs(4) HashTable.surjective t1_def HashTable.update_convs(2,4))
    have "occupied new = length (items new)" using new(5) leni by (simp add: t1_def)
    then have "countTombStones t2 = 0" using no_tombs [of new] by (simp add: t2_def countTombStones_def)
    moreover have "length (items es) * LOAD_DENOM \<le> tableSize t * 2 * LOAD_NUMER"
      using load_grow [OF items_le t(4) pos] len t(1) by simp
    moreover have "tableSize t1 * 2 * SLOT_BYTES < 2 ^ 32" using room False by (simp add: calloc_slots_def t1_def)
    ultimately have "hash_ok t2"
      using new leni len t(1,5) size2 unfolding hash_ok_def t2_def t1_def
      by (auto intro: exI [of _ "b + 1"])
    moreover have "numEntries t2 < int (tableSize t2)"
    proof -
      have "numEntries t2 = int (length (items (pEntries t1)))" "tableSize t2 = 2 ^ (b + 1)"
        using size2 len t(5) by (simp_all add: t2_def t1_def)
      then show ?thesis using small by (simp only: of_nat_less_iff)
    qed
    ultimately have "hash_ok t2" "numEntries t2 < int (tableSize t2)" by simp_all
    moreover have "occupied new \<le> occupied (pEntries t) + 1" using new(5) len items_le by (simp add: t1_def)
    ultimately show ?thesis
      using run False new ins(4) t(1) by (intro exI [of _ t2]) (simp add: t2_def t1_def)
  qed
qed

text \<open>What any lookup under the invariant does, whatever the comparison function.\<close>

lemma lookup_total:
  assumes ok: "hash_ok t"
  shows "(\<exists>d. (h, d) \<in> set (items (pEntries t)) \<and> cmp d item = 0 \<and>
            (\<forall>calloc cast doAdd. mzHashTableLookup calloc cast t h item cmp doAdd = Some (Inr (Ptr d, t)))) \<or>
         (\<forall>d. (h, d) \<in> set (items (pEntries t)) \<longrightarrow> cmp d item \<noteq> 0)"
proof -
  obtain b p where t: "tableSize t = 2 ^ b" "length (pEntries t) = 2 ^ b" "p < length (pEntries t)"
    "data (pEntries t ! p) = NULL" "paths_ok (pEntries t)"
    using hash_okD [OF ok] by metis
  obtain i where i: "probe (matches cmp h item) (pEntries t) (slot (length (pEntries t)) (unat h)) = Some i"
    "i < length (pEntries t)"
    "data (pEntries t ! i) = NULL \<and> reachable_at (pEntries t) i h \<and>
        (\<forall>d. (h, d) \<in> set (items (pEntries t)) \<longrightarrow> cmp d item \<noteq> 0) \<or>
      (\<exists>d. data (pEntries t ! i) = Ptr d \<and> hashValue (pEntries t ! i) = h \<and> cmp d item = 0)"
    using lookup_probe [OF t(2-5), of cmp h item] by metis
  show ?thesis
  proof (cases "data (pEntries t ! i) = NULL")
    case False
    then obtain d where d: "data (pEntries t ! i) = Ptr d" "hashValue (pEntries t ! i) = h" "cmp d item = 0"
      using i(3) by auto
    then have "mzHashTableLookup calloc cast t h item cmp doAdd = Some (Inr (Ptr d, t))" for calloc cast doAdd
      using i(1,2) t(1,2) by (simp add: mzHashTableLookup_def)
    then show ?thesis using d i(2) by (auto simp: set_items)
  qed (use i(3) in auto)
qed




lemma create_ok:
  assumes "0 < unat n" and "unat n \<le> 2 ^ 31" and "mzHashTableCreate calloc n f = Inr (Some t)"
  shows "hash_ok t" and "items (pEntries t) = []" and "unat n \<le> tableSize t"
    and "occupied (pEntries t) = 0"
proof -
  obtain k where k: "unat (roundUpPower2 n) = 2 ^ k" "unat n \<le> 2 ^ k"
    using roundUpPower2_spec [OF assms(1,2)] by metis
  have "n \<noteq> 0" using assms(1) by auto
  then have t: "t = \<lparr>tableSize = 2 ^ k, numEntries = 0, numDeadEntries = 0,
      pEntries = replicate (2 ^ k) empty_entry, hasFreeFunc = f\<rparr>" "2 ^ k * SLOT_BYTES < 2 ^ 32"
    using assms(3) k(1) by (auto simp: mzHashTableCreate_def calloc_slots_def Let_def split: if_splits)
  show "hash_ok t" using t(2) unfolding t(1) hash_ok_def by (simp add: countTombStones_def)
  show "items (pEntries t) = []" "unat n \<le> tableSize t" "occupied (pEntries t) = 0"
    unfolding t(1) using k(2) by simp_all
qed

section \<open>Runs of operations\<close>

datatype 'd hash_op = LookupOp u32 'd bool | RemoveOp u32 'd | ClearOp

fun hash_step ::
    "(nat \<Rightarrow> bool) \<Rightarrow> ('d \<Rightarrow> 'd \<Rightarrow> int) \<Rightarrow> 'd hash_op \<Rightarrow> 'd HashTable \<Rightarrow> (hash_error + 'd HashTable) option" where
  "hash_step calloc cmp (LookupOp h d doAdd) t =
     map_option (map_sum id snd) (mzHashTableLookup calloc (\<lambda>x. x) t h d cmp doAdd)"
| "hash_step calloc cmp (RemoveOp h d) t = map_option (map_sum id snd) (mzHashTableRemove t h d)"
| "hash_step calloc cmp ClearOp t = Some (Inr (fst (mzHashTableClear t)))"

fun hash_run ::
    "(nat \<Rightarrow> bool) \<Rightarrow> ('d \<Rightarrow> 'd \<Rightarrow> int) \<Rightarrow> 'd hash_op list \<Rightarrow> 'd HashTable \<Rightarrow> (hash_error + 'd HashTable) option" where
  "hash_run calloc cmp [] t = Some (Inr t)"
| "hash_run calloc cmp (x # xs) t =
     (case hash_step calloc cmp x t of
        Some (Inr t') \<Rightarrow> hash_run calloc cmp xs t'
      | r \<Rightarrow> r)"





section \<open>The map a table implements\<close>

text \<open>
  With a key function on the data, the tables whose items sit under the hash of their key and
  have pairwise different keys implement a map.
\<close>

definition keyed_ok :: "('k \<Rightarrow> u32) \<Rightarrow> ('d \<Rightarrow> 'k) \<Rightarrow> 'd HashTable \<Rightarrow> bool" where
  "keyed_ok hash key t \<longleftrightarrow> hash_ok t \<and> (\<forall>(h, d) \<in> set (items (pEntries t)). h = hash (key d)) \<and>
     distinct (map (key \<circ> snd) (items (pEntries t)))"

definition hash_assoc :: "('d \<Rightarrow> 'k) \<Rightarrow> 'd HashTable \<Rightarrow> 'k \<Rightarrow> 'd option" where
  "hash_assoc key t k = map_option snd (List.find (\<lambda>(h, d). key d = k) (items (pEntries t)))"

lemma find_distinct:
  assumes "distinct (map f xs)"
  shows "List.find (\<lambda>x. f x = k) xs = Some x \<longleftrightarrow> x \<in> set xs \<and> f x = k"
  using assms by (induction xs) auto

lemma hash_assoc_Some:
  assumes "keyed_ok hash key t"
  shows "hash_assoc key t k = Some d \<longleftrightarrow> (hash k, d) \<in> set (items (pEntries t)) \<and> key d = k"
proof -
  have "distinct (map (\<lambda>x. key (snd x)) (items (pEntries t)))"
    using assms by (simp add: keyed_ok_def comp_def)
  then have "List.find (\<lambda>x. key (snd x) = k) (items (pEntries t)) = Some (h, d) \<longleftrightarrow>
      (h, d) \<in> set (items (pEntries t)) \<and> key d = k" for h
    using find_distinct [of "\<lambda>x. key (snd x)" _ k "(h, d)"] by simp
  moreover have "(h, d) \<in> set (items (pEntries t)) \<Longrightarrow> h = hash (key d)" for h
    using assms by (auto simp: keyed_ok_def)
  ultimately show ?thesis by (auto simp: hash_assoc_def split_def)
qed

lemma hash_assoc_None:
  "hash_assoc key t k = None \<longleftrightarrow> (\<forall>(h, d) \<in> set (items (pEntries t)). key d \<noteq> k)"
  by (fastforce simp: hash_assoc_def find_None_iff)

lemma keyed_add_present:
  assumes ok: "keyed_ok hash key t"
    and cmp: "\<forall>(h, d) \<in> set (items (pEntries t)). cmp d item = 0 \<longleftrightarrow> key d = k"
    and d: "hash_assoc key t k = Some d"
  shows "mzHashTableLookup calloc cast t (hash k) item cmp doAdd = Some (Inr (Ptr d, t))"
proof (rule lookup_finds)
  show "hash_ok t" using ok by (simp add: keyed_ok_def)
  show "(hash k, d) \<in> set (items (pEntries t))" "cmp d item = 0"
    using d hash_assoc_Some [OF ok] cmp by auto
  show "d' = d" if "(hash k, d') \<in> set (items (pEntries t))" "cmp d' item = 0" for d'
    using that d hash_assoc_Some [OF ok, of k d'] cmp by auto
qed

lemma keyed_lookup:
  assumes ok: "keyed_ok hash key t"
    and cmp: "\<forall>(h, d) \<in> set (items (pEntries t)). cmp d item = 0 \<longleftrightarrow> key d = k"
  shows "mzHashTableLookup calloc cast t (hash k) item cmp False =
    Some (Inr (case hash_assoc key t k of None \<Rightarrow> NULL | Some d \<Rightarrow> Ptr d, t))"
proof (cases "hash_assoc key t k")
  case None
  then have "\<forall>d. (hash k, d) \<in> set (items (pEntries t)) \<longrightarrow> cmp d item \<noteq> 0"
    using cmp by (fastforce simp: hash_assoc_None)
  then show ?thesis
    using None lookup_not_found [where cmp = cmp and item = item] ok by (simp add: keyed_ok_def)
next
  case (Some d)
  then show ?thesis using keyed_add_present [where cmp = cmp and item = item, OF ok cmp Some] by simp
qed

lemma keyed_add_absent:
  assumes ok: "keyed_ok hash key t"
    and cmp: "\<forall>(h, d) \<in> set (items (pEntries t)). cmp d item = 0 \<longleftrightarrow> key d = k"
    and none: "hash_assoc key t k = None" and key: "key (cast item) = k"
    and room: "fits t \<or> calloc_slots calloc (tableSize t * 2)"
  shows "\<exists>t'. mzHashTableLookup calloc cast t (hash k) item cmp True = Some (Inr (Ptr (cast item), t')) \<and>
    keyed_ok hash key t' \<and> hash_assoc key t' = (hash_assoc key t)(k \<mapsto> cast item) \<and>
    set (items (pEntries t')) = insert (hash k, cast item) (set (items (pEntries t))) \<and>
    (fits t \<longrightarrow> tableSize t' = tableSize t \<and> occupied (pEntries t') = occupied (pEntries t) + 1)"
proof -
  have absent: "\<forall>d. (hash k, d) \<in> set (items (pEntries t)) \<longrightarrow> cmp d item \<noteq> 0"
    using none cmp by (fastforce simp: hash_assoc_None)
  have "hash_ok t" using ok by (simp add: keyed_ok_def)
  from lookup_adds(2) [where cmp = cmp and item = item and calloc = calloc and cast = cast, OF this absent room]
  obtain t' where t': "mzHashTableLookup calloc cast t (hash k) item cmp True = Some (Inr (Ptr (cast item), t'))"
    "hash_ok t'" "mset (items (pEntries t')) = add_mset (hash k, cast item) (mset (items (pEntries t)))"
    "fits t \<longrightarrow> tableSize t' = tableSize t \<and> occupied (pEntries t') = occupied (pEntries t) + 1" by auto
  have set': "set (items (pEntries t')) = insert (hash k, cast item) (set (items (pEntries t)))"
    using t'(3) by (metis set_mset_add_mset_insert set_mset_mset)
  have "mset (map (key \<circ> snd) (items (pEntries t'))) = mset (map (key \<circ> snd) ((hash k, cast item) # items (pEntries t)))"
    using t'(3) by (simp add: mset_map)
  moreover have "distinct (map (key \<circ> snd) ((hash k, cast item) # items (pEntries t)))"
    using ok none key by (auto simp: keyed_ok_def hash_assoc_None)
  ultimately have "distinct (map (key \<circ> snd) (items (pEntries t')))"
    using mset_eq_imp_distinct_iff by blast
  then have ok': "keyed_ok hash key t'"
    using ok t'(2) set' key by (auto simp: keyed_ok_def)
  have "hash_assoc key t' k' = ((hash_assoc key t)(k \<mapsto> cast item)) k'" for k'
  proof (rule option.expand)
    show "(hash_assoc key t' k' = None) = (((hash_assoc key t)(k \<mapsto> cast item)) k' = None)"
      using set' key by (auto simp: hash_assoc_None)
    assume "hash_assoc key t' k' \<noteq> None" "((hash_assoc key t)(k \<mapsto> cast item)) k' \<noteq> None"
    then obtain d where "((hash_assoc key t)(k \<mapsto> cast item)) k' = Some d" by blast
    moreover from this have "hash_assoc key t' k' = Some d"
      using hash_assoc_Some [OF ok] hash_assoc_Some [OF ok'] set' key by (auto split: if_splits)
    ultimately show "the (hash_assoc key t' k') = the (((hash_assoc key t)(k \<mapsto> cast item)) k')" by simp
  qed
  then show ?thesis using t' ok' set' by (intro exI [of _ t']) (simp add: fun_eq_iff)
qed

section \<open>Walking over the table\<close>

text \<open>The loop that \<open>Hash.h\<close> gives as the use of the iterator, collecting the data it meets.\<close>

partial_function (option) iter_list :: "'d HashTable \<Rightarrow> HashIter \<Rightarrow> (hash_error + 'd hdata list) option" where
  "iter_list t it =
     (if mzHashIterDone t it then Some (Inr [])
      else case mzHashIterData t it of
        Inl err \<Rightarrow> Some (Inl err)
      | Inr d \<Rightarrow> do { r \<leftarrow> iter_list t (mzHashIterNext t it); Some (map_sum id (\<lambda>ds. d # ds) r) })"

lemma iter_scan_spec:
  "iter_scan es i = i + length es \<and> items es = [] \<or>
   (\<exists>k d. k < length es \<and> iter_scan es i = i + k \<and> data (es ! k) = Ptr d \<and>
          items es = (hashValue (es ! k), d) # items (drop (Suc k) es))"
proof (induction es arbitrary: i)
  case (Cons e es)
  show ?case
  proof (cases "data e")
    case (Ptr d)
    then show ?thesis by (intro disjI2 exI [of _ 0] exI [of _ d]) simp
  qed (use Cons [of "i + 1"] in \<open>auto intro: exI [of _ "Suc k" for k]\<close>)
qed simp

lemma iter_list_from:
  assumes "length (pEntries t) = tableSize t" and "i \<le> tableSize t"
  shows "iter_list t (mzHashIterNext t \<lparr>idx = int i - 1\<rparr>) =
    Some (Inr (map Ptr (map snd (items (drop i (pEntries t))))))"
  using assms(2)
proof (induction "tableSize t - i" arbitrary: i rule: less_induct)
  case less
  have nxt: "mzHashIterNext t \<lparr>idx = int i - 1\<rparr> = \<lparr>idx = int (iter_scan (drop i (pEntries t)) i)\<rparr>"
    by (simp add: mzHashIterNext_def Let_def)
  from iter_scan_spec [of "drop i (pEntries t)" i] show ?case
  proof (elim disjE exE conjE)
    assume "iter_scan (drop i (pEntries t)) i = i + length (drop i (pEntries t))"
      and "items (drop i (pEntries t)) = []"
    then show ?case
      using less.prems assms(1) by (subst iter_list.simps) (simp add: nxt mzHashIterDone_def)
  next
    fix k d assume k: "k < length (drop i (pEntries t))" "iter_scan (drop i (pEntries t)) i = i + k"
      "data (drop i (pEntries t) ! k) = Ptr d"
      "items (drop i (pEntries t)) = (hashValue (drop i (pEntries t) ! k), d) # items (drop (Suc k) (drop i (pEntries t)))"
    have "iter_list t (mzHashIterNext t \<lparr>idx = int (i + k + 1) - 1\<rparr>) =
        Some (Inr (map Ptr (map snd (items (drop (i + k + 1) (pEntries t))))))"
      using k(1) less.prems assms(1) by (intro less.hyps) simp_all
    moreover have "data (pEntries t ! (i + k)) = Ptr d" using k(1,3) by simp
    moreover have "i + k < tableSize t" using k(1) assms(1) by simp
    then have "int i + int k < int (tableSize t)" by linarith
    ultimately show ?case
      using k assms(1)
      by (subst iter_list.simps)
        (simp add: nxt mzHashIterDone_def mzHashIterData_def nat_int_add ac_simps)
  qed
qed

lemma foreach_collect:
  "foreach_entries (\<lambda>d acc. (0, acc @ [d])) es acc = (0, acc @ map snd (items es))"
  by (induction es arbitrary: acc) (auto split: hdata.splits)

section \<open>Presized tables\<close>

lemma presized_adds:
  assumes "hash_ok t" and "occupied (pEntries t) + length hds \<le> n" and "mzHashSize n \<le> tableSize t"
  shows "\<exists>t'. hash_run (\<lambda>_. False) cmp (map (\<lambda>(h, d). LookupOp h d True) hds) t = Some (Inr t') \<and>
    hash_ok t' \<and> tableSize t' = tableSize t"
  using assms
proof (induction hds arbitrary: t)
  case (Cons hd hds)
  obtain h d where hd: "hd = (h, d)" by fastforce
  show ?case
  proof (cases "\<forall>d'. (h, d') \<in> set (items (pEntries t)) \<longrightarrow> cmp d' d \<noteq> 0")
    case absent: True
    have "n * LOAD_DENOM < tableSize t * LOAD_NUMER"
      using Cons.prems(3) unfolding mzHashSize_def load_defs by simp
    moreover have "(occupied (pEntries t) + 1) * LOAD_DENOM \<le> n * LOAD_DENOM"
      using Cons.prems(2) by (intro mult_le_mono1) simp
    ultimately have "fits t" unfolding fits_def by linarith
    then obtain t1 where t1: "mzHashTableLookup (\<lambda>_. False) (\<lambda>x. x) t h d cmp True = Some (Inr (Ptr d, t1))"
      "hash_ok t1" "tableSize t1 = tableSize t" "occupied (pEntries t1) = occupied (pEntries t) + 1"
      using lookup_adds(2) [where cmp = cmp and item = d and cast = "\<lambda>x. x" and calloc = "\<lambda>_. False",
          OF Cons.prems(1) absent] by auto
    then show ?thesis using Cons.IH [of t1] Cons.prems hd by simp
  next
    case False
    then obtain d' where "mzHashTableLookup (\<lambda>_. False) (\<lambda>x. x) t h d cmp True = Some (Inr (Ptr d', t))"
      using lookup_total [OF Cons.prems(1), of h cmp d] by blast
    then show ?thesis using Cons.IH [of t] Cons.prems hd by simp
  qed
qed simp

section \<open>Properties\<close>

text \<open>
  Rounding the size of a table up gives the least power of two that is not below it, for
  every size from 1 to \<open>2\<^sup>3\<^sup>1\<close>; the smearing of the bits never wraps there.
\<close>

theorem roundUpPower2_least:
  assumes "0 < unat val" and "unat val \<le> 2 ^ 31"
  shows "\<exists>k \<le> 31. unat (roundUpPower2 val) = 2 ^ k \<and> unat val \<le> 2 ^ k \<and> 2 ^ k < 2 * unat val"
  using roundUpPower2_spec [OF assms] by metis

theorem roundUpPower2_least_witness:
  "\<exists>k \<le> 31. unat (roundUpPower2 9) = 2 ^ k \<and> unat (9 :: u32) \<le> 2 ^ k \<and> 2 ^ k < 2 * unat (9 :: u32)"
  by (rule roundUpPower2_least) simp_all



text \<open>
  \<open>mzHashSize\<close> keeps its promise: a table created for \<open>mzHashSize n\<close> elements takes \<open>n\<close>
  additions without ever allocating again, even if every further allocation fails.
\<close>

theorem mzHashSize_presizes:
  assumes "mzHashTableCreate calloc (of_nat (mzHashSize n)) f = Inr (Some t)"
    and "mzHashSize n \<le> 2 ^ 31" and "length hds \<le> n"
  shows "\<exists>t'. hash_run (\<lambda>_. False) cmp (map (\<lambda>(h, d). LookupOp h d True) hds) t = Some (Inr t') \<and>
    tableSize t' = tableSize t"
proof -
  have "unat (of_nat (mzHashSize n) :: u32) = mzHashSize n" using assms(2) by simp
  moreover have "0 < mzHashSize n" by (simp add: mzHashSize_def)
  ultimately have "hash_ok t" "mzHashSize n \<le> tableSize t" "occupied (pEntries t) = 0"
    using create_ok [OF _ _ assms(1)] assms(2) by simp_all
  then show ?thesis using presized_adds [of t hds n cmp] assms(3) by auto
qed

theorem mzHashSize_presizes_witness:
  "\<exists>t t'. mzHashTableCreate (\<lambda>_. True) (of_nat (mzHashSize 2)) False = Inr (Some t) \<and>
     hash_run (\<lambda>_. False) (\<lambda>a b. int a - int b) (map (\<lambda>(h, d). LookupOp h d True) [(1, 10 :: nat), (1, 20)]) t =
       Some (Inr t') \<and> tableSize t' = tableSize t"
proof -
  obtain t :: "nat HashTable" where t: "mzHashTableCreate (\<lambda>_. True) (of_nat (mzHashSize 2)) False = Inr (Some t)"
    by (simp add: mzHashTableCreate_def mzHashSize_def load_defs Let_def calloc_slots_def SLOT_BYTES_def roundUpPower2_def)
  moreover have "mzHashSize 2 \<le> 2 ^ 31" by (simp add: mzHashSize_def load_defs)
  ultimately show ?thesis
    using mzHashSize_presizes [of "\<lambda>_. True" 2 False t "[(1, 10), (1, 20)]" "\<lambda>a b. int a - int b"] by auto
qed

text \<open>
  C39: the iterator of \<open>Hash.h\<close> and \<open>mzHashForeach\<close> visit the same data in the same order,
  every live item of the table once and no tombstone.
\<close>

theorem iterator_visits_items:
  assumes "length (pEntries t) = tableSize t"
  shows "iter_list t (mzHashIterBegin t) = Some (Inr (map Ptr (map snd (items (pEntries t))))) \<and>
         mzHashForeach t (\<lambda>d acc. (0, acc @ [d])) [] = (0, map snd (items (pEntries t)))"
  using iter_list_from [OF assms, of 0] by (simp add: mzHashIterBegin_def mzHashForeach_def foreach_collect)

theorem iterator_visits_items_witness:
  "let t = \<lparr>tableSize = 2, numEntries = 1, numDeadEntries = 1,
            pEntries = [\<lparr>hashValue = 0, data = HASH_TOMBSTONE\<rparr>, \<lparr>hashValue = 1, data = Ptr (7 :: nat)\<rparr>],
            hasFreeFunc = False\<rparr>
   in iter_list t (mzHashIterBegin t) = Some (Inr [Ptr 7]) \<and>
      mzHashForeach t (\<lambda>d acc. (0, acc @ [d])) [] = (0, [7])"
  using iterator_visits_items [of "\<lparr>tableSize = 2, numEntries = 1, numDeadEntries = 1,
            pEntries = [\<lparr>hashValue = 0, data = HASH_TOMBSTONE\<rparr>, \<lparr>hashValue = 1, data = Ptr (7 :: nat)\<rparr>],
            hasFreeFunc = False\<rparr>"]
  by (simp add: Let_def)

end
