(* ===== verification/NameIndex.thy ===== *)
theory NameIndex
  imports Prelude
begin

text \<open>
  The interface through which \<open>minzip/Zip.c\<close> uses its hash table: entries are added one by
  one, the first entry of a name stays, and names are looked up.  The component that provides
  the table interprets the locale on its model.
\<close>

text \<open>The loop that adds a list of entries; it ends at the first fault.\<close>

fun add_all :: "('t \<Rightarrow> 'd \<Rightarrow> ('e + 't) option) \<Rightarrow> 't \<Rightarrow> 'd list \<Rightarrow> ('e + 't) option" where
  "add_all add t [] = Some (Inr t)"
| "add_all add t (d # ds) =
     (case add t d of
        None \<Rightarrow> None
      | Some (Inl err) \<Rightarrow> Some (Inl err)
      | Some (Inr t') \<Rightarrow> add_all add t' ds)"

locale name_index =
  fixes ok :: "'t \<Rightarrow> bool"
    and room :: "'t \<Rightarrow> nat"
    and key :: "'d \<Rightarrow> 'k"
    and valid :: "'d \<Rightarrow> bool"
    and query :: "'k \<Rightarrow> bool"
    and assoc :: "'t \<Rightarrow> 'k \<Rightarrow> 'd option"
    and null :: "'r"
    and ptr :: "'d \<Rightarrow> 'r"
    and lookup :: "'t \<Rightarrow> 'k \<Rightarrow> ('e + 'r) option"
    and add :: "'t \<Rightarrow> 'd \<Rightarrow> ('e + 't) option"
  assumes lookup_assoc: "ok t \<Longrightarrow> query k \<Longrightarrow> lookup t k =
      Some (Inr (case assoc t k of None \<Rightarrow> null | Some d \<Rightarrow> ptr d))"
    and add_present: "ok t \<Longrightarrow> valid d \<Longrightarrow> assoc t (key d) = Some d' \<Longrightarrow> add t d = Some (Inr t)"
    and add_absent: "ok t \<Longrightarrow> valid d \<Longrightarrow> assoc t (key d) = None \<Longrightarrow> 0 < room t \<Longrightarrow>
      \<exists>t'. add t d = Some (Inr t') \<and> ok t' \<and> room t \<le> room t' + 1 \<and>
           assoc t' = (assoc t)(key d \<mapsto> d)"
begin

lemma add_all_assoc:
  assumes "ok t" and "length ds \<le> room t" and "\<forall>d \<in> set ds. valid d"
  shows "\<exists>t'. add_all add t ds = Some (Inr t') \<and> ok t' \<and>
    (\<forall>k. assoc t' k = (case assoc t k of Some d \<Rightarrow> Some d | None \<Rightarrow> List.find (\<lambda>d. key d = k) ds))"
  using assms
proof (induction ds arbitrary: t)
  case Nil
  then show ?case by (auto split: option.splits)
next
  case (Cons d ds)
  show ?case
  proof (cases "assoc t (key d)")
    case None
    with Cons.prems obtain t1 where t1: "add t d = Some (Inr t1)" "ok t1" "room t \<le> room t1 + 1"
      "assoc t1 = (assoc t)(key d \<mapsto> d)"
      using add_absent [of t d] by auto
    with Cons.prems have "length ds \<le> room t1" by simp
    from Cons.IH [OF t1(2) this] Cons.prems(3) obtain t' where
      "add_all add t1 ds = Some (Inr t')" "ok t'"
      "\<forall>k. assoc t' k = (case assoc t1 k of Some d \<Rightarrow> Some d | None \<Rightarrow> List.find (\<lambda>d. key d = k) ds)"
      by auto
    with t1 None show ?thesis by (auto split: option.splits)
  next
    case (Some d')
    with Cons.prems have "add t d = Some (Inr t)" by (simp add: add_present)
    moreover obtain t' where "add_all add t ds = Some (Inr t')" "ok t'"
      "\<forall>k. assoc t' k = (case assoc t k of Some d \<Rightarrow> Some d | None \<Rightarrow> List.find (\<lambda>d. key d = k) ds)"
      using Cons.IH [of t] Cons.prems by auto
    ultimately show ?thesis using Some by (auto split: option.splits)
  qed
qed

text \<open>Looking a name up after all additions to an empty table finds its first entry.\<close>

lemma lookup_after_add_all:
  assumes "ok t" and "length ds \<le> room t" and "\<forall>d \<in> set ds. valid d" and "\<forall>k. assoc t k = None"
  obtains t' where "add_all add t ds = Some (Inr t')" and "ok t'"
    and "\<And>k. query k \<Longrightarrow> lookup t' k =
      Some (Inr (case List.find (\<lambda>d. key d = k) ds of None \<Rightarrow> null | Some d \<Rightarrow> ptr d))"
proof -
  obtain t' where "add_all add t ds = Some (Inr t')" "ok t'"
    "\<forall>k. assoc t' k = (case assoc t k of Some d \<Rightarrow> Some d | None \<Rightarrow> List.find (\<lambda>d. key d = k) ds)"
    using add_all_assoc [OF assms(1-3)] by blast
  then show ?thesis using that lookup_assoc assms(4) by simp
qed

end

end
