(* ===== verification/Zip.thy ===== *)
theory Zip
  imports Bytes MzHash NameIndex "HOL-Library.List_Lexorder"
begin

text \<open>
  Opening a Zip archive: \<open>parseZipArchive\<close> of \<open>minzip/Zip.c\<close> with the comparison, hash and
  validation functions it uses, and the look-up of an entry by name.

  The archive is mapped at address \<open>addr\<close>; a pointer into it is an offset, and reading outside
  of the mapping is undefined behaviour (\<open>None\<close>).  A pointer to an entry is its index in
  \<open>pEntries\<close>, so the hash table stores indices.  Each way to bail out is a value of
  \<open>zip_bail\<close>, with the index of the entry the message names.  \<open>safe_add\<close> belongs to the
  external library \<open>safe_iop\<close>; the two calls are parameters, one on pointers
  (\<open>uintptr_t\<close>) and one on \<open>long\<close>s.  The pointer that walks over the central directory never gets more
  than three lengths of 16 bits behind the mapping, and is taken not to reach the end of the address space,
  which belongs to the kernel; the offsets an archive holds may be any number, and do wrap around.
\<close>

section \<open>Offsets and signatures\<close>

definition CENSIG :: u32 where "CENSIG = 0x02014b50"
definition ENDSIG :: u32 where "ENDSIG = 0x06054b50"
definition LOCSIG :: u32 where "LOCSIG = 0x04034b50"
definition CENHDR :: nat where "CENHDR = 46"
definition ENDHDR :: nat where "ENDHDR = 22"
definition LOCHDR :: nat where "LOCHDR = 30"
definition CENVEM_UNIX :: u16 where "CENVEM_UNIX = push_bit 8 3"
definition PATH_MAX :: nat where "PATH_MAX = 4096"

definition CENVEM :: nat where "CENVEM = 4"
definition CENHOW :: nat where "CENHOW = 10"
definition CENTIM :: nat where "CENTIM = 12"
definition CENCRC :: nat where "CENCRC = 16"
definition CENSIZ :: nat where "CENSIZ = 20"
definition CENLEN :: nat where "CENLEN = 24"
definition CENNAM :: nat where "CENNAM = 28"
definition CENEXT :: nat where "CENEXT = 30"
definition CENCOM :: nat where "CENCOM = 32"
definition CENATX :: nat where "CENATX = 38"
definition CENOFF :: nat where "CENOFF = 42"
definition ENDSUB :: nat where "ENDSUB = 8"
definition ENDOFF :: nat where "ENDOFF = 16"
definition LOCNAM :: nat where "LOCNAM = 26"
definition LOCEXT :: nat where "LOCEXT = 28"

lemmas zip_consts =
  CENHDR_def ENDHDR_def LOCHDR_def CENVEM_def CENHOW_def CENTIM_def CENCRC_def CENSIZ_def
  CENLEN_def CENNAM_def CENEXT_def CENCOM_def CENATX_def CENOFF_def ENDSUB_def ENDOFF_def
  LOCNAM_def LOCEXT_def

section \<open>Entries\<close>

text \<open>\<open>fileName\<close> is a pointer into the mapping and not terminated; the \<open>long\<close>s are 32 bits.\<close>

record ZipEntry =
  fileNameLen :: u32
  fileName :: nat
  offset :: u32
  compLen :: u32
  uncompLen :: u32
  compression :: u16
  modTime :: u32
  crc32 :: u32
  versionMadeBy :: u16
  externalFileAttributes :: u32

text \<open>The bytes of an entry's name.\<close>

definition entry_name :: "bytes \<Rightarrow> ZipEntry \<Rightarrow> bytes" where
  "entry_name buf e = take (unat (fileNameLen e)) (drop (fileName e) buf)"

definition hashcmpZipEntry :: "bytes \<Rightarrow> ZipEntry \<Rightarrow> ZipEntry \<Rightarrow> int option" where
  "hashcmpZipEntry buf entry1 entry2 =
     (if fileNameLen entry1 \<noteq> fileNameLen entry2
      then Some (sint (fileNameLen entry1 - fileNameLen entry2))
      else memcmp (drop (fileName entry1) buf) (drop (fileName entry2) buf) (unat (fileNameLen entry1)))"

text \<open>\<open>name\<close> is a C string, here without its terminator.\<close>

definition hashcmpZipName :: "bytes \<Rightarrow> ZipEntry \<Rightarrow> bytes \<Rightarrow> int option" where
  "hashcmpZipName buf entry name =
     (let nameLen = of_nat (length name) :: u32 in
      if fileNameLen entry \<noteq> nameLen then Some (sint (fileNameLen entry - nameLen))
      else memcmp (drop (fileName entry) buf) name (unat nameLen))"

fun hash_step31 :: "u32 \<Rightarrow> bytes \<Rightarrow> u32" where
  "hash_step31 hash [] = hash"
| "hash_step31 hash (c # cs) = hash_step31 (hash * 31 + ucast c) cs"

definition computeHash :: "bytes \<Rightarrow> u32" where
  "computeHash name = hash_step31 2 name"

text \<open>
  A comparison inside the table is a callback that cannot fail in C; a read outside of the
  mapping is turned into an arbitrary nonzero answer here, and \<open>names_in\<close> below excludes it.
\<close>

definition cmp_or :: "int option \<Rightarrow> int" where
  "cmp_or r = (case r of None \<Rightarrow> 1 | Some d \<Rightarrow> d)"

definition addEntryToHashTable ::
    "(nat \<Rightarrow> bool) \<Rightarrow> bytes \<Rightarrow> ZipEntry list \<Rightarrow> nat HashTable \<Rightarrow> nat \<Rightarrow>
     (hash_error + nat HashTable) option" where
  "addEntryToHashTable calloc buf entries pHash pEntry =
     map_option (map_sum id snd) (mzHashTableLookup calloc (\<lambda>p. p) pHash (computeHash (entry_name buf (entries ! pEntry))) pEntry
       (\<lambda>p1 p2. cmp_or (hashcmpZipEntry buf (entries ! p1) (entries ! p2))) True)"

definition validFilename :: "bytes \<Rightarrow> bool" where
  "validFilename name =
     (if PATH_MAX \<le> length name then False else list_all (\<lambda>c. \<not> (c < 32 \<or> 127 \<le> c)) name)"

section \<open>parseZipArchive\<close>

datatype zip_bail =
    LooksEmpty | NotZip | NoEOCD | BadEntryCount | AllocFailed
  | RanOffEnd nat | MissedCentralSig nat | NameRanOff nat | InvalidName nat | BadMadeBy nat
  | AddrOverflow nat | BadLocalOffset nat | MissedLocalSig nat | SizeOverflow nat | DataRanOff nat
  | AssertFailed | HashFault hash_error

text \<open>The ways to end that are not an answer to a malformed file but a fault of the program.\<close>

fun internal_fault :: "zip_bail \<Rightarrow> bool" where
  "internal_fault AssertFailed \<longleftrightarrow> True"
| "internal_fault (HashFault err) \<longleftrightarrow> True"
| "internal_fault _ \<longleftrightarrow> False"

text \<open>The backward scan for the end-of-central-directory record; \<open>Some None\<close> is "not found".\<close>

fun find_eocd :: "bytes \<Rightarrow> nat \<Rightarrow> nat option option" where
  "find_eocd buf ptr = do {
     b \<leftarrow> rd buf ptr;
     hit \<leftarrow> (if b = ucast (ENDSIG AND 0xff) then do { v \<leftarrow> get4LE buf ptr; Some (v = ENDSIG) }
            else Some False);
     if hit then Some (Some ptr)
     else (case ptr of 0 \<Rightarrow> Some None | Suc p \<Rightarrow> find_eocd buf p) }"

declare find_eocd.simps [simp del]

text \<open>
  The comparison of the binary search and the search itself, which returns \<open>high\<close>.  The
  arguments of \<open>bin_search\<close> are \<open>int\<close>s as in the code, since \<open>high\<close> can become \<open>-1\<close>.
\<close>

definition name_diff :: "bytes \<Rightarrow> ZipEntry \<Rightarrow> nat \<Rightarrow> u32 \<Rightarrow> int option" where
  "name_diff buf e fname len =
     (let diffLen = (if fileNameLen e < len then fileNameLen e else len) in do {
        diff \<leftarrow> strncmp (drop (fileName e) buf) (drop fname buf) (unat diffLen);
        Some (if diff = 0 then sint (fileNameLen e - len) else diff) })"

function bin_search :: "(nat \<Rightarrow> int option) \<Rightarrow> int \<Rightarrow> int \<Rightarrow> int option" where
  "bin_search cmp low high =
     (if low \<le> high then
        let mid = low + (high - low) div 2 in do {
          diff \<leftarrow> cmp (nat mid);
          if diff < 0 then bin_search cmp (mid + 1) high
          else if diff > 0 then bin_search cmp low (mid - 1)
          else Some mid }
      else Some high)"
  by pat_completeness auto
termination
  by (relation "measure (\<lambda>(cmp, low, high). nat (high - low + 1))") auto

declare bin_search.simps [simp del]

text \<open>One entry of the central directory: it is checked, and inserted where its name belongs.\<close>

definition insert_at :: "nat \<Rightarrow> 'a \<Rightarrow> 'a list \<Rightarrow> 'a list" where
  "insert_at n x xs = take n xs @ x # drop n xs"

definition find_target :: "bytes \<Rightarrow> ZipEntry list \<Rightarrow> nat \<Rightarrow> u32 \<Rightarrow> nat option" where
  "find_target buf entries fname len =
     (if length entries = 0 then Some 0
      else do {
        high \<leftarrow> bin_search (\<lambda>mid. name_diff buf (entries ! mid) fname len) 0 (int (length entries) - 1);
        Some (nat (high + 1)) })"

definition parse_entry ::
    "(u32 \<Rightarrow> u32 \<Rightarrow> bool) \<Rightarrow> (u32 \<Rightarrow> u32 \<Rightarrow> bool) \<Rightarrow> u32 \<Rightarrow> bytes \<Rightarrow> ZipEntry list \<Rightarrow> nat \<Rightarrow>
     (zip_bail + ZipEntry list \<times> nat) option" where
  "parse_entry safe_add_ptr safe_add_long addr buf entries ptr =
     (let i = length entries in
      if ptr + CENHDR > length buf then Some (Inl (RanOffEnd i))
      else do {
        sig \<leftarrow> get4LE buf ptr;
        if sig \<noteq> CENSIG then Some (Inl (MissedCentralSig i))
        else do {
          localHdrOffset \<leftarrow> get4LE buf (ptr + CENOFF);
          nameLen \<leftarrow> get2LE buf (ptr + CENNAM);
          extraLen \<leftarrow> get2LE buf (ptr + CENEXT);
          commentLen \<leftarrow> get2LE buf (ptr + CENCOM);
          let fname = ptr + CENHDR;
          if fname + unat nameLen > length buf then Some (Inl (NameRanOff i))
          else if \<not> validFilename (take (unat nameLen) (drop fname buf)) then Some (Inl (InvalidName i))
          else do {
            target \<leftarrow> find_target buf entries fname (ucast nameLen);
            if \<not> target \<le> i then Some (Inl AssertFailed)
            else do {
              csiz \<leftarrow> get4LE buf (ptr + CENSIZ);
              ulen \<leftarrow> get4LE buf (ptr + CENLEN);
              how \<leftarrow> get2LE buf (ptr + CENHOW);
              tim \<leftarrow> get4LE buf (ptr + CENTIM);
              crc \<leftarrow> get4LE buf (ptr + CENCRC);
              vem \<leftarrow> get2LE buf (ptr + CENVEM);
              if vem AND 0xff00 \<noteq> 0 \<and> vem AND 0xff00 \<noteq> CENVEM_UNIX then Some (Inl (BadMadeBy i))
              else do {
                atx \<leftarrow> get4LE buf (ptr + CENATX);
                if \<not> safe_add_ptr addr localHdrOffset then Some (Inl (AddrOverflow i))
                else if addr + localHdrOffset + of_nat LOCHDR > addr + of_nat (length buf)
                then Some (Inl (BadLocalOffset i))
                else do {
                  let localHdr = unat localHdrOffset;
                  lsig \<leftarrow> get4LE buf localHdr;
                  if lsig \<noteq> LOCSIG then Some (Inl (MissedLocalSig i))
                  else do {
                    lnam \<leftarrow> get2LE buf (localHdr + LOCNAM);
                    lext \<leftarrow> get2LE buf (localHdr + LOCEXT);
                    let off = localHdrOffset + of_nat LOCHDR + ucast lnam + ucast lext;
                    if \<not> safe_add_long off csiz then Some (Inl (SizeOverflow i))
                    else if off + csiz > of_nat (length buf) then Some (Inl (DataRanOff i))
                    else
                      let e = \<lparr>fileNameLen = ucast nameLen, fileName = fname, offset = off,
                               compLen = csiz, uncompLen = ulen, compression = how, modTime = tim,
                               crc32 = crc, versionMadeBy = vem, externalFileAttributes = atx\<rparr> in
                      Some (Inr (insert_at target e entries,
                                 ptr + CENHDR + unat nameLen + unat extraLen + unat commentLen)) } } } } } } })"

fun parse_entries ::
    "(ZipEntry list \<Rightarrow> nat \<Rightarrow> (zip_bail + ZipEntry list \<times> nat) option) \<Rightarrow> nat \<Rightarrow> ZipEntry list \<Rightarrow> nat \<Rightarrow>
     (zip_bail + ZipEntry list) option" where
  "parse_entries entry 0 entries ptr = Some (Inr entries)"
| "parse_entries entry (Suc n) entries ptr =
     (case entry entries ptr of
        None \<Rightarrow> None
      | Some (Inl err) \<Rightarrow> Some (Inl err)
      | Some (Inr (entries', ptr')) \<Rightarrow> parse_entries entry n entries' ptr')"

record ZipArchive =
  arcEntries :: "ZipEntry list"
  arcHash :: "nat HashTable"
  arcMap :: bytes

definition add_entries ::
    "(nat \<Rightarrow> bool) \<Rightarrow> bytes \<Rightarrow> ZipEntry list \<Rightarrow> nat HashTable \<Rightarrow> (hash_error + nat HashTable) option" where
  "add_entries calloc buf entries pHash =
     add_all (addEntryToHashTable calloc buf entries) pHash [0..<length entries]"

definition parseZipArchive ::
    "(nat \<Rightarrow> bool) \<Rightarrow> (u32 \<Rightarrow> u32 \<Rightarrow> bool) \<Rightarrow> (u32 \<Rightarrow> u32 \<Rightarrow> bool) \<Rightarrow> u32 \<Rightarrow> bytes \<Rightarrow>
     (zip_bail + ZipArchive) option" where
  "parseZipArchive calloc safe_add_ptr safe_add_long addr buf = do {
     val \<leftarrow> get4LE buf 0;
     if val = ENDSIG then Some (Inl LooksEmpty)
     else if val \<noteq> LOCSIG then Some (Inl NotZip)
     else do {
       found \<leftarrow> find_eocd buf (length buf - ENDHDR);
       case found of
         None \<Rightarrow> Some (Inl NoEOCD)
       | Some ptr \<Rightarrow> do {
           n \<leftarrow> get2LE buf (ptr + ENDSUB);
           cdOffset \<leftarrow> get4LE buf (ptr + ENDOFF);
           if n = 0 \<or> unat cdOffset \<ge> length buf then Some (Inl BadEntryCount)
           else if \<not> calloc (unat n) then Some (Inl AllocFailed)
           else case mzHashTableCreate calloc (of_nat (mzHashSize (unat n))) False of
             Inl err \<Rightarrow> Some (Inl (HashFault err))
           | Inr None \<Rightarrow> Some (Inl AllocFailed)
           | Inr (Some pHash) \<Rightarrow> do {
               r \<leftarrow> parse_entries (parse_entry safe_add_ptr safe_add_long addr buf) (unat n) [] (unat cdOffset);
               case r of
                 Inl err \<Rightarrow> Some (Inl err)
               | Inr entries \<Rightarrow> do {
                   h \<leftarrow> add_entries calloc buf entries pHash;
                   case h of
                     Inl err \<Rightarrow> Some (Inl (HashFault err))
                   | Inr t \<Rightarrow> Some (Inr \<lparr>arcEntries = entries, arcHash = t, arcMap = buf\<rparr>) } } } } }"

definition mzFindZipEntry :: "ZipArchive \<Rightarrow> bytes \<Rightarrow> (hash_error + nat hdata) option" where
  "mzFindZipEntry pArchive entryName =
     map_option (map_sum id fst)
       (mzHashTableLookup (\<lambda>_. False) (\<lambda>_. 0) (arcHash pArchive) (computeHash entryName) entryName
          (\<lambda>p name. cmp_or (hashcmpZipName (arcMap pArchive) (arcEntries pArchive ! p) name)) False)"

section \<open>The order of the names\<close>

text \<open>
  \<open>strncmp\<close> over the shorter length, with the difference of the lengths as the tie break, is
  the lexicographic order on names without terminators.
\<close>

lemma strncmp_lex:
  assumes "strncmp (A @ ra) (B @ rb) (min (length A) (length B)) = Some d" and "0 \<notin> set A"
  shows "(if d = 0 then int (length A) - int (length B) else d) < 0 \<longleftrightarrow> A < B"
    and "(if d = 0 then int (length A) - int (length B) else d) = 0 \<longleftrightarrow> A = B"
proof -
  have "((if d = 0 then int (length A) - int (length B) else d) < 0 \<longleftrightarrow> A < B) \<and>
        ((if d = 0 then int (length A) - int (length B) else d) = 0 \<longleftrightarrow> A = B)"
    using assms
  proof (induction A arbitrary: B)
    case Nil
    then show ?case by (cases B) auto
  next
    case (Cons a A)
    show ?case
    proof (cases B)
      case (Cons b B')
      show ?thesis
      proof (cases "a = b")
        case True
        then have "strncmp (A @ ra) (B' @ rb) (min (length A) (length B')) = Some d" "0 \<notin> set A"
          using Cons.prems \<open>B = b # B'\<close> by auto
        from Cons.IH [OF this] True show ?thesis by (auto simp: \<open>B = b # B'\<close> split: if_splits)
      next
        case False
        then have "d = uint a - uint b" using Cons.prems \<open>B = b # B'\<close> by auto
        then show ?thesis using False \<open>B = b # B'\<close>
          by (simp add: word_less_def word_uint_eq_iff)
      qed
    qed (use Cons.prems in auto)
  qed
  then show "(if d = 0 then int (length A) - int (length B) else d) < 0 \<longleftrightarrow> A < B"
    and "(if d = 0 then int (length A) - int (length B) else d) = 0 \<longleftrightarrow> A = B" by auto
qed

lemma bin_search_spec:
  fixes K :: "nat \<Rightarrow> 'a::linorder"
  assumes cmp: "\<And>j. j < n \<Longrightarrow> \<exists>d. cmp j = Some d \<and> (d < 0 \<longleftrightarrow> K j < x) \<and> (d = 0 \<longleftrightarrow> K j = x)"
    and sorted: "\<And>i j. i \<le> j \<Longrightarrow> j < n \<Longrightarrow> K i \<le> K j"
    and "0 \<le> low" "high < int n" "low \<le> high + 1"
    and "\<And>j. int j < low \<Longrightarrow> K j \<le> x" and "\<And>j. j < n \<Longrightarrow> high < int j \<Longrightarrow> x \<le> K j"
  shows "\<exists>h. bin_search cmp low high = Some h \<and> -1 \<le> h \<and> h < int n \<and>
    (\<forall>j. int j \<le> h \<longrightarrow> K j \<le> x) \<and> (\<forall>j < n. h < int j \<longrightarrow> x \<le> K j)"
  using assms(3-7)
proof (induction "nat (high - low + 1)" arbitrary: low high rule: less_induct)
  case less
  show ?case
  proof (cases "low \<le> high")
    case True
    define mid where "mid = low + (high - low) div 2"
    have mid: "low \<le> mid" "mid \<le> high" using True by (auto simp: mid_def)
    then have n: "nat mid < n" "int (nat mid) = mid" using less.prems by auto
    obtain d where d: "cmp (nat mid) = Some d" "d < 0 \<longleftrightarrow> K (nat mid) < x" "d = 0 \<longleftrightarrow> K (nat mid) = x"
      using cmp [OF n(1)] by blast
    have step: "bin_search cmp low high =
        (if d < 0 then bin_search cmp (mid + 1) high
         else if d > 0 then bin_search cmp low (mid - 1) else Some mid)"
      using True d(1) by (subst bin_search.simps) (simp add: Let_def mid_def)
    consider "d < 0" | "d > 0" | "d = 0" by linarith
    then show ?thesis
    proof cases
      case 1
      have "K j \<le> x" if "int j < mid + 1" for j
        using sorted [of j "nat mid"] that n d(2) 1 by fastforce
      then show ?thesis
        using less.hyps [of high "mid + 1"] less.prems mid 1 step by auto
    next
      case 2
      then have gt: "x < K (nat mid)" using d(2,3) by (metis less_imp_neq linorder_neqE order.asym)
      have "x \<le> K j" if "j < n" "mid - 1 < int j" for j
        using sorted [of "nat mid" j] that n gt by fastforce
      then show ?thesis
        using less.hyps [of "mid - 1" low] less.prems mid 2 step by auto
    next
      case 3
      then have eq: "K (nat mid) = x" using d(3) by simp
      have "K j \<le> x" if "int j \<le> mid" for j
        using sorted [of j "nat mid"] that n eq by fastforce
      moreover have "x \<le> K j" if "j < n" "mid < int j" for j
        using sorted [of "nat mid" j] that n eq by fastforce
      ultimately show ?thesis using 3 step mid less.prems by auto
    qed
  next
    case False
    then have "high + 1 = low" using less.prems by simp
    moreover have "bin_search cmp low high = Some high" using False by (subst bin_search.simps) simp
    ultimately show ?thesis using less.prems by auto
  qed
qed

section \<open>The invariant of the entries\<close>

text \<open>
  What a parsed entry satisfies: its name lies in the mapping and is valid, its local header
  lies in the mapping, and its data passed the two range checks.
\<close>

definition entry_ok :: "(u32 \<Rightarrow> u32 \<Rightarrow> bool) \<Rightarrow> bytes \<Rightarrow> ZipEntry \<Rightarrow> bool" where
  "entry_ok safe_add_long buf e \<longleftrightarrow>
     fileName e + unat (fileNameLen e) \<le> length buf \<and> validFilename (entry_name buf e) \<and>
     safe_add_long (offset e) (compLen e) \<and> offset e + compLen e \<le> of_nat (length buf)"

lemma length_entry_name: "fileName e + unat (fileNameLen e) \<le> length buf \<Longrightarrow>
    length (entry_name buf e) = unat (fileNameLen e)"
  by (simp add: entry_name_def)

lemma valid_no_nul: "validFilename name \<Longrightarrow> 0 \<notin> set name"
  by (auto simp: validFilename_def list_all_iff split: if_splits)

lemma valid_short: "validFilename name \<Longrightarrow> length name < PATH_MAX"
  by (auto simp: validFilename_def split: if_splits)

lemma drop_split: "p + n \<le> length b \<Longrightarrow> drop p b = take n (drop p b) @ drop (p + n) b"
  by (metis append_take_drop_id drop_drop add.commute)

lemma name_diff_spec:
  assumes "fileName e + unat (fileNameLen e) \<le> length buf" and "validFilename (entry_name buf e)"
    and "fname + unat len \<le> length buf" and "validFilename (take (unat len) (drop fname buf))"
  shows "\<exists>d. name_diff buf e fname len = Some d \<and>
    (d < 0 \<longleftrightarrow> entry_name buf e < take (unat len) (drop fname buf)) \<and>
    (d = 0 \<longleftrightarrow> entry_name buf e = take (unat len) (drop fname buf))"
proof -
  let ?A = "entry_name buf e" and ?B = "take (unat len) (drop fname buf)"
  have lens: "length ?A = unat (fileNameLen e)" "length ?B = unat len"
    using assms(1,3) by (simp_all add: length_entry_name)
  have ab: "drop (fileName e) buf = ?A @ drop (fileName e + unat (fileNameLen e)) buf"
      "drop fname buf = ?B @ drop (fname + unat len) buf"
    using assms(1,3) drop_split unfolding entry_name_def by blast+
  have small: "unat (fileNameLen e) < 2 ^ 31" "unat len < 2 ^ 31"
    using valid_short [OF assms(2)] valid_short [OF assms(4)] lens by (simp_all add: PATH_MAX_def)
  have min: "unat (if fileNameLen e < len then fileNameLen e else len) = min (length ?A) (length ?B)"
    using lens by (simp add: word_less_nat_alt)
  obtain d where d: "strncmp (drop (fileName e) buf) (drop fname buf) (min (length ?A) (length ?B)) = Some d"
    using strncmp_in [of "min (length ?A) (length ?B)" "drop (fileName e) buf" "drop fname buf"] assms(1,3) lens
    by (force simp: min.coboundedI1 min.coboundedI2)
  have "name_diff buf e fname len = Some (if d = 0 then int (length ?A) - int (length ?B) else d)"
    using d min lens sint_diff_small [OF small] by (simp add: name_diff_def Let_def)
  moreover have d': "strncmp (?A @ drop (fileName e + unat (fileNameLen e)) buf)
      (?B @ drop (fname + unat len) buf) (min (length ?A) (length ?B)) = Some d"
    using d by (simp only: ab [symmetric])
  ultimately show ?thesis
    using strncmp_lex [OF d' valid_no_nul [OF assms(2)]] by blast
qed

text \<open>The binary search keeps the list of entries sorted by name.\<close>

definition sorted_names :: "bytes \<Rightarrow> ZipEntry list \<Rightarrow> bool" where
  "sorted_names buf es \<longleftrightarrow> sorted (map (entry_name buf) es)"

lemma find_target_spec:
  assumes "\<forall>e \<in> set es. entry_ok sal buf e" and "sorted_names buf es"
    and "fname + unat len \<le> length buf" and "validFilename (take (unat len) (drop fname buf))"
  shows "\<exists>t. find_target buf es fname len = Some t \<and> t \<le> length es \<and>
    (\<forall>j < t. entry_name buf (es ! j) \<le> take (unat len) (drop fname buf)) \<and>
    (\<forall>j < length es. t \<le> j \<longrightarrow> take (unat len) (drop fname buf) \<le> entry_name buf (es ! j))"
proof (cases "es = []")
  case True
  then show ?thesis by (simp add: find_target_def)
next
  case False
  let ?nm = "take (unat len) (drop fname buf)"
  have "\<exists>h. bin_search (\<lambda>mid. name_diff buf (es ! mid) fname len) 0 (int (length es) - 1) = Some h \<and>
      -1 \<le> h \<and> h < int (length es) \<and> (\<forall>j. int j \<le> h \<longrightarrow> entry_name buf (es ! j) \<le> ?nm) \<and>
      (\<forall>j < length es. h < int j \<longrightarrow> ?nm \<le> entry_name buf (es ! j))"
  proof (rule bin_search_spec)
    show "\<exists>d. name_diff buf (es ! j) fname len = Some d \<and> (d < 0 \<longleftrightarrow> entry_name buf (es ! j) < ?nm) \<and>
        (d = 0 \<longleftrightarrow> entry_name buf (es ! j) = ?nm)" if "j < length es" for j
      using that assms(1) by (intro name_diff_spec assms(3,4)) (auto simp: entry_ok_def)
    show "entry_name buf (es ! i) \<le> entry_name buf (es ! j)" if "i \<le> j" "j < length es" for i j
      using assms(2) that by (simp add: sorted_names_def sorted_iff_nth_mono)
  qed auto
  then obtain h where h: "bin_search (\<lambda>mid. name_diff buf (es ! mid) fname len) 0 (int (length es) - 1) = Some h"
    "-1 \<le> h" "h < int (length es)" "\<forall>j. int j \<le> h \<longrightarrow> entry_name buf (es ! j) \<le> ?nm"
    "\<forall>j < length es. h < int j \<longrightarrow> ?nm \<le> entry_name buf (es ! j)" by blast
  have run: "find_target buf es fname len = Some (nat (h + 1))"
    using h(1) False by (simp add: find_target_def)
  have "int j \<le> h" if "j < nat (h + 1)" for j using that by linarith
  moreover have "h < int j" if "nat (h + 1) \<le> j" for j using that by linarith
  moreover have "nat (h + 1) \<le> length es" using h(3) by linarith
  ultimately show ?thesis using run h(4,5) by auto
qed

lemma sorted_insert_at:
  assumes "sorted xs" and "n \<le> length xs" and "\<forall>j < n. xs ! j \<le> x" and "\<forall>j < length xs. n \<le> j \<longrightarrow> x \<le> xs ! j"
  shows "sorted (insert_at n x xs)"
proof -
  have "\<forall>y \<in> set (take n xs). y \<le> x"
    using assms(2,3) by (auto simp: in_set_conv_nth)
  moreover have "\<forall>y \<in> set (drop n xs). x \<le> y"
    using assms(4) by (auto simp: in_set_conv_nth)
  moreover have "\<forall>y \<in> set (take n xs). \<forall>z \<in> set (drop n xs). y \<le> z"
    using calculation by (meson order_trans)
  ultimately show ?thesis
    unfolding insert_at_def using assms(1) by (auto simp: sorted_append sorted_wrt_take sorted_wrt_drop)
qed

lemma set_insert_at: "set (insert_at n x xs) = insert x (set xs)"
proof -
  have "set xs = set (take n xs @ drop n xs)" by simp
  then show ?thesis unfolding insert_at_def by (simp del: append_take_drop_id)
qed

lemma map_insert_at: "map f (insert_at n x xs) = insert_at n (f x) (map f xs)"
  by (simp add: insert_at_def take_map drop_map)

lemma length_insert_at [simp]: "length (insert_at n x xs) = Suc (length xs)"
  by (simp add: insert_at_def)

section \<open>Memory safety of the parser\<close>

text \<open>
  The parser stays inside the mapping as long as no local header offset points into the last
  \<open>LOCHDR\<close> bytes of the address space, where \<open>localHdr + LOCHDR\<close> wraps around.
\<close>

definition nowrap :: "u32 \<Rightarrow> bytes \<Rightarrow> bool" where
  "nowrap addr buf \<longleftrightarrow> unat addr + length buf < 2 ^ 32 \<and>
     list_all (\<lambda>p. case get4LE buf p of None \<Rightarrow> True
       | Some v \<Rightarrow> unat addr + unat v < 2 ^ 32 \<longrightarrow> unat addr + unat v + LOCHDR < 2 ^ 32) [0..<length buf]"

lemma nowrapD:
  assumes "nowrap addr buf" and "get4LE buf p = Some v" and "unat addr + unat v < 2 ^ 32"
  shows "unat addr + unat v + LOCHDR < 2 ^ 32"
proof -
  have "p < length buf" using get4_eq_None(1) [of buf p] assms(2) by (cases "p < length buf") auto
  then have "case get4LE buf p of None \<Rightarrow> True
      | Some v \<Rightarrow> unat addr + unat v < 2 ^ 32 \<longrightarrow> unat addr + unat v + LOCHDR < 2 ^ 32"
    using assms(1) by (simp only: nowrap_def list_all_iff set_upt) auto
  then show ?thesis using assms(2,3) by simp
qed

lemma local_header_in:
  assumes "\<And>a b. sap a b \<longleftrightarrow> unat a + unat b < 2 ^ 32" and "nowrap addr buf"
    and "get4LE buf p = Some off" and "sap addr off"
    and "\<not> addr + off + of_nat LOCHDR > addr + of_nat (length buf)"
  shows "unat off + LOCHDR \<le> length buf"
proof -
  have l: "unat addr + length buf < 2 ^ 32" using assms(2) by (simp add: nowrap_def)
  have l2: "length buf < 2 ^ 32" using l by linarith
  have a: "unat addr + unat off < 2 ^ 32" using assms(1,4) by simp
  have "unat addr + unat off + LOCHDR < 2 ^ 32"
    using nowrapD [OF assms(2,3) a] .
  with a have "unat (addr + off + of_nat LOCHDR) = unat addr + unat off + LOCHDR"
    by (simp add: unat_word_ariths LOCHDR_def)
  moreover have "unat (addr + of_nat (length buf)) = unat addr + length buf"
    using l l2 by (simp add: unat_word_ariths unat_of_nat_u32 del: unat_of_nat)
  ultimately show ?thesis using assms(5) by (simp add: word_less_nat_alt not_less)
qed

definition step_ok :: "(u32 \<Rightarrow> u32 \<Rightarrow> bool) \<Rightarrow> bytes \<Rightarrow> ZipEntry list \<Rightarrow> zip_bail + ZipEntry list \<times> nat \<Rightarrow> bool" where
  "step_ok sal buf es r \<longleftrightarrow> (case r of
     Inl err \<Rightarrow> \<not> internal_fault err
   | Inr (es', ptr') \<Rightarrow> (\<forall>e \<in> set es'. entry_ok sal buf e) \<and> sorted_names buf es' \<and> length es' = Suc (length es))"

lemma step_ok_Inl [simp]: "step_ok sal buf es (Inl err) \<longleftrightarrow> \<not> internal_fault err"
  by (simp add: step_ok_def)

lemma insert_ok:
  assumes "\<forall>e \<in> set es. entry_ok sal buf e" and "sorted_names buf es" and "entry_ok sal buf e"
    and "find_target buf es (fileName e) (fileNameLen e) = Some target" and "target \<le> length es"
  shows "step_ok sal buf es (Inr (insert_at target e es, p))"
proof -
  have e: "fileName e + unat (fileNameLen e) \<le> length buf" "validFilename (entry_name buf e)"
    using assms(3) by (simp_all add: entry_ok_def)
  obtain t where "find_target buf es (fileName e) (fileNameLen e) = Some t"
    "\<forall>j < t. entry_name buf (es ! j) \<le> entry_name buf e"
    "\<forall>j < length es. t \<le> j \<longrightarrow> entry_name buf e \<le> entry_name buf (es ! j)"
    using find_target_spec [OF assms(1,2) e(1)] e(2) unfolding entry_name_def by blast
  then have "sorted_names buf (insert_at target e es)"
    using assms(2,4,5) unfolding sorted_names_def map_insert_at by (intro sorted_insert_at) auto
  then show ?thesis using assms(1,3) by (auto simp: step_ok_def set_insert_at)
qed


lemma parse_entry_returns:
  assumes sap: "\<And>a b. sap a b \<longleftrightarrow> unat a + unat b < 2 ^ 32" and nw: "nowrap addr buf"
    and es: "\<forall>e \<in> set es. entry_ok sal buf e" "sorted_names buf es"
  shows "returns (parse_entry sap sal addr buf es ptr) (step_ok sal buf es)"
proof -
  have target: "\<exists>t. find_target buf es p (ucast (n :: u16)) = Some t \<and> t \<le> length es"
    if "\<not> length buf < p + unat n" "validFilename (take (unat n) (drop p buf))" for p n
    using find_target_spec [OF es, of p "ucast n"] that by auto
  have local: "unat off + 30 \<le> length buf"
    if "get4LE buf p = Some off" "sap addr off" "\<not> addr + of_nat (length buf) < addr + off + 30" for p off
    using local_header_in [OF sap nw that(1,2)] that(3) by (simp add: LOCHDR_def)
  show ?thesis
    unfolding parse_entry_def
    apply (intro returns_rules)
                        apply (simp_all add: returns_true zip_consts)
    subgoal using target by fastforce
    subgoal using target by fastforce
    subgoal for i sig off nameLen extraLen commentLen fname target by (frule (2) local) linarith
    subgoal for i sig off nameLen extraLen commentLen fname target by (frule (2) local) linarith
    subgoal for i sig off nameLen extraLen commentLen fname target by (frule (2) local) linarith
    subgoal by (rule insert_ok [OF es]) (simp_all add: entry_ok_def entry_name_def)
    done
qed

lemma parse_entries_returns:
  assumes sap: "\<And>a b. sap a b \<longleftrightarrow> unat a + unat b < 2 ^ 32" and nw: "nowrap addr buf"
    and es: "\<forall>e \<in> set es. entry_ok sal buf e" "sorted_names buf es"
  shows "returns (parse_entries (parse_entry sap sal addr buf) n es ptr)
    (\<lambda>r. case r of Inl err \<Rightarrow> \<not> internal_fault err
       | Inr es' \<Rightarrow> (\<forall>e \<in> set es'. entry_ok sal buf e) \<and> sorted_names buf es' \<and> length es' = length es + n)"
  using es
proof (induction n arbitrary: es ptr)
  case 0
  then show ?case by (simp add: returns_def)
next
  case (Suc n)
  from parse_entry_returns [OF sap nw Suc.prems]
  obtain r where r: "parse_entry sap sal addr buf es ptr = Some r" "step_ok sal buf es r"
    by (auto simp: returns_def)
  show ?case
  proof (cases r)
    case (Inr x)
    then show ?thesis
      using r Suc.IH [of "fst x" "snd x"] by (cases x) (auto simp: step_ok_def elim!: returns_mono split: sum.splits)
  qed (use r in \<open>simp add: returns_def\<close>)
qed

lemma find_eocd_returns:
  assumes "ptr + 4 \<le> length buf"
  shows "returns (find_eocd buf ptr) (\<lambda>r. case r of None \<Rightarrow> True
    | Some p \<Rightarrow> p \<le> ptr \<and> get4LE buf p = Some ENDSIG)"
  using assms
proof (induction ptr)
  case 0
  then show ?case
    by (subst find_eocd.simps) (auto intro!: returns_rules simp: returns_true bind_eq_Some_conv split: if_splits)
next
  case (Suc p)
  then show ?case
    by (subst find_eocd.simps)
      (auto intro!: returns_rules simp: returns_true bind_eq_Some_conv elim!: returns_mono split: option.splits if_splits)
qed

section \<open>The index of the names\<close>

text \<open>The hash table holds indices of entries, keyed by the entries' names.\<close>

definition index_ok :: "bytes \<Rightarrow> ZipEntry list \<Rightarrow> nat HashTable \<Rightarrow> bool" where
  "index_ok buf es t \<longleftrightarrow> (\<forall>e \<in> set es. fileName e + unat (fileNameLen e) \<le> length buf) \<and>
     keyed_ok computeHash (\<lambda>p. entry_name buf (es ! p)) t \<and>
     (\<forall>(h, p) \<in> set (items (pEntries t)). p < length es)"

definition index_room :: "nat HashTable \<Rightarrow> nat" where
  "index_room t = tableSize t * LOAD_NUMER div LOAD_DENOM - occupied (pEntries t)"

lemma index_room_pos: "0 < index_room t \<Longrightarrow> fits t"
  unfolding index_room_def fits_def load_defs
  by (simp add: zero_less_diff less_eq_div_iff_mult_less_eq Suc_le_eq [symmetric])

lemma cmp_entry:
  assumes "fileName e1 + unat (fileNameLen e1) \<le> length buf" "fileName e2 + unat (fileNameLen e2) \<le> length buf"
  shows "cmp_or (hashcmpZipEntry buf e1 e2) = 0 \<longleftrightarrow> entry_name buf e1 = entry_name buf e2"
proof (cases "fileNameLen e1 = fileNameLen e2")
  case True
  then obtain d where d: "memcmp (drop (fileName e1) buf) (drop (fileName e2) buf) (unat (fileNameLen e1)) = Some d"
    using memcmp_in [of "unat (fileNameLen e1)" "drop (fileName e1) buf" "drop (fileName e2) buf"] assms
    by (auto simp: le_diff_conv2)
  with True memcmp_zero [OF d] show ?thesis
    by (simp add: hashcmpZipEntry_def cmp_or_def entry_name_def)
next
  case False
  then have "length (entry_name buf e1) \<noteq> length (entry_name buf e2)"
    using assms by (simp add: length_entry_name word_unat_eq_iff)
  then have "entry_name buf e1 \<noteq> entry_name buf e2" by auto
  moreover have "sint (fileNameLen e1 - fileNameLen e2) \<noteq> 0"
    using False by (metis right_minus_eq signed_eq_0_iff)
  ultimately show ?thesis using False by (simp add: hashcmpZipEntry_def cmp_or_def)
qed

lemma cmp_name:
  assumes "fileName e + unat (fileNameLen e) \<le> length buf" "length name < 2 ^ 32"
  shows "cmp_or (hashcmpZipName buf e name) = 0 \<longleftrightarrow> entry_name buf e = name"
proof (cases "fileNameLen e = of_nat (length name)")
  case True
  then have l: "unat (fileNameLen e) = length name" using assms(2) by (simp del: unat_of_nat)
  then obtain d where d: "memcmp (drop (fileName e) buf) name (length name) = Some d"
    using memcmp_in [of "length name" "drop (fileName e) buf" name] assms
    by (auto simp: le_diff_conv2)
  with True l memcmp_zero [OF d] assms(2) show ?thesis
    by (simp add: hashcmpZipName_def cmp_or_def entry_name_def Let_def del: unat_of_nat)
next
  case False
  then have "entry_name buf e \<noteq> name" using length_entry_name [OF assms(1)] by auto
  moreover have "sint (fileNameLen e - of_nat (length name)) \<noteq> 0"
    using False by (metis right_minus_eq signed_eq_0_iff)
  ultimately show ?thesis using False by (simp add: hashcmpZipName_def cmp_or_def Let_def)
qed

lemma index_add_absent:
  assumes ok: "index_ok buf es t" and p: "p < length es"
    and none: "hash_assoc (\<lambda>p. entry_name buf (es ! p)) t (entry_name buf (es ! p)) = None"
    and room: "0 < index_room t"
  shows "\<exists>t'. addEntryToHashTable calloc buf es t p = Some (Inr t') \<and> index_ok buf es t' \<and>
    index_room t \<le> index_room t' + 1 \<and>
    hash_assoc (\<lambda>p. entry_name buf (es ! p)) t' =
      (hash_assoc (\<lambda>p. entry_name buf (es ! p)) t)(entry_name buf (es ! p) \<mapsto> p)"
proof -
  have fits: "fits t" using index_room_pos [OF room] .
  have "\<forall>(h, d) \<in> set (items (pEntries t)).
      cmp_or (hashcmpZipEntry buf (es ! d) (es ! p)) = 0 \<longleftrightarrow> entry_name buf (es ! d) = entry_name buf (es ! p)"
    using ok p by (auto intro!: cmp_entry simp: index_ok_def)
  from keyed_add_absent [where cmp = "\<lambda>p1 p2. cmp_or (hashcmpZipEntry buf (es ! p1) (es ! p2))" and item = p
      and cast = "\<lambda>p. p" and calloc = calloc and hash = computeHash, OF _ this none] ok fits
  obtain t' where t': "mzHashTableLookup calloc (\<lambda>p. p) t (computeHash (entry_name buf (es ! p))) p
        (\<lambda>p1 p2. cmp_or (hashcmpZipEntry buf (es ! p1) (es ! p2))) True = Some (Inr (Ptr p, t'))"
    "keyed_ok computeHash (\<lambda>p. entry_name buf (es ! p)) t'"
    "hash_assoc (\<lambda>p. entry_name buf (es ! p)) t' =
      (hash_assoc (\<lambda>p. entry_name buf (es ! p)) t)(entry_name buf (es ! p) \<mapsto> p)"
    "set (items (pEntries t')) = insert (computeHash (entry_name buf (es ! p)), p) (set (items (pEntries t)))"
    "tableSize t' = tableSize t" "occupied (pEntries t') = occupied (pEntries t) + 1"
    by (auto simp: index_ok_def)
  have "index_ok buf es t'" using ok t'(2,4) p by (auto simp: index_ok_def)
  moreover have "index_room t \<le> index_room t' + 1" using t'(5,6) by (simp add: index_room_def)
  ultimately show ?thesis using t'(1,3) by (simp add: addEntryToHashTable_def)
qed

lemma index_add_present:
  assumes ok: "index_ok buf es t" and p: "p < length es"
    and d: "hash_assoc (\<lambda>p. entry_name buf (es ! p)) t (entry_name buf (es ! p)) = Some d"
  shows "addEntryToHashTable calloc buf es t p = Some (Inr t)"
proof -
  have "\<forall>(h, d) \<in> set (items (pEntries t)).
      cmp_or (hashcmpZipEntry buf (es ! d) (es ! p)) = 0 \<longleftrightarrow> entry_name buf (es ! d) = entry_name buf (es ! p)"
    using ok p by (auto intro!: cmp_entry simp: index_ok_def)
  from keyed_add_present [where cmp = "\<lambda>p1 p2. cmp_or (hashcmpZipEntry buf (es ! p1) (es ! p2))" and item = p
      and cast = "\<lambda>p. p" and calloc = calloc, OF _ this d] ok
  show ?thesis by (simp add: addEntryToHashTable_def index_ok_def)
qed

lemma index_lookup:
  assumes ok: "index_ok buf es t" and name: "length name < 2 ^ 32"
  shows "mzFindZipEntry \<lparr>arcEntries = es, arcHash = t, arcMap = buf\<rparr> name =
    Some (Inr (case hash_assoc (\<lambda>p. entry_name buf (es ! p)) t name of None \<Rightarrow> NULL | Some p \<Rightarrow> Ptr p))"
proof -
  have "\<forall>(h, d) \<in> set (items (pEntries t)).
      cmp_or (hashcmpZipName buf (es ! d) name) = 0 \<longleftrightarrow> entry_name buf (es ! d) = name"
    using ok name by (auto intro!: cmp_name simp: index_ok_def)
  from keyed_lookup [where cmp = "\<lambda>p name. cmp_or (hashcmpZipName buf (es ! p) name)" and item = name
      and cast = "\<lambda>_. 0" and calloc = "\<lambda>_. False", OF _ this] ok
  show ?thesis by (simp add: mzFindZipEntry_def index_ok_def)
qed

interpretation zip_index: name_index "index_ok buf es" index_room "\<lambda>p. entry_name buf (es ! p)"
    "\<lambda>p. p < length es" "\<lambda>name. length name < 2 ^ 32" "hash_assoc (\<lambda>p. entry_name buf (es ! p))"
    NULL Ptr "\<lambda>t. mzFindZipEntry \<lparr>arcEntries = es, arcHash = t, arcMap = buf\<rparr>"
    "addEntryToHashTable calloc buf es" for buf es calloc
  by unfold_locales (rule index_lookup index_add_present index_add_absent; assumption)+

section \<open>Parsing an archive\<close>

text \<open>What a parsed archive promises to the functions that use it.\<close>

definition archive_ok :: "(u32 \<Rightarrow> u32 \<Rightarrow> bool) \<Rightarrow> ZipArchive \<Rightarrow> bool" where
  "archive_ok sal arc \<longleftrightarrow> (\<forall>e \<in> set (arcEntries arc). entry_ok sal (arcMap arc) e) \<and>
     sorted_names (arcMap arc) (arcEntries arc) \<and> index_ok (arcMap arc) (arcEntries arc) (arcHash arc) \<and>
     (\<forall>name. length name < 2 ^ 32 \<longrightarrow> mzFindZipEntry arc name =
       Some (Inr (case List.find (\<lambda>p. entry_name (arcMap arc) (arcEntries arc ! p) = name) [0..<length (arcEntries arc)]
                  of None \<Rightarrow> NULL | Some p \<Rightarrow> Ptr p)))"

lemma sorted_names_Nil: "sorted_names buf []"
  by (simp add: sorted_names_def)

lemma created_room:
  assumes "mzHashTableCreate calloc (of_nat (mzHashSize n)) False = Inr (Some t)" and "n < 2 ^ 16"
  shows "keyed_ok hash key t \<and> items (pEntries t) = [] \<and> n \<le> index_room t"
proof -
  have s: "mzHashSize n < 2 ^ 31" "0 < mzHashSize n" using assms(2) by (simp_all add: mzHashSize_def load_defs)
  then have "unat (of_nat (mzHashSize n) :: u32) = mzHashSize n" by simp
  from create_ok [OF _ _ assms(1), unfolded this] s
  have t: "hash_ok t" "items (pEntries t) = []" "mzHashSize n \<le> tableSize t" "occupied (pEntries t) = 0" by simp_all
  then have "n * LOAD_DENOM \<le> tableSize t * LOAD_NUMER" unfolding mzHashSize_def load_defs by linarith
  then show ?thesis using t by (simp add: keyed_ok_def index_room_def load_defs less_eq_div_iff_mult_less_eq)
qed

lemma add_entries_ok:
  assumes es: "\<forall>e \<in> set es. entry_ok sal buf e" "sorted_names buf es" and n: "length es < 2 ^ 16"
    and t: "mzHashTableCreate calloc (of_nat (mzHashSize (length es))) False = Inr (Some t)"
  shows "\<exists>t'. add_entries calloc' buf es t = Some (Inr t') \<and>
    archive_ok sal \<lparr>arcEntries = es, arcHash = t', arcMap = buf\<rparr>"
proof -
  have t0: "index_ok buf es t" "length [0..<length es] \<le> index_room t" "items (pEntries t) = []"
    using created_room [OF t n, of computeHash "\<lambda>p. entry_name buf (es ! p)"] es(1)
    by (auto simp: index_ok_def entry_ok_def)
  obtain t' where t': "add_entries calloc' buf es t = Some (Inr t')" "index_ok buf es t'"
    "\<And>name. length name < 2 ^ 32 \<Longrightarrow> mzFindZipEntry \<lparr>arcEntries = es, arcHash = t', arcMap = buf\<rparr> name =
       Some (Inr (case List.find (\<lambda>p. entry_name buf (es ! p) = name) [0..<length es]
                  of None \<Rightarrow> NULL | Some p \<Rightarrow> Ptr p))"
    using zip_index.lookup_after_add_all [OF t0(1,2), of calloc'] t0(3)
    unfolding add_entries_def by (auto simp: hash_assoc_None)
  then show ?thesis using es by (auto simp: archive_ok_def)
qed

lemma parseZipArchive_returns:
  assumes sap: "\<And>a b. sap a b \<longleftrightarrow> unat a + unat b < 2 ^ 32" and nw: "nowrap addr buf"
    and len: "ENDHDR \<le> length buf"
  shows "returns (parseZipArchive calloc sap sal addr buf)
    (\<lambda>r. case r of Inl err \<Rightarrow> \<not> internal_fault err
       | Inr arc \<Rightarrow> archive_ok sal arc \<and> arcMap arc = buf \<and> arcEntries arc \<noteq> [])"
proof -
  have "returns (find_eocd buf (length buf - ENDHDR)) (\<lambda>r. case r of None \<Rightarrow> True
      | Some p \<Rightarrow> p \<le> length buf - ENDHDR \<and> get4LE buf p = Some ENDSIG)"
    using len by (intro find_eocd_returns) (simp add: ENDHDR_def)
  then have eocd: "\<exists>r. find_eocd buf (length buf - ENDHDR) = Some r"
    "find_eocd buf (length buf - ENDHDR) = Some (Some p) \<Longrightarrow> p + ENDHDR \<le> length buf" for p
    using len by (auto simp: returns_def)
  have entries: "returns (parse_entries (parse_entry sap sal addr buf) n [] ptr)
    (\<lambda>r. case r of Inl err \<Rightarrow> \<not> internal_fault err
       | Inr es' \<Rightarrow> (\<forall>e \<in> set es'. entry_ok sal buf e) \<and> sorted_names buf es' \<and> length es' = n)" for n ptr
    using parse_entries_returns [OF sap nw, of "[]" sal n ptr] sorted_names_Nil by simp
  have create: "mzHashTableCreate calloc (of_nat (mzHashSize (unat n))) False \<noteq> Inl err" for n :: u16 and err
  proof -
    have "unat n < 2 ^ 16" using unsigned_less [of n, where 'a = nat] by simp
    then have "mzHashSize (unat n) < 2 ^ 32" "0 < mzHashSize (unat n)" by (simp_all add: mzHashSize_def load_defs)
    then have "(of_nat (mzHashSize (unat n)) :: u32) \<noteq> 0" by (metis unat_of_nat_u32 unat_0 less_irrefl)
    then show ?thesis by (simp add: mzHashTableCreate_def Let_def)
  qed
  have added: "\<exists>t. add_entries calloc buf es pHash = Some (Inr t) \<and> es \<noteq> [] \<and>
      archive_ok sal \<lparr>arcEntries = es, arcHash = t, arcMap = buf\<rparr>"
    if "parse_entries (parse_entry sap sal addr buf) (unat n) [] ptr = Some (Inr es)" "n \<noteq> 0"
      "mzHashTableCreate calloc (of_nat (mzHashSize (unat n))) False = Inr (Some pHash)"
    for n :: u16 and ptr es pHash
  proof -
    have es: "\<forall>e \<in> set es. entry_ok sal buf e" "sorted_names buf es" "length es = unat n"
      using returnsD [OF entries that(1)] by simp_all
    moreover have "unat n < 2 ^ 16" using unsigned_less [of n, where 'a = nat] by simp
    moreover have "es \<noteq> []" using es(3) that(2) by (auto simp: unat_eq_0)
    ultimately show ?thesis using add_entries_ok [OF es(1,2)] that(3) by simp
  qed
  show ?thesis
    unfolding parseZipArchive_def
    apply (intro returns_rules)
                   apply (simp_all add: returns_true create)
    subgoal using len by (simp add: ENDHDR_def)
    subgoal using eocd(1) by simp
    subgoal using eocd(2) by (fastforce simp: zip_consts)
    subgoal using eocd(2) by (fastforce simp: zip_consts)
    subgoal using returns_defined [OF entries] by simp
    subgoal using returnsD [OF entries] by fastforce
    subgoal by (frule (1) added [rotated 2]) auto
    subgoal by (frule (1) added [rotated 2]) auto
    subgoal by (frule (1) added [rotated 2]) auto
    done
qed

section \<open>A sample archive\<close>

text \<open>
  Two additions with an overflow check, as \<open>safe_iop\<close> documents them, and an archive at
  address 4096 with the entries \<open>b\<close> and \<open>a\<close> (in this order) that share a local header.
\<close>

definition no_overflow :: "u32 \<Rightarrow> u32 \<Rightarrow> bool" where
  "no_overflow a b \<longleftrightarrow> unat a + unat b < 2 ^ 32"

definition no_signed_overflow :: "u32 \<Rightarrow> u32 \<Rightarrow> bool" where
  "no_signed_overflow a b \<longleftrightarrow> - (2 ^ 31) \<le> sint a + sint b \<and> sint a + sint b < 2 ^ 31"

definition sample_archive :: bytes where
  "sample_archive =
     [80, 75, 3, 4, 0, 0, 0, 0, 0, 0, 0, 0, 0, 0, 0, 0, 0, 0, 0, 0, 0, 0, 0, 0, 0, 0, 1, 0, 0, 0,
      97, 7, 80, 75, 1, 2, 0, 3, 0, 0, 0, 0, 0, 0, 0, 0, 0, 0, 67, 190, 183, 232, 1, 0, 0, 0, 1,
      0, 0, 0, 1, 0, 0, 0, 0, 0, 0, 0, 0, 0, 0, 0, 0, 0, 0, 0, 0, 0, 98, 80, 75, 1, 2, 0, 3, 0,
      0, 0, 0, 0, 0, 0, 0, 0, 0, 67, 190, 183, 232, 1, 0, 0, 0, 1, 0, 0, 0, 1, 0, 0, 0, 0, 0, 0,
      0, 0, 0, 0, 0, 0, 0, 0, 0, 0, 0, 97, 80, 75, 5, 6, 0, 0, 0, 0, 2, 0, 2, 0, 0, 0, 0, 0, 32,
      0, 0, 0, 0, 0]"

definition sample_entry :: ZipEntry where
  "sample_entry = \<lparr>fileNameLen = 1, fileName = 78, offset = 31, compLen = 1, uncompLen = 1,
    compression = 0, modTime = 0, crc32 = 0xE8B7BE43, versionMadeBy = 0x0300,
    externalFileAttributes = 0\<rparr>"

lemmas parse_simps = parse_entry_def get4LE_def get2LE_def rd_def validFilename_def PATH_MAX_def
  zip_consts CENSIG_def LOCSIG_def ENDSIG_def CENVEM_UNIX_def no_overflow_def no_signed_overflow_def

lemma sample_nowrap: "nowrap 4096 sample_archive"
proof -
  have "255 \<notin> set sample_archive" by (simp add: sample_archive_def)
  then have "case get4LE sample_archive p of None \<Rightarrow> True
       | Some v \<Rightarrow> unat (4096 :: u32) + unat v < 2 ^ 32 \<longrightarrow> unat (4096 :: u32) + unat v + LOCHDR < 2 ^ 32" for p
    using get4LE_no_ff [of sample_archive p] by (fastforce simp: LOCHDR_def split: option.splits)
  then show ?thesis unfolding nowrap_def list_all_iff by (simp add: sample_archive_def)
qed

lemma sample_parts:
  "get4LE sample_archive 0 = Some LOCSIG"
  "find_eocd sample_archive (length sample_archive - ENDHDR) = Some (Some 126)"
  "get2LE sample_archive (126 + ENDSUB) = Some 2" "get4LE sample_archive (126 + ENDOFF) = Some 32"
  "ENDHDR \<le> length sample_archive" "length sample_archive = 148"
proof -
  show len: "length sample_archive = 148" by (simp add: sample_archive_def)
  show "find_eocd sample_archive (length sample_archive - ENDHDR) = Some (Some 126)"
    unfolding len by (simp add: ENDHDR_def) (subst find_eocd.simps, simp add: parse_simps sample_archive_def)
qed (simp_all add: parse_simps sample_archive_def)

lemma sample_parse_b:
  "parse_entry no_overflow no_signed_overflow 4096 sample_archive [] 32 = Some (Inr ([sample_entry], 79))"
  by (simp add: parse_simps sample_archive_def find_target_def insert_at_def sample_entry_def)

lemma sample_parse_a:
  "parse_entry no_overflow no_signed_overflow 4096 sample_archive [sample_entry] 79 =
     Some (Inr ([sample_entry\<lparr>fileName := 125\<rparr>, sample_entry], 126))"
  by (simp add: parse_simps sample_archive_def find_target_def insert_at_def sample_entry_def
      bin_search.simps name_diff_def Let_def)

lemma sample_parses:
  "\<exists>t. parseZipArchive (\<lambda>_. True) no_overflow no_signed_overflow 4096 sample_archive =
    Some (Inr \<lparr>arcEntries = [sample_entry\<lparr>fileName := 125\<rparr>, sample_entry], arcHash = t, arcMap = sample_archive\<rparr>)"
proof -
  let ?es = "[sample_entry\<lparr>fileName := 125\<rparr>, sample_entry]"
  have es: "parse_entries (parse_entry no_overflow no_signed_overflow 4096 sample_archive) (unat (2 :: u16)) [] 32 =
      Some (Inr ?es)"
  proof -
    have "unat (2 :: u16) = Suc (Suc 0)" by simp
    then show ?thesis by (simp only: parse_entries.simps sample_parse_b sample_parse_a option.case sum.case prod.case)
  qed
  have ok: "\<forall>e \<in> set ?es. entry_ok no_signed_overflow sample_archive e" "sorted_names sample_archive ?es"
    using parse_entries_returns [of no_overflow 4096 sample_archive "[]" no_signed_overflow 2 32]
      sample_nowrap sorted_names_Nil es
    by (simp_all add: no_overflow_def returns_def)
  obtain t :: "nat HashTable" where t: "mzHashTableCreate (\<lambda>_. True) (of_nat (mzHashSize 2)) False = Inr (Some t)"
    by (simp add: mzHashTableCreate_def mzHashSize_def load_defs Let_def calloc_slots_def SLOT_BYTES_def roundUpPower2_def)
  then obtain t' where "add_entries (\<lambda>_. True) sample_archive ?es t = Some (Inr t')"
  proof -
    have "length ?es = 2" "length ?es < 2 ^ 16" by simp_all
    with t add_entries_ok [OF ok, of "\<lambda>_. True" t] that show ?thesis by metis
  qed
  with es t show ?thesis
    by (simp add: parseZipArchive_def sample_parts(1,3,4,6) sample_parts(2) [unfolded sample_parts(6)]
      LOCSIG_def ENDSIG_def)
qed

section \<open>Properties\<close>

text \<open>
  C7: parsing an archive is memory safe for every content of the mapping: if the mapping is at
  least as long as an end record (what \<open>mzOpenZipArchive\<close> checks) and no offset in it points
  into the last \<open>LOCHDR\<close> bytes of the address space, then no read leaves the mapping, the
  searches and the hash table's probes end, and neither an assertion nor the table's abort is
  reached, whether or not allocations fail.
\<close>

theorem parseZipArchive_safe:
  assumes "\<And>a b. safe_add_ptr a b \<longleftrightarrow> unat a + unat b < 2 ^ 32" and "nowrap addr buf"
    and "ENDHDR \<le> length buf"
  shows "\<exists>r. parseZipArchive calloc safe_add_ptr safe_add_long addr buf = Some r \<and>
    (\<forall>err. r = Inl err \<longrightarrow> \<not> internal_fault err)"
  using parseZipArchive_returns [OF assms, of calloc safe_add_long] by (auto simp: returns_def)

theorem parseZipArchive_safe_witness:
  "\<exists>r. parseZipArchive (\<lambda>_. True) no_overflow no_signed_overflow 4096 sample_archive = Some r \<and>
    (\<forall>err. r = Inl err \<longrightarrow> \<not> internal_fault err)"
  using parseZipArchive_safe [of no_overflow 4096 sample_archive] sample_nowrap sample_parts
  by (simp add: no_overflow_def)

text \<open>
  C8: what a successful parse establishes: every entry's name lies in the mapping and is
  printable, every entry passed both range checks on its data, the entries are in the
  lexicographic order of their names, there is at least one, and the hash table indexes them: looking
  up the name of any entry gives an entry of that name.
\<close>

theorem parseZipArchive_sorted:
  assumes "\<And>a b. safe_add_ptr a b \<longleftrightarrow> unat a + unat b < 2 ^ 32" and "nowrap addr buf"
    and "ENDHDR \<le> length buf"
    and "parseZipArchive calloc safe_add_ptr safe_add_long addr buf = Some (Inr arc)"
  shows "list_all (entry_ok safe_add_long buf) (arcEntries arc) \<and>
    sorted (map (entry_name buf) (arcEntries arc)) \<and> arcEntries arc \<noteq> [] \<and>
    list_all (\<lambda>e. \<exists>i. mzFindZipEntry arc (entry_name buf e) = Some (Inr (Ptr i)) \<and> i < length (arcEntries arc) \<and>
      entry_name buf (arcEntries arc ! i) = entry_name buf e) (arcEntries arc)"
proof -
  have ok: "archive_ok safe_add_long arc" "arcMap arc = buf" "arcEntries arc \<noteq> []"
    using returnsD [OF parseZipArchive_returns [OF assms(1-3)] assms(4)] by simp_all
  have "\<exists>i. mzFindZipEntry arc (entry_name buf e) = Some (Inr (Ptr i)) \<and> i < length (arcEntries arc) \<and>
      entry_name buf (arcEntries arc ! i) = entry_name buf e" if e: "e \<in> set (arcEntries arc)" for e
  proof -
    have "validFilename (entry_name buf e)" using ok(1,2) e by (auto simp: archive_ok_def entry_ok_def)
    then have "length (entry_name buf e) < 2 ^ 32" using valid_short by (fastforce simp: PATH_MAX_def)
    then have found: "mzFindZipEntry arc (entry_name buf e) = Some (Inr (case List.find
        (\<lambda>p. entry_name buf (arcEntries arc ! p) = entry_name buf e) [0..<length (arcEntries arc)] of None \<Rightarrow> NULL | Some p \<Rightarrow> Ptr p))"
      using ok(1,2) by (simp add: archive_ok_def)
    obtain j where "j < length (arcEntries arc)" "arcEntries arc ! j = e" using e by (auto simp: in_set_conv_nth)
    then have "List.find (\<lambda>p. entry_name buf (arcEntries arc ! p) = entry_name buf e) [0..<length (arcEntries arc)] \<noteq> None"
      by (auto simp: find_None_iff)
    then obtain i where i: "List.find (\<lambda>p. entry_name buf (arcEntries arc ! p) = entry_name buf e) [0..<length (arcEntries arc)] = Some i"
      by blast
    then have "mzFindZipEntry arc (entry_name buf e) = Some (Inr (Ptr i))" using found by simp
    moreover have "i < length (arcEntries arc)" "entry_name buf (arcEntries arc ! i) = entry_name buf e"
      using i by (auto simp: find_Some_iff)
    ultimately show ?thesis by blast
  qed
  then show ?thesis using ok by (auto simp: archive_ok_def sorted_names_def list_all_iff)
qed

theorem parseZipArchive_sorted_witness:
  "\<exists>arc. parseZipArchive (\<lambda>_. True) no_overflow no_signed_overflow 4096 sample_archive = Some (Inr arc) \<and>
    sorted (map (entry_name sample_archive) (arcEntries arc)) \<and> length (arcEntries arc) = 2 \<and>
    list_all (\<lambda>e. \<exists>i. mzFindZipEntry arc (entry_name sample_archive e) = Some (Inr (Ptr i)) \<and> i < length (arcEntries arc) \<and>
      entry_name sample_archive (arcEntries arc ! i) = entry_name sample_archive e) (arcEntries arc)"
proof -
  obtain t where t: "parseZipArchive (\<lambda>_. True) no_overflow no_signed_overflow 4096 sample_archive =
      Some (Inr \<lparr>arcEntries = [sample_entry\<lparr>fileName := 125\<rparr>, sample_entry], arcHash = t, arcMap = sample_archive\<rparr>)"
    using sample_parses by blast
  then show ?thesis using parseZipArchive_sorted [OF _ sample_nowrap sample_parts(5) t]
    by (intro exI [of _ "\<lparr>arcEntries = [sample_entry\<lparr>fileName := 125\<rparr>, sample_entry], arcHash = t, arcMap = sample_archive\<rparr>"])
      (simp add: no_overflow_def)
qed

text \<open>
  C9: after a successful parse \<open>mzFindZipEntry\<close> decides membership of a name: it returns the
  first entry of that name in the sorted entries, and \<open>NULL\<close> exactly when no entry has it;
  the look-up ends and reports no fault of the table.
\<close>

theorem mzFindZipEntry_first:
  assumes "\<And>a b. safe_add_ptr a b \<longleftrightarrow> unat a + unat b < 2 ^ 32" and "nowrap addr buf"
    and "ENDHDR \<le> length buf"
    and "parseZipArchive calloc safe_add_ptr safe_add_long addr buf = Some (Inr arc)"
    and "length name < 2 ^ 32"
  shows "mzFindZipEntry arc name =
    Some (Inr (case List.find (\<lambda>p. entry_name buf (arcEntries arc ! p) = name) [0..<length (arcEntries arc)]
               of None \<Rightarrow> NULL | Some p \<Rightarrow> Ptr p))"
  using returnsD [OF parseZipArchive_returns [OF assms(1-3)] assms(4)] assms(5)
  by (auto simp: archive_ok_def)

theorem mzFindZipEntry_first_witness:
  "\<exists>arc. parseZipArchive (\<lambda>_. True) no_overflow no_signed_overflow 4096 sample_archive = Some (Inr arc) \<and>
    mzFindZipEntry arc [98] = Some (Inr (Ptr 1)) \<and> length [98 :: u8] < 2 ^ 32"
proof -
  obtain t where t: "parseZipArchive (\<lambda>_. True) no_overflow no_signed_overflow 4096 sample_archive =
      Some (Inr \<lparr>arcEntries = [sample_entry\<lparr>fileName := 125\<rparr>, sample_entry], arcHash = t, arcMap = sample_archive\<rparr>)"
    using sample_parses by blast
  have names: "entry_name sample_archive (sample_entry\<lparr>fileName := 125\<rparr>) = [97]"
    "entry_name sample_archive sample_entry = [98]"
    by (simp_all add: entry_name_def sample_entry_def sample_archive_def)
  have "List.find (\<lambda>p. entry_name sample_archive ([sample_entry\<lparr>fileName := 125\<rparr>, sample_entry] ! p) = [98])
      [0..<Suc (Suc 0)] = Some 1"
    by (simp add: names)
  with mzFindZipEntry_first [OF _ sample_nowrap sample_parts(5) t, of "[98]"] t show ?thesis
    by (simp add: no_overflow_def del: upt_Suc)
qed

lemma checked_data_inside:
  assumes "\<And>a b. safe_add_long a b \<Longrightarrow> sint a + sint b < 2 ^ 31"
    and "entry_ok safe_add_long buf e" and "length buf < 2 ^ 32"
    and "0 \<le> sint (offset e)" and "0 \<le> sint (compLen e)"
  shows "unat (offset e) + unat (compLen e) \<le> length buf"
proof -
  have o: "sint (offset e) = int (unat (offset e))" and c: "sint (compLen e) = int (unat (compLen e))"
    using sint_nonneg assms(4,5) by blast+
  have "safe_add_long (offset e) (compLen e)" "offset e + compLen e \<le> of_nat (length buf)"
    using assms(2) by (simp_all add: entry_ok_def)
  with assms(1) [of "offset e" "compLen e"] have "int (unat (offset e) + unat (compLen e)) < 2 ^ 31"
    unfolding o c by (simp only: of_nat_add)
  then have "unat (offset e) + unat (compLen e) < 2 ^ 31" by (simp only: of_nat_less_iff [symmetric, where 'a = int] of_nat_power of_nat_numeral)
  then have "unat (offset e) + unat (compLen e) < 2 ^ 32" by simp
  then have "unat (offset e + compLen e) = unat (offset e) + unat (compLen e)"
    by (simp add: unat_word_ariths)
  then show ?thesis
    using \<open>offset e + compLen e \<le> of_nat (length buf)\<close> assms(3) by (simp add: word_le_nat_alt)
qed

text \<open>
  C36: after a successful parse the compressed data of every entry lie inside the mapping, provided the
  entry's offset and compressed length are not negative as \<open>long\<close>s: the two range checks of
  \<open>parseZipArchive\<close> suffice for that, by what \<open>safe_iop\<close> promises.
\<close>

theorem entry_data_in_mapping:
  assumes "\<And>a b. safe_add_ptr a b \<longleftrightarrow> unat a + unat b < 2 ^ 32" and "\<And>a b. safe_add_long a b \<Longrightarrow> sint a + sint b < 2 ^ 31"
    and "nowrap addr buf" and "ENDHDR \<le> length buf"
    and "parseZipArchive calloc safe_add_ptr safe_add_long addr buf = Some (Inr arc)"
    and "e \<in> set (arcEntries arc)" and "0 \<le> sint (offset e)" and "0 \<le> sint (compLen e)"
  shows "unat (offset e) + unat (compLen e) \<le> length buf"
proof (rule checked_data_inside [OF assms(2) _ _ assms(7,8)])
  show "entry_ok safe_add_long buf e"
    using returnsD [OF parseZipArchive_returns [OF assms(1,3,4)] assms(5)] assms(6) by (auto simp: archive_ok_def)
  show "length buf < 2 ^ 32" using assms(3) by (simp add: nowrap_def)
qed

theorem entry_data_in_mapping_witness:
  "\<exists>arc. parseZipArchive (\<lambda>_. True) no_overflow no_signed_overflow 4096 sample_archive = Some (Inr arc) \<and>
    sample_entry \<in> set (arcEntries arc) \<and> unat (offset sample_entry) + unat (compLen sample_entry) \<le> length sample_archive"
proof -
  obtain t where t: "parseZipArchive (\<lambda>_. True) no_overflow no_signed_overflow 4096 sample_archive =
      Some (Inr \<lparr>arcEntries = [sample_entry\<lparr>fileName := 125\<rparr>, sample_entry], arcHash = t, arcMap = sample_archive\<rparr>)"
    using sample_parses by blast
  have "unat (offset sample_entry) + unat (compLen sample_entry) \<le> length sample_archive"
    by (rule entry_data_in_mapping [OF _ _ sample_nowrap sample_parts(5) t])
      (simp_all add: no_overflow_def no_signed_overflow_def sample_entry_def)
  then show ?thesis using t by auto
qed

text \<open>
  The condition on the compressed length is needed: a length of \<open>0xffffffff\<close> is \<open>-1\<close> as a
  \<open>long\<close>, both checks accept it, and the entry enters the archive.
\<close>

definition negative_length_archive :: bytes where
  "negative_length_archive =
     [80, 75, 3, 4, 0, 0, 0, 0, 0, 0, 0, 0, 0, 0, 0, 0, 0, 0, 0, 0, 0, 0, 0, 0, 0, 0, 1, 0, 0, 0,
      97, 80, 75, 1, 2, 0, 3, 0, 0, 0, 0, 0, 0, 0, 0, 0, 0, 67, 190, 183, 232, 255, 255, 255,
      255, 255, 255, 255, 255, 1, 0, 0, 0, 0, 0, 0, 0, 0, 0, 0, 0, 0, 0, 0, 0, 0, 0, 97]"

theorem negative_length_accepted:
  "\<exists>e p. parse_entry no_overflow no_signed_overflow 4096 negative_length_archive [] 31 = Some (Inr ([e], p)) \<and>
     sint (compLen e) = -1 \<and> length negative_length_archive < unat (offset e) + unat (compLen e)"
  by (simp add: parse_simps negative_length_archive_def find_target_def insert_at_def)

text \<open>
  The condition on local header offsets is needed: \<open>localHdr + LOCHDR\<close> is computed without
  a check and wraps around for an offset into the last \<open>LOCHDR\<close> bytes of the address space, the
  bounds check passes, and the local header is read outside of the mapping.
\<close>

definition wrapping_offset_archive :: bytes where
  "wrapping_offset_archive =
     [80, 75, 1, 2, 0, 3, 0, 0, 0, 0, 0, 0, 0, 0, 0, 0, 67, 190, 183, 232, 0, 0, 0, 0, 0, 0, 0,
      0, 1, 0, 0, 0, 0, 0, 0, 0, 0, 0, 0, 0, 0, 0, 240, 239, 255, 255, 97]"

theorem wrapping_offset_undefined:
  "parse_entry no_overflow no_signed_overflow 4096 wrapping_offset_archive [] 0 = None"
  by (simp add: parse_simps wrapping_offset_archive_def find_target_def)

end
