(* ===== verification/DirUtil.thy ===== *)
theory DirUtil
  imports Prelude
begin

text \<open>
  Creating directory hierarchies: \<open>dirCreateHierarchy\<close> of \<open>minzip/DirUtil.c\<close>.

  A path is a C string without its terminator.  The system calls are the fields of \<open>os\<close>, over
  a state \<open>'w\<close> of the outside world that nothing here looks into; a call returns 0 or not.
  \<open>errno\<close> is kept only where the code looks at it (\<open>ENOENT\<close> after \<open>stat\<close>).
\<close>

section \<open>System calls\<close>

datatype stat_result = StatDir | StatOther | StatNoEnt | StatError

record 'w os =
  os_stat :: "bytes \<Rightarrow> 'w \<Rightarrow> stat_result"
  os_mkdir :: "bytes \<Rightarrow> nat \<Rightarrow> 'w \<Rightarrow> int \<times> 'w"
  os_utime :: "bytes \<Rightarrow> nat \<Rightarrow> 'w \<Rightarrow> int \<times> 'w"

abbreviation SLASH :: u8 where "SLASH \<equiv> 47"

section \<open>getPathDirStatus and dirCreateHierarchy\<close>

datatype DirStatus = DMISSING | DDIR | DILLEGAL

definition getPathDirStatus :: "('w, 'z) os_scheme \<Rightarrow> bytes \<Rightarrow> 'w \<Rightarrow> DirStatus" where
  "getPathDirStatus os path w =
     (case os_stat os path w of
        StatDir \<Rightarrow> DDIR
      | StatOther \<Rightarrow> DILLEGAL
      | StatError \<Rightarrow> DILLEGAL
      | StatNoEnt \<Rightarrow> DMISSING)"

text \<open>Stripping the file name: the index of the last slash, 0 when there is none behind index 0.\<close>

fun last_slash :: "bytes \<Rightarrow> nat \<Rightarrow> nat" where
  "last_slash cpath 0 = 0"
| "last_slash cpath (Suc c) = (if cpath ! Suc c = SLASH then Suc c else last_slash cpath c)"

definition cpath_of :: "bytes \<Rightarrow> bool \<Rightarrow> bytes option" where
  "cpath_of path stripFileName =
     (if stripFileName then
        let c = last_slash path (length path - 1) in
        if c = 0 then None else Some (take (c + 1) path)
      else Some (path @ [SLASH]))"

lemma walk_shrinks:
  assumes "dropWhile (\<lambda>c. c = SLASH) rest \<noteq> []"
  shows "length (dropWhile (\<lambda>c. c \<noteq> SLASH) (dropWhile (\<lambda>c. c = SLASH) rest)) < length rest"
proof -
  obtain c cs where c: "dropWhile (\<lambda>c. c = SLASH) rest = c # cs" using assms by (cases "dropWhile (\<lambda>c. c = SLASH) rest") auto
  then have "c \<noteq> SLASH" using hd_dropWhile [OF assms] by simp
  then have "dropWhile (\<lambda>c. c \<noteq> SLASH) (c # cs) = dropWhile (\<lambda>c. c \<noteq> SLASH) cs" by simp
  moreover have "length (dropWhile (\<lambda>c. c \<noteq> SLASH) cs) \<le> length cs" by (rule length_dropWhile_le)
  moreover have "length (c # cs) \<le> length rest" using length_dropWhile_le [of _ rest] c by metis
  ultimately show ?thesis by (simp add: c)
qed

text \<open>
  The walk: \<open>pre\<close> is the part of \<open>cpath\<close> before \<open>p\<close>, \<open>rest\<close> the part from \<open>p\<close> on.  A component
  without a slash behind it would be scanned past the end of the string (\<open>None\<close>).
\<close>

function walk ::
    "('w, 'z) os_scheme \<Rightarrow> nat \<Rightarrow> nat option \<Rightarrow> bytes \<Rightarrow> bytes \<Rightarrow> 'w \<Rightarrow> (int \<times> 'w) option" where
  "walk os mode timestamp pre rest w =
     (let slashes = takeWhile (\<lambda>c. c = SLASH) rest;
          rest1 = dropWhile (\<lambda>c. c = SLASH) rest in
      if rest1 = [] then Some (0, w)
      else
        let name = takeWhile (\<lambda>c. c \<noteq> SLASH) rest1;
            rest2 = dropWhile (\<lambda>c. c \<noteq> SLASH) rest1;
            level = pre @ slashes @ name in
        if rest2 = [] then None
        else case getPathDirStatus os level w of
          DILLEGAL \<Rightarrow> Some (-1, w)
        | DDIR \<Rightarrow> walk os mode timestamp level rest2 w
        | DMISSING \<Rightarrow>
            (let (err, w1) = os_mkdir os level mode w in
             if err \<noteq> 0 then Some (-1, w1)
             else case timestamp of
               None \<Rightarrow> walk os mode timestamp level rest2 w1
             | Some t \<Rightarrow>
                 (let (err, w2) = os_utime os level t w1 in
                  if err \<noteq> 0 then Some (-1, w2) else walk os mode timestamp level rest2 w2)))"
  by pat_completeness auto

termination
  by (relation "measure (\<lambda>(os, mode, timestamp, pre, rest, w). length rest)") (simp_all add: walk_shrinks)

declare walk.simps [simp del]

definition dirCreateHierarchy ::
    "(nat \<Rightarrow> bool) \<Rightarrow> ('w, 'z) os_scheme \<Rightarrow> bytes \<Rightarrow> nat \<Rightarrow> nat option \<Rightarrow> bool \<Rightarrow> 'w \<Rightarrow> (int \<times> 'w) option" where
  "dirCreateHierarchy malloc os path mode timestamp stripFileName w =
     (if path = [] then Some (-1, w)
      else if \<not> malloc (length path + 2) then Some (-1, w)
      else case cpath_of path stripFileName of
        None \<Rightarrow> Some (-1, w)
      | Some cpath \<Rightarrow>
          (case getPathDirStatus os cpath w of
             DDIR \<Rightarrow> Some (0, w)
           | DILLEGAL \<Rightarrow> Some (-1, w)
           | DMISSING \<Rightarrow> walk os mode timestamp [] cpath w))"

section \<open>The levels of a path\<close>

text \<open>The directories above and at the last slash of a path, shortest first.\<close>

function levels :: "bytes \<Rightarrow> bytes \<Rightarrow> bytes list" where
  "levels pre rest =
     (let rest1 = dropWhile (\<lambda>c. c = SLASH) rest;
          rest2 = dropWhile (\<lambda>c. c \<noteq> SLASH) rest1;
          level = pre @ takeWhile (\<lambda>c. c = SLASH) rest @ takeWhile (\<lambda>c. c \<noteq> SLASH) rest1 in
      if rest1 = [] \<or> rest2 = [] then [] else level # levels level rest2)"
  by pat_completeness auto

termination
  by (relation "measure (\<lambda>(pre, rest). length rest)") (simp_all add: walk_shrinks)

declare levels.simps [simp del]

lemma last_slash_numeral:
  "last_slash p (numeral k) = (if p ! numeral k = SLASH then numeral k else last_slash p (pred_numeral k))"
  by (simp add: numeral_eq_Suc)

lemma last_slash_at: "last_slash p c \<noteq> 0 \<Longrightarrow> p ! last_slash p c = SLASH \<and> last_slash p c \<le> c"
  by (induction c) (auto split: if_splits)

lemma cpath_ends_in_slash:
  assumes "cpath_of path s = Some cpath" and "path \<noteq> []"
  shows "cpath \<noteq> [] \<and> last cpath = SLASH"
proof (cases s)
  case True
  let ?c = "last_slash path (length path - 1)"
  have c: "?c \<noteq> 0" "cpath = take (?c + 1) path"
    using assms True by (auto simp: cpath_of_def Let_def split: if_splits)
  have "?c < length path" "path ! ?c = SLASH"
    using last_slash_at [OF c(1)] assms(2) by (auto simp: Suc_le_eq less_Suc_eq_le dest: le_less_trans)
  then show ?thesis using c(2) by (simp add: take_Suc_conv_app_nth)
qed (use assms in \<open>auto simp: cpath_of_def\<close>)

lemma no_slash_at_end:
  assumes "xs \<noteq> []" and "last xs = SLASH" shows "dropWhile (\<lambda>c. c \<noteq> SLASH) xs \<noteq> []"
  using assms last_in_set [of xs] by (auto simp: dropWhile_eq_Nil_conv)

lemma last_dropWhile: "dropWhile P xs \<noteq> [] \<Longrightarrow> last (dropWhile P xs) = last xs"
  by (induction xs) auto

lemma walk_step:
  assumes "dropWhile (\<lambda>c. c = SLASH) rest \<noteq> []"
    and "dropWhile (\<lambda>c. c \<noteq> SLASH) (dropWhile (\<lambda>c. c = SLASH) rest) \<noteq> []"
    and "level = pre @ takeWhile (\<lambda>c. c = SLASH) rest @ takeWhile (\<lambda>c. c \<noteq> SLASH) (dropWhile (\<lambda>c. c = SLASH) rest)"
    and "rest2 = dropWhile (\<lambda>c. c \<noteq> SLASH) (dropWhile (\<lambda>c. c = SLASH) rest)"
  shows "walk os mode timestamp pre rest w =
    (case getPathDirStatus os level w of
       DILLEGAL \<Rightarrow> Some (-1, w)
     | DDIR \<Rightarrow> walk os mode timestamp level rest2 w
     | DMISSING \<Rightarrow>
         (let (err, w1) = os_mkdir os level mode w in
          if err \<noteq> 0 then Some (-1, w1)
          else case timestamp of
            None \<Rightarrow> walk os mode timestamp level rest2 w1
          | Some t \<Rightarrow>
              (let (err, w2) = os_utime os level t w1 in
               if err \<noteq> 0 then Some (-1, w2) else walk os mode timestamp level rest2 w2)))"
  using assms(1,2) unfolding assms(3,4) by (subst walk.simps) (simp only: Let_def if_False)

lemma walk_spec:
  assumes "rest \<noteq> []" and "last rest = SLASH"
    and mkdir: "\<And>p m w w'. os_mkdir os p m w = (0, w') \<Longrightarrow> os_stat os p w' = StatDir"
    and keep_mkdir: "\<And>p q m w. os_stat os q w = StatDir \<Longrightarrow> os_stat os q (snd (os_mkdir os p m w)) = StatDir"
    and keep_utime: "\<And>p q t w. os_stat os q w = StatDir \<Longrightarrow> os_stat os q (snd (os_utime os p t w)) = StatDir"
  shows "returns (walk os mode timestamp pre rest w) (\<lambda>(ret, w').
      (ret = 0 \<or> ret = -1) \<and> (\<forall>q. os_stat os q w = StatDir \<longrightarrow> os_stat os q w' = StatDir) \<and>
      (ret = 0 \<longrightarrow> (\<forall>p \<in> set (levels pre rest). os_stat os p w' = StatDir)))"
  using assms(1,2)
proof (induction "length rest" arbitrary: pre rest w rule: less_induct)
  case less
  let ?rest1 = "dropWhile (\<lambda>c. c = SLASH) rest"
  let ?rest2 = "dropWhile (\<lambda>c. c \<noteq> SLASH) ?rest1"
  let ?level = "pre @ takeWhile (\<lambda>c. c = SLASH) rest @ takeWhile (\<lambda>c. c \<noteq> SLASH) ?rest1"
  show ?case
  proof (cases "?rest1 = []")
    case True
    then show ?thesis by (simp add: walk.simps levels.simps Let_def returns_def)
  next
    case False
    then have "last ?rest1 = SLASH" using less.prems(2) last_dropWhile by metis
    then have rest2: "?rest2 \<noteq> []" "last ?rest2 = SLASH"
      using no_slash_at_end [OF False] last_dropWhile by metis+
    have lv: "levels pre rest = ?level # levels ?level ?rest2"
      using False rest2(1) by (subst levels.simps) (simp add: Let_def)
    note step_eq = walk_step [OF False rest2(1) refl refl]
    have IH: "returns (walk os mode timestamp ?level ?rest2 w1) (\<lambda>(ret, w').
      (ret = 0 \<or> ret = -1) \<and> (\<forall>q. os_stat os q w1 = StatDir \<longrightarrow> os_stat os q w' = StatDir) \<and>
      (ret = 0 \<longrightarrow> (\<forall>p \<in> set (levels ?level ?rest2). os_stat os p w' = StatDir)))" for w1
      using less.hyps [OF walk_shrinks [OF False] rest2] .
    have next_level: "returns (walk os mode timestamp ?level ?rest2 w1) (\<lambda>(ret, w').
      (ret = 0 \<or> ret = -1) \<and> (\<forall>q. os_stat os q w = StatDir \<longrightarrow> os_stat os q w' = StatDir) \<and>
      (ret = 0 \<longrightarrow> (\<forall>p \<in> set (levels pre rest). os_stat os p w' = StatDir)))"
      if "\<forall>q. os_stat os q w = StatDir \<longrightarrow> os_stat os q w1 = StatDir" "os_stat os ?level w1 = StatDir" for w1
      using that by (intro returns_mono [OF IH]) (auto simp: lv)
    obtain err w1 where m: "os_mkdir os ?level mode w = (err, w1)" by fastforce
    then have k1: "\<forall>q. os_stat os q w = StatDir \<longrightarrow> os_stat os q w1 = StatDir"
      using keep_mkdir [of _ w ?level mode] by auto
    have m1: "err = 0 \<Longrightarrow> os_stat os ?level w1 = StatDir" using mkdir m by metis
    have u1: "\<forall>q. os_stat os q w1 = StatDir \<longrightarrow> os_stat os q (snd (os_utime os ?level t w1)) = StatDir" for t
      using keep_utime by blast
    have fail: "returns (Some (- 1 :: int, w2)) (\<lambda>(ret, w').
      (ret = 0 \<or> ret = -1) \<and> (\<forall>q. os_stat os q w = StatDir \<longrightarrow> os_stat os q w' = StatDir) \<and>
      (ret = 0 \<longrightarrow> (\<forall>p \<in> set (levels pre rest). os_stat os p w' = StatDir)))"
      if "\<forall>q. os_stat os q w = StatDir \<longrightarrow> os_stat os q w2 = StatDir" for w2
      using that by (simp add: returns_def)
    show ?thesis
    proof (cases "getPathDirStatus os ?level w")
      case DMISSING
      show ?thesis
      proof (cases timestamp)
        case None
        have step: "walk os mode timestamp pre rest w =
            (if err \<noteq> 0 then Some (-1, w1) else walk os mode timestamp ?level ?rest2 w1)"
          using DMISSING m None by (simp add: step_eq)
        show ?thesis unfolding step using fail [OF k1] next_level [OF k1 m1] by simp
      next
        case (Some t)
        obtain err2 w2 where u: "os_utime os ?level t w1 = (err2, w2)" by fastforce
        then have k2: "os_stat os q w1 = StatDir \<Longrightarrow> os_stat os q w2 = StatDir" for q
          using keep_utime [of q w1 ?level t] by simp
        then have k2': "\<forall>q. os_stat os q w = StatDir \<longrightarrow> os_stat os q w2 = StatDir" using k1 by blast
        have step: "walk os mode timestamp pre rest w =
            (if err \<noteq> 0 then Some (-1, w1) else if err2 \<noteq> 0 then Some (-1, w2)
             else walk os mode timestamp ?level ?rest2 w2)"
          using DMISSING m u Some by (simp add: step_eq)
        show ?thesis
          unfolding step using fail [OF k1] fail [OF k2'] next_level [OF k2' k2 [OF m1]] by simp
      qed
    next
      case DDIR
      then have "os_stat os ?level w = StatDir"
        by (auto simp: getPathDirStatus_def split: stat_result.splits)
      moreover have "walk os mode timestamp pre rest w = walk os mode timestamp ?level ?rest2 w"
        using DDIR by (simp add: step_eq)
      ultimately show ?thesis using next_level [of w] by simp
    next
      case DILLEGAL
      then have "walk os mode timestamp pre rest w = Some (-1, w)"
        by (simp add: step_eq)
      then show ?thesis using fail [of w] by simp
    qed
  qed
qed

section \<open>Properties\<close>

text \<open>
  C32: \<open>dirCreateHierarchy\<close> never scans past its path, returns 0 or -1, and keeps the promise of
  its header: when it returns 0 every directory on the way to the last slash exists.  The
  hypotheses are what POSIX says of the system calls: \<open>mkdir\<close> that succeeds leaves a directory,
  \<open>mkdir\<close> and \<open>utime\<close> remove none, and a directory's ancestors are directories.
\<close>

theorem dirCreateHierarchy_creates:
  assumes "\<And>p m w w'. os_mkdir os p m w = (0, w') \<Longrightarrow> os_stat os p w' = StatDir"
    and "\<And>p q m w. os_stat os q w = StatDir \<Longrightarrow> os_stat os q (snd (os_mkdir os p m w)) = StatDir"
    and "\<And>p q t w. os_stat os q w = StatDir \<Longrightarrow> os_stat os q (snd (os_utime os p t w)) = StatDir"
    and "\<And>p q w. os_stat os p w = StatDir \<Longrightarrow> q \<in> set (levels [] p) \<Longrightarrow> os_stat os q w = StatDir"
  shows "\<exists>ret w'. dirCreateHierarchy malloc os path mode timestamp strip w = Some (ret, w') \<and>
    (ret = 0 \<or> ret = -1) \<and>
    (ret = 0 \<longrightarrow> (\<exists>cpath. cpath_of path strip = Some cpath \<and>
       (\<forall>p \<in> set (levels [] cpath). os_stat os p w' = StatDir)))"
proof (cases "path = [] \<or> \<not> malloc (length path + 2) \<or> cpath_of path strip = None")
  case True
  then show ?thesis by (auto simp: dirCreateHierarchy_def)
next
  case False
  then obtain cpath where c: "cpath_of path strip = Some cpath" "path \<noteq> []" "malloc (length path + 2)" by auto
  have ends: "cpath \<noteq> []" "last cpath = SLASH" using cpath_ends_in_slash [OF c(1,2)] by simp_all
  obtain ret w' where run: "walk os mode timestamp [] cpath w = Some (ret, w')" "ret = 0 \<or> ret = -1"
    "ret = 0 \<longrightarrow> (\<forall>p \<in> set (levels [] cpath). os_stat os p w' = StatDir)"
    using walk_spec [where os = os and mode = mode and timestamp = timestamp and pre = "[]" and w = w, OF ends assms(1-3)] by (fastforce simp: returns_def)
  show ?thesis
    using c run assms(4) [of cpath w]
    by (auto simp: dirCreateHierarchy_def getPathDirStatus_def split: stat_result.split)
qed

theorem dirCreateHierarchy_creates_witness:
  "let os = \<lparr>os_stat = (\<lambda>p w. if w then StatDir else StatNoEnt), os_mkdir = (\<lambda>p m w. (0, True)),
             os_utime = (\<lambda>p t w. (0, w))\<rparr> in
   dirCreateHierarchy (\<lambda>_. True) os [SLASH, 97, SLASH, 98] 493 None True False = Some (0, True) \<and>
     (\<forall>p \<in> set (levels [] [SLASH, 97, SLASH]). os_stat os p True = StatDir)"
proof -
  define os where "os = \<lparr>os_stat = (\<lambda>p w. if w then StatDir else StatNoEnt), os_mkdir = (\<lambda>p m w. (0, True)),
             os_utime = (\<lambda>p t w. (0, w))\<rparr>"
  have run: "dirCreateHierarchy (\<lambda>_. True) os [SLASH, 97, SLASH, 98] 493 None True False = Some (0, True)"
    by (simp add: dirCreateHierarchy_def os_def cpath_of_def getPathDirStatus_def walk.simps Let_def numeral_3_eq_3)
  have "cpath_of [SLASH, 97, SLASH, 98] True = Some [SLASH, 97, SLASH]"
    by (simp add: cpath_of_def Let_def numeral_3_eq_3)
  moreover have "\<exists>ret w'. dirCreateHierarchy (\<lambda>_. True) os [SLASH, 97, SLASH, 98] 493 None True False = Some (ret, w') \<and>
    (ret = 0 \<or> ret = -1) \<and>
    (ret = 0 \<longrightarrow> (\<exists>cpath. cpath_of [SLASH, 97, SLASH, 98] True = Some cpath \<and>
       (\<forall>p \<in> set (levels [] cpath). os_stat os p w' = StatDir)))"
    by (rule dirCreateHierarchy_creates) (simp_all add: os_def split: if_splits)
  ultimately show ?thesis using run unfolding os_def [symmetric] Let_def by (auto simp: Bex_def)
qed

end
