(* ===== verification/ZipExtract.thy ===== *)
theory ZipExtract
  imports Zip DirUtil
begin

text \<open>
  Reading and extracting the entries of a parsed archive (the second half of
  \<open>minzip/Zip.c\<close>).

  The archive's file descriptor is a function \<open>read pos n\<close>: what \<open>read\<close> returns at a file
  position for a count, \<open>None\<close> for an error.  The functions that consume the contents of an
  entry take a cookie and return it updated.  \<open>zlib\<close> is external: its \<open>inflateInit2\<close> and
  \<open>inflate\<close> are the fields of \<open>zlib\<close>, over a stream state \<open>'z\<close>; one call takes the unread
  input and the free space of the output buffer, and returns what it used and produced.
  \<open>crc32\<close>, also of \<open>zlib\<close>, is an argument.  The state of the outside world is \<open>'w\<close>.
\<close>

section \<open>Stored and deflated entries\<close>

type_synonym reader = "nat \<Rightarrow> nat \<Rightarrow> bytes option"
type_synonym 'c process = "bytes \<Rightarrow> 'c \<Rightarrow> (bool \<times> 'c) option"

definition STORED :: u16 where "STORED = 0"
definition DEFLATED :: u16 where "DEFLATED = 8"

definition BUFSZ :: nat where "BUFSZ = 32 * 1024"

definition mzIsZipEntrySymlink :: "ZipEntry \<Rightarrow> bool" where
  "mzIsZipEntrySymlink pEntry =
     (if versionMadeBy pEntry AND 0xff00 = CENVEM_UNIX
      then drop_bit 16 (externalFileAttributes pEntry) AND 0xf000 = 0xa000 else False)"

function processStored :: "reader \<Rightarrow> 'c process \<Rightarrow> nat \<Rightarrow> nat \<Rightarrow> 'c \<Rightarrow> (bool \<times> 'c) option" where
  "processStored read process pos bytesLeft cookie =
     (if bytesLeft = 0 then Some (True, cookie)
      else let count = (if bytesLeft > BUFSZ then BUFSZ else bytesLeft) in
        case read pos count of
          None \<Rightarrow> Some (False, cookie)
        | Some buf \<Rightarrow>
            if length buf \<noteq> count then Some (False, cookie)
            else do {
              (ret, cookie1) \<leftarrow> process buf cookie;
              if \<not> ret then Some (False, cookie1)
              else processStored read process (pos + count) (bytesLeft - count) cookie1 })"
  by pat_completeness auto
termination
  by (relation "measure (\<lambda>(read, process, pos, bytesLeft, cookie). bytesLeft)") (auto simp: BUFSZ_def)

declare processStored.simps [simp del]

definition processStoredEntry :: "reader \<Rightarrow> ZipEntry \<Rightarrow> 'c process \<Rightarrow> nat \<Rightarrow> 'c \<Rightarrow> (bool \<times> 'c) option" where
  "processStoredEntry read pEntry process pos cookie =
     processStored read process pos (unat (compLen pEntry)) cookie"

datatype zerr = Z_OK | Z_STREAM_END | Z_OTHER

record 'z zlib =
  z_init :: "'z option"
  z_inflate :: "'z \<Rightarrow> bytes \<Rightarrow> nat \<Rightarrow> zerr \<times> 'z \<times> nat \<times> bytes"

text \<open>
  Refilling \<open>readBuf\<close> when the input is used up.  The inner \<open>None\<close> is the jump to \<open>z_bail\<close>.
  \<open>getSize\<close> is a \<open>long\<close>, but a \<open>size_t\<close> for \<open>read\<close> and an \<open>unsigned\<close> for \<open>zlib\<close>: a
  negative one that meets an error of \<open>read\<close> passes the comparison, and \<open>zlib\<close> is told of more
  input than the buffer holds.
\<close>

definition refill :: "reader \<Rightarrow> nat \<Rightarrow> u32 \<Rightarrow> bytes \<Rightarrow> (nat \<times> u32 \<times> bytes) option option" where
  "refill read pos compRemaining next_in =
     (if next_in \<noteq> [] then Some (Some (pos, compRemaining, next_in))
      else
        let getSize = (if sint compRemaining > int BUFSZ then of_nat BUFSZ else compRemaining);
            buf = read pos (unat getSize);
            cc = (case buf of None \<Rightarrow> -1 | Some d \<Rightarrow> int (length d)) in
        if cc > int BUFSZ then None
        else if cc \<noteq> sint getSize then Some None
        else case buf of
          None \<Rightarrow> None
        | Some d \<Rightarrow> Some (Some (pos + length d, compRemaining - getSize, d)))"

partial_function (option) inflate_loop ::
    "('z, 'e) zlib_scheme \<Rightarrow> reader \<Rightarrow> 'c process \<Rightarrow> nat \<Rightarrow> u32 \<Rightarrow> 'z \<Rightarrow> bytes \<Rightarrow> bytes \<Rightarrow> u32 \<Rightarrow> 'c \<Rightarrow>
     (u32 \<times> 'c) option" where
  "inflate_loop zl read process pos compRemaining z next_in procBuf total_out cookie = do {
     filled \<leftarrow> refill read pos compRemaining next_in;
     case filled of
       None \<Rightarrow> Some (-1, cookie)
     | Some (pos, compRemaining, next_in) \<Rightarrow>
         (let (zerr, z, used, out) = z_inflate zl z next_in (BUFSZ - length procBuf);
              procBuf = procBuf @ out;
              total_out = total_out + of_nat (length out) in
          if zerr \<noteq> Z_OK \<and> zerr \<noteq> Z_STREAM_END then Some (-1, cookie)
          else do {
            (ret, cookie, procBuf) \<leftarrow>
              (if length procBuf = BUFSZ \<or> (zerr = Z_STREAM_END \<and> procBuf \<noteq> [])
               then do { (ret, cookie) \<leftarrow> process procBuf cookie; Some (ret, cookie, []) }
               else Some (True, cookie, procBuf));
            if \<not> ret then Some (-1, cookie)
            else if zerr = Z_OK
            then inflate_loop zl read process pos compRemaining z (drop used next_in) procBuf total_out cookie
            else Some (total_out, cookie) }) }"

declare inflate_loop.simps [code]

definition processDeflatedEntry ::
    "('z, 'e) zlib_scheme \<Rightarrow> reader \<Rightarrow> ZipEntry \<Rightarrow> 'c process \<Rightarrow> nat \<Rightarrow> 'c \<Rightarrow> (bool \<times> 'c) option" where
  "processDeflatedEntry zl read pEntry process pos cookie = do {
     (result, cookie) \<leftarrow>
       (case z_init zl of
          None \<Rightarrow> Some (-1, cookie)
        | Some z \<Rightarrow> inflate_loop zl read process pos (compLen pEntry) z [] [] 0 cookie);
     Some (result = uncompLen pEntry, cookie) }"

text \<open>The descriptor's position is saved and restored around this, so callers do not see it.\<close>

definition mzProcessZipEntryContents ::
    "('z, 'e) zlib_scheme \<Rightarrow> reader \<Rightarrow> ZipEntry \<Rightarrow> 'c process \<Rightarrow> 'c \<Rightarrow> (bool \<times> 'c) option" where
  "mzProcessZipEntryContents zl read pEntry process cookie =
     (let pos = unat (offset pEntry) in
      if compression pEntry = STORED then processStoredEntry read pEntry process pos cookie
      else if compression pEntry = DEFLATED then processDeflatedEntry zl read pEntry process pos cookie
      else Some (False, cookie))"

section \<open>What is done with the contents\<close>

definition crcProcessFunction :: "(u32 \<Rightarrow> bytes \<Rightarrow> u32) \<Rightarrow> u32 process" where
  "crcProcessFunction crc32_of bs crc = Some (True, crc32_of crc bs)"

definition mzIsZipEntryIntact ::
    "('z, 'e) zlib_scheme \<Rightarrow> (u32 \<Rightarrow> bytes \<Rightarrow> u32) \<Rightarrow> reader \<Rightarrow> ZipEntry \<Rightarrow> bool option" where
  "mzIsZipEntryIntact zl crc32_of read pEntry = do {
     (ret, crc) \<leftarrow> mzProcessZipEntryContents zl read pEntry (crcProcessFunction crc32_of) (crc32_of 0 []);
     Some (if \<not> ret then False else if crc \<noteq> crc32 pEntry then False else True) }"

text \<open>The buffer a cookie points into is kept whole, with the pointer as an index.\<close>

record CopyProcessArgs =
  copyBuf :: bytes
  copyPos :: nat
  copyLen :: int

definition copyProcessFunction :: "CopyProcessArgs process" where
  "copyProcessFunction bs args =
     (if int (length bs) \<le> copyLen args then do {
        b \<leftarrow> wr_slice (copyBuf args) (copyPos args) bs;
        Some (True, args\<lparr>copyBuf := b, copyPos := copyPos args + length bs,
                         copyLen := copyLen args - int (length bs)\<rparr>) }
      else Some (False, args))"

definition mzReadZipEntry ::
    "('z, 'e) zlib_scheme \<Rightarrow> reader \<Rightarrow> ZipEntry \<Rightarrow> bytes \<Rightarrow> int \<Rightarrow> (bool \<times> bytes) option" where
  "mzReadZipEntry zl read pEntry buf bufLen = do {
     (ret, args) \<leftarrow> mzProcessZipEntryContents zl read pEntry copyProcessFunction
                      \<lparr>copyBuf = buf, copyPos = 0, copyLen = bufLen\<rparr>;
     Some (if \<not> ret then (False, copyBuf args) else (True, copyBuf args)) }"

record BufferExtractCookie =
  becBuf :: bytes
  becPos :: nat
  becLen :: u32

definition bufferProcessFunction :: "BufferExtractCookie process" where
  "bufferProcessFunction bs bec = do {
     b \<leftarrow> wr_slice (becBuf bec) (becPos bec) bs;
     Some (True, bec\<lparr>becBuf := b, becPos := becPos bec + length bs,
                     becLen := becLen bec - of_nat (length bs)\<rparr>) }"

definition mzExtractZipEntryToBuffer ::
    "('z, 'e) zlib_scheme \<Rightarrow> reader \<Rightarrow> ZipEntry \<Rightarrow> bytes \<Rightarrow> (bool \<times> bytes) option" where
  "mzExtractZipEntryToBuffer zl read pEntry buffer = do {
     (ret, bec) \<leftarrow> mzProcessZipEntryContents zl read pEntry bufferProcessFunction
                     \<lparr>becBuf = buffer, becPos = 0, becLen = uncompLen pEntry\<rparr>;
     Some (if \<not> ret \<or> becLen bec \<noteq> 0 then (False, becBuf bec) else (True, becBuf bec)) }"

text \<open>
  The system calls of extraction.  \<open>os_write\<close> also says whether \<open>errno\<close> is \<open>EINTR\<close> after a
  call that wrote nothing.
\<close>

record 'w xos = "'w os" +
  os_symlink :: "bytes \<Rightarrow> bytes \<Rightarrow> 'w \<Rightarrow> int \<times> 'w"
  os_creat :: "bytes \<Rightarrow> 'w \<Rightarrow> int \<times> 'w"
  os_write :: "int \<Rightarrow> bytes \<Rightarrow> 'w \<Rightarrow> (int \<times> bool) \<times> 'w"
  os_close :: "int \<Rightarrow> 'w \<Rightarrow> 'w"

partial_function (option) write_loop ::
    "('w, 'y) xos_scheme \<Rightarrow> int \<Rightarrow> bytes \<Rightarrow> nat \<Rightarrow> 'w \<Rightarrow> (bool \<times> 'w) option" where
  "write_loop os fd bs soFar w =
     (let ((n, eintr), w) = os_write os fd (drop soFar bs) w in
      if n \<le> 0 then (if \<not> eintr then Some (False, w) else write_loop os fd bs soFar w)
      else let soFar = soFar + nat n in
        if soFar = length bs then Some (True, w)
        else if soFar > length bs then Some (False, w)
        else write_loop os fd bs soFar w)"

declare write_loop.simps [code]

definition writeProcessFunction :: "('w, 'y) xos_scheme \<Rightarrow> int \<Rightarrow> 'w process" where
  "writeProcessFunction os fd bs w = write_loop os fd bs 0 w"

definition mzExtractZipEntryToFile ::
    "('z, 'e) zlib_scheme \<Rightarrow> ('w, 'y) xos_scheme \<Rightarrow> reader \<Rightarrow> ZipEntry \<Rightarrow> int \<Rightarrow> 'w \<Rightarrow> (bool \<times> 'w) option" where
  "mzExtractZipEntryToFile zl os read pEntry fd w =
     mzProcessZipEntryContents zl read pEntry (writeProcessFunction os fd) w"

section \<open>mzExtractRecursive\<close>

record MzPathHelper =
  hTargetDir :: bytes
  hZipDir :: bytes
  hBuf :: "bytes option"
  hTargetDirLen :: nat
  hBufLen :: nat

text \<open>
  \<open>realloc n\<close> says whether that many bytes can be allocated; a grown buffer keeps its contents.
  \<open>name\<close> is the entry's name, at least as long as \<open>zipDir\<close>.  The result is the string in the
  helper's buffer.
\<close>

definition targetEntryPath ::
    "(nat \<Rightarrow> bool) \<Rightarrow> MzPathHelper \<Rightarrow> bytes \<Rightarrow> (bytes option \<times> MzPathHelper) option" where
  "targetEntryPath realloc helper name =
     (let firstTime = (hBuf helper = None);
          rest = drop (length (hZipDir helper)) name;
          needLen = hTargetDirLen helper + 1 + length rest + 1;
          old = (case hBuf helper of None \<Rightarrow> [] | Some b \<Rightarrow> b);
          grow = needLen > hBufLen helper;
          bufLen = (if grow then needLen * 2 else hBufLen helper);
          buf = (if grow then old @ replicate (bufLen - length old) 0 else old) in
      if grow \<and> \<not> realloc bufLen then Some (None, helper)
      else do {
        (tlen, buf) \<leftarrow>
          (if firstTime then do {
             buf \<leftarrow> wr_slice buf 0 (take (hTargetDirLen helper) (hTargetDir helper));
             if hTargetDirLen helper = 0 \<or> buf ! (hTargetDirLen helper - 1) \<noteq> SLASH then do {
               buf \<leftarrow> wr_slice buf (hTargetDirLen helper) [SLASH];
               Some (hTargetDirLen helper + 1, buf) }
             else Some (hTargetDirLen helper, buf) }
           else Some (hTargetDirLen helper, buf));
        buf \<leftarrow> wr_slice buf tlen rest;
        buf \<leftarrow> wr_slice buf (tlen + length rest) [0];
        Some (Some (takeWhile (\<lambda>c. c \<noteq> 0) buf),
              helper\<lparr>hBuf := Some buf, hBufLen := bufLen, hTargetDirLen := tlen\<rparr>) })"

text \<open>What an iteration of the walk does to the loop: go on, or \<open>break\<close> with a value of \<open>ok\<close>.\<close>

datatype flow = Go | Break bool

text \<open>
  Extracting one entry that matched.  A failed extraction of a regular file sets a variable
  \<open>ok\<close> of the inner block, so the outer one is still \<open>true\<close> at the \<open>break\<close>.
\<close>

definition extract_entry ::
    "('z, 'e) zlib_scheme \<Rightarrow> (nat \<Rightarrow> bool) \<Rightarrow> ('w, 'y) xos_scheme \<Rightarrow> reader \<Rightarrow> bytes \<Rightarrow> bool \<Rightarrow>
     nat option \<Rightarrow> ZipEntry \<Rightarrow> bytes \<Rightarrow> 'w \<Rightarrow> (flow \<times> 'w) option" where
  "extract_entry zl malloc os read arcmap filesOnly timestamp pEntry targetFile w = do {
     lastc \<leftarrow> rd arcmap (fileName pEntry + unat (fileNameLen pEntry) - 1);
     if lastc = SLASH then
       (if \<not> filesOnly then do {
          (ret, w) \<leftarrow> dirCreateHierarchy malloc os targetFile 493 timestamp False w;
          Some (if ret \<noteq> 0 then Break False else Go, w) }
        else Some (Go, w))
     else do {
       (ret, w) \<leftarrow> dirCreateHierarchy malloc os targetFile 493 timestamp True w;
       if ret \<noteq> 0 then Some (Break False, w)
       else if \<not> filesOnly \<and> mzIsZipEntrySymlink pEntry then
         (if uncompLen pEntry = 0 then Some (Break False, w)
          else if \<not> malloc (unat (uncompLen pEntry + 1)) then Some (Break False, w)
          else do {
            (ok, linkTarget) \<leftarrow> mzReadZipEntry zl read pEntry (replicate (unat (uncompLen pEntry + 1)) 0)
                                 (sint (uncompLen pEntry));
            if \<not> ok then Some (Break ok, w)
            else do {
              linkTarget \<leftarrow> wr_slice linkTarget (unat (uncompLen pEntry)) [0];
              let (ret, w) = os_symlink os (takeWhile (\<lambda>c. c \<noteq> 0) linkTarget) targetFile w;
              Some (if ret \<noteq> 0 then Break False else Go, w) } })
       else
         (let (fd, w) = os_creat os targetFile w in
          if fd < 0 then Some (Break False, w)
          else do {
            (ok, w) \<leftarrow> mzExtractZipEntryToFile zl os read pEntry fd w;
            let w = os_close os fd w;
            if \<not> ok then Some (Break True, w)
            else case timestamp of
              None \<Rightarrow> Some (Go, w)
            | Some t \<Rightarrow> (let (err, w) = os_utime os targetFile t w in
                Some (if err \<noteq> 0 then Break False else Go, w)) }) } }"

fun extract_loop ::
    "('z, 'e) zlib_scheme \<Rightarrow> (nat \<Rightarrow> bool) \<Rightarrow> ('w, 'y) xos_scheme \<Rightarrow> reader \<Rightarrow> bytes \<Rightarrow> bool \<Rightarrow> bool \<Rightarrow>
     nat option \<Rightarrow> (bytes \<Rightarrow> 'w \<Rightarrow> 'w) \<Rightarrow> ZipEntry list \<Rightarrow> bool \<Rightarrow> MzPathHelper \<Rightarrow> 'w \<Rightarrow> (bool \<times> 'w) option" where
  "extract_loop zl malloc os read arcmap dryRun filesOnly timestamp callback [] seenMatch helper w = Some (True, w)"
| "extract_loop zl malloc os read arcmap dryRun filesOnly timestamp callback (e # es) seenMatch helper w =
     (let zpath = hZipDir helper in
      if unat (fileNameLen e) < length zpath then
        (if seenMatch then Some (True, w)
         else extract_loop zl malloc os read arcmap dryRun filesOnly timestamp callback es seenMatch helper w)
      else do {
        d \<leftarrow> strncmp (drop (fileName e) arcmap) (zpath @ [0]) (length zpath);
        if d \<noteq> 0 then
          (if seenMatch then Some (True, w)
           else extract_loop zl malloc os read arcmap dryRun filesOnly timestamp callback es seenMatch helper w)
        else do {
          (target, helper) \<leftarrow> targetEntryPath malloc helper (entry_name arcmap e);
          case target of
            None \<Rightarrow> Some (False, w)
          | Some targetFile \<Rightarrow>
              if dryRun
              then extract_loop zl malloc os read arcmap dryRun filesOnly timestamp callback es True helper
                     (callback targetFile w)
              else do {
                (next_step, w) \<leftarrow> extract_entry zl malloc os read arcmap filesOnly timestamp e targetFile w;
                case next_step of
                  Break ok \<Rightarrow> Some (ok, w)
                | Go \<Rightarrow> extract_loop zl malloc os read arcmap dryRun filesOnly timestamp callback es True helper
                         (callback targetFile w) } } })"

definition canonical_zpath :: "bytes \<Rightarrow> bytes" where
  "canonical_zpath zipDir =
     (if zipDir = [] then [] else if last zipDir \<noteq> SLASH then zipDir @ [SLASH] else zipDir)"

text \<open>A \<open>NULL\<close> callback is the function that returns its state.\<close>

definition mzExtractRecursive ::
    "('z, 'e) zlib_scheme \<Rightarrow> (nat \<Rightarrow> bool) \<Rightarrow> ('w, 'y) xos_scheme \<Rightarrow> reader \<Rightarrow> ZipArchive \<Rightarrow> bytes \<Rightarrow> bytes \<Rightarrow>
     bool \<Rightarrow> bool \<Rightarrow> nat option \<Rightarrow> (bytes \<Rightarrow> 'w \<Rightarrow> 'w) \<Rightarrow> 'w \<Rightarrow> (bool \<times> 'w) option" where
  "mzExtractRecursive zl malloc os read pArchive zipDir targetDir dryRun filesOnly timestamp callback w =
     (if zipDir \<noteq> [] \<and> hd zipDir = SLASH then Some (False, w)
      else if targetDir = [] \<or> hd targetDir \<noteq> SLASH then Some (False, w)
      else if \<not> malloc (length zipDir + 2) then Some (False, w)
      else extract_loop zl malloc os read (arcMap pArchive) dryRun filesOnly timestamp callback
             (arcEntries pArchive) False
             \<lparr>hTargetDir = targetDir, hZipDir = canonical_zpath zipDir, hBuf = None,
              hTargetDirLen = length targetDir, hBufLen = 0\<rparr> w)"

section \<open>Consumers of an entry's contents\<close>

text \<open>
  The contents reach a consumer in chunks.  The interface asks of a consumer that accepting a
  concatenation is accepting its parts one after the other; then the chunks do not matter.
\<close>

locale chunk_sink =
  fixes accept :: "'c process"
  assumes accept_append: "accept (xs @ ys) c = Some (True, c2) \<longleftrightarrow>
    (\<exists>c1. accept xs c = Some (True, c1) \<and> accept ys c1 = Some (True, c2))"
begin

lemma stored_whole:
  assumes "\<And>pos n. read pos n = Some (take n (drop pos contents))" and "0 < n"
  shows "processStored read accept pos n c = Some (True, c') \<longleftrightarrow>
    pos + n \<le> length contents \<and> accept (take n (drop pos contents)) c = Some (True, c')"
  using assms(2)
proof (induction n arbitrary: pos c rule: less_induct)
  case (less n)
  show ?case
  proof (cases "n \<le> BUFSZ")
    case True
    then show ?thesis
      using less.prems assms(1)
      by (subst processStored.simps) (auto simp: processStored.simps [where bytesLeft = 0] bind_eq_Some_conv Let_def)
  next
    case False
    have chunk: "take n (drop pos contents) = take BUFSZ (drop pos contents) @ take (n - BUFSZ) (drop (pos + BUFSZ) contents)"
      using False take_add [of BUFSZ "n - BUFSZ" "drop pos contents"] by (simp add: add.commute)
    have IH: "processStored read accept (pos + BUFSZ) (n - BUFSZ) c1 = Some (True, c') \<longleftrightarrow>
        pos + BUFSZ + (n - BUFSZ) \<le> length contents \<and>
        accept (take (n - BUFSZ) (drop (pos + BUFSZ) contents)) c1 = Some (True, c')" for c1
      using False by (intro less.IH) (simp_all add: BUFSZ_def)
    have step: "processStored read accept pos n c = (if length (take BUFSZ (drop pos contents)) \<noteq> BUFSZ then Some (False, c)
        else do { (ret, c1) \<leftarrow> accept (take BUFSZ (drop pos contents)) c;
                  if \<not> ret then Some (False, c1) else processStored read accept (pos + BUFSZ) (n - BUFSZ) c1 })"
      using False less.prems assms(1) by (subst processStored.simps) (simp add: Let_def)
    show ?thesis
    proof (cases "length (take BUFSZ (drop pos contents)) = BUFSZ")
      case True
      then have "pos + BUFSZ \<le> length contents \<or> BUFSZ = 0" by auto
      then have "processStored read accept pos n c = Some (True, c') \<longleftrightarrow>
          (\<exists>c1. accept (take BUFSZ (drop pos contents)) c = Some (True, c1) \<and>
                processStored read accept (pos + BUFSZ) (n - BUFSZ) c1 = Some (True, c'))"
        unfolding step using True by (cases "accept (take BUFSZ (drop pos contents)) c") (auto split: if_splits)
      then show ?thesis unfolding chunk accept_append IH using False by auto
    next
      case short: False
      then have "\<not> pos + n \<le> length contents" using False by auto
      then show ?thesis unfolding step using short by (simp del: length_take)
    qed
  qed
qed

end

lemma wr_slice_Some_append:
  "wr_slice b p (xs @ ys) = Some b2 \<longleftrightarrow> (\<exists>b1. wr_slice b p xs = Some b1 \<and> wr_slice b1 (p + length xs) ys = Some b2)"
proof (cases "p + length xs + length ys \<le> length b")
  case True
  then show ?thesis
    by (auto simp: wr_slice_def ac_simps)
next
  case False
  then have "wr_slice b p (xs @ ys) = None" by simp
  moreover have "wr_slice b1 (p + length xs) ys = None" if "wr_slice b p xs = Some b1" for b1
    using False wr_slice_length [OF that] by simp
  ultimately show ?thesis by (metis option.distinct(1))
qed

interpretation copy_sink: chunk_sink copyProcessFunction
  by unfold_locales (auto simp: copyProcessFunction_def bind_eq_Some_conv wr_slice_Some_append algebra_simps)

interpretation buffer_sink: chunk_sink bufferProcessFunction
  by unfold_locales (auto simp: bufferProcessFunction_def bind_eq_Some_conv wr_slice_Some_append algebra_simps)

lemma crc_sink:
  assumes "\<And>c xs ys. crc32_of c (xs @ ys) = crc32_of (crc32_of c xs) ys"
  shows "chunk_sink (crcProcessFunction crc32_of)"
  by unfold_locales (simp add: crcProcessFunction_def assms)


section \<open>The size check of deflated entries\<close>

definition collectProcess :: "bytes process" where
  "collectProcess bs out = Some (True, out @ bs)"


text \<open>Any consumer, with a record of the bytes it is given.\<close>

definition recording :: "'c process \<Rightarrow> ('c \<times> bytes) process" where
  "recording process bs = (\<lambda>(cookie, out). map_option (\<lambda>(ret, cookie). (ret, cookie, out @ bs)) (process bs cookie))"

lemma inflate_loop_recorded:
  "inflate_loop zl read recorder pos rem z inp procBuf tot ck = Some r \<Longrightarrow>
    recorder = recording process \<longrightarrow> tot = of_nat (length (snd ck) + length procBuf) \<longrightarrow>
    (fst r = -1 \<or> fst r = of_nat (length (snd (snd r)))) \<and>
    inflate_loop zl read process pos rem z inp procBuf tot (fst ck) = Some (fst r, fst (snd r))"
proof (erule inflate_loop.raw_induct [rotated], intro impI)
  fix f zl and read :: reader and recorder pos rem z inp procBuf tot ck r
  assume IH: "\<And>zl read recorder pos rem z inp procBuf tot ck r.
      f zl read recorder pos rem z inp procBuf tot ck = Some r \<Longrightarrow>
      recorder = recording process \<longrightarrow> tot = of_nat (length (snd ck) + length procBuf) \<longrightarrow>
      (fst r = -1 \<or> fst r = of_nat (length (snd (snd r)))) \<and>
      inflate_loop zl read process pos rem z inp procBuf tot (fst ck) = Some (fst r, fst (snd r))"
    and run: "refill read pos rem inp \<bind> (\<lambda>filled. case filled of None \<Rightarrow> Some (-1, ck)
      | Some (pos, rem, inp) \<Rightarrow>
         (let (zerr, z, used, produced) = z_inflate zl z inp (BUFSZ - length procBuf);
              procBuf = procBuf @ produced; tot = tot + of_nat (length produced) in
          if zerr \<noteq> Z_OK \<and> zerr \<noteq> Z_STREAM_END then Some (-1, ck)
          else (if length procBuf = BUFSZ \<or> zerr = Z_STREAM_END \<and> procBuf \<noteq> []
               then recorder procBuf ck \<bind> (\<lambda>(ret, cookie). Some (ret, cookie, []))
               else Some (True, ck, procBuf)) \<bind>
            (\<lambda>(ret, ck, procBuf). if \<not> ret then Some (-1, ck)
            else if zerr = Z_OK then f zl read recorder pos rem z (drop used inp) procBuf tot ck
            else Some (tot, ck)))) = Some r"
    and rec: "recorder = recording process" and tot: "tot = of_nat (length (snd ck) + length procBuf)"
  obtain c out where ck: "ck = (c, out)" by fastforce
  from run obtain filled where fill: "refill read pos rem inp = Some filled" by (auto simp: bind_eq_Some_conv)
  show "(fst r = -1 \<or> fst r = of_nat (length (snd (snd r)))) \<and>
      inflate_loop zl read process pos rem z inp procBuf tot (fst ck) = Some (fst r, fst (snd r))"
  proof (cases filled)
    case None
    then show ?thesis using run fill by (subst inflate_loop.simps) auto
  next
    case (Some x)
    obtain pos' rem' inp' where x: "x = (pos', rem', inp')" by (cases x)
    obtain zerr z' used produced where inf: "z_inflate zl z inp' (BUFSZ - length procBuf) = (zerr, z', used, produced)"
      by (metis prod_cases4)
    let ?t = "tot + of_nat (length produced)"
    note IH' = IH [where recorder = recorder and tot = ?t]
    show ?thesis
    proof (cases "length (procBuf @ produced) = BUFSZ \<or> zerr = Z_STREAM_END \<and> procBuf @ produced \<noteq> []")
      case True
      show ?thesis
      proof (cases "process (procBuf @ produced) c")
        case None
        then show ?thesis using run True Some x inf fill rec tot ck
          by (auto simp: Let_def recording_def split: if_splits) (subst inflate_loop.simps, simp)
      next
        case p: (Some q)
        obtain ret c' where q: "q = (ret, c')" by fastforce
        show ?thesis
          using run True Some x inf fill rec tot ck p q
            IH' [where ck = "(c', out @ procBuf @ produced)" and procBuf = "[]"]
          by (subst inflate_loop.simps) (auto simp: Let_def recording_def algebra_simps split: if_splits)
      qed
    next
      case False
      then show ?thesis
        using run Some x inf fill rec tot ck
          IH' [where ck = ck and procBuf = "procBuf @ produced"]
        by (subst inflate_loop.simps) (cases zerr; auto simp: Let_def algebra_simps split: if_splits)
    qed
  qed
qed

section \<open>The walk over the entries\<close>

lemma take_mono_lex: "(xs :: 'a::linorder list) \<le> ys \<Longrightarrow> take n xs \<le> take n ys"
proof (induction n arbitrary: xs ys)
  case (Suc n)
  then show ?case by (cases xs; cases ys) (auto simp: Cons_le_Cons)
qed simp

text \<open>The names with a given prefix are contiguous in the sorted order.\<close>

lemma prefix_between:
  assumes "(x :: 'a::linorder list) \<le> y" "y \<le> z" "take (length p) x = p" "take (length p) z = p"
  shows "take (length p) y = p"
  using take_mono_lex [OF assms(1), of "length p"] take_mono_lex [OF assms(2), of "length p"] assms(3,4) by simp

definition below :: "bytes \<Rightarrow> bytes \<Rightarrow> bool" where
  "below zpath name \<longleftrightarrow> take (length zpath) name = zpath"

lemma after_first_mismatch:
  assumes "sorted (x # ns)" and "below p x0" and "x0 \<le> x" and "\<not> below p x"
  shows "filter (below p) (x # ns) = []"
proof -
  have "\<not> below p y" if "y \<in> set ns" for y
  proof
    assume "below p y"
    moreover have "x \<le> y" using assms(1) that by simp
    ultimately show False using prefix_between [OF assms(3)] assms(2,4) unfolding below_def by blast
  qed
  then show ?thesis using assms(4) by simp
qed

text \<open>The path helper: what its buffer holds once it has been used.\<close>

definition base_of :: "bytes \<Rightarrow> bytes" where
  "base_of targetDir = (if targetDir = [] \<or> last targetDir \<noteq> SLASH then targetDir @ [SLASH] else targetDir)"

definition helper_ok :: "bytes \<Rightarrow> MzPathHelper \<Rightarrow> bool" where
  "helper_ok targetDir h \<longleftrightarrow> hTargetDir h = targetDir \<and>
     (case hBuf h of
        None \<Rightarrow> hBufLen h = 0 \<and> hTargetDirLen h = length targetDir
      | Some b \<Rightarrow> length b = hBufLen h \<and> hTargetDirLen h = length (base_of targetDir) \<and>
          length (base_of targetDir) \<le> length b \<and> take (length (base_of targetDir)) b = base_of targetDir)"

lemma takeWhile_terminated: "0 \<notin> set xs \<Longrightarrow> takeWhile (\<lambda>c. c \<noteq> (0 :: u8)) (xs @ 0 # ys) = xs"
  by (induction xs) auto

text \<open>A buffer that starts with \<open>base\<close> and has room behind it.\<close>

lemma room_split:
  assumes "take (length base) buf = base" and "length base + n < length buf"
  obtains m c post where "buf = base @ m @ c # post" and "length m = n"
proof -
  let ?m = "take n (drop (length base) buf)" and ?c = "buf ! (length base + n)" and ?post = "drop (Suc (length base + n)) buf"
  have "buf = base @ drop (length base) buf" using assms(1) by (metis append_take_drop_id)
  also have "drop (length base) buf = ?m @ drop (length base + n) buf"
    by (metis append_take_drop_id drop_drop add.commute)
  also have "drop (length base + n) buf = ?c # ?post"
    using Cons_nth_drop_Suc [OF assms(2)] by simp
  finally have "buf = base @ ?m @ ?c # ?post" .
  moreover have "length ?m = n" using assms(2) by simp
  ultimately show ?thesis using that by blast
qed

lemma put_string:
  assumes "take (length base) buf = base" and "length base + length rest < length buf" and "0 \<notin> set (base @ rest)"
  shows "\<exists>buf'. (do { b \<leftarrow> wr_slice buf (length base) rest; wr_slice b (length base + length rest) [0] }) = Some buf' \<and>
    length buf' = length buf \<and> take (length base) buf' = base \<and> takeWhile (\<lambda>c. c \<noteq> (0 :: u8)) buf' = base @ rest"
proof -
  obtain m c post where b: "buf = base @ m @ c # post" "length m = length rest"
    using room_split [OF assms(1,2)] by blast
  have "wr_slice buf (length base) rest = Some (base @ rest @ c # post)"
    using b(2) unfolding b(1) by (simp add: wr_slice_append)
  moreover have "wr_slice (base @ rest @ c # post) (length base + length rest) [0] = Some (base @ rest @ 0 # post)"
    using wr_slice_append [of "base @ rest" "length base + length rest" "[c]" "[0]" post] by simp
  moreover have "takeWhile (\<lambda>c. c \<noteq> 0) (base @ rest @ 0 # post) = base @ rest"
    using takeWhile_terminated [OF assms(3), of post] by simp
  ultimately show ?thesis using b by simp
qed

lemma put_base:
  assumes "length targetDir + 1 < length buf"
  shows "\<exists>b. (do { buf \<leftarrow> wr_slice buf 0 targetDir;
             if length targetDir = 0 \<or> buf ! (length targetDir - 1) \<noteq> SLASH then do {
               buf \<leftarrow> wr_slice buf (length targetDir) [SLASH];
               Some (length targetDir + 1, buf) }
             else Some (length targetDir, buf) }) = Some (length (base_of targetDir), b) \<and>
    length b = length buf \<and> take (length (base_of targetDir)) b = base_of targetDir"
proof -
  obtain m c post where b: "buf = [] @ m @ c # post" "length m = length targetDir"
    using room_split [of "[]" buf "length targetDir"] assms by auto
  have w: "wr_slice buf 0 targetDir = Some (targetDir @ c # post)"
    using b wr_slice_append [of "[]" 0 m targetDir "c # post"] by simp
  have "(targetDir @ c # post) ! (length targetDir - 1) = last targetDir" if "targetDir \<noteq> []"
    using that by (simp add: nth_append last_conv_nth)
  moreover have "wr_slice (targetDir @ c # post) (length targetDir) [SLASH] = Some (targetDir @ SLASH # post)"
    using wr_slice_append [of targetDir "length targetDir" "[c]" "[SLASH]" post] by simp
  ultimately show ?thesis using w b by (cases "targetDir = []") (auto simp: base_of_def)
qed

lemma targetEntryPath_ok:
  assumes h: "helper_ok targetDir h" and "0 \<notin> set targetDir" and "0 \<notin> set name" and malloc: "\<And>n. malloc n"
  shows "\<exists>h'. targetEntryPath malloc h name = Some (Some (base_of targetDir @ drop (length (hZipDir h)) name), h') \<and>
    helper_ok targetDir h' \<and> hZipDir h' = hZipDir h"
proof -
  define rest where "rest = drop (length (hZipDir h)) name"
  let ?base = "base_of targetDir"
  have nul: "0 \<notin> set (?base @ rest)"
    using assms(2,3) by (auto simp: base_of_def rest_def dest: in_set_dropD)
  have base: "length ?base \<le> length targetDir + 1" by (simp add: base_of_def)
  show ?thesis
  proof (cases "hBuf h")
    case None
    let ?n = "(length targetDir + 1 + length rest + 1) * 2"
    obtain b where b: "(do { buf \<leftarrow> wr_slice (replicate ?n 0) 0 targetDir;
             if length targetDir = 0 \<or> buf ! (length targetDir - 1) \<noteq> SLASH then do {
               buf \<leftarrow> wr_slice buf (length targetDir) [SLASH];
               Some (length targetDir + 1, buf) }
             else Some (length targetDir, buf) }) = Some (length ?base, b)"
      "length b = ?n" "take (length ?base) b = ?base"
      using put_base [of targetDir "replicate ?n 0"] by auto
    from put_string [OF b(3) _ nul] base b(2)
    obtain buf' where buf': "(do { b \<leftarrow> wr_slice b (length ?base) rest; wr_slice b (length ?base + length rest) [0] }) = Some buf'"
      "length buf' = ?n" "take (length ?base) buf' = ?base" "takeWhile (\<lambda>c. c \<noteq> 0) buf' = ?base @ rest" by auto
    then obtain b1 where "wr_slice b (length ?base) rest = Some b1" "wr_slice b1 (length ?base + length rest) [0] = Some buf'"
      by (auto simp: bind_eq_Some_conv)
    moreover have f: "hTargetDir h = targetDir" "hBufLen h = 0" "hTargetDirLen h = length targetDir"
      using h None by (simp_all add: helper_ok_def)
    ultimately show ?thesis
      using b(1) buf'(2-4) base None malloc
      unfolding targetEntryPath_def helper_ok_def Let_def None f rest_def [symmetric]
      by (simp add: f(1) del: Option.bind_assoc cong: if_cong)
  next
    case (Some b)
    let ?need = "length ?base + 1 + length rest + 1"
    let ?b = "if ?need > hBufLen h then b @ replicate (?need * 2 - length b) 0 else b"
    have b: "length b = hBufLen h" "hTargetDirLen h = length ?base" "length ?base \<le> length b" "take (length ?base) b = ?base"
      using h Some by (simp_all add: helper_ok_def)
    have "take (length ?base) ?b = ?base" "length ?base + length rest < length ?b" using b by auto
    from put_string [OF this nul]
    obtain buf' b1 where "length buf' = length ?b" "take (length ?base) buf' = ?base" "takeWhile (\<lambda>c. c \<noteq> 0) buf' = ?base @ rest"
      "wr_slice ?b (length ?base) rest = Some b1" "wr_slice b1 (length ?base + length rest) [0] = Some buf'"
      by (auto simp: bind_eq_Some_conv)
    then show ?thesis
      using b Some h malloc
      by (auto simp: targetEntryPath_def helper_ok_def Let_def simp flip: rest_def split: if_splits)
  qed
qed


text \<open>A dry run calls back for the matching entries, and the early exit loses none of them.\<close>

lemma strncmp_matches:
  assumes "fileName e + unat (fileNameLen e) \<le> length buf" and "length zpath \<le> unat (fileNameLen e)"
    and "0 \<notin> set (entry_name buf e)"
  shows "\<exists>d. strncmp (drop (fileName e) buf) (zpath @ [0]) (length zpath) = Some d \<and>
    (d = 0 \<longleftrightarrow> below zpath (entry_name buf e))"
proof -
  have "length zpath \<le> length (drop (fileName e) buf)" using assms(1,2) unfolding length_drop by linarith
  then obtain d where d: "strncmp (drop (fileName e) buf) (zpath @ [0]) (length zpath) = Some d"
    using strncmp_in [of "length zpath" "drop (fileName e) buf" "zpath @ [0]"] by fastforce
  have t: "take (length zpath) (drop (fileName e) buf) = take (length zpath) (entry_name buf e)"
    using assms(2) by (simp add: entry_name_def)
  then have "0 \<notin> set (take (length zpath) (drop (fileName e) buf))"
    using assms(3) by (metis in_set_takeD)
  from strncmp_zero [OF d this] d show ?thesis by (simp add: t below_def)
qed

lemma dry_run_loop:
  assumes "\<forall>e \<in> set es. fileName e + unat (fileNameLen e) \<le> length buf \<and> 0 \<notin> set (entry_name buf e)"
    and "sorted (map (entry_name buf) es)" and "0 \<notin> set targetDir" and "\<And>n. malloc n"
    and "helper_ok targetDir h" and "hZipDir h = zpath"
    and "seen \<longrightarrow> (\<exists>x0. below zpath x0 \<and> (\<forall>e \<in> set es. x0 \<le> entry_name buf e))"
  shows "extract_loop zl malloc os read buf True filesOnly ts callback es seen h w =
    Some (True, fold (\<lambda>e w. callback (base_of targetDir @ drop (length zpath) (entry_name buf e)) w)
                  (filter (\<lambda>e. below zpath (entry_name buf e)) es) w)"
  using assms(1,2,5-)
proof (induction es arbitrary: seen h w)
  case (Cons e es)
  have e: "fileName e + unat (fileNameLen e) \<le> length buf" "0 \<notin> set (entry_name buf e)"
    "length (entry_name buf e) = unat (fileNameLen e)"
    using Cons.prems(1) length_entry_name by auto
  have rest: "\<forall>e \<in> set es. fileName e + unat (fileNameLen e) \<le> length buf \<and> 0 \<notin> set (entry_name buf e)"
    "sorted (map (entry_name buf) es)" using Cons.prems(1,2) by auto
  have gone: "filter (\<lambda>e. below zpath (entry_name buf e)) (e # es) = []"
    if "seen" "\<not> below zpath (entry_name buf e)"
  proof -
    obtain x0 where "below zpath x0" "x0 \<le> entry_name buf e" using Cons.prems(5) \<open>seen\<close> by auto
    from after_first_mismatch [OF _ this that(2)] Cons.prems(2)
    have "filter (below zpath) (map (entry_name buf) (e # es)) = []" by simp
    then show ?thesis using that(2) by (simp add: filter_map comp_def)
  qed
  have skip: "extract_loop zl malloc os read buf True filesOnly ts callback es seen h w =
      Some (True, fold (\<lambda>e w. callback (base_of targetDir @ drop (length zpath) (entry_name buf e)) w)
                  (filter (\<lambda>e. below zpath (entry_name buf e)) es) w)" if "\<not> seen"
    using Cons.IH [OF rest Cons.prems(3,4)] that by simp
  show ?case
  proof (cases "below zpath (entry_name buf e)")
    case True
    then have len: "length zpath \<le> unat (fileNameLen e)"
      using e(3) unfolding below_def by (metis length_take min.cobounded2 min.commute)
    obtain h' where h': "targetEntryPath malloc h (entry_name buf e) =
        Some (Some (base_of targetDir @ drop (length zpath) (entry_name buf e)), h')"
      "helper_ok targetDir h'" "hZipDir h' = zpath"
      using targetEntryPath_ok [where malloc = malloc, OF Cons.prems(3) assms(3) e(2) assms(4)] Cons.prems(4) by auto
    have "\<exists>x0. below zpath x0 \<and> (\<forall>e' \<in> set es. x0 \<le> entry_name buf e')"
      using True Cons.prems(2) by auto
    from Cons.IH [OF rest h'(2,3)] this
    have "extract_loop zl malloc os read buf True filesOnly ts callback es True h' w' =
      Some (True, fold (\<lambda>e w. callback (base_of targetDir @ drop (length zpath) (entry_name buf e)) w)
                  (filter (\<lambda>e. below zpath (entry_name buf e)) es) w')" for w' by blast
    then show ?thesis
      using strncmp_matches [OF e(1) len e(2)] True len h'(1) Cons.prems(4) by auto
  next
    case False
    then show ?thesis
      using gone skip strncmp_matches [OF e(1) _ e(2), of zpath] Cons.prems(4)
      by (cases seen; cases "unat (fileNameLen e) < length zpath") (auto simp: not_less)
  qed
qed simp


section \<open>Properties\<close>

text \<open>
  C24: a dry run of \<open>mzExtractRecursive\<close> reports exactly the entries below \<open>zipDir\<close>, each once, in
  order, under the path its header promises (\<open>targetDir\<close>, one slash, the rest of the name).
  Leaving the loop at the first mismatch after a match loses no entry, since the entries are
  sorted; and the reused path buffer is never overrun.
\<close>

theorem mzExtractRecursive_dry_run:
  assumes "list_all (\<lambda>e. fileName e + unat (fileNameLen e) \<le> length (arcMap arc) \<and>
      validFilename (entry_name (arcMap arc) e)) (arcEntries arc)"
    and "sorted (map (entry_name (arcMap arc)) (arcEntries arc))"
    and "0 \<notin> set targetDir" and "targetDir \<noteq> []" and "hd targetDir = SLASH"
    and "zipDir = [] \<or> hd zipDir \<noteq> SLASH" and "\<And>n. malloc n"
  shows "mzExtractRecursive zl malloc os read arc zipDir targetDir True filesOnly ts callback w =
    Some (True, fold (\<lambda>e w. callback (base_of targetDir @
                        drop (length (canonical_zpath zipDir)) (entry_name (arcMap arc) e)) w)
       (filter (\<lambda>e. below (canonical_zpath zipDir) (entry_name (arcMap arc) e)) (arcEntries arc)) w)"
proof -
  have "\<forall>e \<in> set (arcEntries arc). fileName e + unat (fileNameLen e) \<le> length (arcMap arc) \<and>
      0 \<notin> set (entry_name (arcMap arc) e)"
    using assms(1) valid_no_nul by (auto simp: list_all_iff)
  then have "extract_loop zl malloc os read (arcMap arc) True filesOnly ts callback (arcEntries arc) False
      \<lparr>hTargetDir = targetDir, hZipDir = canonical_zpath zipDir, hBuf = None,
        hTargetDirLen = length targetDir, hBufLen = 0\<rparr> w =
    Some (True, fold (\<lambda>e w. callback (base_of targetDir @
                        drop (length (canonical_zpath zipDir)) (entry_name (arcMap arc) e)) w)
       (filter (\<lambda>e. below (canonical_zpath zipDir) (entry_name (arcMap arc) e)) (arcEntries arc)) w)"
    using assms(2,3,7) by (intro dry_run_loop) (simp_all add: helper_ok_def)
  then show ?thesis using assms(4-7) by (auto simp: mzExtractRecursive_def)
qed

definition sample_entries :: "ZipEntry list" where
  "sample_entries = [sample_entry\<lparr>fileName := 0, fileNameLen := 1\<rparr>, sample_entry\<lparr>fileName := 0, fileNameLen := 3\<rparr>]"

definition sample_paths :: ZipArchive where
  "sample_paths = \<lparr>arcEntries = sample_entries,
    arcHash = \<lparr>tableSize = 1, numEntries = 0, numDeadEntries = 0, pEntries = [empty_entry], hasFreeFunc = False\<rparr>,
    arcMap = [97, SLASH, 98]\<rparr>"

definition idle_os :: "nat xos" where
  "idle_os = \<lparr>os_stat = (\<lambda>p w. StatDir), os_mkdir = (\<lambda>p m w. (0, w)), os_utime = (\<lambda>p t w. (0, w)),
     os_symlink = (\<lambda>a b w. (0, w)), os_creat = (\<lambda>p w. (3, w)),
     os_write = (\<lambda>fd bs w. ((int (length bs), False), w + length bs)), os_close = (\<lambda>fd w. w)\<rparr>"

definition no_zlib :: "unit zlib" where
  "no_zlib = \<lparr>z_init = None, z_inflate = (\<lambda>z inp room. (Z_OTHER, (), 0, []))\<rparr>"

theorem mzExtractRecursive_dry_run_witness:
  "mzExtractRecursive no_zlib (\<lambda>_. True) \<lparr>os_stat = (\<lambda>p w. StatDir), os_mkdir = (\<lambda>p m w. (0, w)),
       os_utime = (\<lambda>p t w. (0, w)), os_symlink = (\<lambda>a b w. (0, w)), os_creat = (\<lambda>p w. (3, w)),
       os_write = (\<lambda>fd bs w. ((int (length bs), False), w)), os_close = (\<lambda>fd w. w)\<rparr>
     (\<lambda>pos n. None) sample_paths [97] [SLASH, 116] True False None (\<lambda>t w. w @ [t]) [] =
   Some (True, [[SLASH, 116, SLASH, 98]])"
  by (subst mzExtractRecursive_dry_run)
    (simp_all add: sample_paths_def sample_entries_def sample_entry_def entry_name_def canonical_zpath_def
      base_of_def below_def validFilename_def PATH_MAX_def)

text \<open>
  \<open>mzReadZipEntry\<close> of a stored entry whose bytes are in the file fills exactly the front of
  the buffer with them, however they are chunked, if the buffer is as long as announced.
\<close>

theorem mzReadZipEntry_stored:
  assumes "\<And>pos n. read pos n = Some (take n (drop pos contents))" and "compression e = STORED"
    and "0 < unat (compLen e)" and "unat (offset e) + unat (compLen e) \<le> length contents"
    and "int (unat (compLen e)) \<le> bufLen" and "unat (compLen e) \<le> length buf"
  shows "mzReadZipEntry zl read e buf bufLen =
    Some (True, take (unat (compLen e)) (drop (unat (offset e)) contents) @ drop (unat (compLen e)) buf)"
proof -
  let ?d = "take (unat (compLen e)) (drop (unat (offset e)) contents)"
  have "length ?d = unat (compLen e)" using assms(4) by simp
  then have "copyProcessFunction ?d \<lparr>copyBuf = buf, copyPos = 0, copyLen = bufLen\<rparr> =
      Some (True, \<lparr>copyBuf = ?d @ drop (unat (compLen e)) buf, copyPos = unat (compLen e),
                   copyLen = bufLen - int (unat (compLen e))\<rparr>)"
    using assms(5,6) by (simp add: copyProcessFunction_def wr_slice_def del: length_take of_nat_unat)
  then have "processStored read copyProcessFunction (unat (offset e)) (unat (compLen e))
      \<lparr>copyBuf = buf, copyPos = 0, copyLen = bufLen\<rparr> =
      Some (True, \<lparr>copyBuf = ?d @ drop (unat (compLen e)) buf, copyPos = unat (compLen e),
                   copyLen = bufLen - int (unat (compLen e))\<rparr>)"
    using copy_sink.stored_whole [where read = read and contents = contents, OF assms(1,3)] assms(4) by blast
  then show ?thesis
    using assms(2) by (simp add: mzReadZipEntry_def mzProcessZipEntryContents_def processStoredEntry_def Let_def)
qed

theorem mzReadZipEntry_stored_witness:
  "mzReadZipEntry no_zlib (\<lambda>pos n. Some (take n (drop pos sample_archive))) sample_entry [0, 0] 2 =
    Some (True, [7, 0])"
  by (subst mzReadZipEntry_stored [where contents = sample_archive])
    (simp_all add: sample_entry_def sample_archive_def STORED_def)

text \<open>
  C38: \<open>mzIsZipEntryIntact\<close> on a stored entry that begins below 2 GiB decides whether all its bytes
  are in the file and their CRC, computed over the whole, is the recorded one; the checksum function
  is only required to be a running one.
\<close>

theorem mzIsZipEntryIntact_stored:
  assumes "\<And>pos n. read pos n = Some (take n (drop pos contents))"
    and "\<And>c xs ys. crc32_of c (xs @ ys) = crc32_of (crc32_of c xs) ys"
    and "compression e = STORED" and "0 < unat (compLen e)" and "unat (offset e) < 2 ^ 31"
  shows "mzIsZipEntryIntact zl crc32_of read e = Some True \<longleftrightarrow>
    unat (offset e) + unat (compLen e) \<le> length contents \<and>
    crc32_of (crc32_of 0 []) (take (unat (compLen e)) (drop (unat (offset e)) contents)) = crc32 e"
proof -
  have "mzIsZipEntryIntact zl crc32_of read e = Some True \<longleftrightarrow>
      processStored read (crcProcessFunction crc32_of) (unat (offset e)) (unat (compLen e)) (crc32_of 0 []) =
        Some (True, crc32 e)"
    using assms(3)
    by (cases "processStored read (crcProcessFunction crc32_of) (unat (offset e)) (unat (compLen e)) (crc32_of 0 [])")
      (auto simp: mzIsZipEntryIntact_def mzProcessZipEntryContents_def processStoredEntry_def Let_def split: if_splits)
  then show ?thesis
    using chunk_sink.stored_whole [where read = read and contents = contents, OF crc_sink [where crc32_of = crc32_of, OF assms(2)] assms(1,4)]
    by (simp add: crcProcessFunction_def)
qed

theorem mzIsZipEntryIntact_stored_witness:
  "mzIsZipEntryIntact no_zlib (\<lambda>c xs. c + sum_list (map ucast xs)) (\<lambda>pos n. Some (take n (drop pos sample_archive)))
     (sample_entry\<lparr>crc32 := 7\<rparr>) = Some True"
  by (subst mzIsZipEntryIntact_stored [where contents = sample_archive])
    (simp_all add: sample_entry_def sample_archive_def STORED_def add.assoc)

text \<open>
  C28: for every consumer and whatever \<open>zlib\<close> does: when \<open>processDeflatedEntry\<close> succeeds on an entry
  whose recorded size is not \<open>0xffffffff\<close>, the number of bytes the consumer has been given is the
  recorded size, modulo \<open>2\<^sup>3\<^sup>2\<close>.  The consumer is watched by \<open>recording\<close>, which changes neither the
  result nor what the consumer does.
\<close>

theorem processDeflatedEntry_size:
  assumes "processDeflatedEntry zl read e (recording process) pos (cookie, []) = Some (True, cookie', out)" and "uncompLen e \<noteq> -1"
  shows "length out mod 2 ^ 32 = unat (uncompLen e) \<and> processDeflatedEntry zl read e process pos cookie = Some (True, cookie')"
proof -
  obtain z where z: "z_init zl = Some z" using assms by (fastforce simp: processDeflatedEntry_def split: option.splits)
  obtain n where n: "inflate_loop zl read (recording process) pos (compLen e) z [] [] 0 (cookie, []) = Some (n, cookie', out)" "n = uncompLen e"
    using assms(1) z by (auto simp: processDeflatedEntry_def bind_eq_Some_conv)
  have "uncompLen e = of_nat (length out)" "inflate_loop zl read process pos (compLen e) z [] [] 0 cookie = Some (n, cookie')"
    using inflate_loop_recorded [OF n(1), of process] n(2) assms(2) by simp_all
  then show ?thesis using z n(2) by (simp add: processDeflatedEntry_def unat_of_nat)
qed

theorem processDeflatedEntry_size_witness:
  "let zl = \<lparr>z_init = Some (), z_inflate = (\<lambda>z inp room. (Z_STREAM_END, z, length inp, inp @ inp))\<rparr>;
       e = sample_entry\<lparr>compression := DEFLATED, uncompLen := 2\<rparr> in
   processDeflatedEntry zl (\<lambda>pos n. Some (replicate n 5)) e (recording collectProcess) 0 ([], []) = Some (True, [5, 5], [5, 5]) \<and>
   length [5 :: u8, 5] mod 2 ^ 32 = unat (uncompLen e) \<and>
   processDeflatedEntry zl (\<lambda>pos n. Some (replicate n 5)) e collectProcess 0 [] = Some (True, [5, 5])"
  unfolding Let_def
proof
  show run: "processDeflatedEntry \<lparr>z_init = Some (), z_inflate = (\<lambda>z inp room. (Z_STREAM_END, z, length inp, inp @ inp))\<rparr>
     (\<lambda>pos n. Some (replicate n 5)) (sample_entry\<lparr>compression := DEFLATED, uncompLen := 2\<rparr>) (recording collectProcess) 0 ([], []) =
     Some (True, [5, 5], [5, 5])"
    by (simp add: processDeflatedEntry_def inflate_loop.simps refill_def BUFSZ_def sample_entry_def collectProcess_def recording_def Let_def)
  show "length [5 :: u8, 5] mod 2 ^ 32 = unat (uncompLen (sample_entry\<lparr>compression := DEFLATED, uncompLen := 2\<rparr>)) \<and>
    processDeflatedEntry \<lparr>z_init = Some (), z_inflate = (\<lambda>z inp room. (Z_STREAM_END, z, length inp, inp @ inp))\<rparr>
      (\<lambda>pos n. Some (replicate n 5)) (sample_entry\<lparr>compression := DEFLATED, uncompLen := 2\<rparr>) collectProcess 0 [] = Some (True, [5, 5])"
    by (rule processDeflatedEntry_size [OF run]) simp
qed

text \<open>
  The exception is real.  The error value \<open>-1\<close> of the inflating loop is compared with the
  recorded size, so an entry that claims the size \<open>0xffffffff\<close> is accepted although \<open>zlib\<close>
  could not even be started and nothing was delivered.
\<close>

theorem deflate_error_accepted:
  "mzProcessZipEntryContents no_zlib (\<lambda>pos n. None)
     (sample_entry\<lparr>compression := DEFLATED, uncompLen := 0xffffffff\<rparr>) collectProcess [] = Some (True, [])"
  by (simp add: mzProcessZipEntryContents_def processDeflatedEntry_def no_zlib_def sample_entry_def
      STORED_def DEFLATED_def Let_def)

text \<open>
  \<open>mzExtractZipEntryToBuffer\<close> writes past a buffer of the documented size, the entry's
  uncompressed length, when a stored entry's compressed length is larger.
\<close>

theorem extract_to_buffer_overflow:
  "mzExtractZipEntryToBuffer no_zlib (\<lambda>pos n. Some (replicate n 5))
     (sample_entry\<lparr>compLen := 2, uncompLen := 1\<rparr>) (replicate (unat (1 :: u32)) 0) = None"
  by (simp add: mzExtractZipEntryToBuffer_def mzProcessZipEntryContents_def processStoredEntry_def
      processStored.simps sample_entry_def STORED_def BUFSZ_def bufferProcessFunction_def wr_slice_def Let_def)

text \<open>
  \<open>mzExtractRecursive\<close> reports success although a file could not be extracted: the failure
  is assigned to an inner variable \<open>ok\<close>.  Here the only entry has an unsupported compression,
  its file is created and stays empty, and the result is \<open>true\<close>.
\<close>

theorem extract_failure_unreported:
  "mzExtractZipEntryToFile no_zlib idle_os (\<lambda>pos n. None) (sample_entry\<lparr>fileName := 0, compression := 5\<rparr>) 3 0 =
     Some (False, 0) \<and>
   mzExtractRecursive no_zlib (\<lambda>_. True) idle_os (\<lambda>pos n. None)
     (sample_paths\<lparr>arcEntries := [sample_entry\<lparr>fileName := 0, compression := 5\<rparr>]\<rparr>) [] [SLASH, 116] False True None (\<lambda>t w. w) 0 =
     Some (True, 0)"
  by (simp add: mzExtractRecursive_def mzExtractZipEntryToFile_def mzProcessZipEntryContents_def sample_paths_def
      sample_entry_def idle_os_def no_zlib_def STORED_def DEFLATED_def canonical_zpath_def targetEntryPath_def
      wr_slice_def extract_entry_def entry_name_def rd_def dirCreateHierarchy_def cpath_of_def
      getPathDirStatus_def last_slash_numeral Let_def)

text \<open>
  A compressed length of \<open>0xffffffff\<close>, which the parser lets through, makes the inflating
  loop hand \<open>zlib\<close> more input than its buffer holds when \<open>read\<close> rejects the count (as Linux
  does): the error value \<open>-1\<close> equals the requested size.
\<close>

theorem negative_length_overread:
  "processDeflatedEntry \<lparr>z_init = Some (), z_inflate = f\<rparr> (\<lambda>pos n. if n < 2 ^ 31 then Some [] else None)
     (sample_entry\<lparr>compLen := 0xffffffff\<rparr>) collectProcess pos [] = None"
  by (simp add: processDeflatedEntry_def inflate_loop.simps refill_def BUFSZ_def)

end
