(* ===== verification/Edify.thy ===== *)
theory Edify
  imports Prelude "HOL-Library.Sublist" "HOL-Library.List_Lexorder"
begin

text \<open>
  The evaluator of the update scripting language, \<open>edify/expr.c\<close>.

  An \<open>Expr\<close> node of the code holds a function pointer and its argument nodes, and evaluating a
  node calls the function with the arguments unevaluated.  Here the function is a HOL function
  that takes its arguments as evaluators, and \<open>eval_expr\<close> ties the knot.  An evaluator takes the
  script state and returns a \<open>Value\<close> or \<open>NULL\<close>, or is undefined behaviour (\<open>None\<close>), for
  instance where a function reads an argument the script did not give.  Strings are lists of
  bytes without terminators; allocation of small blocks is taken to succeed, as in the code.
\<close>

section \<open>Values, states and expressions\<close>

definition VAL_STRING :: nat where "VAL_STRING = 1"
definition VAL_BLOB :: nat where "VAL_BLOB = 2"

record Value =
  vtype :: nat
  vsize :: nat
  vdata :: bytes

text \<open>
  \<open>cookie\<close> is the application's data, \<open>stdout\<close> and \<open>sleeps\<close> what scripts have printed and how
  long they slept.
\<close>

record 'w State =
  cookie :: 'w
  script :: bytes
  errmsg :: "bytes option"
  stdout :: bytes
  sleeps :: "int list"

type_synonym 'w run = "'w State \<Rightarrow> (Value option \<times> 'w State) option"

record 'w arg =
  arun :: "'w run"
  astart :: nat
  aend :: nat

type_synonym 'w Function = "bytes \<Rightarrow> 'w arg list \<Rightarrow> 'w run"

datatype 'w Expr = Expr (efn: "'w Function") (ename: bytes) (eargv: "'w Expr list") (estart: nat) (eend: nat)

definition str :: "string \<Rightarrow> bytes" where
  "str s = map of_char s"

primrec eval_expr :: "'w Expr \<Rightarrow> 'w arg" where
  "eval_expr (Expr fn name argv s e) =
     \<lparr>arun = fn name (map eval_expr argv), astart = s, aend = e\<rparr>"

section \<open>Evaluation\<close>

definition BooleanString :: "bytes \<Rightarrow> bool" where
  "BooleanString s = (s \<noteq> [])"

definition StringValue :: "bytes option \<Rightarrow> Value option" where
  "StringValue s = (case s of None \<Rightarrow> None
     | Some s \<Rightarrow> Some \<lparr>vtype = VAL_STRING, vsize = length s, vdata = s\<rparr>)"

text \<open>The message is cut to the 4096 bytes of the buffer that \<open>vsnprintf\<close> fills.\<close>

definition ErrorAbort :: "bytes \<Rightarrow> 'w State \<Rightarrow> 'w State" where
  "ErrorAbort msg st = st\<lparr>errmsg := Some (take 4095 msg)\<rparr>"

text \<open>The decimal digits of a natural number, as \<open>printf\<close> writes them.\<close>

fun digits :: "nat \<Rightarrow> bytes" where
  "digits n = (if n < 10 then [of_nat (48 + n)] else digits (n div 10) @ [of_nat (48 + n mod 10)])"

declare digits.simps [simp del]

definition EvaluateValue :: "'w arg \<Rightarrow> 'w State \<Rightarrow> (Value option \<times> 'w State) option" where
  "EvaluateValue a st = arun a st"

definition Evaluate :: "'w arg \<Rightarrow> 'w State \<Rightarrow> (bytes option \<times> 'w State) option" where
  "Evaluate a st = do {
     (v, st) \<leftarrow> arun a st;
     case v of
       None \<Rightarrow> Some (None, st)
     | Some v \<Rightarrow>
         if vtype v \<noteq> VAL_STRING
         then Some (None, ErrorAbort (str ''expecting string, got value type '' @ digits (vtype v)) st)
         else Some (Some (vdata v), st) }"

text \<open>
  Evaluating the first \<open>count\<close> arguments from left to right up to the first \<open>NULL\<close>: the loop
  of \<open>ReadArgs\<close>, \<open>ReadVarArgs\<close> and \<open>ConcatFn\<close>, and with values of \<open>ReadValueArgs\<close> and
  \<open>ReadValueVarArgs\<close>.  Asking for more arguments than there are reads past \<open>argv\<close>.
\<close>

fun read_args ::
    "('w arg \<Rightarrow> 'w State \<Rightarrow> ('v option \<times> 'w State) option) \<Rightarrow> 'w arg list \<Rightarrow> nat \<Rightarrow> 'w State \<Rightarrow>
     ('v list option \<times> 'w State) option" where
  "read_args ev argv 0 st = Some (Some [], st)"
| "read_args ev [] (Suc n) st = None"
| "read_args ev (a # argv) (Suc n) st = do {
     (v, st) \<leftarrow> ev a st;
     case v of
       None \<Rightarrow> Some (None, st)
     | Some v \<Rightarrow> do { (vs, st) \<leftarrow> read_args ev argv n st; Some (map_option ((#) v) vs, st) } }"

definition ReadArgs :: "'w arg list \<Rightarrow> nat \<Rightarrow> 'w State \<Rightarrow> (bytes list option \<times> 'w State) option" where
  "ReadArgs argv count st = read_args Evaluate argv count st"

definition ReadValueArgs :: "'w arg list \<Rightarrow> nat \<Rightarrow> 'w State \<Rightarrow> (Value list option \<times> 'w State) option" where
  "ReadValueArgs argv count st = read_args EvaluateValue argv count st"

definition ReadVarArgs :: "'w arg list \<Rightarrow> 'w State \<Rightarrow> (bytes list option \<times> 'w State) option" where
  "ReadVarArgs argv st = read_args Evaluate argv (length argv) st"

definition ReadValueVarArgs :: "'w arg list \<Rightarrow> 'w State \<Rightarrow> (Value list option \<times> 'w State) option" where
  "ReadValueVarArgs argv st = read_args EvaluateValue argv (length argv) st"

section \<open>The C library\<close>

fun strcmp :: "bytes \<Rightarrow> bytes \<Rightarrow> int" where
  "strcmp [] [] = 0"
| "strcmp [] (y # b) = - uint y"
| "strcmp (x # a) [] = uint x"
| "strcmp (x # a) (y # b) = (if x \<noteq> y then uint x - uint y else strcmp a b)"

fun strstr :: "bytes \<Rightarrow> bytes \<Rightarrow> bool" where
  "strstr haystack needle =
     (take (length needle) haystack = needle \<or>
      (case haystack of [] \<Rightarrow> False | _ # rest \<Rightarrow> strstr rest needle))"

declare strstr.simps [simp del]

definition isspace :: "u8 \<Rightarrow> bool" where
  "isspace c = (c = 32 \<or> (9 \<le> c \<and> c \<le> 13))"

definition isdigit :: "u8 \<Rightarrow> bool" where
  "isdigit c = (48 \<le> c \<and> c \<le> 57)"

fun decimal :: "nat \<Rightarrow> bytes \<Rightarrow> nat \<times> bytes" where
  "decimal n [] = (n, [])"
| "decimal n (c # cs) = (if isdigit c then decimal (10 * n + (unat c - 48)) cs else (n, c # cs))"

definition LONG_MAX :: int where "LONG_MAX = 2 ^ 31 - 1"
definition LONG_MIN :: int where "LONG_MIN = - (2 ^ 31)"

text \<open>\<open>strtol\<close> to base 10: the value, clamped to a \<open>long\<close>, and what is left of the string.\<close>

definition strtol10 :: "bytes \<Rightarrow> int \<times> bytes" where
  "strtol10 s =
     (let s1 = dropWhile isspace s;
          neg = (s1 \<noteq> [] \<and> hd s1 = 45);
          s2 = (if s1 \<noteq> [] \<and> (hd s1 = 45 \<or> hd s1 = 43) then tl s1 else s1) in
      if s2 = [] \<or> \<not> isdigit (hd s2) then (0, s)
      else
        let (n, rest) = decimal 0 s2;
            v = (if neg then - int n else int n) in
        (max LONG_MIN (min LONG_MAX v), rest))"

section \<open>The builtin functions\<close>

definition ConcatFn :: "'w Function" where
  "ConcatFn name argv st =
     (if length argv = 0 then Some (StringValue (Some []), st)
      else do {
        (strings, st) \<leftarrow> read_args Evaluate argv (length argv) st;
        Some (StringValue (map_option concat strings), st) })"

definition IfElseFn :: "'w Function" where
  "IfElseFn name argv st =
     (if length argv \<noteq> 2 \<and> length argv \<noteq> 3
      then Some (None, st\<lparr>errmsg := Some (str ''ifelse expects 2 or 3 arguments'')\<rparr>)
      else do {
        (cond, st) \<leftarrow> Evaluate (argv ! 0) st;
        case cond of
          None \<Rightarrow> Some (None, st)
        | Some cond \<Rightarrow>
            if BooleanString cond then EvaluateValue (argv ! 1) st
            else if length argv = 3 then EvaluateValue (argv ! 2) st
            else Some (StringValue (Some cond), st) })"

definition AbortFn :: "'w Function" where
  "AbortFn name argv st = do {
     (msg, st) \<leftarrow> (if length argv > 0 then Evaluate (argv ! 0) st else Some (None, st));
     Some (None, case msg of
                   Some msg \<Rightarrow> st\<lparr>errmsg := Some msg\<rparr>
                 | None \<Rightarrow> st\<lparr>errmsg := Some (str ''called abort()'')\<rparr>) }"

fun assert_args :: "'w arg list \<Rightarrow> 'w State \<Rightarrow> (Value option \<times> 'w State) option" where
  "assert_args [] st = Some (StringValue (Some []), st)"
| "assert_args (a # argv) st = do {
     (v, st) \<leftarrow> Evaluate a st;
     case v of
       None \<Rightarrow> Some (None, st)
     | Some v \<Rightarrow>
         if \<not> BooleanString v then do {
           src \<leftarrow> rd_slice (script st) (astart a) (aend a - astart a);
           Some (None, st\<lparr>errmsg := Some (str ''assert failed: '' @ src)\<rparr>) }
         else assert_args argv st }"

definition AssertFn :: "'w Function" where
  "AssertFn name argv st = assert_args argv st"

definition SleepFn :: "'w Function" where
  "SleepFn name argv st = do {
     a \<leftarrow> rd argv 0;
     (val, st) \<leftarrow> Evaluate a st;
     case val of
       None \<Rightarrow> Some (None, st)
     | Some val \<Rightarrow> Some (StringValue (Some val), st\<lparr>sleeps := sleeps st @ [fst (strtol10 val)]\<rparr>) }"

fun stdout_args :: "'w arg list \<Rightarrow> 'w State \<Rightarrow> (Value option \<times> 'w State) option" where
  "stdout_args [] st = Some (StringValue (Some []), st)"
| "stdout_args (a # argv) st = do {
     (v, st) \<leftarrow> Evaluate a st;
     case v of
       None \<Rightarrow> Some (None, st)
     | Some v \<Rightarrow> stdout_args argv (st\<lparr>stdout := stdout st @ v\<rparr>) }"

definition StdoutFn :: "'w Function" where
  "StdoutFn name argv st = stdout_args argv st"

definition LogicalAndFn :: "'w Function" where
  "LogicalAndFn name argv st = do {
     a0 \<leftarrow> rd argv 0;
     (left, st) \<leftarrow> Evaluate a0 st;
     case left of
       None \<Rightarrow> Some (None, st)
     | Some left \<Rightarrow>
         if BooleanString left then do { a1 \<leftarrow> rd argv 1; EvaluateValue a1 st }
         else Some (StringValue (Some left), st) }"

definition LogicalOrFn :: "'w Function" where
  "LogicalOrFn name argv st = do {
     a0 \<leftarrow> rd argv 0;
     (left, st) \<leftarrow> Evaluate a0 st;
     case left of
       None \<Rightarrow> Some (None, st)
     | Some left \<Rightarrow>
         if \<not> BooleanString left then do { a1 \<leftarrow> rd argv 1; EvaluateValue a1 st }
         else Some (StringValue (Some left), st) }"

definition truth :: "bool \<Rightarrow> bytes" where
  "truth b = (if b then str ''t'' else [])"

definition LogicalNotFn :: "'w Function" where
  "LogicalNotFn name argv st = do {
     a0 \<leftarrow> rd argv 0;
     (val, st) \<leftarrow> Evaluate a0 st;
     case val of
       None \<Rightarrow> Some (None, st)
     | Some val \<Rightarrow> Some (StringValue (Some (truth (\<not> BooleanString val))), st) }"

text \<open>The comparisons of two strings differ in the test only.\<close>

definition compare_args :: "(bytes \<Rightarrow> bytes \<Rightarrow> bool) \<Rightarrow> 'w arg list \<Rightarrow> 'w run" where
  "compare_args test argv st = do {
     a0 \<leftarrow> rd argv 0;
     (left, st) \<leftarrow> Evaluate a0 st;
     case left of
       None \<Rightarrow> Some (None, st)
     | Some left \<Rightarrow> do {
         a1 \<leftarrow> rd argv 1;
         (right, st) \<leftarrow> Evaluate a1 st;
         case right of
           None \<Rightarrow> Some (None, st)
         | Some right \<Rightarrow> Some (StringValue (Some (truth (test left right))), st) } }"

definition SubstringFn :: "'w Function" where
  "SubstringFn name argv st = compare_args (\<lambda>needle haystack. strstr haystack needle) argv st"

definition EqualityFn :: "'w Function" where
  "EqualityFn name argv st = compare_args (\<lambda>left right. strcmp left right = 0) argv st"

definition InequalityFn :: "'w Function" where
  "InequalityFn name argv st = compare_args (\<lambda>left right. strcmp left right \<noteq> 0) argv st"

definition SequenceFn :: "'w Function" where
  "SequenceFn name argv st = do {
     a0 \<leftarrow> rd argv 0;
     (left, st) \<leftarrow> EvaluateValue a0 st;
     case left of
       None \<Rightarrow> Some (None, st)
     | Some _ \<Rightarrow> do { a1 \<leftarrow> rd argv 1; EvaluateValue a1 st } }"

definition less_than_int :: "bytes \<Rightarrow> bytes \<Rightarrow> bool" where
  "less_than_int left right =
     (let (l_int, rest) = strtol10 left in
      if left = [] \<or> rest \<noteq> [] then False
      else let (r_int, rest) = strtol10 right in
        if right = [] \<or> rest \<noteq> [] then False
        else l_int < r_int)"

definition LessThanIntFn :: "'w Function" where
  "LessThanIntFn name argv st =
     (if length argv \<noteq> 2
      then Some (None, st\<lparr>errmsg := Some (str ''less_than_int expects 2 arguments'')\<rparr>)
      else do {
        (args, st) \<leftarrow> ReadArgs argv 2 st;
        case args of
          None \<Rightarrow> Some (None, st)
        | Some args \<Rightarrow> Some (StringValue (Some (truth (less_than_int (args ! 0) (args ! 1)))), st) })"

definition GreaterThanIntFn :: "'w Function" where
  "GreaterThanIntFn name argv st =
     (if length argv \<noteq> 2
      then Some (None, st\<lparr>errmsg := Some (str ''greater_than_int expects 2 arguments'')\<rparr>)
      else LessThanIntFn name [argv ! 1, argv ! 0] st)"

definition Literal :: "'w Function" where
  "Literal name argv st = Some (StringValue (Some name), st)"

definition Build :: "'w Function \<Rightarrow> nat \<Rightarrow> nat \<Rightarrow> 'w Expr list \<Rightarrow> 'w Expr" where
  "Build fn s e args = Expr fn (str ''(operator)'') args s e"

section \<open>The function table\<close>

type_synonym 'w fn_table = "(bytes \<times> 'w Function) list"

definition RegisterFunction :: "bytes \<Rightarrow> 'w Function \<Rightarrow> 'w fn_table \<Rightarrow> 'w fn_table" where
  "RegisterFunction name fn fn_table = fn_table @ [(name, fn)]"

text \<open>
  \<open>qsort\<close> leaves some sorted permutation; with the pairwise different names that the header
  asks for there is only one.
\<close>

definition FinishRegistration :: "'w fn_table \<Rightarrow> 'w fn_table" where
  "FinishRegistration fn_table = sort_key fst fn_table"

text \<open>\<open>bsearch\<close> of the C library: the part of \<open>lim\<close> elements from \<open>base\<close> on is halved.\<close>

function bsearch :: "(nat \<Rightarrow> int) \<Rightarrow> nat \<Rightarrow> nat \<Rightarrow> nat option" where
  "bsearch compar base lim =
     (if lim = 0 then None
      else
        let p = base + lim div 2; cmp = compar p in
        if cmp = 0 then Some p
        else if cmp > 0 then bsearch compar (p + 1) ((lim - 1) div 2)
        else bsearch compar base (lim div 2))"
  by pat_completeness auto
termination
  by (relation "measure (\<lambda>(compar, base, lim). lim)") auto

declare bsearch.simps [simp del]

definition FindFunction :: "'w fn_table \<Rightarrow> bytes \<Rightarrow> 'w Function option" where
  "FindFunction fn_table name =
     map_option (\<lambda>p. snd (fn_table ! p))
       (bsearch (\<lambda>p. strcmp name (fst (fn_table ! p))) 0 (length fn_table))"

definition RegisterBuiltins :: "'w fn_table \<Rightarrow> 'w fn_table" where
  "RegisterBuiltins t =
     RegisterFunction (str ''greater_than_int'') GreaterThanIntFn
     (RegisterFunction (str ''less_than_int'') LessThanIntFn
     (RegisterFunction (str ''sleep'') SleepFn
     (RegisterFunction (str ''stdout'') StdoutFn
     (RegisterFunction (str ''is_substring'') SubstringFn
     (RegisterFunction (str ''concat'') ConcatFn
     (RegisterFunction (str ''assert'') AssertFn
     (RegisterFunction (str ''abort'') AbortFn
     (RegisterFunction (str ''ifelse'') IfElseFn t))))))))"

section \<open>Facts on the C library functions and the function table\<close>

lemma strcmp_lex:
  assumes "0 \<notin> set a" and "0 \<notin> set b"
  shows "strcmp a b < 0 \<longleftrightarrow> a < b" and "strcmp a b = 0 \<longleftrightarrow> a = b"
proof -
  have "(strcmp a b < 0 \<longleftrightarrow> a < b) \<and> (strcmp a b = 0 \<longleftrightarrow> a = b)"
    using assms
  proof (induction a b rule: strcmp.induct)
    case (2 y b)
    then have "0 < uint y" using unat_gt_0 [of y] by (metis list.set_intros(1) uint_0_iff uint_ge_0 order_less_le)
    then show ?case by simp
  next
    case (3 x a)
    then have "0 < uint x" by (metis list.set_intros(1) uint_0_iff uint_ge_0 order_less_le)
    then show ?case by simp
  next
    case (4 x a y b)
    then show ?case by (cases "x = y") (auto simp: word_less_def word_uint_eq_iff)
  qed simp
  then show "strcmp a b < 0 \<longleftrightarrow> a < b" and "strcmp a b = 0 \<longleftrightarrow> a = b" by simp_all
qed

lemma strcmp_pos: "0 \<notin> set a \<Longrightarrow> 0 \<notin> set b \<Longrightarrow> strcmp a b > 0 \<longleftrightarrow> b < a"
  using strcmp_lex [of a b] by (metis linorder_less_linear order_less_asym)

lemma strstr_sublist: "strstr haystack needle \<longleftrightarrow> sublist needle haystack"
proof (induction haystack)
  case Nil
  then show ?case by (subst strstr.simps) auto
next
  case (Cons c hs)
  have "take (length needle) (c # hs) = needle \<longleftrightarrow> prefix needle (c # hs)"
    by (metis append_eq_conv_conj prefix_def take_is_prefix)
  with Cons show ?case by (subst strstr.simps) (simp add: sublist_Cons_right)
qed

lemma bsearch_spec:
  fixes K :: "nat \<Rightarrow> 'a::linorder"
  assumes cmp: "\<And>j. j < base + lim \<Longrightarrow> (compar j = 0 \<longleftrightarrow> x = K j) \<and> (compar j > 0 \<longleftrightarrow> K j < x)"
    and sorted: "\<And>i j. i < j \<Longrightarrow> j < base + lim \<Longrightarrow> K i < K j"
  shows "case bsearch compar base lim of
      Some p \<Rightarrow> base \<le> p \<and> p < base + lim \<and> K p = x
    | None \<Rightarrow> \<forall>p. base \<le> p \<and> p < base + lim \<longrightarrow> K p \<noteq> x"
  using assms
proof (induction lim arbitrary: base rule: less_induct)
  case (less lim)
  show ?case
  proof (cases "lim = 0")
    case True
    then show ?thesis by (auto simp: bsearch.simps)
  next
    case False
    define p where "p = base + lim div 2"
    have p: "base \<le> p" "p < base + lim" using False by (auto simp: p_def)
    have step: "bsearch compar base lim =
        (if compar p = 0 then Some p else if compar p > 0 then bsearch compar (p + 1) ((lim - 1) div 2)
         else bsearch compar base (lim div 2))"
      using False by (subst bsearch.simps) (simp add: Let_def p_def)
    consider "K p = x" | "K p < x" | "x < K p" by (meson linorder_less_linear)
    then show ?thesis
    proof cases
      case 1
      then show ?thesis using less.prems(1) [OF p(2)] p by (simp add: step)
    next
      case 2
      have end_: "p + 1 + (lim - 1) div 2 = base + lim" using False by (simp add: p_def)
      have "K q \<noteq> x" if "q \<le> p" for q
        using less.prems(2) [of q p] p(2) that 2 by (cases "q = p") (auto dest: less_trans)
      moreover have "case bsearch compar (p + 1) ((lim - 1) div 2) of
          Some q \<Rightarrow> p + 1 \<le> q \<and> q < p + 1 + (lim - 1) div 2 \<and> K q = x
        | None \<Rightarrow> \<forall>q. p + 1 \<le> q \<and> q < p + 1 + (lim - 1) div 2 \<longrightarrow> K q \<noteq> x"
        using False less.prems unfolding end_ [symmetric] by (intro less.IH) auto
      moreover have "bsearch compar base lim = bsearch compar (p + 1) ((lim - 1) div 2)"
        using less.prems(1) [OF p(2)] 2 step by auto
      moreover have "q \<le> p \<or> p + 1 \<le> q" for q by linarith
      ultimately show ?thesis
        using p unfolding end_
        by (cases "bsearch compar (p + 1) ((lim - 1) div 2)") (simp, metis, simp)
    next
      case 3
      have "K q \<noteq> x" if "p \<le> q" "q < base + lim" for q
        using less.prems(2) [of p q] that 3 by (cases "q = p") (auto dest: less_trans)
      moreover have "case bsearch compar base (lim div 2) of
          Some q \<Rightarrow> base \<le> q \<and> q < base + lim div 2 \<and> K q = x
        | None \<Rightarrow> \<forall>q. base \<le> q \<and> q < base + lim div 2 \<longrightarrow> K q \<noteq> x"
        using False less.prems by (intro less.IH) auto
      moreover have "bsearch compar base lim = bsearch compar base (lim div 2)"
        using less.prems(1) [OF p(2)] 3 step by auto
      moreover have "q < base + lim div 2 \<or> p \<le> q" for q by (auto simp: p_def)
      ultimately show ?thesis
        using p by (cases "bsearch compar base (lim div 2)") (simp, metis, simp add: p_def)
    qed
  qed
qed

text \<open>After the registration the table is a map from names to functions.\<close>

lemma FindFunction_map_of:
  assumes distinct: "distinct (map fst t)" and names: "\<forall>n \<in> set (map fst t). 0 \<notin> set n" and name: "0 \<notin> set name"
  shows "FindFunction (FinishRegistration t) name = map_of t name"
proof -
  define u where "u = FinishRegistration t"
  have u: "set u = set t" "distinct (map fst u)" "sorted (map fst u)"
    using distinct by (auto simp: u_def FinishRegistration_def distinct_map)
  have strict: "fst (u ! i) < fst (u ! j)" if "i < j" "j < length u" for i j
  proof -
    have "map fst u ! i \<le> map fst u ! j" using u(3) that sorted_nth_mono [of "map fst u" i j] by simp
    moreover have "map fst u ! i \<noteq> map fst u ! j" using u(2) that nth_eq_iff_index_eq [of "map fst u" i j] by simp
    ultimately show ?thesis using that by simp
  qed
  have nul: "0 \<notin> set (fst (u ! j))" if "j < length u" for j
    using names u(1) nth_mem [OF that] by auto
  let ?cmp = "\<lambda>p. strcmp name (fst (u ! p))"
  have found: "case bsearch ?cmp 0 (length u) of
      Some p \<Rightarrow> 0 \<le> p \<and> p < 0 + length u \<and> fst (u ! p) = name
    | None \<Rightarrow> \<forall>p. 0 \<le> p \<and> p < 0 + length u \<longrightarrow> fst (u ! p) \<noteq> name"
  proof (rule bsearch_spec [where K = "\<lambda>p. fst (u ! p)"])
    show "(?cmp j = 0 \<longleftrightarrow> name = fst (u ! j)) \<and> (?cmp j > 0 \<longleftrightarrow> fst (u ! j) < name)" if "j < 0 + length u" for j
      using strcmp_lex(2) [OF name nul] strcmp_pos [OF name nul] that by simp
  qed (use strict in simp)
  show ?thesis
  proof (cases "bsearch ?cmp 0 (length u)")
    case None
    with found have "name \<notin> fst ` set u" by (force simp: in_set_conv_nth)
    then have "map_of t name = None" using u(1) by (simp add: map_of_eq_None_iff)
    then show ?thesis using None by (simp add: FindFunction_def flip: u_def)
  next
    case (Some p)
    with found have "p < length u" "fst (u ! p) = name" by simp_all
    then have "(name, snd (u ! p)) \<in> set t" using u(1) by (metis nth_mem prod.collapse)
    then have "map_of t name = Some (snd (u ! p))" using distinct by simp
    then show ?thesis using Some by (simp add: FindFunction_def flip: u_def)
  qed
qed

text \<open>Numbers in decimal.\<close>

lemma unat_digit: "d < 10 \<Longrightarrow> unat (of_nat (48 + d) :: u8) = 48 + d"
  by (simp only: unat_of_nat) (simp add: take_bit_nat_eq_self)

lemma isdigit_digit: "d < 10 \<Longrightarrow> isdigit (of_nat (48 + d))"
  using unat_digit [of d] by (simp add: isdigit_def word_le_nat_alt del: of_nat_add)

lemma decimal_digits: "decimal m (digits n @ rest) = decimal (m * 10 ^ length (digits n) + n) rest"
proof (induction n arbitrary: m rest rule: digits.induct)
  case (1 n)
  have one: "decimal k (of_nat (48 + d) # r) = decimal (10 * k + d) r" if "d < 10" for k d r
    using isdigit_digit [OF that] unat_digit [OF that] by (simp del: of_nat_add)
  show ?case
  proof (cases "n < 10")
    case True
    then show ?thesis using one [OF True] by (simp add: digits.simps [of n] mult.commute)
  next
    case False
    have "digits n = digits (n div 10) @ [of_nat (48 + n mod 10)]"
      using False by (subst digits.simps) simp
    moreover have "decimal m (digits (n div 10) @ of_nat (48 + n mod 10) # rest) =
        decimal (10 * (m * 10 ^ length (digits (n div 10)) + n div 10) + n mod 10) rest"
      using 1 [OF False] one [of "n mod 10"] by simp
    moreover have "10 * (m * 10 ^ length (digits (n div 10)) + n div 10) + n mod 10 =
        m * 10 ^ (length (digits (n div 10)) + 1) + n"
      using mult_div_mod_eq [of 10 n] by (simp add: algebra_simps)
    ultimately show ?thesis by (simp add: algebra_simps)
  qed
qed

definition decimal_string :: "int \<Rightarrow> bytes" where
  "decimal_string i = (if i < 0 then 45 # digits (nat (- i)) else digits (nat i))"

lemma digits_hd: "\<exists>c cs. digits n = c # cs \<and> isdigit c"
proof (induction n rule: digits.induct)
  case (1 n)
  then show ?case
    using isdigit_digit [of n] by (subst digits.simps) (auto simp del: of_nat_add split: if_splits)
qed

lemma strtol10_decimal:
  assumes "LONG_MIN \<le> i" and "i \<le> LONG_MAX"
  shows "strtol10 (decimal_string i) = (i, []) \<and> decimal_string i \<noteq> []"
proof -
  have d: "decimal 0 (digits n) = (n, [])" for n using decimal_digits [of 0 n "[]"] by simp
  obtain c cs where c: "digits (nat \<bar>i\<bar>) = c # cs" "isdigit c" using digits_hd by blast
  then have "\<not> isspace c" "c \<noteq> 45" "c \<noteq> 43" by (auto simp: isdigit_def isspace_def word_le_nat_alt)
  then show ?thesis
    using c d [of "nat \<bar>i\<bar>"] assms
    by (cases "i < 0") (auto simp: strtol10_def decimal_string_def isspace_def Let_def)
qed

section \<open>The contract of functions\<close>

text \<open>
  What the callers of \<open>Evaluate\<close> rely on: when an evaluation gives \<open>NULL\<close>, \<open>errmsg\<close> is set.
  \<open>null_ok\<close> says so of a computation, with rules that follow the text of a function; \<open>reports\<close>
  says so of an argument.
\<close>

definition null_ok :: "('v option \<times> 'w State) option \<Rightarrow> bool" where
  "null_ok m \<longleftrightarrow> (\<forall>st'. m = Some (None, st') \<longrightarrow> errmsg st' \<noteq> None)"

definition reports :: "'w arg \<Rightarrow> bool" where
  "reports a \<longleftrightarrow> (\<forall>st. null_ok (arun a st))"

named_theorems null_rules \<open>step through a function of the language\<close>

lemma null_ok_run [null_rules]: "reports a \<Longrightarrow> null_ok (arun a st)"
  by (simp add: reports_def)

lemma null_ok_value [null_rules]: "null_ok (Some (Some v, st))"
  and null_ok_string [null_rules]: "null_ok (Some (StringValue (Some s), st))"
  and null_ok_error [null_rules]: "null_ok (Some (None, st\<lparr>errmsg := Some m\<rparr>))"
  by (simp_all add: null_ok_def StringValue_def)

lemma null_ok_if [null_rules]: "(c \<Longrightarrow> null_ok x) \<Longrightarrow> (\<not> c \<Longrightarrow> null_ok y) \<Longrightarrow> null_ok (if c then x else y)"
  by simp

lemma null_ok_rd [null_rules]:
  assumes "\<And>a. a \<in> set argv \<Longrightarrow> null_ok (f a)"
  shows "null_ok (rd argv i \<bind> f)"
proof (cases "i < length argv")
  case True
  then show ?thesis using assms [OF nth_mem] by (simp add: rd_def)
qed (simp add: rd_def null_ok_def)

lemma null_ok_slice [null_rules]: "(\<And>a. null_ok (f a)) \<Longrightarrow> null_ok (rd_slice b p n \<bind> f)"
  by (cases "rd_slice b p n") (auto simp: null_ok_def)

text \<open>An evaluation whose \<open>NULL\<close> is handed on, and one whose value is changed.\<close>

lemma null_ok_bind [null_rules]:
  assumes "null_ok m" and "\<And>v st. null_ok (f v st)"
  shows "null_ok (m \<bind> (\<lambda>(v, st). case v of None \<Rightarrow> Some (None, st) | Some v \<Rightarrow> f v st))"
proof (cases m)
  case (Some p)
  obtain v st where p: "p = (v, st)" by (cases p)
  then show ?thesis using assms Some by (cases v) (simp_all add: null_ok_def)
qed (simp add: null_ok_def)

lemma null_ok_map [null_rules]:
  assumes "null_ok m"
  shows "null_ok (m \<bind> (\<lambda>(v, st). Some (map_option f v, st)))"
    and "null_ok (m \<bind> (\<lambda>(v, st). Some (StringValue (map_option g v), st)))"
proof -
  have "null_ok (m \<bind> (\<lambda>(v, st). Some (map_option f v, st))) \<and>
        null_ok (m \<bind> (\<lambda>(v, st). Some (StringValue (map_option g v), st)))"
  proof (cases m)
    case (Some p)
    obtain v st where p: "p = (v, st)" by (cases p)
    then show ?thesis using assms Some by (cases v) (simp_all add: null_ok_def StringValue_def)
  qed (simp add: null_ok_def)
  then show "null_ok (m \<bind> (\<lambda>(v, st). Some (map_option f v, st)))"
    and "null_ok (m \<bind> (\<lambda>(v, st). Some (StringValue (map_option g v), st)))" by simp_all
qed

lemma null_ok_Evaluate [null_rules]: "reports a \<Longrightarrow> null_ok (Evaluate a st)"
  unfolding Evaluate_def ErrorAbort_def by (intro null_rules)

lemma null_ok_EvaluateValue [null_rules]: "reports a \<Longrightarrow> null_ok (EvaluateValue a st)"
  unfolding EvaluateValue_def by (rule null_ok_run)

lemma null_ok_read_args [null_rules]:
  "(\<And>a st. a \<in> set argv \<Longrightarrow> null_ok (ev a st)) \<Longrightarrow> null_ok (read_args ev argv n st)"
proof (induction argv arbitrary: n st)
  case Nil
  then show ?case by (cases n) (simp_all add: null_ok_def)
next
  case (Cons a argv)
  then show ?case by (cases n) (auto intro!: null_rules)
qed

text \<open>
  A function keeps the contract if it reports whenever its arguments do; an expression whose
  functions all keep it reports.
\<close>

locale edify_fn =
  fixes fn :: "'w Function"
  assumes fn_null_ok: "\<forall>a \<in> set argv. reports a \<Longrightarrow> null_ok (fn name argv st)"
begin

lemma node_reports: "\<forall>e \<in> set argv. reports (eval_expr e) \<Longrightarrow> reports (eval_expr (Expr fn name argv s e'))"
  using fn_null_ok [of "map eval_expr argv" name] by (simp add: reports_def)

end

primrec fns :: "'w Expr \<Rightarrow> 'w Function set" where
  "fns (Expr fn name argv s e) = insert fn (\<Union> (set (map fns argv)))"

lemma expr_reports: "\<forall>f \<in> fns e. edify_fn f \<Longrightarrow> reports (eval_expr e)"
  by (induction e) (auto intro!: edify_fn.node_reports simp del: eval_expr.simps)

interpretation concat_fn: edify_fn ConcatFn
  by unfold_locales (auto simp: ConcatFn_def simp del: length_greater_0_conv intro!: null_rules)

interpretation ifelse_fn: edify_fn IfElseFn
  by unfold_locales (auto simp: IfElseFn_def intro!: null_rules)

interpretation abort_fn: edify_fn AbortFn
  by unfold_locales (auto simp: AbortFn_def null_ok_def bind_eq_Some_conv split: option.splits)

lemma assert_args_null_ok [null_rules]: "\<forall>a \<in> set argv. reports a \<Longrightarrow> null_ok (assert_args argv st)"
  by (induction argv arbitrary: st) (auto intro!: null_rules)

interpretation assert_fn: edify_fn AssertFn
  by unfold_locales (auto simp: AssertFn_def intro!: null_rules)

lemma stdout_args_null_ok [null_rules]: "\<forall>a \<in> set argv. reports a \<Longrightarrow> null_ok (stdout_args argv st)"
  by (induction argv arbitrary: st) (auto intro!: null_rules)

interpretation stdout_fn: edify_fn StdoutFn
  by unfold_locales (auto simp: StdoutFn_def intro!: null_rules)

interpretation sleep_fn: edify_fn SleepFn
  by unfold_locales (auto simp: SleepFn_def intro!: null_rules)

interpretation and_fn: edify_fn LogicalAndFn
  by unfold_locales (auto simp: LogicalAndFn_def intro!: null_rules)

interpretation or_fn: edify_fn LogicalOrFn
  by unfold_locales (auto simp: LogicalOrFn_def intro!: null_rules)

interpretation not_fn: edify_fn LogicalNotFn
  by unfold_locales (auto simp: LogicalNotFn_def intro!: null_rules)

lemma compare_args_null_ok [null_rules]: "\<forall>a \<in> set argv. reports a \<Longrightarrow> null_ok (compare_args test argv st)"
  unfolding compare_args_def by (auto intro!: null_rules)

interpretation substring_fn: edify_fn SubstringFn
  by unfold_locales (auto simp: SubstringFn_def intro!: null_rules)

interpretation equality_fn: edify_fn EqualityFn
  by unfold_locales (auto simp: EqualityFn_def intro!: null_rules)

interpretation inequality_fn: edify_fn InequalityFn
  by unfold_locales (auto simp: InequalityFn_def intro!: null_rules)

interpretation sequence_fn: edify_fn SequenceFn
  by unfold_locales (auto simp: SequenceFn_def intro!: null_rules)

interpretation less_fn: edify_fn LessThanIntFn
  by unfold_locales (auto simp: LessThanIntFn_def ReadArgs_def intro!: null_rules)

interpretation greater_fn: edify_fn GreaterThanIntFn
  by unfold_locales (auto simp: GreaterThanIntFn_def intro!: null_rules less_fn.fn_null_ok)

interpretation literal_fn: edify_fn Literal
  by unfold_locales (auto simp: Literal_def intro!: null_rules)


section \<open>A reference semantics\<close>

text \<open>
  The language as its README describes it: an expression prints, and ends with a string or
  with an error message.  \<open>parse\<close> is the tree that the actions of \<open>parser.y\<close> build for it.
\<close>

datatype script =
    Lit bytes
  | Seq script script
  | Cat script script
  | Eq script script
  | Ne script script
  | And script script
  | Or script script
  | Not script
  | If script script
  | IfElse script script script
  | Print script
  | Abort script
  | Less script script
  | Greater script script
  | Substring script script

text \<open>Running one thing after the other; an error ends both.\<close>

definition andthen :: "(bytes + 'a) \<times> bytes \<Rightarrow> ('a \<Rightarrow> bytes \<Rightarrow> (bytes + 'b) \<times> bytes) \<Rightarrow> (bytes + 'b) \<times> bytes" where
  "andthen r f = (case r of (Inl m, out) \<Rightarrow> (Inl m, out) | (Inr x, out) \<Rightarrow> f x out)"

definition both :: "(bytes \<Rightarrow> (bytes + bytes) \<times> bytes) \<Rightarrow> (bytes \<Rightarrow> (bytes + bytes) \<times> bytes) \<Rightarrow>
    (bytes \<Rightarrow> bytes \<Rightarrow> bytes) \<Rightarrow> bytes \<Rightarrow> (bytes + bytes) \<times> bytes" where
  "both a b f out = andthen (a out) (\<lambda>x out. andthen (b out) (\<lambda>y out. (Inr (f x y), out)))"

primrec sem :: "script \<Rightarrow> bytes \<Rightarrow> (bytes + bytes) \<times> bytes" where
  "sem (Lit s) = (\<lambda>out. (Inr s, out))"
| "sem (Seq a b) = (\<lambda>out. andthen (sem a out) (\<lambda>_. sem b))"
| "sem (Cat a b) = both (sem a) (sem b) (@)"
| "sem (Eq a b) = both (sem a) (sem b) (\<lambda>x y. truth (x = y))"
| "sem (Ne a b) = both (sem a) (sem b) (\<lambda>x y. truth (x \<noteq> y))"
| "sem (And a b) = (\<lambda>out. andthen (sem a out) (\<lambda>x out. if x \<noteq> [] then sem b out else (Inr [], out)))"
| "sem (Or a b) = (\<lambda>out. andthen (sem a out) (\<lambda>x out. if x = [] then sem b out else (Inr x, out)))"
| "sem (Not a) = (\<lambda>out. andthen (sem a out) (\<lambda>x out. (Inr (truth (x = [])), out)))"
| "sem (If c t) = (\<lambda>out. andthen (sem c out) (\<lambda>x out. if x \<noteq> [] then sem t out else (Inr [], out)))"
| "sem (IfElse c t e) = (\<lambda>out. andthen (sem c out) (\<lambda>x out. if x \<noteq> [] then sem t out else sem e out))"
| "sem (Print a) = (\<lambda>out. andthen (sem a out) (\<lambda>x out. (Inr [], out @ x)))"
| "sem (Abort a) = (\<lambda>out. case sem a out of
      (Inl m, out) \<Rightarrow> (Inl (str ''called abort()''), out) | (Inr x, out) \<Rightarrow> (Inl x, out))"
| "sem (Less a b) = both (sem a) (sem b) (\<lambda>x y. truth (less_than_int x y))"
| "sem (Greater a b) = both (sem b) (sem a) (\<lambda>y x. truth (less_than_int y x))"
| "sem (Substring a b) = both (sem a) (sem b) (\<lambda>x y. truth (sublist x y))"

primrec parse :: "nat \<Rightarrow> nat \<Rightarrow> script \<Rightarrow> 'w Expr" where
  "parse s e (Lit x) = Expr Literal x [] s e"
| "parse s e (Seq a b) = Build SequenceFn s e [parse s e a, parse s e b]"
| "parse s e (Cat a b) = Build ConcatFn s e [parse s e a, parse s e b]"
| "parse s e (Eq a b) = Build EqualityFn s e [parse s e a, parse s e b]"
| "parse s e (Ne a b) = Build InequalityFn s e [parse s e a, parse s e b]"
| "parse s e (And a b) = Build LogicalAndFn s e [parse s e a, parse s e b]"
| "parse s e (Or a b) = Build LogicalOrFn s e [parse s e a, parse s e b]"
| "parse s e (Not a) = Build LogicalNotFn s e [parse s e a]"
| "parse s e (If c t) = Build IfElseFn s e [parse s e c, parse s e t]"
| "parse s e (IfElse c t f) = Build IfElseFn s e [parse s e c, parse s e t, parse s e f]"
| "parse s e (Print a) = Expr StdoutFn (str ''stdout'') [parse s e a] s e"
| "parse s e (Abort a) = Expr AbortFn (str ''abort'') [parse s e a] s e"
| "parse s e (Less a b) = Expr LessThanIntFn (str ''less_than_int'') [parse s e a, parse s e b] s e"
| "parse s e (Greater a b) = Expr GreaterThanIntFn (str ''greater_than_int'') [parse s e a, parse s e b] s e"
| "parse s e (Substring a b) = Expr SubstringFn (str ''is_substring'') [parse s e a, parse s e b] s e"

text \<open>The strings of a script contain no NUL, so neither do the results.\<close>

primrec clean :: "script \<Rightarrow> bool" where
  "clean (Lit x) \<longleftrightarrow> 0 \<notin> set x"
| "clean (Seq a b) \<longleftrightarrow> clean a \<and> clean b" | "clean (Cat a b) \<longleftrightarrow> clean a \<and> clean b"
| "clean (Eq a b) \<longleftrightarrow> clean a \<and> clean b" | "clean (Ne a b) \<longleftrightarrow> clean a \<and> clean b"
| "clean (And a b) \<longleftrightarrow> clean a \<and> clean b" | "clean (Or a b) \<longleftrightarrow> clean a \<and> clean b"
| "clean (Not a) \<longleftrightarrow> clean a" | "clean (If c t) \<longleftrightarrow> clean c \<and> clean t"
| "clean (IfElse c t e) \<longleftrightarrow> clean c \<and> clean t \<and> clean e"
| "clean (Print a) \<longleftrightarrow> clean a" | "clean (Abort a) \<longleftrightarrow> clean a"
| "clean (Less a b) \<longleftrightarrow> clean a \<and> clean b" | "clean (Greater a b) \<longleftrightarrow> clean a \<and> clean b"
| "clean (Substring a b) \<longleftrightarrow> clean a \<and> clean b"

text \<open>A result of the semantics as a result of the evaluator.\<close>

definition ends :: "(bytes + bytes) \<times> bytes \<Rightarrow> 'w State \<Rightarrow> (Value option \<times> 'w State) option" where
  "ends r st = Some (case r of
     (Inr v, out) \<Rightarrow> (StringValue (Some v), st\<lparr>stdout := out\<rparr>)
   | (Inl m, out) \<Rightarrow> (None, st\<lparr>stdout := out, errmsg := Some m\<rparr>))"

definition ends_str :: "(bytes + bytes) \<times> bytes \<Rightarrow> 'w State \<Rightarrow> (bytes option \<times> 'w State) option" where
  "ends_str r st = Some (case r of
     (Inr v, out) \<Rightarrow> (Some v, st\<lparr>stdout := out\<rparr>)
   | (Inl m, out) \<Rightarrow> (None, st\<lparr>stdout := out, errmsg := Some m\<rparr>))"

lemma truth_no_nul [simp]: "0 \<notin> set (truth b)"
  by (simp add: truth_def str_def)

lemma sem_clean: "clean x \<Longrightarrow> sem x out = (Inr v, out') \<Longrightarrow> 0 \<notin> set v"
  by (induction x arbitrary: out v out')
    (auto simp: andthen_def both_def split: prod.splits sum.splits if_splits)

lemma Evaluate_ends: "arun a st = ends r st \<Longrightarrow> Evaluate a st = ends_str r st"
  by (auto simp: Evaluate_def ends_def ends_str_def StringValue_def split: prod.splits sum.splits)

lemma eval_Build: "arun (eval_expr (Build fn s e args)) = fn (str ''(operator)'') (map eval_expr args)"
  by (simp add: Build_def)

lemmas fn_defs = SequenceFn_def ConcatFn_def EqualityFn_def InequalityFn_def LogicalAndFn_def LogicalOrFn_def
  LogicalNotFn_def IfElseFn_def StdoutFn_def AbortFn_def LessThanIntFn_def GreaterThanIntFn_def SubstringFn_def
  Literal_def compare_args_def ReadArgs_def

text \<open>One lemma per shape of function: two strings compared, one string tested first.\<close>

lemma compare_sem:
  assumes "\<And>st. Evaluate a st = ends_str (A (stdout st)) st" and "\<And>st. Evaluate b st = ends_str (B (stdout st)) st"
    and "\<And>out x out1 y out2. A out = (Inr x, out1) \<Longrightarrow> B out1 = (Inr y, out2) \<Longrightarrow> truth (test x y) = f x y"
  shows "compare_args test [a, b] st = ends (both A B f (stdout st)) st"
proof (cases "A (stdout st)")
  case A: (Pair r out1)
  show ?thesis
  proof (cases r)
    case (Inr x)
    obtain r2 out2 where B: "B out1 = (r2, out2)" by (cases "B out1")
    show ?thesis
      using A Inr B assms(3) [of "stdout st" x out1]
      by (cases r2) (simp_all add: compare_args_def rd_def assms(1,2) ends_str_def ends_def both_def andthen_def)
  qed (use A in \<open>simp add: compare_args_def rd_def assms(1) ends_str_def ends_def both_def andthen_def\<close>)
qed

lemma read_two_sem:
  assumes "\<And>st. Evaluate a st = ends_str (A (stdout st)) st" and "\<And>st. Evaluate b st = ends_str (B (stdout st)) st"
  shows "read_args Evaluate [a, b] (Suc (Suc 0)) st \<bind> (\<lambda>(vs, st). Some (StringValue (map_option g vs), st)) =
    ends (both A B (\<lambda>x y. g [x, y]) (stdout st)) st"
proof (cases "A (stdout st)")
  case A: (Pair r out1)
  show ?thesis
  proof (cases r)
    case (Inr x)
    obtain r2 out2 where B: "B out1 = (r2, out2)" by (cases "B out1")
    show ?thesis
      using A Inr B
      by (cases r2) (simp_all add: assms ends_str_def ends_def both_def andthen_def StringValue_def)
  qed (use A in \<open>simp add: assms(1) ends_str_def ends_def both_def andthen_def StringValue_def\<close>)
qed

lemma less_than_sem:
  assumes "\<And>st. Evaluate a st = ends_str (A (stdout st)) st" and "\<And>st. Evaluate b st = ends_str (B (stdout st)) st"
  shows "LessThanIntFn name [a, b] st = ends (both A B (\<lambda>x y. truth (less_than_int x y)) (stdout st)) st"
proof -
  have "(case vs of None \<Rightarrow> Some (None, st) | Some args \<Rightarrow> Some (StringValue (Some (h args)), st)) =
      Some (StringValue (map_option h vs), st)" for vs and st :: "'a State" and h :: "bytes list \<Rightarrow> bytes"
    by (cases vs) (simp_all add: StringValue_def)
  then show ?thesis
    using read_two_sem [where g = "\<lambda>vs. truth (less_than_int (vs ! 0) (vs ! 1))", OF assms, of st]
    by (simp add: LessThanIntFn_def ReadArgs_def numeral_2_eq_2 del: read_args.simps)
qed

lemma first_sem:
  assumes "\<And>st. Evaluate a st = ends_str (A (stdout st)) st"
    and "\<And>x out. g x (st\<lparr>stdout := out\<rparr>) = ends (B x out) (st\<lparr>stdout := out\<rparr>)"
  shows "(Evaluate a st \<bind> (\<lambda>(v, st). case v of None \<Rightarrow> Some (None, st) | Some x \<Rightarrow> g x st)) =
    ends (andthen (A (stdout st)) B) st"
  using assms(2)
  by (cases "A (stdout st)"; cases "fst (A (stdout st))")
    (auto simp: assms(1) ends_str_def ends_def andthen_def split: prod.splits sum.splits)

lemma eval_sem:
  "clean x \<Longrightarrow> arun (eval_expr (parse s e x)) st = ends (sem x (stdout st)) st"
proof (induction x arbitrary: st)
  case (Lit x)
  then show ?case by (simp add: Literal_def ends_def)
next
  case (Seq a b)
  then show ?case
    by (cases "sem a (stdout st)"; cases "fst (sem a (stdout st))")
      (auto simp: eval_Build SequenceFn_def rd_def EvaluateValue_def andthen_def ends_def StringValue_def split: prod.splits sum.splits)
next
  case (Cat a b)
  then have "clean a" "clean b" by simp_all
  note ab = Evaluate_ends [OF Cat.IH(1) [OF \<open>clean a\<close>]] Evaluate_ends [OF Cat.IH(2) [OF \<open>clean b\<close>]]
  from read_two_sem [where g = concat, OF ab, of st]
  show ?case by (simp add: eval_Build ConcatFn_def del: read_args.simps)
next
  case (Eq a b)
  then show ?case
    unfolding parse.simps eval_Build EqualityFn_def sem.simps list.map
    by (intro compare_sem Evaluate_ends) (auto simp: strcmp_lex(2) dest!: sem_clean [rotated])
next
  case (Ne a b)
  then show ?case
    unfolding parse.simps eval_Build InequalityFn_def sem.simps list.map
    by (intro compare_sem Evaluate_ends) (auto simp: strcmp_lex(2) dest!: sem_clean [rotated])
next
  case (And a b)
  then show ?case
    unfolding parse.simps eval_Build LogicalAndFn_def sem.simps list.map
    by (simp add: rd_def EvaluateValue_def BooleanString_def) (intro first_sem Evaluate_ends, auto simp: ends_def rd_def EvaluateValue_def BooleanString_def)
next
  case (Or a b)
  then show ?case
    unfolding parse.simps eval_Build LogicalOrFn_def sem.simps list.map
    by (simp add: rd_def EvaluateValue_def BooleanString_def) (intro first_sem Evaluate_ends, auto simp: ends_def rd_def EvaluateValue_def BooleanString_def)
next
  case (Not a)
  then show ?case
    unfolding parse.simps eval_Build LogicalNotFn_def sem.simps list.map
    by (simp add: rd_def BooleanString_def) (intro first_sem Evaluate_ends, auto simp: ends_def rd_def EvaluateValue_def BooleanString_def)
next
  case (If c t)
  then show ?case
    unfolding parse.simps eval_Build IfElseFn_def sem.simps list.map
    by (simp add: EvaluateValue_def BooleanString_def) (intro first_sem Evaluate_ends, auto simp: ends_def rd_def EvaluateValue_def BooleanString_def)
next
  case (IfElse c t f)
  then show ?case
    unfolding parse.simps eval_Build IfElseFn_def sem.simps list.map
    by (simp add: EvaluateValue_def BooleanString_def) (intro first_sem Evaluate_ends, auto simp: ends_def rd_def EvaluateValue_def BooleanString_def)
next
  case (Print a)
  then show ?case
    by (simp add: StdoutFn_def) (intro first_sem Evaluate_ends, auto simp: ends_def rd_def EvaluateValue_def BooleanString_def)
next
  case (Abort a)
  then have "Evaluate (eval_expr (parse s e a)) st = ends_str (sem a (stdout st)) st"
    by (intro Evaluate_ends) simp
  then show ?case
    by (auto simp: AbortFn_def ends_str_def ends_def split: prod.splits sum.splits)
next
  case (Less a b)
  then have "clean a" "clean b" by simp_all
  note ab = Evaluate_ends [OF Less.IH(1) [OF \<open>clean a\<close>]] Evaluate_ends [OF Less.IH(2) [OF \<open>clean b\<close>]]
  from less_than_sem [OF ab, of "str ''less_than_int''" st] show ?case by simp
next
  case (Greater a b)
  then have "clean a" "clean b" by simp_all
  note ab = Evaluate_ends [OF Greater.IH(2) [OF \<open>clean b\<close>]] Evaluate_ends [OF Greater.IH(1) [OF \<open>clean a\<close>]]
  from less_than_sem [OF ab, of "str ''greater_than_int''" st] show ?case by (simp add: GreaterThanIntFn_def)
next
  case (Substring a b)
  then show ?case
    unfolding parse.simps eval_expr.simps SubstringFn_def sem.simps list.map arg.simps
    by (intro compare_sem Evaluate_ends) (simp_all add: strstr_sublist)
qed

section \<open>Properties\<close>

text \<open>
  C10: the evaluator implements the language: for every expression of literals, operators,
  conditionals and the pure builtins, evaluating the tree the parser builds gives the string or
  the error message of the reference semantics, prints what it prints, in its order, changes
  nothing else, and is never undefined.
\<close>

theorem eval_refines_semantics:
  assumes "clean x"
  shows "EvaluateValue (eval_expr (parse s e x)) st = Some (case sem x (stdout st) of
     (Inr v, out) \<Rightarrow> (Some \<lparr>vtype = VAL_STRING, vsize = length v, vdata = v\<rparr>, st\<lparr>stdout := out\<rparr>)
   | (Inl m, out) \<Rightarrow> (None, st\<lparr>stdout := out, errmsg := Some m\<rparr>))"
  using eval_sem [OF assms, of s e st]
  by (auto simp: EvaluateValue_def ends_def StringValue_def split: prod.splits sum.splits)

theorem eval_refines_semantics_witness:
  "EvaluateValue (eval_expr (parse 0 9 (Seq (Print (Lit [104])) (And (Less (Lit [50]) (Lit [49, 48])) (Lit [121])))))
     \<lparr>cookie = (), script = [], errmsg = None, stdout = [], sleeps = []\<rparr> =
   Some (Some \<lparr>vtype = VAL_STRING, vsize = 1, vdata = [121]\<rparr>,
     \<lparr>cookie = (), script = [], errmsg = None, stdout = [104], sleeps = []\<rparr>)"
  by (subst eval_refines_semantics)
    (simp_all add: andthen_def both_def truth_def str_def less_than_int_def strtol10_def isspace_def isdigit_def
      LONG_MAX_def LONG_MIN_def Let_def)

text \<open>
  No failure is silent: whatever functions an expression calls, if each of them sets the
  message whenever it returns \<open>NULL\<close> by itself, then an evaluation that gives \<open>NULL\<close> has set
  \<open>errmsg\<close>.  All functions of \<open>expr.c\<close> are such functions.
\<close>

theorem null_result_has_message:
  assumes "\<forall>f \<in> fns e. edify_fn f" and "Evaluate (eval_expr e) st = Some (None, st')"
  shows "errmsg st' \<noteq> None"
  using null_ok_Evaluate [OF expr_reports [OF assms(1)], of st] assms(2) by (simp add: null_ok_def)

theorem null_result_has_message_witness:
  "errmsg (\<lparr>cookie = (), script = [40, 41], errmsg = Some (str ''assert failed: '' @ [40]), stdout = [], sleeps = []\<rparr>) \<noteq> None"
  by (rule null_result_has_message [of "Expr AssertFn (str ''assert'') [Expr Literal [] [] 0 1] 0 2"
        "\<lparr>cookie = (), script = [40, 41], errmsg = None, stdout = [], sleeps = []\<rparr>"])
    (simp_all add: assert_fn.edify_fn_axioms literal_fn.edify_fn_axioms Evaluate_def AssertFn_def Literal_def
      StringValue_def BooleanString_def rd_slice_def)

text \<open>
  C37: after registering functions under pairwise different names in any order and finishing
  the registration, \<open>FindFunction\<close> finds the function of every name, and \<open>NULL\<close> for every
  other name.
\<close>

theorem FindFunction_registered:
  assumes "distinct (map fst fs)" and "\<forall>n \<in> set (map fst fs). 0 \<notin> set n" and "0 \<notin> set name"
  shows "FindFunction (FinishRegistration (fold (\<lambda>(n, f). RegisterFunction n f) fs [])) name = map_of fs name"
proof -
  have "fold (\<lambda>(n, f). RegisterFunction n f) fs t = t @ fs" for t :: "'a fn_table"
    by (induction fs arbitrary: t) (auto simp: RegisterFunction_def)
  then show ?thesis using FindFunction_map_of [OF assms] by simp
qed

theorem FindFunction_registered_witness:
  "FindFunction (FinishRegistration (fold (\<lambda>(n, f). RegisterFunction n f)
     [(str ''sleep'', SleepFn), (str ''abort'', AbortFn)] [])) (str ''abort'') = Some AbortFn"
  by (subst FindFunction_registered) (simp_all add: str_def)

text \<open>
  Every builtin can be found under the name it is registered with.
\<close>

theorem builtins_found:
  "FindFunction (FinishRegistration (RegisterBuiltins [])) name = map_of (RegisterBuiltins []) name \<or> 0 \<in> set name"
proof -
  have "FindFunction (FinishRegistration (RegisterBuiltins [])) name = map_of (RegisterBuiltins []) name" if "0 \<notin> set name"
    using that by (intro FindFunction_map_of) (simp_all add: RegisterBuiltins_def RegisterFunction_def str_def)
  then show ?thesis by blast
qed

text \<open>
  \<open>less_than_int\<close> on the decimal representations of two \<open>long\<close>s is their order.
\<close>

theorem less_than_int_decimal:
  assumes "LONG_MIN \<le> i" and "i \<le> LONG_MAX" and "LONG_MIN \<le> j" and "j \<le> LONG_MAX"
  shows "less_than_int (decimal_string i) (decimal_string j) \<longleftrightarrow> i < j"
  using strtol10_decimal [OF assms(1,2)] strtol10_decimal [OF assms(3,4)] by (simp add: less_than_int_def)

theorem less_than_int_decimal_witness:
  "less_than_int (decimal_string (-7)) (decimal_string 12)"
  using less_than_int_decimal [of "-7" 12] by (simp add: LONG_MIN_def LONG_MAX_def)

text \<open>
  Beyond the range of a \<open>long\<close> the comparison saturates, so it is not the order of the
  numbers: the strings of two different large numbers are not less than each other.
\<close>

theorem less_than_int_saturates:
  "\<not> less_than_int (decimal_string (2 ^ 31)) (decimal_string (2 ^ 32)) \<and> (2 :: int) ^ 31 < 2 ^ 32"
  by (simp add: less_than_int_def strtol10_def decimal_string_def digits.simps isspace_def isdigit_def
      LONG_MAX_def LONG_MIN_def Let_def)

text \<open>
  \<open>sleep\<close> and \<open>is_substring\<close> do not check how many arguments a script gives them: called
  with too few they read past the argument array.
\<close>

theorem missing_arguments_undefined:
  "Evaluate (eval_expr (Expr SleepFn (str ''sleep'') [] s e)) st = None \<and>
   Evaluate (eval_expr (Expr SubstringFn (str ''is_substring'') [Expr Literal [97] [] s e] s e)) st = None"
  by (simp add: Evaluate_def SleepFn_def SubstringFn_def compare_args_def rd_def Literal_def StringValue_def)

end
