(* ===== verification/Bspatch.thy ===== *)
theory Bspatch
  imports Bytes
begin

text \<open>
  Applying a binary patch, \<open>applypatch/bspatch.c\<close>.

  \<open>off_t\<close> and \<open>ssize_t\<close> are 32 bits and signed; the additions of the code wrap around and its
  comparisons are signed.  The decompressor \<open>libbzip2\<close> is external: \<open>bz_init\<close> starts a stream
  on its input, and \<open>bz_step s n\<close> is one call of \<open>BZ2_bzDecompress\<close> with \<open>n\<close> bytes of room, which
  returns its status, the bytes it wrote and the stream's new state.  A stream that is announced
  longer than the patch is undefined behaviour.
\<close>

section \<open>offtin\<close>

text \<open>The value is assembled in an \<open>off_t\<close>, so what does not fit into 32 bits is shifted out.\<close>

definition offtin :: "bytes \<Rightarrow> nat \<Rightarrow> u32 option" where
  "offtin buf p = do {
     b7 \<leftarrow> rd buf (p + 7);
     b6 \<leftarrow> rd buf (p + 6);
     b5 \<leftarrow> rd buf (p + 5);
     b4 \<leftarrow> rd buf (p + 4);
     b3 \<leftarrow> rd buf (p + 3);
     b2 \<leftarrow> rd buf (p + 2);
     b1 \<leftarrow> rd buf (p + 1);
     b0 \<leftarrow> rd buf p;
     let y = (ucast (b7 AND 0x7F) :: u32);
     let y = y * 256 + ucast b6;
     let y = y * 256 + ucast b5;
     let y = y * 256 + ucast b4;
     let y = y * 256 + ucast b3;
     let y = y * 256 + ucast b2;
     let y = y * 256 + ucast b1;
     let y = y * 256 + ucast b0;
     Some (if b7 AND 0x80 \<noteq> 0 then - y else y) }"

text \<open>
  The writer of these numbers, \<open>offtout\<close> of \<open>applypatch/bsdiff.c\<close>, which runs on the host
  where an \<open>off_t\<close> holds them: low byte first, the sign in the last bit.
\<close>

definition offtout :: "int \<Rightarrow> bytes" where
  "offtout x =
     (let y0 = (if x < 0 then - x else x);
          y1 = (y0 - y0 mod 256) div 256;
          y2 = (y1 - y1 mod 256) div 256;
          y3 = (y2 - y2 mod 256) div 256;
          y4 = (y3 - y3 mod 256) div 256;
          y5 = (y4 - y4 mod 256) div 256;
          y6 = (y5 - y5 mod 256) div 256;
          y7 = (y6 - y6 mod 256) div 256;
          top = of_int (y7 mod 256) :: u8 in
      [of_int (y0 mod 256), of_int (y1 mod 256), of_int (y2 mod 256), of_int (y3 mod 256),
       of_int (y4 mod 256), of_int (y5 mod 256), of_int (y6 mod 256),
       if x < 0 then top OR 0x80 else top])"

section \<open>FillBuffer\<close>

datatype bz_status = BZ_OK | BZ_STREAM_END | BZ_ERROR

record 's bz =
  bz_init :: "bytes \<Rightarrow> 's"
  bz_step :: "'s \<Rightarrow> nat \<Rightarrow> bz_status \<times> bytes \<times> 's"

text \<open>
  The loop fills \<open>avail_out\<close> bytes from index \<open>p\<close> on.  A stream that makes no progress without
  an error is asked again, forever.
\<close>

partial_function (option) fill_loop ::
    "('s \<Rightarrow> nat \<Rightarrow> bz_status \<times> bytes \<times> 's) \<Rightarrow> bytes \<Rightarrow> nat \<Rightarrow> nat \<Rightarrow> 's \<Rightarrow> (bool \<times> bytes \<times> 's) option" where
  "fill_loop step buffer p avail_out stream =
     (if avail_out = 0 then Some (True, buffer, stream)
      else let (bzerr, out, stream) = step stream avail_out in
        do {
          buffer \<leftarrow> wr_slice buffer p out;
          if bzerr = BZ_ERROR then Some (False, buffer, stream)
          else fill_loop step buffer (p + length out) (avail_out - length out) stream })"

declare fill_loop.simps [code]

text \<open>\<open>size\<close> is an \<open>int\<close> that becomes the \<open>unsigned\<close> \<open>avail_out\<close>.\<close>

definition FillBuffer ::
    "('s \<Rightarrow> nat \<Rightarrow> bz_status \<times> bytes \<times> 's) \<Rightarrow> bytes \<Rightarrow> nat \<Rightarrow> u32 \<Rightarrow> 's \<Rightarrow> (bool \<times> bytes \<times> 's) option" where
  "FillBuffer step buffer p size_of stream = fill_loop step buffer p (unat size_of) stream"

section \<open>ApplyBSDiffPatchMem\<close>

datatype bspatch_error =
    BadMagic | BadLengths | NoMemory | ControlStream | DiffStream | ExtraStream | NewFileOverrun

definition BSDIFF40 :: bytes where "BSDIFF40 = [66, 83, 68, 73, 70, 70, 52, 48]"

text \<open>Adding old data to the diff string, for \<open>i\<close> from the current one to \<open>n\<close> more.\<close>

fun add_old :: "bytes \<Rightarrow> u32 \<Rightarrow> u32 \<Rightarrow> nat \<Rightarrow> nat \<Rightarrow> nat \<Rightarrow> bytes \<Rightarrow> bytes option" where
  "add_old old_data old_size oldpos newpos i 0 new_data = Some new_data"
| "add_old old_data old_size oldpos newpos i (Suc n) new_data = do {
     let q = sint (oldpos + of_nat i);
     new_data \<leftarrow>
       (if 0 \<le> q \<and> q < sint old_size then do {
          a \<leftarrow> rd new_data (newpos + i);
          b \<leftarrow> rd old_data (nat q);
          Some (new_data[newpos + i := a + b]) }
        else Some new_data);
     add_old old_data old_size oldpos newpos (i + 1) n new_data }"

partial_function (option) patch_loop ::
    "('s \<Rightarrow> nat \<Rightarrow> bz_status \<times> bytes \<times> 's) \<Rightarrow> bytes \<Rightarrow> u32 \<Rightarrow> u32 \<Rightarrow> bytes \<Rightarrow> u32 \<Rightarrow> u32 \<Rightarrow> 's \<Rightarrow> 's \<Rightarrow> 's \<Rightarrow>
     (bspatch_error + bytes) option" where
  "patch_loop step old_data old_size new_size new_data oldpos newpos cstream dstream estream =
     (if \<not> sint newpos < sint new_size then Some (Inr new_data)
      else do {
        (ok, buf, cstream) \<leftarrow> FillBuffer step (replicate 24 0) 0 24 cstream;
        if \<not> ok then Some (Inl ControlStream)
        else do {
          ctrl0 \<leftarrow> offtin buf 0;
          ctrl1 \<leftarrow> offtin buf 8;
          ctrl2 \<leftarrow> offtin buf 16;
          if sint (newpos + ctrl0) > sint new_size then Some (Inl NewFileOverrun)
          else do {
            (ok, new_data, dstream) \<leftarrow> FillBuffer step new_data (unat newpos) ctrl0 dstream;
            if \<not> ok then Some (Inl DiffStream)
            else do {
              new_data \<leftarrow> add_old old_data old_size oldpos (unat newpos) 0 (nat (sint ctrl0)) new_data;
              let newpos = newpos + ctrl0;
              let oldpos = oldpos + ctrl0;
              if sint (newpos + ctrl1) > sint new_size then Some (Inl NewFileOverrun)
              else do {
                (ok, new_data, estream) \<leftarrow> FillBuffer step new_data (unat newpos) ctrl1 estream;
                if \<not> ok then Some (Inl ExtraStream)
                else patch_loop step old_data old_size new_size new_data (oldpos + ctrl2) (newpos + ctrl1)
                       cstream dstream estream } } } } })"

declare patch_loop.simps [code]

definition ApplyBSDiffPatchMem ::
    "(nat \<Rightarrow> bool) \<Rightarrow> ('s, 'z) bz_scheme \<Rightarrow> bytes \<Rightarrow> u32 \<Rightarrow> bytes \<Rightarrow> nat \<Rightarrow> (bspatch_error + bytes) option" where
  "ApplyBSDiffPatchMem malloc bz old_data old_size patch patch_offset = do {
     magic \<leftarrow> memcmp (drop patch_offset patch) BSDIFF40 8;
     if magic \<noteq> 0 then Some (Inl BadMagic)
     else do {
       ctrl_len \<leftarrow> offtin patch (patch_offset + 8);
       data_len \<leftarrow> offtin patch (patch_offset + 16);
       new_size \<leftarrow> offtin patch (patch_offset + 24);
       if sint ctrl_len < 0 \<or> sint data_len < 0 \<or> sint new_size < 0 then Some (Inl BadLengths)
       else do {
         cin \<leftarrow> rd_slice patch (patch_offset + 32) (unat ctrl_len);
         din \<leftarrow> rd_slice patch (patch_offset + 32 + unat ctrl_len) (unat data_len);
         let e = patch_offset + 32 + unat ctrl_len + unat data_len;
         ein \<leftarrow> rd_slice patch e (length patch - e);
         if \<not> malloc (unat new_size) then Some (Inl NoMemory)
         else patch_loop (bz_step bz) old_data old_size new_size (replicate (unat new_size) 0) 0 0
                (bz_init bz cin) (bz_init bz din) (bz_init bz ein) } } }"

text \<open>
  \<open>sink\<close> takes the bytes and its token and returns how many it took, or undefined behaviour;
  \<open>sha\<close> is the running hash.  The result is the code's: 0, -1, or 1 after a short write.
\<close>

definition ApplyBSDiffPatch ::
    "(nat \<Rightarrow> bool) \<Rightarrow> ('s, 'z) bz_scheme \<Rightarrow> (bytes \<Rightarrow> 't \<Rightarrow> (int \<times> 't) option) \<Rightarrow> (bytes \<Rightarrow> 'h \<Rightarrow> 'h) \<Rightarrow>
     bytes \<Rightarrow> u32 \<Rightarrow> bytes \<Rightarrow> nat \<Rightarrow> 't \<Rightarrow> 'h \<Rightarrow> (int \<times> 't \<times> 'h) option" where
  "ApplyBSDiffPatch malloc bz sink sha_update old_data old_size patch patch_offset token ctx = do {
     r \<leftarrow> ApplyBSDiffPatchMem malloc bz old_data old_size patch patch_offset;
     case r of
       Inl err \<Rightarrow> Some (-1, token, ctx)
     | Inr new_data \<Rightarrow> do {
         (n, token) \<leftarrow> sink new_data token;
         if n < int (length new_data) then Some (1, token, ctx)
         else Some (0, token, sha_update new_data ctx) } }"

section \<open>The length of the result\<close>

lemma fill_loop_length:
  "fill_loop step buf p n s = Some r \<Longrightarrow> length (fst (snd r)) = length buf"
proof (erule fill_loop.raw_induct [rotated])
  fix fill :: "('s \<Rightarrow> nat \<Rightarrow> bz_status \<times> bytes \<times> 's) \<Rightarrow> bytes \<Rightarrow> nat \<Rightarrow> nat \<Rightarrow> 's \<Rightarrow> (bool \<times> bytes \<times> 's) option"
    and step buf p n s r
  assume ih: "\<And>step buf p n s r. fill step buf p n s = Some r \<Longrightarrow> length (fst (snd r)) = length buf"
    and run: "(if n = 0 then Some (True, buf, s)
       else let (bzerr, out, s) = step s n in
         do { buf \<leftarrow> wr_slice buf p out; if bzerr = BZ_ERROR then Some (False, buf, s) else fill step buf (p + length out) (n - length out) s }) = Some r"
  then show "length (fst (snd r)) = length buf"
    by (auto split: if_splits prod.splits simp: bind_eq_Some_conv dest!: wr_slice_length ih)
qed

lemma FillBuffer_length:
  "FillBuffer step buf p n s = Some (ok, buf', s') \<Longrightarrow> length buf' = length buf"
  unfolding FillBuffer_def by (drule fill_loop_length) simp

lemma add_old_length: "add_old old_data old_size oldpos p i n buf = Some r \<Longrightarrow> length r = length buf"
proof (induction n arbitrary: i buf)
  case (Suc n)
  let ?q = "sint (oldpos + of_nat i)"
  from Suc.prems obtain buf1 where b: "(if 0 \<le> ?q \<and> ?q < sint old_size
      then do { a \<leftarrow> rd buf (p + i); b \<leftarrow> rd old_data (nat ?q); Some (buf[p + i := a + b]) } else Some buf) = Some buf1"
    and r: "add_old old_data old_size oldpos p (Suc i) n buf1 = Some r"
    unfolding add_old.simps Let_def bind_eq_Some_conv by auto
  have "length buf1 = length buf" using b by (auto simp: bind_eq_Some_conv split: if_splits)
  with Suc.IH [OF r] show ?case by simp
qed simp

lemma patch_loop_length:
  "patch_loop step old_data old_size new_size buf oldpos newpos c d e = Some q \<Longrightarrow> \<forall>r. q = Inr r \<longrightarrow> length r = length buf"
  by (erule patch_loop.raw_induct [rotated], unfold Let_def)
    (clarsimp simp: bind_eq_Some_conv split: if_splits; fastforce dest!: FillBuffer_length add_old_length)

lemma ApplyBSDiffPatchMem_length:
  assumes "ApplyBSDiffPatchMem malloc bz old_data old_size patch off = Some (Inr r)"
  shows "length r < 2 ^ 32"
proof -
  from assms obtain n :: u32 where "length r = unat n"
    unfolding ApplyBSDiffPatchMem_def Let_def
    by (auto simp: bind_eq_Some_conv split: if_splits dest!: patch_loop_length)
  then show ?thesis using unsigned_less [of n, where ?'a = nat] by simp
qed
section \<open>Numbers\<close>

lemma low7:
  assumes "w < (128 :: u8)"
  shows "(w OR 0x80) AND 0x7F = w" and "(w OR 0x80) AND 0x80 \<noteq> 0" and "w AND 0x7F = w" and "w AND 0x80 = 0"
proof -
  have m: "(0x7F :: u8) = mask 7" by (simp add: mask_eq_exp_minus_1)
  have t: "take_bit 7 w = w" using assms by (simp add: word_unat_eq_iff unsigned_take_bit_eq take_bit_nat_eq_self word_less_nat_alt)
  show low: "w AND 0x7F = w" unfolding m by (simp add: t flip: take_bit_eq_mask)
  have "w AND 0x80 = (w AND 0x7F) AND 0x80" unfolding low ..
  then show zero: "w AND 0x80 = 0" by (simp only: and.assoc) simp
  show "(w OR 0x80) AND 0x80 \<noteq> 0" by (simp only: bit.conj_disj_distrib2 zero) simp
  show "(w OR 0x80) AND 0x7F = w" by (simp only: bit.conj_disj_distrib2 low) simp
qed

lemma byte_of_int:
  assumes "0 \<le> k" and "k < 256"
  shows "(ucast (of_int k :: u8) :: u32) = of_int k"
  using assms by (simp add: word_uint_eq_iff unsigned_ucast_eq unsigned_of_int take_bit_int_eq_self)


lemma offtin_offtout:
  assumes "\<bar>x\<bar> < 2 ^ 63" and "drop p buf = offtout x @ rest"
  shows "offtin buf p = Some (of_int x)"
proof -
  define y where "y = \<bar>x\<bar>"
  have div: "(k - k mod 256) div 256 = k div 256" for k :: int by (simp add: minus_mod_eq_mult_div)
  define b where "b k = (y div 256 ^ k) mod 256" for k
  have b: "0 \<le> b k" "b k < 256" for k by (simp_all add: b_def)
  have top: "y div 256 ^ 7 < 128" "0 \<le> y div 256 ^ 7" using assms(1) by (auto simp: y_def)
  then have b7: "b 7 = y div 256 ^ 7" by (simp add: b_def)
  define top8 where "top8 = (of_int (b 7) :: u8)"
  have t8: "top8 < 128" using top unfolding top8_def b7
    by (simp add: word_less_def word_uint_eq_iff uint_word_of_int_eq take_bit_int_eq_self)
  have out: "offtout x = [of_int (b 0), of_int (b 1), of_int (b 2), of_int (b 3), of_int (b 4), of_int (b 5),
      of_int (b 6), if x < 0 then top8 OR 0x80 else top8]"
    unfolding offtout_def Let_def div top8_def b_def y_def by (simp add: zdiv_zmult2_eq [symmetric])
  have len: "length (offtout x) = 8" by (simp add: out)
  have "rd buf (p + k) = Some (offtout x ! k)" if "k < 8" for k
  proof -
    have "p + k < length buf" using arg_cong [OF assms(2), of length] that by (simp add: len)
    moreover have "buf ! (p + k) = (offtout x @ rest) ! k" using calculation assms(2) by (metis nth_drop add_leD1 less_imp_le)
    ultimately show ?thesis using that by (simp add: rd_def nth_append len)
  qed
  from this [of 0] this [of 1] this [of 2] this [of 3] this [of 4] this [of 5] this [of 6] this [of 7]
  have r: "rd buf p = Some (of_int (b 0))" "rd buf (p + 1) = Some (of_int (b 1))" "rd buf (p + 2) = Some (of_int (b 2))"
    "rd buf (p + 3) = Some (of_int (b 3))" "rd buf (p + 4) = Some (of_int (b 4))" "rd buf (p + 5) = Some (of_int (b 5))"
    "rd buf (p + 6) = Some (of_int (b 6))" "rd buf (p + 7) = Some (if x < 0 then top8 OR 0x80 else top8)"
    by (simp_all add: out)
  have y: "y = ((((((b 7 * 256 + b 6) * 256 + b 5) * 256 + b 4) * 256 + b 3) * 256 + b 2) * 256 + b 1) * 256 + b 0"
  proof -
    have st: "y div 256 ^ k = y div 256 ^ Suc k * 256 + b k" for k
      using div_mult_mod_eq [of "y div 256 ^ k" 256] unfolding b_def power_Suc2
      by (simp add: zdiv_zmult2_eq)
    show ?thesis
      using st [of 0] st [of 1] st [of 2] st [of 3] st [of 4] st [of 5] st [of 6] b7 by simp
  qed
  have u: "ucast (of_int (b k) :: u8) = (of_int (b k) :: u32)" for k using byte_of_int b .
  have t: "ucast top8 = (of_int (b 7) :: u32)" unfolding top8_def by (rule u)
  have sgn: "of_int x = (if x < 0 then - of_int y else of_int y :: u32)" by (simp add: y_def)
  have "offtin buf p = Some (if x < 0 then - of_int y else of_int y)"
    unfolding offtin_def Let_def r Option.bind.bind_lunit u
    by (cases "x < 0") (simp_all add: low7 [OF t8] t u y)
  then show ?thesis by (simp only: sgn)
qed


section \<open>Streams that deliver\<close>

text \<open>
  A decompressor that delivers: while content is left and there is room, a call makes progress
  and writes no more than there is room for.
\<close>

definition delivers :: "('s \<Rightarrow> nat \<Rightarrow> bz_status \<times> bytes \<times> 's) \<Rightarrow> ('s \<Rightarrow> bytes) \<Rightarrow> bool" where
  "delivers step content \<longleftrightarrow> (\<forall>s n. 0 < n \<longrightarrow> content s \<noteq> [] \<longrightarrow>
     (\<exists>st out s'. step s n = (st, out, s') \<and> st \<noteq> BZ_ERROR \<and> out \<noteq> [] \<and> length out \<le> n \<and>
        content s = out @ content s'))"

lemma fill_loop_delivers:
  assumes "delivers step content"
  shows "n \<le> length (content s) \<Longrightarrow> p + n \<le> length buf \<Longrightarrow>
    \<exists>s'. fill_loop step buf p n s = Some (True, take p buf @ take n (content s) @ drop (p + n) buf, s') \<and>
      content s' = drop n (content s)"
proof (induction n arbitrary: s p buf rule: less_induct)
  case (less n)
  show ?case
  proof (cases "n = 0")
    case True
    then show ?thesis by (subst fill_loop.simps) simp
  next
    case False
    then have "0 < n" "content s \<noteq> []" using less.prems by auto
    then obtain st out s1 where s1: "step s n = (st, out, s1)" "st \<noteq> BZ_ERROR" "out \<noteq> []" "length out \<le> n"
      "content s = out @ content s1"
      using assms unfolding delivers_def by blast
    define buf1 where "buf1 = take p buf @ out @ drop (p + length out) buf"
    have w: "wr_slice buf p out = Some buf1" using s1(4) less.prems(2) by (simp add: wr_slice_def buf1_def)
    have l: "length buf1 = length buf" using wr_slice_length [OF w] .
    have "n - length out < n" using s1(3,4) \<open>0 < n\<close> by (cases out) simp_all
    moreover have "n - length out \<le> length (content s1)" "p + length out + (n - length out) \<le> length buf1"
      using less.prems s1(4,5) l by simp_all
    ultimately obtain s' where s': "fill_loop step buf1 (p + length out) (n - length out) s1 =
        Some (True, take (p + length out) buf1 @ take (n - length out) (content s1) @ drop (p + length out + (n - length out)) buf1, s')"
      "content s' = drop (n - length out) (content s1)"
      using less.IH by blast
    have "take (p + length out) buf1 = take p buf @ out" using less.prems(2) s1(4) by (simp add: buf1_def)
    moreover have "drop (p + n) buf1 = drop (p + n) buf" using less.prems(2) s1(4) by (simp add: buf1_def add.commute)
    ultimately show ?thesis
      using s' s1 False w by (subst fill_loop.simps) simp
  qed
qed

section \<open>The reference\<close>

text \<open>
  A patch as the format's comment describes it: triples of a diff string, an extra string and
  a seek.  Old data outside of the old file counts as 0.
\<close>

definition old_at :: "bytes \<Rightarrow> int \<Rightarrow> u8" where
  "old_at old q = (if 0 \<le> q \<and> q < int (length old) then old ! nat q else 0)"

definition add_diff :: "bytes \<Rightarrow> int \<Rightarrow> bytes \<Rightarrow> bytes" where
  "add_diff old q d = map (\<lambda>j. d ! j + old_at old (q + int j)) [0..<length d]"

fun apply_triples :: "bytes \<Rightarrow> int \<Rightarrow> (bytes \<times> bytes \<times> int) list \<Rightarrow> bytes" where
  "apply_triples old q [] = []"
| "apply_triples old q ((d, e, z) # ts) = add_diff old q d @ e @ apply_triples old (q + int (length d) + z) ts"

text \<open>The control stream, and the positions that fit into an \<open>off_t\<close>.\<close>

definition control :: "bytes \<times> bytes \<times> int \<Rightarrow> bytes" where
  "control t = (case t of (d, e, z) \<Rightarrow> offtout (int (length d)) @ offtout (int (length e)) @ offtout z)"

definition in_off_t :: "int \<Rightarrow> bool" where
  "in_off_t q \<longleftrightarrow> - (2 ^ 31) \<le> q \<and> q < 2 ^ 31"

fun positions_ok :: "int \<Rightarrow> (bytes \<times> bytes \<times> int) list \<Rightarrow> bool" where
  "positions_ok q [] = True"
| "positions_ok q ((d, e, z) # ts) =
     (in_off_t q \<and> in_off_t (q + int (length d)) \<and> in_off_t z \<and> positions_ok (q + int (length d) + z) ts)"

lemma length_add_diff [simp]: "length (add_diff old q d) = length d"
  by (simp add: add_diff_def)

lemma sint_of_int: "in_off_t q \<Longrightarrow> sint (of_int q :: u32) = q"
  by (simp add: in_off_t_def signed_of_int signed_take_bit_int_eq_self)

lemma add_old_spec:
  assumes old: "old_size = of_nat (length old)" "length old < 2 ^ 31"
  shows "newpos + i + n \<le> length buf \<Longrightarrow> in_off_t q \<Longrightarrow> in_off_t (q + int i + int n) \<Longrightarrow>
    add_old old old_size (of_int q) newpos i n buf =
      Some (take (newpos + i) buf @ map (\<lambda>j. buf ! (newpos + i + j) + old_at old (q + int (i + j))) [0..<n] @
            drop (newpos + i + n) buf)"
proof (induction n arbitrary: i buf)
  case (Suc n)
  have "in_off_t (q + int i)" using Suc.prems by (auto simp: in_off_t_def)
  then have pos: "sint (of_int q + of_nat i :: u32) = q + int i" using sint_of_int [of "q + int i"] by simp
  have size: "sint old_size = int (length old)" using old sint_of_int [of "int (length old)"] by (simp add: in_off_t_def)
  define x where "x = buf ! (newpos + i) + old_at old (q + int i)"
  have step: "add_old old old_size (of_int q) newpos i (Suc n) buf =
      add_old old old_size (of_int q) newpos (Suc i) n (buf[newpos + i := x])"
    using Suc.prems pos size by (auto simp: rd_def x_def old_at_def Let_def)
  have join: "(take (newpos + i) buf @ [x]) @ map (\<lambda>j. buf ! (newpos + i + j) + old_at old (q + int (i + j))) [Suc 0..<Suc n] =
      take (newpos + i) buf @ map (\<lambda>j. buf ! (newpos + i + j) + old_at old (q + int (i + j))) [0..<Suc n]"
    by (simp add: upt_conv_Cons x_def del: upt_Suc)
  have "in_off_t (q + int (Suc i) + int n)" using Suc.prems(3) by (simp add: algebra_simps)
  from Suc.IH [OF _ Suc.prems(2) this, of "buf[newpos + i := x]"] Suc.prems(1)
  have "add_old old old_size (of_int q) newpos (Suc i) n (buf[newpos + i := x]) =
      Some (take (newpos + Suc i) (buf[newpos + i := x]) @
        map (\<lambda>j. buf[newpos + i := x] ! (newpos + Suc i + j) + old_at old (q + int (Suc i + j))) [0..<n] @
        drop (newpos + Suc i + n) (buf[newpos + i := x]))" by simp
  also have "take (newpos + Suc i) (buf[newpos + i := x]) = take (newpos + i) buf @ [x]"
    using Suc.prems(1) by (simp add: take_Suc_conv_app_nth)
  also have "map (\<lambda>j. buf[newpos + i := x] ! (newpos + Suc i + j) + old_at old (q + int (Suc i + j))) [0..<n] =
      map (\<lambda>j. buf ! (newpos + i + j) + old_at old (q + int (i + j))) [Suc 0..<Suc n]"
    by (simp add: map_Suc_upt [symmetric] algebra_simps del: upt_Suc)
  also have "drop (newpos + Suc i + n) (buf[newpos + i := x]) = drop (newpos + i + Suc n) buf" by simp
  finally show ?case unfolding step append_assoc [symmetric] join .
qed simp


lemma sint_sum:
  assumes "a + b < 2 ^ 31"
  shows "sint (of_nat a + of_nat b :: u32) = int a + int b" and "unat (of_nat a + of_nat b :: u32) = a + b"
    and "unat (of_nat a :: u32) = a"
proof -
  have "(of_nat a + of_nat b :: u32) = of_int (int a + int b)" by simp
  then show "sint (of_nat a + of_nat b :: u32) = int a + int b"
    using assms sint_of_int [of "int a + int b"] by (simp only:) (simp add: in_off_t_def)
  have "(of_nat a + of_nat b :: u32) = of_nat (a + b)" by simp
  moreover have "a + b < 2 ^ 32" "a < 2 ^ 32" using assms by simp_all
  ultimately show "unat (of_nat a + of_nat b :: u32) = a + b" "unat (of_nat a :: u32) = a"
    by (metis unat_of_nat_u32)+
qed

lemma length_offtout [simp]: "length (offtout k) = 8"
  by (simp only: offtout_def Let_def list.size)

lemma offtin_control:
  assumes "length d < 2 ^ 31" and "length e < 2 ^ 31" and "in_off_t z"
  shows "offtin (control (d, e, z)) 0 = Some (of_nat (length d))"
    and "offtin (control (d, e, z)) 8 = Some (of_nat (length e))"
    and "offtin (control (d, e, z)) 16 = Some (of_int z)"
proof -
  have b: "\<bar>int (length d)\<bar> < 2 ^ 63" "\<bar>int (length e)\<bar> < 2 ^ 63" "\<bar>z\<bar> < 2 ^ 63"
    using assms by (auto simp: in_off_t_def)
  show "offtin (control (d, e, z)) 0 = Some (of_nat (length d))"
    using offtin_offtout [OF b(1), of 0 "control (d, e, z)"] by (simp add: control_def)
  show "offtin (control (d, e, z)) 8 = Some (of_nat (length e))"
    using offtin_offtout [OF b(2), of 8 "control (d, e, z)"] by (simp add: control_def)
  show "offtin (control (d, e, z)) 16 = Some (of_int z)"
    using offtin_offtout [OF b(3), of 16 "control (d, e, z)" "[]"] by (simp add: control_def)
qed

lemma length_control [simp]: "length (control t) = 24"
  by (cases t) (simp add: control_def)

text \<open>One triple is copied into the new file.\<close>

lemma patch_step:
  assumes dl: "delivers step content" and old: "old_size = of_nat (length old)" "length old < 2 ^ 31"
    and size: "length new < 2 ^ 31" "np + length d + length e \<le> length new" "np < length new"
    and pos: "in_off_t q" "in_off_t (q + int (length d))" "in_off_t z"
    and c: "content cs = control (d, e, z) @ cr" and d: "content ds = d @ dr" and e: "content es = e @ er"
  shows "\<exists>cs' ds' es'. content cs' = cr \<and> content ds' = dr \<and> content es' = er \<and>
    patch_loop step old old_size (of_nat (length new)) new (of_int q) (of_nat np) cs ds es =
    patch_loop step old old_size (of_nat (length new))
      (take np new @ add_diff old q d @ e @ drop (np + length d + length e) new)
      (of_int (q + int (length d) + z)) (of_nat (np + length d + length e)) cs' ds' es'"
proof -
  obtain cs' where cs': "fill_loop step (replicate 24 0) 0 24 cs = Some (True, control (d, e, z), cs')" "content cs' = cr"
    using fill_loop_delivers [OF dl, of 24 cs 0 "replicate 24 0"] c by auto
  obtain ds' where ds': "fill_loop step new np (length d) ds = Some (True, take np new @ d @ drop (np + length d) new, ds')"
    "content ds' = dr"
    using fill_loop_delivers [OF dl, of "length d" ds np new] d size(2) by auto
  define n1 where "n1 = take np new @ d @ drop (np + length d) new"
  define n2 where "n2 = take np new @ add_diff old q d @ drop (np + length d) new"
  have l: "length n1 = length new" "length n2 = length new" using size(2) by (simp_all add: n1_def n2_def)
  have "add_old old old_size (of_int q) np 0 (length d) n1 =
      Some (take np n1 @ map (\<lambda>j. n1 ! (np + j) + old_at old (q + int j)) [0..<length d] @ drop (np + length d) n1)"
    using add_old_spec [OF old, of np 0 "length d" n1 q] pos size(2) l by simp
  also have "take np n1 @ map (\<lambda>j. n1 ! (np + j) + old_at old (q + int j)) [0..<length d] @ drop (np + length d) n1 = n2"
    using size(2) by (auto simp: n1_def n2_def add_diff_def nth_append)
  finally have add: "add_old old old_size (of_int q) np 0 (length d) n1 = Some n2" .
  obtain es' where es': "fill_loop step n2 (np + length d) (length e) es =
      Some (True, take np new @ add_diff old q d @ e @ drop (np + length d + length e) new, es')" "content es' = er"
    using fill_loop_delivers [OF dl, of "length e" es "np + length d" n2] e size(2) l
    by (auto simp: n2_def add.commute [of "length e"])
  have b: "length d < 2 ^ 31" "length e < 2 ^ 31" "np + length d < 2 ^ 31" "np + length d + length e < 2 ^ 31"
    using size by linarith+
  note ctrl = offtin_control [OF b(1,2) pos(3)]
  have s0: "sint (of_nat np :: u32) = int np" "sint (of_nat (length new) :: u32) = int (length new)"
      "sint (of_nat (length d) :: u32) = int (length d)"
    using sint_sum(1) [of np 0] sint_sum(1) [of "length new" 0] sint_sum(1) [of "length d" 0] size b by simp_all
  have u0: "unat (of_nat np :: u32) = np" "unat (of_nat (length d) :: u32) = length d" "unat (of_nat (length e) :: u32) = length e"
    using sint_sum(3) [of np 0] sint_sum(3) [of "length d" 0] sint_sum(3) [of "length e" 0] size b by simp_all
  have s1: "sint (of_nat np + of_nat (length d) :: u32) = int np + int (length d)"
    "unat (of_nat np + of_nat (length d) :: u32) = np + length d"
    using sint_sum [of np "length d"] b by simp_all
  have s2: "sint (of_nat np + of_nat (length d) + of_nat (length e) :: u32) = int np + int (length d) + int (length e)"
    using sint_sum(1) [of "np + length d" "length e"] b by simp
  have fits: "\<not> int (length new) < int np + int (length d)" "\<not> int (length new) < int np + int (length d) + int (length e)"
    using size(2) by linarith+
  have "patch_loop step old old_size (of_nat (length new)) new (of_int q) (of_nat np) cs ds es =
    patch_loop step old old_size (of_nat (length new))
      (take np new @ add_diff old q d @ e @ drop (np + length d + length e) new)
      (of_int q + of_nat (length d) + of_int z) (of_nat np + of_nat (length d) + of_nat (length e)) cs' ds' es'"
    using size(3) cs'(1) ds'(1) add es'(1) ctrl fits
    by (subst patch_loop.simps)
      (simp add: FillBuffer_def s0 s1 s2 u0 Let_def flip: n1_def del: of_nat_add unat_of_nat unsigned_of_nat signed_of_nat)
  then show ?thesis using cs'(2) ds'(2) es'(2) by auto
qed

lemma patch_loop_triples:
  assumes dl: "delivers step content" and old: "old_size = of_nat (length old)" "length old < 2 ^ 31"
  shows "content cs = concat (map control ts) @ cr \<Longrightarrow> content ds = concat (map fst ts) @ dr \<Longrightarrow>
    content es = concat (map (fst \<circ> snd) ts) @ er \<Longrightarrow> length new < 2 ^ 31 \<Longrightarrow>
    np + length (apply_triples old q ts) = length new \<Longrightarrow> positions_ok q ts \<Longrightarrow>
    patch_loop step old old_size (of_nat (length new)) new (of_int q) (of_nat np) cs ds es =
      Some (Inr (take np new @ apply_triples old q ts))"
proof (induction ts arbitrary: cs ds es new np q)
  case Nil
  then show ?case by (subst patch_loop.simps) simp
next
  case (Cons t ts)
  obtain d e z where t: "t = (d, e, z)" by (cases t)
  show ?case
  proof (cases "np < length new")
    case False
    then have "length (apply_triples old q (t # ts)) = 0" using Cons.prems(5) by linarith
    then have "apply_triples old q (t # ts) = []" by (simp only: length_0_conv)
    moreover have "np = length new" using False Cons.prems(5) by simp
    ultimately show ?thesis by (subst patch_loop.simps) simp
  next
    case True
    let ?new = "take np new @ add_diff old q d @ e @ drop (np + length d + length e) new"
    have room: "np + length d + length e \<le> length new" using Cons.prems(5) t by simp
    have len: "length ?new = length new" using room by simp
    obtain cs' ds' es' where step: "content cs' = concat (map control ts) @ cr" "content ds' = concat (map fst ts) @ dr"
      "content es' = concat (map (fst \<circ> snd) ts) @ er"
      "patch_loop step old old_size (of_nat (length new)) new (of_int q) (of_nat np) cs ds es =
       patch_loop step old old_size (of_nat (length new)) ?new (of_int (q + int (length d) + z))
         (of_nat (np + length d + length e)) cs' ds' es'"
    proof -
      have "in_off_t q" "in_off_t (q + int (length d))" "in_off_t z" using Cons.prems(6) t by simp_all
      from patch_step [OF dl old Cons.prems(4) room True this, of cs "concat (map control ts) @ cr" ds
          "concat (map fst ts) @ dr" es "concat (map (fst \<circ> snd) ts) @ er"] Cons.prems(1-3)
      show ?thesis unfolding t using that by (simp add: comp_def del: of_nat_add of_int_add) blast
    qed
    have "patch_loop step old old_size (of_nat (length ?new)) ?new (of_int (q + int (length d) + z))
         (of_nat (np + length d + length e)) cs' ds' es' =
       Some (Inr (take (np + length d + length e) ?new @ apply_triples old (q + int (length d) + z) ts))"
      using Cons.prems t len by (intro Cons.IH step(1-3)) simp_all
    moreover have "take (np + length d + length e) ?new = take np new @ add_diff old q d @ e"
      using True by simp
    ultimately show ?thesis unfolding step(4) len t by simp
  qed
qed

text \<open>Reading the header of a patch.\<close>

lemma header_read:
  assumes "patch = pre @ BSDIFF40 @ offtout a @ offtout b @ offtout n @ rest"
    and "\<bar>a\<bar> < 2 ^ 63" "\<bar>b\<bar> < 2 ^ 63" "\<bar>n\<bar> < 2 ^ 63"
  shows "memcmp (drop (length pre) patch) BSDIFF40 8 = Some 0"
    and "offtin patch (length pre + 8) = Some (of_int a)"
    and "offtin patch (length pre + 16) = Some (of_int b)"
    and "offtin patch (length pre + 24) = Some (of_int n)"
proof -
  have len8: "length BSDIFF40 = 8" by (simp add: BSDIFF40_def)
  show "memcmp (drop (length pre) patch) BSDIFF40 8 = Some 0"
    unfolding assms(1) by (subst memcmp_eq_zero) (simp_all add: len8)
  show "offtin patch (length pre + 8) = Some (of_int a)"
    using offtin_offtout [OF assms(2), of "length pre + 8" patch] unfolding assms(1) by (simp add: len8)
  show "offtin patch (length pre + 16) = Some (of_int b)"
    using offtin_offtout [OF assms(3), of "length pre + 16" patch] unfolding assms(1) by (simp add: len8)
  show "offtin patch (length pre + 24) = Some (of_int n)"
    using offtin_offtout [OF assms(4), of "length pre + 24" patch] unfolding assms(1) by (simp add: len8)
qed

section \<open>Properties\<close>

text \<open>
  What the encoder of patches writes, \<open>offtin\<close> reads back, modulo \<open>2\<^sup>3\<^sup>2\<close>: all numbers that
  fit into an \<open>off_t\<close> survive, with their sign.
\<close>

theorem offtin_of_offtout:
  assumes "\<bar>x\<bar> < 2 ^ 63"
  shows "offtin (offtout x) 0 = Some (of_int x) \<and>
    (in_off_t x \<longrightarrow> map_option sint (offtin (offtout x) 0) = Some x)"
  using offtin_offtout [OF assms, of 0 "offtout x" "[]"] sint_of_int [of x] by simp

theorem offtin_of_offtout_witness: "map_option sint (offtin (offtout (-300)) 0) = Some (-300)"
  using offtin_of_offtout [of "-300"] by (simp add: in_off_t_def)

lemma ApplyBSDiffPatchMem_triples:
  assumes "delivers (bz_step bz) content" and "\<And>n. malloc n"
    and "patch = pre @ BSDIFF40 @ offtout (int (length c)) @ offtout (int (length d)) @
           offtout (int (length (apply_triples old 0 ts))) @ c @ d @ e"
    and "content (bz_init bz c) = concat (map control ts)"
    and "content (bz_init bz d) = concat (map fst ts)"
    and "content (bz_init bz e) = concat (map (fst \<circ> snd) ts)"
    and "length c < 2 ^ 31" and "length d < 2 ^ 31" and "length old < 2 ^ 31"
    and "length (apply_triples old 0 ts) < 2 ^ 31" and "positions_ok 0 ts"
  shows "ApplyBSDiffPatchMem malloc bz old (of_nat (length old)) patch (length pre) =
    Some (Inr (apply_triples old 0 ts))"
proof -
  let ?n = "length (apply_triples old 0 ts)"
  have len8: "length BSDIFF40 = 8" by (simp add: BSDIFF40_def)
  have small: "\<bar>int k\<bar> < 2 ^ 63" if "k < 2 ^ 31" for k using that by simp
  note fields = header_read [OF assms(3) small [OF assms(7)] small [OF assms(8)] small [OF assms(10)],
      unfolded of_int_of_nat_eq]
  have u: "unat (of_nat k :: u32) = k" "sint (of_nat k :: u32) = int k" if "k < 2 ^ 31" for k
    using sint_sum [of k 0] that by simp_all
  have slices: "rd_slice patch (length pre + 32) (length c) = Some c"
    "rd_slice patch (length pre + 32 + length c) (length d) = Some d"
    "rd_slice patch (length pre + 32 + length c + length d) (length patch - (length pre + 32 + length c + length d)) = Some e"
    unfolding assms(3) by (simp_all add: rd_slice_def len8)
  have "patch_loop (bz_step bz) old (of_nat (length old)) (of_nat (length (replicate ?n 0))) (replicate ?n 0)
      (of_int 0) (of_nat 0) (bz_init bz c) (bz_init bz d) (bz_init bz e) = Some (Inr (take 0 (replicate ?n 0) @ apply_triples old 0 ts))"
    using patch_loop_triples [OF assms(1) refl assms(9), of "bz_init bz c" ts "[]" "bz_init bz d" "[]"
        "bz_init bz e" "[]" "replicate ?n 0" 0 0] assms(4-6,10,11) by simp
  then show ?thesis
    using fields slices u assms(2,7,8,10)
    by (simp add: ApplyBSDiffPatchMem_def Let_def del: unat_of_nat unsigned_of_nat signed_of_nat)
qed

text \<open>
  C15: \<open>ApplyBSDiffPatchMem\<close> computes what the patch format says: for a well-formed patch whose
  three streams decompress, in whatever portions, to the control triples, the diff and the
  extra strings, the result is the new file that the triples describe, if all sizes and
  positions fit into an \<open>off_t\<close>.  The loop ends and no access is out of bounds.
\<close>

theorem ApplyBSDiffPatchMem_applies:
  assumes "delivers (bz_step bz) content" and "\<And>n. malloc n"
    and "patch = pre @ BSDIFF40 @ offtout (int (length c)) @ offtout (int (length d)) @
           offtout (int (length (apply_triples old 0 ts))) @ c @ d @ e"
    and "content (bz_init bz c) = concat (map control ts)"
    and "content (bz_init bz d) = concat (map fst ts)"
    and "content (bz_init bz e) = concat (map (fst \<circ> snd) ts)"
    and "length c < 2 ^ 31" and "length d < 2 ^ 31" and "length old < 2 ^ 31"
    and "length (apply_triples old 0 ts) < 2 ^ 31" and "positions_ok 0 ts"
  shows "ApplyBSDiffPatchMem malloc bz old (of_nat (length old)) patch (length pre) =
    Some (Inr (apply_triples old 0 ts))"
  by (rule ApplyBSDiffPatchMem_triples [OF assms])

text \<open>A decompressor for the witnesses: blocks are stored, and delivered one byte at a time
  or all at once.\<close>

definition stored_bz :: "bytes bz" where
  "stored_bz = \<lparr>bz_init = (\<lambda>x. x), bz_step = (\<lambda>s n. (BZ_OK, take 1 s, drop 1 s))\<rparr>"

definition greedy_bz :: "bytes bz" where
  "greedy_bz = \<lparr>bz_init = (\<lambda>x. x), bz_step = (\<lambda>s n. (BZ_OK, take n s, drop n s))\<rparr>"

lemma stored_bz_delivers: "delivers (bz_step stored_bz) (\<lambda>s. s)"
  by (auto simp: delivers_def stored_bz_def neq_Nil_conv)

theorem ApplyBSDiffPatchMem_applies_witness:
  "ApplyBSDiffPatchMem (\<lambda>_. True) stored_bz [10, 20] (of_nat (length [10 :: u8, 20]))
     ([5] @ BSDIFF40 @ offtout 24 @ offtout 2 @ offtout 3 @ control ([1, 2], [9], 0) @ [1, 2] @ [9]) (length [5 :: u8]) =
   Some (Inr [11, 22, 9])"
proof -
  have r: "apply_triples [10, 20] 0 [([1, 2], [9], 0)] = [11, 22, 9]"
    by (simp add: add_diff_def old_at_def)
  have "ApplyBSDiffPatchMem (\<lambda>_. True) stored_bz [10, 20] (of_nat (length [10 :: u8, 20]))
     ([5] @ BSDIFF40 @ offtout 24 @ offtout 2 @ offtout 3 @ control ([1, 2], [9], 0) @ [1, 2] @ [9]) (length [5 :: u8]) =
     Some (Inr (apply_triples [10, 20] 0 [([1, 2], [9], 0)]))"
    by (rule ApplyBSDiffPatchMem_applies [OF stored_bz_delivers, where c = "control ([1, 2], [9], 0)" and d = "[1, 2]" and e = "[9]"])
      (simp_all add: r in_off_t_def stored_bz_def)
  then show ?thesis unfolding r .
qed

lemma fill_loop_stuck:
  "fill_loop step buf p n s = Some r \<Longrightarrow> step = (\<lambda>s n. (BZ_OK, [], s)) \<longrightarrow> n = 0"
  by (erule fill_loop.raw_induct [rotated]) (clarsimp simp: bind_eq_Some_conv split: if_splits, blast)

text \<open>
  A stream that has run out of input without reaching its end makes \<open>FillBuffer\<close> loop
  forever, since \<open>libbzip2\<close> then returns \<open>BZ_OK\<close> without progress: a truncated patch hangs the
  update.
\<close>

theorem FillBuffer_truncated_hangs:
  assumes "n \<noteq> 0"
  shows "FillBuffer (\<lambda>s n. (BZ_OK, [], s)) buf p n s = None"
proof (rule ccontr)
  assume "FillBuffer (\<lambda>s n. (BZ_OK, [], s)) buf p n s \<noteq> None"
  then obtain r where "fill_loop (\<lambda>s n. (BZ_OK, [], s)) buf p (unat n) s = Some r" by (auto simp: FillBuffer_def)
  from fill_loop_stuck [OF this] assms show False by (simp add: unat_eq_0)
qed

theorem FillBuffer_truncated_hangs_witness:
  "FillBuffer (\<lambda>s n. (BZ_OK, [], s)) (replicate 24 0) 0 24 () = None"
  by (rule FillBuffer_truncated_hangs) simp

text \<open>
  A negative length in the control data passes the sanity check and is taken for a huge
  unsigned one, so the diff string overruns the new file.
\<close>

theorem negative_control_overruns:
  "ApplyBSDiffPatchMem (\<lambda>_. True) greedy_bz [] 0
     (BSDIFF40 @ offtout 24 @ offtout 3 @ offtout 1 @ (offtout (-1) @ offtout 0 @ offtout 0) @ [1, 2, 3]) 0 = None"
    (is "ApplyBSDiffPatchMem _ _ _ _ ?patch _ = _")
proof -
  let ?c = "offtout (-1) @ offtout 0 @ offtout 0"
  have len8: "length BSDIFF40 = 8" by (simp add: BSDIFF40_def)
  note fields = header_read [of ?patch "[]" 24 3 1 "?c @ [1, 2, 3]", simplified]
  have slices: "rd_slice ?patch 32 24 = Some ?c" "rd_slice ?patch 56 3 = Some [1, 2, 3]"
    "rd_slice ?patch 59 (length ?patch - 59) = Some []"
    by (simp_all add: rd_slice_def len8)
  have ctrl: "offtin ?c 0 = Some (- 1)" "offtin ?c 8 = Some 0" "offtin ?c 16 = Some 0"
    using offtin_offtout [of "-1" 0 ?c] offtin_offtout [of 0 8 ?c] offtin_offtout [of 0 16 ?c "[]"] by simp_all
  have "FillBuffer (bz_step greedy_bz) (replicate 24 0) 0 24 ?c = Some (True, ?c, [])"
    by (simp add: FillBuffer_def greedy_bz_def fill_loop.simps wr_slice_def)
  moreover have "FillBuffer (bz_step greedy_bz) [0] 0 (- 1) [1, 2, 3] = None"
  proof -
    have "unat (- 1 :: u32) = 4294967295" by (simp add: unsigned_minus_1_eq_mask mask_eq_exp_minus_1)
    then show ?thesis by (simp add: FillBuffer_def greedy_bz_def fill_loop.simps wr_slice_def)
  qed
  ultimately have "patch_loop (bz_step greedy_bz) [] 0 1 [0] 0 0 ?c [1, 2, 3] [] = None"
    using ctrl by (subst patch_loop.simps) simp
  then show ?thesis using fields slices by (simp add: ApplyBSDiffPatchMem_def greedy_bz_def)
qed

text \<open>
  Sizes beyond 32 bits are cut off silently: a patch for a new file of \<open>2\<^sup>3\<^sup>2\<close> bytes is read as
  one for an empty file, and applying it succeeds.
\<close>

theorem large_size_truncated:
  "ApplyBSDiffPatchMem (\<lambda>_. True) greedy_bz [] 0 (BSDIFF40 @ offtout 0 @ offtout 0 @ offtout (2 ^ 32)) 0 = Some (Inr [])"
    (is "ApplyBSDiffPatchMem _ _ _ _ ?patch _ = _")
proof -
  have len8: "length BSDIFF40 = 8" by (simp add: BSDIFF40_def)
  have zero: "(of_int (2 ^ 32) :: u32) = 0" by simp
  note fields = header_read [of ?patch "[]" 0 0 "2 ^ 32" "[]", unfolded zero, simplified]
  then show ?thesis by (simp add: ApplyBSDiffPatchMem_def rd_slice_def len8 patch_loop.simps)
qed

end
