(* ===== verification/Bsdiff.thy ===== *)
theory Bsdiff
  imports Bspatch
begin

text \<open>
  Making patches, \<open>applypatch/bsdiff.c\<close>: the suffix sort, the search in the suffix array, and the
  loop that turns the matches into control triples.

  The tool runs on the host, where an \<open>off_t\<close> has 64 bits: numbers are \<open>int\<close>.  A pointer into a
  buffer is the rest of the buffer from there on, and an access outside a buffer is undefined.
  The tool exits when a library call fails, so the calls below are those that succeed;
  compression is a parameter, from what has been written to the stream to what is in the file.
\<close>

section \<open>Arrays\<close>

definition at :: "'a list \<Rightarrow> int \<Rightarrow> 'a option" where
  "at xs i = (if 0 \<le> i \<and> i < int (length xs) then Some (xs ! nat i) else None)"

definition put :: "'a list \<Rightarrow> int \<Rightarrow> 'a \<Rightarrow> 'a list option" where
  "put xs i x = (if 0 \<le> i \<and> i < int (length xs) then Some (xs[nat i := x]) else None)"

definition pointer :: "'a list \<Rightarrow> int \<Rightarrow> 'a list option" where
  "pointer xs i = (if 0 \<le> i \<and> i \<le> int (length xs) then Some (drop (nat i) xs) else None)"

text \<open>The elements a loop reads that runs from \<open>p\<close> on over \<open>n\<close> elements.\<close>

definition copied :: "'a list \<Rightarrow> int \<Rightarrow> int \<Rightarrow> 'a list option" where
  "copied xs p n = (if n \<le> 0 then Some []
     else if 0 \<le> p \<and> p + n \<le> int (length xs) then Some (take (nat n) (drop (nat p) xs)) else None)"

text \<open>A \<open>for\<close> loop over given values of its variable.\<close>

fun loop :: "('i \<Rightarrow> 's \<Rightarrow> 's option) \<Rightarrow> 'i list \<Rightarrow> 's \<Rightarrow> 's option" where
  "loop body [] s = Some s"
| "loop body (i # is) s = do { s \<leftarrow> body i s; loop body is s }"

section \<open>The suffix sort\<close>

text \<open>Collecting the smallest keys of the interval behind position \<open>k\<close>, and numbering them.\<close>

function least_loop :: "int list \<Rightarrow> int \<Rightarrow> int \<Rightarrow> int \<Rightarrow> int list \<Rightarrow> int \<Rightarrow> int \<Rightarrow> int \<Rightarrow> (int list \<times> int) option" where
  "least_loop V bound h k I i j x =
     (if k + i < bound then do {
        iki \<leftarrow> at I (k + i);
        v \<leftarrow> at V (iki + h);
        let (x, j) = (if v < x then (v, 0) else (x, j));
        if v = x then do {
          tmp \<leftarrow> at I (k + j);
          I \<leftarrow> put I (k + j) iki;
          I \<leftarrow> put I (k + i) tmp;
          least_loop V bound h k I (i + 1) (j + 1) x }
        else least_loop V bound h k I (i + 1) j x }
      else Some (I, j))"
  by pat_completeness auto
termination
  by (relation "measure (\<lambda>(V, bound, h, k, I, i, j, x). nat (bound - (k + i)))") auto

declare least_loop.simps [simp del]

definition number_group :: "int \<Rightarrow> int \<Rightarrow> int \<Rightarrow> int list \<Rightarrow> int list \<Rightarrow> int list option" where
  "number_group k j v I V = loop (\<lambda>i V. do { ii \<leftarrow> at I (k + i); put V ii v }) [0..j - 1] V"

partial_function (option) select_loop :: "int \<Rightarrow> int \<Rightarrow> int \<Rightarrow> int list \<Rightarrow> int list \<Rightarrow> (int list \<times> int list) option" where
  "select_loop bound h k I V =
     (if k < bound then do {
        ik \<leftarrow> at I k;
        x \<leftarrow> at V (ik + h);
        (I, j) \<leftarrow> least_loop V bound h k I 1 1 x;
        V \<leftarrow> number_group k j (k + j - 1) I V;
        I \<leftarrow> (if j = 1 then put I k (-1) else Some I);
        select_loop bound h (k + j) I V }
      else Some (I, V))"

text \<open>Division of a long interval into the keys below, at and above that of its middle.\<close>

definition count_keys :: "int list \<Rightarrow> int list \<Rightarrow> int \<Rightarrow> int \<Rightarrow> int \<Rightarrow> int \<Rightarrow> (int \<times> int) option" where
  "count_keys I V start len h x = loop (\<lambda>i (jj, kk). do {
     ii \<leftarrow> at I i;
     v \<leftarrow> at V (ii + h);
     Some (if v < x then jj + 1 else jj, if v = x then kk + 1 else kk) }) [start..start + len - 1] (0, 0)"

definition swap :: "int list \<Rightarrow> int \<Rightarrow> int \<Rightarrow> int list option" where
  "swap I a b = do { ia \<leftarrow> at I a; ib \<leftarrow> at I b; I \<leftarrow> put I a ib; put I b ia }"

partial_function (option) below_loop ::
    "int list \<Rightarrow> int \<Rightarrow> int \<Rightarrow> int \<Rightarrow> int \<Rightarrow> int list \<Rightarrow> int \<Rightarrow> int \<Rightarrow> int \<Rightarrow> (int list \<times> int \<times> int) option" where
  "below_loop V h x jj kk I i j k =
     (if i < jj then do {
        ii \<leftarrow> at I i;
        v \<leftarrow> at V (ii + h);
        if v < x then below_loop V h x jj kk I (i + 1) j k
        else if v = x then do {
          I \<leftarrow> swap I i (jj + j);
          below_loop V h x jj kk I i (j + 1) k }
        else do {
          I \<leftarrow> swap I i (kk + k);
          below_loop V h x jj kk I i j (k + 1) } }
      else Some (I, j, k))"

partial_function (option) middle_loop ::
    "int list \<Rightarrow> int \<Rightarrow> int \<Rightarrow> int \<Rightarrow> int \<Rightarrow> int list \<Rightarrow> int \<Rightarrow> int \<Rightarrow> int list option" where
  "middle_loop V h x jj kk I j k =
     (if jj + j < kk then do {
        ij \<leftarrow> at I (jj + j);
        v \<leftarrow> at V (ij + h);
        if v = x then middle_loop V h x jj kk I (j + 1) k
        else do {
          I \<leftarrow> swap I (jj + j) (kk + k);
          middle_loop V h x jj kk I j (k + 1) } }
      else Some I)"

partial_function (option) split :: "int list \<Rightarrow> int list \<Rightarrow> int \<Rightarrow> int \<Rightarrow> int \<Rightarrow> (int list \<times> int list) option" where
  "split I V start len h =
     (if len < 16 then select_loop (start + len) h start I V
      else do {
        im \<leftarrow> at I (start + len div 2);
        x \<leftarrow> at V (im + h);
        (jj, kk) \<leftarrow> count_keys I V start len h x;
        let jj = jj + start;
        let kk = kk + jj;
        (I, j, k) \<leftarrow> below_loop V h x jj kk I start 0 0;
        I \<leftarrow> middle_loop V h x jj kk I j k;
        (I, V) \<leftarrow> (if jj > start then split I V start (jj - start) h else Some (I, V));
        V \<leftarrow> number_group jj (kk - jj) (kk - 1) I V;
        I \<leftarrow> (if jj = kk - 1 then put I jj (-1) else Some I);
        if start + len > kk then split I V kk (start + len - kk) h else Some (I, V) })"

text \<open>One pass over the groups, and passes until one group is left.\<close>

partial_function (option) group_loop :: "int \<Rightarrow> int \<Rightarrow> int list \<Rightarrow> int list \<Rightarrow> int \<Rightarrow> int \<Rightarrow> (int list \<times> int list) option" where
  "group_loop oldsize h I V i len =
     (if i < oldsize + 1 then do {
        ii \<leftarrow> at I i;
        if ii < 0 then group_loop oldsize h I V (i - ii) (len - ii)
        else do {
          I \<leftarrow> (if len \<noteq> 0 then put I (i - len) (- len) else Some I);
          ii \<leftarrow> at I i;
          v \<leftarrow> at V ii;
          let len = v + 1 - i;
          (I, V) \<leftarrow> split I V i len h;
          group_loop oldsize h I V (i + len) 0 } }
      else do {
        I \<leftarrow> (if len \<noteq> 0 then put I (i - len) (- len) else Some I);
        Some (I, V) })"

partial_function (option) doubling_loop :: "int \<Rightarrow> int \<Rightarrow> int list \<Rightarrow> int list \<Rightarrow> (int list \<times> int list) option" where
  "doubling_loop oldsize h I V = do {
     i0 \<leftarrow> at I 0;
     if i0 \<noteq> - (oldsize + 1) then do {
       (I, V) \<leftarrow> group_loop oldsize h I V 0 0;
       doubling_loop oldsize (h + h) I V }
     else Some (I, V) }"

definition bucket_starts :: "bytes \<Rightarrow> int \<Rightarrow> int list option" where
  "bucket_starts old oldsize = do {
     b \<leftarrow> loop (\<lambda>i b. do { c \<leftarrow> at old i; n \<leftarrow> at b (uint c); put b (uint c) (n + 1) }) [0..oldsize - 1] (replicate 256 0);
     b \<leftarrow> loop (\<lambda>i b. do { n \<leftarrow> at b i; m \<leftarrow> at b (i - 1); put b i (n + m) }) [1..255] b;
     b \<leftarrow> loop (\<lambda>i b. do { m \<leftarrow> at b (i - 1); put b i m }) (rev [1..255]) b;
     put b 0 0 }"

definition qsufsort :: "int list \<Rightarrow> int list \<Rightarrow> bytes \<Rightarrow> int \<Rightarrow> int list option" where
  "qsufsort I V old oldsize = do {
     buckets \<leftarrow> bucket_starts old oldsize;
     (buckets, I) \<leftarrow> loop (\<lambda>i (b, I). do {
        c \<leftarrow> at old i;
        n \<leftarrow> at b (uint c);
        b \<leftarrow> put b (uint c) (n + 1);
        I \<leftarrow> put I (n + 1) i;
        Some (b, I) }) [0..oldsize - 1] (buckets, I);
     I \<leftarrow> put I 0 oldsize;
     V \<leftarrow> loop (\<lambda>i V. do { c \<leftarrow> at old i; n \<leftarrow> at buckets (uint c); put V i n }) [0..oldsize - 1] V;
     V \<leftarrow> put V oldsize 0;
     I \<leftarrow> loop (\<lambda>i I. do {
        n \<leftarrow> at buckets i;
        m \<leftarrow> at buckets (i - 1);
        if n = m + 1 then put I n (-1) else Some I }) [1..255] I;
     I \<leftarrow> put I 0 (-1);
     (I, V) \<leftarrow> doubling_loop oldsize 1 I V;
     loop (\<lambda>i I. do { v \<leftarrow> at V i; put I v i }) [0..oldsize] I }"

section \<open>Searching\<close>

function match_from :: "bytes \<Rightarrow> int \<Rightarrow> bytes \<Rightarrow> int \<Rightarrow> int \<Rightarrow> int option" where
  "match_from old oldsize new newsize i =
     (if i < oldsize \<and> i < newsize then do {
        a \<leftarrow> at old i;
        b \<leftarrow> at new i;
        if a \<noteq> b then Some i else match_from old oldsize new newsize (i + 1) }
      else Some i)"
  by pat_completeness auto
termination
  by (relation "measure (\<lambda>(old, oldsize, new, newsize, i). nat (newsize - i))") auto

declare match_from.simps [simp del]

definition matchlen :: "bytes \<Rightarrow> int \<Rightarrow> bytes \<Rightarrow> int \<Rightarrow> int option" where
  "matchlen old oldsize new newsize = match_from old oldsize new newsize 0"

text \<open>The result is the length of the match and the position \<open>*pos\<close>.\<close>

function search :: "int list \<Rightarrow> bytes \<Rightarrow> int \<Rightarrow> bytes \<Rightarrow> int \<Rightarrow> int \<Rightarrow> int \<Rightarrow> (int \<times> int) option" where
  "search I old oldsize new newsize st en =
     (if en - st < 2 then do {
        ist \<leftarrow> at I st;
        p \<leftarrow> pointer old ist;
        x \<leftarrow> matchlen p (oldsize - ist) new newsize;
        ien \<leftarrow> at I en;
        p \<leftarrow> pointer old ien;
        y \<leftarrow> matchlen p (oldsize - ien) new newsize;
        if x > y then Some (x, ist) else Some (y, ien) }
      else do {
        let x = st + (en - st) div 2;
        ix \<leftarrow> at I x;
        p \<leftarrow> pointer old ix;
        d \<leftarrow> memcmp p new (nat (min (oldsize - ix) newsize));
        if d < 0 then search I old oldsize new newsize x en
        else search I old oldsize new newsize st x })"
  by pat_completeness auto
termination
  by (relation "measure (\<lambda>(I, old, oldsize, new, newsize, st, en). nat (en - st))") auto

declare search.simps [simp del]

section \<open>bsdiff\<close>

text \<open>How many bytes of the match the previous offset would have given.\<close>

function score_loop :: "bytes \<Rightarrow> int \<Rightarrow> bytes \<Rightarrow> int \<Rightarrow> int \<Rightarrow> int \<Rightarrow> int \<Rightarrow> (int \<times> int) option" where
  "score_loop old oldsize new lastoffset bound scsc oldscore =
     (if scsc < bound then do {
        same \<leftarrow> (if scsc + lastoffset < oldsize then do {
                    a \<leftarrow> at old (scsc + lastoffset);
                    b \<leftarrow> at new scsc;
                    Some (a = b) }
                  else Some False);
        score_loop old oldsize new lastoffset bound (scsc + 1) (if same then oldscore + 1 else oldscore) }
      else Some (scsc, oldscore))"
  by pat_completeness auto
termination
  by (relation "measure (\<lambda>(old, oldsize, new, lastoffset, bound, scsc, oldscore). nat (bound - scsc))") auto

declare score_loop.simps [simp del]

text \<open>The result is \<open>scan\<close>, \<open>len\<close>, \<open>pos\<close> and \<open>oldscore\<close> where the loop has ended.\<close>

function scan_loop ::
    "int list \<Rightarrow> bytes \<Rightarrow> int \<Rightarrow> bytes \<Rightarrow> int \<Rightarrow> int \<Rightarrow> int \<Rightarrow> int \<Rightarrow> int \<Rightarrow> int \<Rightarrow> int option \<Rightarrow>
     (int \<times> int \<times> int option \<times> int) option" where
  "scan_loop I old oldsize new newsize lastoffset scan scsc oldscore len pos =
     (if scan < newsize then do {
        p \<leftarrow> pointer new scan;
        (len, pos) \<leftarrow> search I old oldsize p (newsize - scan) 0 oldsize;
        (scsc, oldscore) \<leftarrow> score_loop old oldsize new lastoffset (scan + len) scsc oldscore;
        if len = oldscore \<and> len \<noteq> 0 \<or> len > oldscore + 8 then Some (scan, len, Some pos, oldscore)
        else do {
          same \<leftarrow> (if scan + lastoffset < oldsize then do {
                      a \<leftarrow> at old (scan + lastoffset);
                      b \<leftarrow> at new scan;
                      Some (a = b) }
                    else Some False);
          scan_loop I old oldsize new newsize lastoffset (scan + 1) scsc
            (if same then oldscore - 1 else oldscore) len (Some pos) } }
      else Some (scan, len, pos, oldscore))"
  by pat_completeness auto
termination
  by (relation "measure (\<lambda>(I, old, oldsize, new, newsize, lastoffset, scan, r). nat (newsize - scan))") auto

declare scan_loop.simps [simp del]

text \<open>Extending the last match forwards, and the next one backwards.\<close>

function forward_loop :: "bytes \<Rightarrow> int \<Rightarrow> bytes \<Rightarrow> int \<Rightarrow> int \<Rightarrow> int \<Rightarrow> int \<Rightarrow> int \<Rightarrow> int \<Rightarrow> int \<Rightarrow> int option" where
  "forward_loop old oldsize new scan lastscan lastpos i s Sf lenf =
     (if lastscan + i < scan \<and> lastpos + i < oldsize then do {
        a \<leftarrow> at old (lastpos + i);
        b \<leftarrow> at new (lastscan + i);
        let s = (if a = b then s + 1 else s);
            i = i + 1 in
        if s * 2 - i > Sf * 2 - lenf then forward_loop old oldsize new scan lastscan lastpos i s s i
        else forward_loop old oldsize new scan lastscan lastpos i s Sf lenf }
      else Some lenf)"
  by pat_completeness auto
termination
  by (relation "measure (\<lambda>(old, oldsize, new, scan, lastscan, lastpos, i, r). nat (scan - (lastscan + i)))") auto

declare forward_loop.simps [simp del]

function backward_loop :: "bytes \<Rightarrow> bytes \<Rightarrow> int \<Rightarrow> int \<Rightarrow> int \<Rightarrow> int \<Rightarrow> int \<Rightarrow> int \<Rightarrow> int \<Rightarrow> int option" where
  "backward_loop old new scan lastscan pos i s Sb lenb =
     (if scan \<ge> lastscan + i \<and> pos \<ge> i then do {
        a \<leftarrow> at old (pos - i);
        b \<leftarrow> at new (scan - i);
        let s = (if a = b then s + 1 else s) in
        if s * 2 - i > Sb * 2 - lenb then backward_loop old new scan lastscan pos (i + 1) s s i
        else backward_loop old new scan lastscan pos (i + 1) s Sb lenb }
      else Some lenb)"
  by pat_completeness auto
termination
  by (relation "measure (\<lambda>(old, new, scan, lastscan, pos, i, r). nat (scan + 1 - (lastscan + i)))") auto

declare backward_loop.simps [simp del]

text \<open>Where to divide an overlap of the two extensions.\<close>

function overlap_loop ::
    "bytes \<Rightarrow> bytes \<Rightarrow> int \<Rightarrow> int \<Rightarrow> int \<Rightarrow> int \<Rightarrow> int \<Rightarrow> int \<Rightarrow> int \<Rightarrow> int \<Rightarrow> int \<Rightarrow> int \<Rightarrow> int \<Rightarrow> int option" where
  "overlap_loop old new overlap lastscan lastpos scan pos lenf lenb i s Ss lens =
     (if i < overlap then do {
        a \<leftarrow> at new (lastscan + lenf - overlap + i);
        b \<leftarrow> at old (lastpos + lenf - overlap + i);
        let s = (if a = b then s + 1 else s);
        a \<leftarrow> at new (scan - lenb + i);
        b \<leftarrow> at old (pos - lenb + i);
        let s = (if a = b then s - 1 else s);
        if s > Ss then overlap_loop old new overlap lastscan lastpos scan pos lenf lenb (i + 1) s s (i + 1)
        else overlap_loop old new overlap lastscan lastpos scan pos lenf lenb (i + 1) s Ss lens }
      else Some lens)"
  by pat_completeness auto
termination
  by (relation "measure (\<lambda>(old, new, overlap, lastscan, lastpos, scan, pos, lenf, lenb, i, r). nat (overlap - i))") auto

declare overlap_loop.simps [simp del]

text \<open>The variables of \<open>bsdiff\<close>; \<open>pos\<close> has no value before the first search.\<close>

record scanner =
  b_scan :: int
  b_len :: int
  b_pos :: "int option"
  b_lastscan :: int
  b_lastpos :: int
  b_lastoffset :: int
  b_ctrl :: bytes
  b_db :: bytes
  b_eb :: bytes

definition emit :: "bytes \<Rightarrow> int \<Rightarrow> bytes \<Rightarrow> int \<Rightarrow> scanner \<Rightarrow> scanner option" where
  "emit old oldsize new newsize b = do {
     let scan = b_scan b;
     pos \<leftarrow> b_pos b;
     lenf \<leftarrow> forward_loop old oldsize new scan (b_lastscan b) (b_lastpos b) 0 0 0 0;
     lenb \<leftarrow> (if scan < newsize then backward_loop old new scan (b_lastscan b) pos 1 0 0 0 else Some 0);
     (lenf, lenb) \<leftarrow>
       (if b_lastscan b + lenf > scan - lenb then do {
          let overlap = (b_lastscan b + lenf) - (scan - lenb);
          lens \<leftarrow> overlap_loop old new overlap (b_lastscan b) (b_lastpos b) scan pos lenf lenb 0 0 0 0;
          Some (lenf + lens - overlap, lenb - lens) }
        else Some (lenf, lenb));
     ns \<leftarrow> copied new (b_lastscan b) lenf;
     os \<leftarrow> copied old (b_lastpos b) lenf;
     let extra = (scan - lenb) - (b_lastscan b + lenf);
     es \<leftarrow> copied new (b_lastscan b + lenf) extra;
     if int (length (b_db b)) + lenf > newsize + 1 \<or> int (length (b_eb b)) + extra > newsize + 1 then None
     else Some (b\<lparr>b_db := b_db b @ map2 (-) ns os, b_eb := b_eb b @ es,
                  b_ctrl := b_ctrl b @ offtout lenf @ offtout extra @ offtout ((pos - lenb) - (b_lastpos b + lenf)),
                  b_lastscan := scan - lenb, b_lastpos := pos - lenb, b_lastoffset := pos - scan\<rparr>) }"

partial_function (option) diff_loop :: "int list \<Rightarrow> bytes \<Rightarrow> int \<Rightarrow> bytes \<Rightarrow> int \<Rightarrow> scanner \<Rightarrow> scanner option" where
  "diff_loop I old oldsize new newsize b =
     (if b_scan b < newsize then do {
        let scan = b_scan b + b_len b;
        (scan, len, pos, oldscore) \<leftarrow> scan_loop I old oldsize new newsize (b_lastoffset b) scan scan 0 (b_len b) (b_pos b);
        let b = b\<lparr>b_scan := scan, b_len := len, b_pos := pos\<rparr>;
        if len \<noteq> oldscore \<or> scan = newsize then do {
          b \<leftarrow> emit old oldsize new newsize b;
          diff_loop I old oldsize new newsize b }
        else diff_loop I old oldsize new newsize b }
      else Some b)"

text \<open>
  The patch and the suffix array, which the caller keeps for further calls; \<open>junk\<close> is what is in
  fresh memory.
\<close>

definition bsdiff :: "(bytes \<Rightarrow> bytes) \<Rightarrow> (nat \<Rightarrow> int) \<Rightarrow> bytes \<Rightarrow> int list option \<Rightarrow> bytes \<Rightarrow> (bytes \<times> int list) option" where
  "bsdiff bzip junk old IP new = do {
     let oldsize = int (length old);
     let newsize = int (length new);
     let fresh = map junk [0..<length old + 1];
     I \<leftarrow> (case IP of None \<Rightarrow> qsufsort fresh fresh old oldsize | Some I \<Rightarrow> Some I);
     b \<leftarrow> diff_loop I old oldsize new newsize
       \<lparr>b_scan = 0, b_len = 0, b_pos = None, b_lastscan = 0, b_lastpos = 0, b_lastoffset = 0, b_ctrl = [], b_db = [], b_eb = []\<rparr>;
     let c = bzip (b_ctrl b);
     let d = bzip (b_db b);
     let len = 32 + int (length c);
     let endpos = len + int (length d);
     let header = BSDIFF40 @ offtout (len - 32) @ offtout (endpos - len) @ offtout newsize;
     Some (header @ c @ d @ bzip (b_eb b), I) }"


declare select_loop.simps [code] below_loop.simps [code] middle_loop.simps [code] split.simps [code]
  group_loop.simps [code] doubling_loop.simps [code] diff_loop.simps [code]

section \<open>What the loops return\<close>

lemma at_Some: "0 \<le> i \<Longrightarrow> i < int (length xs) \<Longrightarrow> at xs i = Some (xs ! nat i)"
  by (simp add: at_def)

lemma pointer_Some: "0 \<le> i \<Longrightarrow> i \<le> int (length xs) \<Longrightarrow> pointer xs i = Some (drop (nat i) xs)"
  by (simp add: pointer_def)

lemma returns_at: "0 \<le> i \<Longrightarrow> i < int (length xs) \<Longrightarrow> P (xs ! nat i) \<Longrightarrow> returns (at xs i) P"
  by (simp add: at_Some returns_def)

lemma match_from_returns:
  "0 \<le> i \<Longrightarrow> i \<le> newsize \<Longrightarrow> oldsize \<le> int (length old) \<Longrightarrow> newsize \<le> int (length new) \<Longrightarrow>
    returns (match_from old oldsize new newsize i) (\<lambda>r. i \<le> r \<and> r \<le> newsize)"
proof (induction old oldsize new newsize i rule: match_from.induct)
  case (1 old oldsize new newsize i)
  show ?case
  proof (cases "i < oldsize \<and> i < newsize")
    case True
    have "returns (match_from old oldsize new newsize (i + 1)) (\<lambda>r. i + 1 \<le> r \<and> r \<le> newsize)"
      if "old ! nat i = new ! nat i"
      by (rule 1(1) [OF True]) (use True that 1(2-) in \<open>auto simp: at_Some\<close>)
    then show ?thesis using True 1(2-) by (subst match_from.simps) (auto simp: at_Some returns_def)
  qed (use 1(2-) in \<open>subst match_from.simps, auto simp: returns_def\<close>)
qed

definition usable :: "int list \<Rightarrow> bytes \<Rightarrow> bool" where
  "usable I old \<longleftrightarrow> length I = length old + 1 \<and> (\<forall>x \<in> set I. 0 \<le> x \<and> x \<le> int (length old))"

lemma usable_at: "usable I old \<Longrightarrow> 0 \<le> i \<Longrightarrow> i \<le> int (length old) \<Longrightarrow>
    \<exists>x. at I i = Some x \<and> 0 \<le> x \<and> x \<le> int (length old) \<and> pointer old x = Some (drop (nat x) old)"
  by (auto simp: usable_def at_def pointer_def)

lemma search_returns:
  "usable I old \<Longrightarrow> 0 \<le> st \<Longrightarrow> st \<le> en \<Longrightarrow> en \<le> int (length old) \<Longrightarrow>
    returns (search I old (int (length old)) new (int (length new)) st en)
      (\<lambda>(len, pos). 0 \<le> len \<and> len \<le> int (length new) \<and> 0 \<le> pos \<and> pos \<le> int (length old))"
proof (induction "nat (en - st)" arbitrary: st en rule: less_induct)
  case less
  show ?case
  proof (cases "en - st < 2")
    case True
    obtain ist ien where i: "at I st = Some ist" "0 \<le> ist" "ist \<le> int (length old)" "pointer old ist = Some (drop (nat ist) old)"
      "at I en = Some ien" "0 \<le> ien" "ien \<le> int (length old)" "pointer old ien = Some (drop (nat ien) old)"
      using usable_at [OF less(2), of st] usable_at [OF less(2), of en] less(3-) by fastforce
    have "returns (match_from (drop (nat x) old) (int (length old) - x) new (int (length new)) 0) (\<lambda>r. 0 \<le> r \<and> r \<le> int (length new))"
      if "0 \<le> x" "x \<le> int (length old)" for x
      using that by (intro match_from_returns) auto
    from this [OF i(2,3)] this [OF i(6,7)] show ?thesis
      using True i by (subst search.simps) (auto simp: matchlen_def returns_def)
  next
    case False
    define x where "x = st + (en - st) div 2"
    have x: "st < x" "x < en" using False by (auto simp: x_def)
    obtain ix where i: "at I x = Some ix" "0 \<le> ix" "ix \<le> int (length old)" "pointer old ix = Some (drop (nat ix) old)"
      using usable_at [OF less(2), of x] x less(3-) by fastforce
    obtain d where "memcmp (drop (nat ix) old) new (nat (min (int (length old) - ix) (int (length new)))) = Some d"
      using memcmp_in [of "nat (min (int (length old) - ix) (int (length new)))" "drop (nat ix) old" new] i
      by (fastforce simp: nat_le_iff of_nat_diff)
    then show ?thesis
      using False i x less(1) [of en x] less(1) [of x st] less(2-)
      by (subst search.simps) (auto simp: x_def [symmetric] Let_def)
  qed
qed

lemma score_loop_returns:
  "0 \<le> scsc \<Longrightarrow> 0 \<le> scsc + lastoffset \<Longrightarrow> bound \<le> int (length new) \<Longrightarrow>
    returns (score_loop old (int (length old)) new lastoffset bound scsc oldscore)
      (\<lambda>(scsc', oldscore'). scsc' = max scsc bound \<and> oldscore \<le> oldscore')"
proof (induction "nat (bound - scsc)" arbitrary: scsc oldscore rule: less_induct)
  case less
  show ?case
  proof (cases "scsc < bound")
    case True
    have "returns (score_loop old (int (length old)) new lastoffset bound (scsc + 1) os)
        (\<lambda>(scsc', oldscore'). scsc' = max scsc bound \<and> oldscore \<le> oldscore')" if "oldscore \<le> os" for os
      using less(1) [of "scsc + 1" os] that True less(2-) by (auto simp: returns_def max_def)
    then show ?thesis using True less(2-)
      by (subst score_loop.simps) (auto simp: at_Some)
  qed (simp add: score_loop.simps returns_def)
qed


lemma scan_loop_returns:
  assumes u: "usable I old"
  shows "0 \<le> scan \<Longrightarrow> 0 \<le> scsc \<Longrightarrow> 0 \<le> scsc + lastoffset \<Longrightarrow> scan \<le> int (length new) \<Longrightarrow> 0 \<le> scan + lastoffset \<Longrightarrow>
    (case pos of None \<Rightarrow> scan < int (length new) | Some p \<Rightarrow> 0 \<le> p \<and> p \<le> int (length old)) \<Longrightarrow>
    returns (scan_loop I old (int (length old)) new (int (length new)) lastoffset scan scsc oldscore len pos)
      (\<lambda>(scan', len', pos', oldscore'). scan \<le> scan' \<and> scan' \<le> int (length new) \<and>
         (\<exists>p. pos' = Some p \<and> 0 \<le> p \<and> p \<le> int (length old)) \<and>
         (scan' < int (length new) \<longrightarrow> 0 \<le> len' \<and> scan' + len' \<le> int (length new)) \<and>
         (scan' = scan \<and> scan < int (length new) \<and> 0 \<le> oldscore \<longrightarrow> 0 < len'))"
proof (induction "nat (int (length new) - scan)" arbitrary: scan scsc oldscore len pos rule: less_induct)
  case less
  show ?case
  proof (cases "scan < int (length new)")
    case False
    then show ?thesis using less(2-) by (subst scan_loop.simps) (auto simp: returns_def split: option.splits)
  next
    case True
    define p where "p = drop (nat scan) new"
    have p: "pointer new scan = Some p" "int (length p) = int (length new) - scan"
      using True less(2) by (simp_all add: p_def pointer_Some)
    obtain len1 pos1 where s: "search I old (int (length old)) p (int (length new) - scan) 0 (int (length old)) = Some (len1, pos1)"
      "0 \<le> len1" "len1 \<le> int (length new) - scan" "0 \<le> pos1" "pos1 \<le> int (length old)"
      using search_returns [OF u, of 0 "int (length old)" p] p(2) by (auto simp: returns_def)
    obtain scsc1 os1 where c: "score_loop old (int (length old)) new lastoffset (scan + len1) scsc oldscore = Some (scsc1, os1)"
      "scsc1 = max scsc (scan + len1)" "oldscore \<le> os1"
      using score_loop_returns [of scsc lastoffset "scan + len1" new old oldscore] less(2-5) s(3) by (auto simp: returns_def)
    show ?thesis
    proof (cases "len1 = os1 \<and> len1 \<noteq> 0 \<or> len1 > os1 + 8")
      case brk: True
      then show ?thesis using True less(2-) p s c
        by (subst scan_loop.simps) (auto simp: returns_def)
    next
      case go: False
      have rest: "returns (scan_loop I old (int (length old)) new (int (length new)) lastoffset (scan + 1) scsc1 os len1 (Some pos1))
        (\<lambda>(scan', len', pos', oldscore'). scan \<le> scan' \<and> scan' \<le> int (length new) \<and>
         (\<exists>p. pos' = Some p \<and> 0 \<le> p \<and> p \<le> int (length old)) \<and>
         (scan' < int (length new) \<longrightarrow> 0 \<le> len' \<and> scan' + len' \<le> int (length new)) \<and>
         (scan' = scan \<and> scan < int (length new) \<and> 0 \<le> oldscore \<longrightarrow> 0 < len'))" for os
        by (rule returns_mono [OF less(1) [of "scan + 1" scsc1 "Some pos1" os len1]]) (use True less(2-) s c in auto)
      show ?thesis
        using go rest True less(2-) p s c
        by (subst scan_loop.simps) (auto simp: at_Some)
    qed
  qed
qed

lemma forward_loop_returns:
  assumes old: "0 \<le> lastpos" "lastpos \<le> int (length old)" and new: "0 \<le> lastscan" "lastscan \<le> scan" "scan \<le> int (length new)"
  shows "0 \<le> i \<Longrightarrow> 0 \<le> lenf \<Longrightarrow> lastscan + lenf \<le> scan \<Longrightarrow> lastpos + lenf \<le> int (length old) \<Longrightarrow>
    returns (forward_loop old (int (length old)) new scan lastscan lastpos i s Sf lenf)
      (\<lambda>r. 0 \<le> r \<and> lastscan + r \<le> scan \<and> lastpos + r \<le> int (length old))"
proof (induction "nat (scan - (lastscan + i))" arbitrary: i s Sf lenf rule: less_induct)
  case less
  show ?case
  proof (cases "lastscan + i < scan \<and> lastpos + i < int (length old)")
    case True
    then have "returns (forward_loop old (int (length old)) new scan lastscan lastpos (i + 1) s' Sf' lenf')
        (\<lambda>r. 0 \<le> r \<and> lastscan + r \<le> scan \<and> lastpos + r \<le> int (length old))"
      if "lenf' = lenf \<or> lenf' = i + 1" for s' Sf' lenf'
      using that less(2-) by (intro less(1)) auto
    with True less(2) old new show ?thesis
      by (subst forward_loop.simps) (simp add: at_Some Let_def)
  qed (use less(3-) in \<open>subst forward_loop.simps, auto simp: returns_def\<close>)
qed

lemma backward_loop_returns:
  assumes old: "pos \<le> int (length old)" and new: "0 \<le> lastscan" "scan \<le> int (length new)"
  shows "1 \<le> i \<Longrightarrow> 0 \<le> lenb \<Longrightarrow> lastscan + lenb \<le> scan \<Longrightarrow> lenb \<le> pos \<Longrightarrow>
    returns (backward_loop old new scan lastscan pos i s Sb lenb) (\<lambda>r. 0 \<le> r \<and> lastscan + r \<le> scan \<and> r \<le> pos)"
proof (induction "nat (scan + 1 - (lastscan + i))" arbitrary: i s Sb lenb rule: less_induct)
  case less
  show ?case
  proof (cases "scan \<ge> lastscan + i \<and> pos \<ge> i")
    case True
    then have "returns (backward_loop old new scan lastscan pos (i + 1) s' Sb' lenb') (\<lambda>r. 0 \<le> r \<and> lastscan + r \<le> scan \<and> r \<le> pos)"
      if "lenb' = lenb \<or> lenb' = i" for s' Sb' lenb'
      using that less(2-) by (intro less(1)) auto
    with True less(2) old new show ?thesis
      by (subst backward_loop.simps) (simp add: at_Some Let_def)
  qed (use less(3-) in \<open>subst backward_loop.simps, auto simp: returns_def\<close>)
qed

lemma overlap_loop_returns:
  assumes "0 \<le> lastscan + lenf - overlap" "lastscan + lenf \<le> int (length new)"
    "0 \<le> lastpos + lenf - overlap" "lastpos + lenf \<le> int (length old)"
    "0 \<le> scan - lenb" "scan - lenb + overlap \<le> int (length new)" "0 \<le> pos - lenb" "pos - lenb + overlap \<le> int (length old)"
  shows "0 \<le> i \<Longrightarrow> 0 \<le> lens \<Longrightarrow> lens \<le> overlap \<Longrightarrow>
    returns (overlap_loop old new overlap lastscan lastpos scan pos lenf lenb i s Ss lens) (\<lambda>r. 0 \<le> r \<and> r \<le> overlap)"
proof (induction "nat (overlap - i)" arbitrary: i s Ss lens rule: less_induct)
  case less
  show ?case
  proof (cases "i < overlap")
    case True
    then have "returns (overlap_loop old new overlap lastscan lastpos scan pos lenf lenb (i + 1) s' Ss' lens') (\<lambda>r. 0 \<le> r \<and> r \<le> overlap)"
      if "lens' = lens \<or> lens' = i + 1" for s' Ss' lens'
      using that less(2-) by (intro less(1)) auto
    with True less(2) assms show ?thesis
      by (subst overlap_loop.simps) (simp add: at_Some Let_def)
  qed (use less(3-) in \<open>subst overlap_loop.simps, auto simp: returns_def\<close>)
qed

lemma copied_Some: "0 \<le> p \<Longrightarrow> 0 \<le> n \<Longrightarrow> p + n \<le> int (length xs) \<Longrightarrow> copied xs p n = Some (take (nat n) (drop (nat p) xs))"
  by (simp add: copied_def)

text \<open>The two extensions of the matches around \<open>scan\<close>, without the overlap.\<close>

definition divided :: "bytes \<Rightarrow> bytes \<Rightarrow> scanner \<Rightarrow> int \<Rightarrow> (int \<times> int) option" where
  "divided old new b pos = do {
     lenf \<leftarrow> forward_loop old (int (length old)) new (b_scan b) (b_lastscan b) (b_lastpos b) 0 0 0 0;
     lenb \<leftarrow> (if b_scan b < int (length new) then backward_loop old new (b_scan b) (b_lastscan b) pos 1 0 0 0 else Some 0);
     if b_lastscan b + lenf > b_scan b - lenb then do {
       let overlap = (b_lastscan b + lenf) - (b_scan b - lenb);
       lens \<leftarrow> overlap_loop old new overlap (b_lastscan b) (b_lastpos b) (b_scan b) pos lenf lenb 0 0 0 0;
       Some (lenf + lens - overlap, lenb - lens) }
     else Some (lenf, lenb) }"

lemma divided_returns:
  assumes "0 \<le> b_lastscan b" "b_lastscan b \<le> b_scan b" "b_scan b \<le> int (length new)"
    "0 \<le> b_lastpos b" "b_lastpos b \<le> int (length old)" "0 \<le> pos" "pos \<le> int (length old)"
  shows "returns (divided old new b pos) (\<lambda>(lenf, lenb). 0 \<le> lenf \<and> 0 \<le> lenb \<and> b_lastscan b + lenf \<le> b_scan b - lenb \<and>
    b_lastpos b + lenf \<le> int (length old) \<and> lenb \<le> pos \<and> (b_scan b = int (length new) \<longrightarrow> lenb = 0))"
proof -
  let ?scan = "b_scan b" and ?ls = "b_lastscan b" and ?lp = "b_lastpos b"
  obtain lenf where f: "forward_loop old (int (length old)) new ?scan ?ls ?lp 0 0 0 0 = Some lenf"
    "0 \<le> lenf" "?ls + lenf \<le> ?scan" "?lp + lenf \<le> int (length old)"
    using forward_loop_returns [OF assms(4,5,1-3), of 0 0 0 0] assms by (auto simp: returns_def)
  obtain lenb where b: "(if ?scan < int (length new) then backward_loop old new ?scan ?ls pos 1 0 0 0 else Some 0) = Some lenb"
    "0 \<le> lenb" "?ls + lenb \<le> ?scan" "lenb \<le> pos" "?scan = int (length new) \<longrightarrow> lenb = 0"
    using backward_loop_returns [OF assms(7,1,3), of 1 0 0 0] assms
    by (cases "?scan < int (length new)") (auto simp: returns_def)
  show ?thesis
  proof (cases "?ls + lenf > ?scan - lenb")
    case True
    define overlap where "overlap = (?ls + lenf) - (?scan - lenb)"
    have "returns (overlap_loop old new overlap ?ls ?lp ?scan pos lenf lenb 0 0 0 0) (\<lambda>r. 0 \<le> r \<and> r \<le> overlap)"
      by (rule overlap_loop_returns) (use True f b assms in \<open>simp_all add: overlap_def\<close>)
    with True f b show ?thesis by (auto simp: divided_def returns_def overlap_def [symmetric] Let_def) (auto simp: overlap_def)
  qed (use f b in \<open>auto simp: divided_def returns_def\<close>)
qed

text \<open>
  \<open>covers\<close>: the triples written so far describe the new file up to \<open>lastscan\<close>, and leave the
  position in the old file at \<open>lastpos\<close>.
\<close>

fun end_pos :: "int \<Rightarrow> (bytes \<times> bytes \<times> int) list \<Rightarrow> int" where
  "end_pos q [] = q"
| "end_pos q ((d, e, z) # ts) = end_pos (q + int (length d) + z) ts"

lemma apply_triples_append:
  "apply_triples old q (ts @ us) = apply_triples old q ts @ apply_triples old (end_pos q ts) us"
  by (induction old q ts rule: apply_triples.induct) simp_all

lemma positions_ok_append: "positions_ok q (ts @ us) \<longleftrightarrow> positions_ok q ts \<and> positions_ok (end_pos q ts) us"
  by (induction q ts rule: positions_ok.induct) auto

lemma end_pos_append: "end_pos q (ts @ us) = end_pos (end_pos q ts) us"
  by (induction q ts rule: end_pos.induct) auto

definition covers :: "bytes \<Rightarrow> bytes \<Rightarrow> scanner \<Rightarrow> (bytes \<times> bytes \<times> int) list \<Rightarrow> bool" where
  "covers old new b ts \<longleftrightarrow>
     b_ctrl b = concat (map control ts) \<and> b_db b = concat (map fst ts) \<and> b_eb b = concat (map (fst \<circ> snd) ts) \<and>
     apply_triples old 0 ts = take (nat (b_lastscan b)) new \<and> end_pos 0 ts = b_lastpos b \<and> positions_ok 0 ts \<and>
     int (length (b_db b)) + int (length (b_eb b)) = b_lastscan b"

definition placed :: "bytes \<Rightarrow> bytes \<Rightarrow> scanner \<Rightarrow> bool" where
  "placed old new b \<longleftrightarrow> 0 \<le> b_lastscan b \<and> b_lastscan b \<le> b_scan b \<and> b_scan b \<le> int (length new) \<and>
     0 \<le> b_lastpos b \<and> b_lastpos b \<le> int (length old) \<and> 0 \<le> b_lastoffset b + b_scan b"

lemma add_diff_undoes:
  "length ns = length os \<Longrightarrow> os = take (length os) (drop (nat q) old) \<Longrightarrow> 0 \<le> q \<Longrightarrow> q + int (length os) \<le> int (length old) \<Longrightarrow>
    add_diff old q (map2 (-) ns os) = ns"
proof (rule nth_equalityI)
  assume a: "length ns = length os" "os = take (length os) (drop (nat q) old)" "0 \<le> q" "q + int (length os) \<le> int (length old)"
  then show "length (add_diff old q (map2 (-) ns os)) = length ns" by simp
  fix i assume "i < length (add_diff old q (map2 (-) ns os))"
  then have i: "i < length os" using a(1) by simp
  then have "take (length os) (drop (nat q) old) ! i = old ! (nat q + i)" using a(3,4) by simp
  then have "os ! i = old ! (nat q + i)" using a(2) by metis
  then show "add_diff old q (map2 (-) ns os) ! i = ns ! i"
    using i a by (simp add: add_diff_def old_at_def nat_add_distrib)
qed

lemma emit_returns:
  assumes b: "placed old new b" "covers old new b ts" and pos: "b_pos b = Some pos" "0 \<le> pos" "pos \<le> int (length old)"
    and small: "length old < 2 ^ 31"
  shows "returns (emit old (int (length old)) new (int (length new)) b)
    (\<lambda>b'. placed old new b' \<and> (\<exists>ts'. covers old new b' ts') \<and> b_scan b' = b_scan b \<and> b_len b' = b_len b \<and> b_pos b' = b_pos b \<and>
       (b_scan b = int (length new) \<longrightarrow> b_lastscan b' = int (length new)))"
proof -
  let ?ls = "b_lastscan b" and ?lp = "b_lastpos b" and ?scan = "b_scan b"
  have bounds: "0 \<le> ?ls" "?ls \<le> ?scan" "?scan \<le> int (length new)" "0 \<le> ?lp" "?lp \<le> int (length old)"
    using b(1) by (simp_all add: placed_def)
  obtain lenf lenb where d: "divided old new b pos = Some (lenf, lenb)" "0 \<le> lenf" "0 \<le> lenb" "?ls + lenf \<le> ?scan - lenb"
    "?lp + lenf \<le> int (length old)" "lenb \<le> pos" "?scan = int (length new) \<longrightarrow> lenb = 0"
    using divided_returns [OF bounds pos(2,3)] by (auto simp: returns_def)
  define ns os es where "ns = take (nat lenf) (drop (nat ?ls) new)" and "os = take (nat lenf) (drop (nat ?lp) old)"
    and "es = take (nat (?scan - lenb - (?ls + lenf))) (drop (nat (?ls + lenf)) new)"
  have c: "copied new ?ls lenf = Some ns" "copied old ?lp lenf = Some os"
    "copied new (?ls + lenf) (?scan - lenb - (?ls + lenf)) = Some es"
    using bounds d(2-) by (simp_all add: copied_Some ns_def os_def es_def)
  have len: "int (length ns) = lenf" "int (length os) = lenf" "int (length es) = ?scan - lenb - (?ls + lenf)"
    using bounds d(2-) by (simp_all add: ns_def os_def es_def)
  define z where "z = (pos - lenb) - (?lp + lenf)"
  define b' where "b' = b\<lparr>b_db := b_db b @ map2 (-) ns os, b_eb := b_eb b @ es,
      b_ctrl := b_ctrl b @ control (map2 (-) ns os, es, z),
      b_lastscan := ?scan - lenb, b_lastpos := pos - lenb, b_lastoffset := pos - ?scan\<rparr>"
  have cov: "b_ctrl b = concat (map control ts)" "b_db b = concat (map fst ts)" "b_eb b = concat (map (fst \<circ> snd) ts)"
    "apply_triples old 0 ts = take (nat ?ls) new" "end_pos 0 ts = ?lp" "positions_ok 0 ts"
    "int (length (b_db b)) + int (length (b_eb b)) = ?ls"
    using b(2) unfolding covers_def by blast+
  have run: "emit old (int (length old)) new (int (length new)) b = Some b'"
    using d(1) c len cov(7) bounds d(2-)
    by (simp add: emit_def pos(1) divided_def [symmetric] Let_def b'_def control_def z_def bind_assoc [symmetric] del: Option.bind_assoc)
  have lens: "length ns = length os" using len by simp
  have "add_diff old ?lp (map2 (-) ns os) = ns"
    using lens bounds(4) d(2,5) len(2) by (intro add_diff_undoes) (auto simp: os_def)
  moreover have "take (nat ?ls) new @ ns @ es = take (nat (?scan - lenb)) new"
  proof -
    have "nat (?ls + lenf) = nat ?ls + nat lenf" "nat (?scan - lenb) = nat ?ls + nat lenf + nat (?scan - lenb - (?ls + lenf))"
      using bounds d(2-) by (simp_all add: nat_add_distrib [symmetric])
    moreover have "take (a + c + e) new = take a new @ take c (drop a new) @ take e (drop (a + c) new)" for a c e
      by (simp add: take_add)
    ultimately show ?thesis by (simp only: ns_def es_def)
  qed
  moreover have "positions_ok ?lp [(map2 (-) ns os, es, z)]"
    using bounds d(2-) len pos small by (simp add: in_off_t_def z_def)
  ultimately have "covers old new b' (ts @ [(map2 (-) ns os, es, z)])"
    using cov len by (simp add: covers_def b'_def apply_triples_append positions_ok_append end_pos_append z_def)
  moreover have "placed old new b'" using bounds d(2-) pos by (simp add: placed_def b'_def)
  ultimately show ?thesis
    using run d(7) by (auto simp: returns_def b'_def)
qed

lemma diff_loop_returns:
  assumes u: "usable I old" and small: "length old < 2 ^ 31"
  shows "placed old new b \<Longrightarrow> covers old new b ts \<Longrightarrow>
    (b_scan b = int (length new) \<longrightarrow> b_lastscan b = int (length new)) \<Longrightarrow>
    (b_scan b < int (length new) \<longrightarrow> 0 \<le> b_len b \<and> b_scan b + b_len b \<le> int (length new)) \<Longrightarrow>
    (case b_pos b of None \<Rightarrow> b_len b = 0 | Some p \<Rightarrow> 0 \<le> p \<and> p \<le> int (length old)) \<Longrightarrow>
    returns (diff_loop I old (int (length old)) new (int (length new)) b)
      (\<lambda>b'. \<exists>ts'. covers old new b' ts' \<and> b_lastscan b' = int (length new))"
proof (induction "if b_scan b < int (length new) then nat (int (length new) - (b_scan b + b_len b)) + 1 else 0"
    arbitrary: b ts rule: less_induct)
  case less
  let ?n = "int (length new)"
  show ?case
  proof (cases "b_scan b < ?n")
    case False
    then have "b_scan b = ?n" using less(2) by (simp add: placed_def)
    with less(3,4) show ?thesis by (subst diff_loop.simps) (auto simp: returns_def)
  next
    case True
    define scan where "scan = b_scan b + b_len b"
    have scan: "b_scan b \<le> scan" "scan \<le> ?n" "0 \<le> scan" "0 \<le> scan + b_lastoffset b"
      using True less(2,5) by (auto simp: scan_def placed_def)
    obtain scan' len' pos' os' p where l: "scan_loop I old (int (length old)) new ?n (b_lastoffset b) scan scan 0 (b_len b) (b_pos b)
        = Some (scan', len', pos', os')" "scan \<le> scan'" "scan' \<le> ?n" "pos' = Some p" "0 \<le> p" "p \<le> int (length old)"
      "scan' < ?n \<longrightarrow> 0 \<le> len' \<and> scan' + len' \<le> ?n" "scan' = scan \<and> scan < ?n \<longrightarrow> 0 < len'"
      using scan_loop_returns [OF u, where lastoffset = "b_lastoffset b" and pos = "b_pos b" and len = "b_len b" and oldscore = 0, of scan scan new] scan True less(5,6)
      by (fastforce simp: returns_def scan_def split: option.splits)
    define b1 where "b1 = b\<lparr>b_scan := scan', b_len := len', b_pos := pos'\<rparr>"
    have b1: "placed old new b1" "covers old new b1 ts"
      using less(2,3) l(2,3) scan by (auto simp: placed_def covers_def b1_def)
    have shrinks: "(if scan' < ?n then nat (?n - (scan' + len')) + 1 else 0) <
        (if b_scan b < ?n then nat (?n - (b_scan b + b_len b)) + 1 else 0)"
      using True l(2,3,7,8) scan(2) by (auto simp: scan_def)
    show ?thesis
    proof (cases "len' \<noteq> os' \<or> scan' = ?n")
      case False
      have "returns (diff_loop I old (int (length old)) new ?n b1) (\<lambda>b'. \<exists>ts'. covers old new b' ts' \<and> b_lastscan b' = ?n)"
        by (rule less(1) [OF _ b1]) (use shrinks False l in \<open>auto simp: b1_def\<close>)
      then show ?thesis using True False l(1) by (subst diff_loop.simps) (simp add: scan_def [symmetric] b1_def Let_def)
    next
      case em: True
      obtain b2 ts2 where e: "emit old (int (length old)) new ?n b1 = Some b2" "placed old new b2" "covers old new b2 ts2"
        "b_scan b2 = scan'" "b_len b2 = len'" "b_pos b2 = pos'" "scan' = ?n \<longrightarrow> b_lastscan b2 = ?n"
        using emit_returns [OF b1 _ l(5,6) small] l(4) by (auto simp: returns_def b1_def)
      have "returns (diff_loop I old (int (length old)) new ?n b2) (\<lambda>b'. \<exists>ts'. covers old new b' ts' \<and> b_lastscan b' = ?n)"
        by (rule less(1) [OF _ e(2,3)]) (use shrinks e l True in auto)
      then show ?thesis using True em l(1) e(1) by (subst diff_loop.simps) (simp add: scan_def [symmetric] b1_def [symmetric] Let_def)
    qed
  qed
qed

lemma bsdiff_triples:
  assumes "usable I old" and "length old < 2 ^ 31"
  shows "\<exists>ts c d. bsdiff bzip junk old (Some I) new =
      Some (BSDIFF40 @ offtout (int (length c)) @ offtout (int (length d)) @ offtout (int (length new)) @ c @ d @
        bzip (concat (map (fst \<circ> snd) ts)), I) \<and>
    c = bzip (concat (map control ts)) \<and> d = bzip (concat (map fst ts)) \<and>
    apply_triples old 0 ts = new \<and> positions_ok 0 ts"
proof -
  let ?b = "\<lparr>b_scan = 0, b_len = 0, b_pos = None, b_lastscan = 0, b_lastpos = 0, b_lastoffset = 0, b_ctrl = [], b_db = [], b_eb = []\<rparr>"
  have "placed old new ?b" "covers old new ?b []" by (simp_all add: placed_def covers_def)
  from diff_loop_returns [OF assms this] obtain b' ts where
    "diff_loop I old (int (length old)) new (int (length new)) ?b = Some b'" "covers old new b' ts" "b_lastscan b' = int (length new)"
    by (auto simp: returns_def)
  then show ?thesis by (auto simp: bsdiff_def covers_def Let_def)
qed

text \<open>
  C16: bsdiff always produces a patch, and applying it to the old data with
  \<open>ApplyBSDiffPatchMem\<close> gives the new data back, for any array of positions in place of the
  suffix array: a bad one costs only compression.
\<close>

theorem bsdiff_bspatch:
  assumes "usable I old" and "length old < 2 ^ 31" and "length new < 2 ^ 31"
    and "delivers (bz_step bz) content" and "\<And>x. content (bz_init bz (bzip x)) = x" and "\<And>n. malloc n"
  shows "\<exists>patch. bsdiff bzip junk old (Some I) new = Some (patch, I) \<and>
    (length patch < 2 ^ 31 \<longrightarrow>
      ApplyBSDiffPatchMem malloc bz old (of_nat (length old)) (pre @ patch) (length pre) = Some (Inr new))"
proof -
  obtain ts c d where t: "bsdiff bzip junk old (Some I) new =
      Some (BSDIFF40 @ offtout (int (length c)) @ offtout (int (length d)) @ offtout (int (length new)) @ c @ d @
        bzip (concat (map (fst \<circ> snd) ts)), I)"
    "c = bzip (concat (map control ts))" "d = bzip (concat (map fst ts))" "apply_triples old 0 ts = new" "positions_ok 0 ts"
    using bsdiff_triples [OF assms(1,2)] by blast
  show ?thesis
  proof (rule exI, intro conjI impI, rule t(1))
    let ?p = "BSDIFF40 @ offtout (int (length c)) @ offtout (int (length d)) @ offtout (int (length new)) @ c @ d @
        bzip (concat (map (fst \<circ> snd) ts))"
    assume "length ?p < 2 ^ 31"
    then show "ApplyBSDiffPatchMem malloc bz old (of_nat (length old)) (pre @ ?p) (length pre) = Some (Inr new)"
      using ApplyBSDiffPatchMem_triples [where c = c and d = d and ts = ts and pre = pre and malloc = malloc
          and e = "bzip (concat (map (fst \<circ> snd) ts))" and old = old and patch = "pre @ ?p", OF assms(4,6)] assms(2,3,5) t(4,5)
      by (simp add: t(2,3))
  qed
qed


lemma small_bsdiff:
  "map_option (\<lambda>r. length (fst r)) (bsdiff (\<lambda>x. x) (\<lambda>_. 9) [1, 2, 1] (Some [3, 2, 0, 1]) [1, 2, 2, 1]) = Some 60"
  by code_simp

theorem bsdiff_bspatch_witness:
  "\<exists>patch. bsdiff (\<lambda>x. x) (\<lambda>_. 9) [1, 2, 1] (Some [3, 2, 0, 1]) [1, 2, 2, 1] =
      Some (patch, [3, 2, 0, 1]) \<and>
    ApplyBSDiffPatchMem (\<lambda>_. True) stored_bz [1, 2, 1] 3 ([0] @ patch) 1 = Some (Inr [1, 2, 2, 1])"
  using bsdiff_bspatch [where old = "[1, 2, 1]" and I = "[3, 2, 0, 1]" and new = "[1, 2, 2, 1]" and bz = stored_bz
      and bzip = "\<lambda>x. x" and malloc = "\<lambda>_. True" and junk = "\<lambda>_. 9" and pre = "[0]", OF _ _ _ stored_bz_delivers]
    small_bsdiff by (auto simp: usable_def stored_bz_def)

end
