(* ===== verification/Imgpatch.thy ===== *)
theory Imgpatch
  imports Bspatch
begin

text \<open>
  Applying an image patch, \<open>applypatch/imgpatch.c\<close>: a sequence of chunks that are patched with
  \<open>bspatch\<close>, copied, or inflated, patched and deflated again.

  The output goes to a \<open>sink\<close> with its token and into a running hash, both parameters, as are the
  parts of \<open>zlib\<close>: \<open>inflate_raw src room\<close> is the one call of \<open>inflate\<close> (its status, and what it
  wrote), \<open>deflate_init\<close> starts a stream and \<open>deflate_step s room\<close> is one call of \<open>deflate\<close>.
  A pointer into the old data is a list of what is left behind it; a read behind its end, and a
  length that runs over the end of the patch, are undefined behaviour (\<open>None\<close>).
\<close>

section \<open>Parameters and errors\<close>

datatype img_error =
    ImgTooShort | ImgBadMagic | ShortRecord | ShortNormalHeader | ShortRawHeader | ShortRawData | RawWriteFailed
  | ShortDeflateHeader | ExpandedAllocFailed | InflateInitFailed | InflateFailed | InflateShort | ChunkPatchFailed
  | DeflateWriteFailed | UnknownChunkType

datatype inflate_status = InfInitFailed | InfStreamEnd | InfOther

record 'd zimg =
  inflate_raw :: "bytes \<Rightarrow> nat \<Rightarrow> inflate_status \<times> bytes"
  deflate_init :: "u32 list \<Rightarrow> bytes \<Rightarrow> 'd"
  deflate_step :: "'d \<Rightarrow> nat \<Rightarrow> bool \<times> bytes \<times> 'd"

definition CHUNK_NORMAL :: u32 where "CHUNK_NORMAL = 0"
definition CHUNK_DEFLATE :: u32 where "CHUNK_DEFLATE = 2"
definition CHUNK_RAW :: u32 where "CHUNK_RAW = 3"

definition IMGDIFF2 :: bytes where "IMGDIFF2 = [73, 77, 71, 68, 73, 70, 70, 50]"

type_synonym 't sink = "bytes \<Rightarrow> 't \<Rightarrow> (int \<times> 't) option"

text \<open>\<open>size_t x = Read8(...)\<close>: the upper half is cut off.\<close>

definition read_size :: "bytes \<Rightarrow> nat \<Rightarrow> u32 option" where
  "read_size b p = map_option (ucast :: u64 \<Rightarrow> u32) (Read8 b p)"

section \<open>The chunks\<close>

text \<open>
  A chunk ends with an error or with the position behind it, and with the token and the hash
  as far as they got.  The result of \<open>ApplyBSDiffPatch\<close> is not looked at.
\<close>

definition normal_chunk ::
    "(nat \<Rightarrow> bool) \<Rightarrow> ('s, 'z) bz_scheme \<Rightarrow> 't sink \<Rightarrow> (bytes \<Rightarrow> 'h \<Rightarrow> 'h) \<Rightarrow> bytes \<Rightarrow> bytes \<Rightarrow> u32 \<Rightarrow> 't \<Rightarrow> 'h \<Rightarrow>
     ((img_error + u32) \<times> 't \<times> 'h) option" where
  "normal_chunk malloc bz sink sha_update old_data patch pos token ctx =
     (let header = unat pos; pos = pos + 24 in
      if sint pos > sint (of_nat (length patch) :: u32) then Some (Inl ShortNormalHeader, token, ctx)
      else do {
        src_start \<leftarrow> read_size patch header;
        src_len \<leftarrow> read_size patch (header + 8);
        patch_offset \<leftarrow> read_size patch (header + 16);
        (_, token, ctx) \<leftarrow> ApplyBSDiffPatch malloc bz sink sha_update (drop (unat src_start) old_data) src_len
                             patch (unat patch_offset) token ctx;
        Some (Inr pos, token, ctx) })"

definition raw_chunk ::
    "'t sink \<Rightarrow> (bytes \<Rightarrow> 'h \<Rightarrow> 'h) \<Rightarrow> bytes \<Rightarrow> u32 \<Rightarrow> 't \<Rightarrow> 'h \<Rightarrow> ((img_error + u32) \<times> 't \<times> 'h) option" where
  "raw_chunk sink sha_update patch pos token ctx =
     (let header = unat pos; pos = pos + 4; size_of = (of_nat (length patch) :: u32) in
      if sint pos > sint size_of then Some (Inl ShortRawHeader, token, ctx)
      else do {
        data_len \<leftarrow> Read4 patch header;
        if sint (pos + data_len) > sint size_of then Some (Inl ShortRawData, token, ctx)
        else do {
          raw \<leftarrow> rd_slice patch (unat pos) (unat data_len);
          let ctx = sha_update raw ctx;
          (n, token) \<leftarrow> sink raw token;
          Some (if n \<noteq> sint data_len then Inl RawWriteFailed else Inr (pos + data_len), token, ctx) } })"

partial_function (option) deflate_loop ::
    "('d \<Rightarrow> nat \<Rightarrow> bool \<times> bytes \<times> 'd) \<Rightarrow> ('t sink) \<Rightarrow> (bytes \<Rightarrow> 'h \<Rightarrow> 'h) \<Rightarrow> nat \<Rightarrow> 'd \<Rightarrow> 't \<Rightarrow> 'h \<Rightarrow>
     (bool \<times> 't \<times> 'h) option" where
  "deflate_loop step sink sha_update temp_size strm token ctx =
     (let (stream_end, temp_data, strm) = step strm temp_size in do {
        (n, token) \<leftarrow> sink temp_data token;
        if n \<noteq> int (length temp_data) then Some (False, token, ctx)
        else if stream_end then Some (True, token, sha_update temp_data ctx)
        else deflate_loop step sink sha_update temp_size strm token (sha_update temp_data ctx) })"

declare deflate_loop.simps [code]

definition deflate_chunk ::
    "(nat \<Rightarrow> bool) \<Rightarrow> ('s, 'z) bz_scheme \<Rightarrow> ('d, 'y) zimg_scheme \<Rightarrow> 't sink \<Rightarrow> (bytes \<Rightarrow> 'h \<Rightarrow> 'h) \<Rightarrow> bytes \<Rightarrow> bytes \<Rightarrow>
     u32 \<Rightarrow> 't \<Rightarrow> 'h \<Rightarrow> ((img_error + u32) \<times> 't \<times> 'h) option" where
  "deflate_chunk malloc bz zl sink sha_update old_data patch pos token ctx =
     (let header = unat pos; pos = pos + 60 in
      if sint pos > sint (of_nat (length patch) :: u32) then Some (Inl ShortDeflateHeader, token, ctx)
      else do {
        src_start \<leftarrow> read_size patch header;
        src_len \<leftarrow> read_size patch (header + 8);
        patch_offset \<leftarrow> read_size patch (header + 16);
        expanded_len \<leftarrow> read_size patch (header + 24);
        target_len \<leftarrow> read_size patch (header + 32);
        level \<leftarrow> Read4 patch (header + 40);
        method \<leftarrow> Read4 patch (header + 44);
        windowBits \<leftarrow> Read4 patch (header + 48);
        memLevel \<leftarrow> Read4 patch (header + 52);
        strategy \<leftarrow> Read4 patch (header + 56);
        if \<not> malloc (unat expanded_len) then Some (Inl ExpandedAllocFailed, token, ctx)
        else do {
          src \<leftarrow> rd_slice old_data (unat src_start) (unat src_len);
          let (status, expanded_source) = inflate_raw zl src (unat expanded_len);
          if status = InfInitFailed then Some (Inl InflateInitFailed, token, ctx)
          else if status \<noteq> InfStreamEnd then Some (Inl InflateFailed, token, ctx)
          else if length expanded_source \<noteq> unat expanded_len then Some (Inl InflateShort, token, ctx)
          else do {
            r \<leftarrow> ApplyBSDiffPatchMem malloc bz expanded_source expanded_len patch (unat patch_offset);
            case r of
              Inl err \<Rightarrow> Some (Inl ChunkPatchFailed, token, ctx)
            | Inr uncompressed_target_data \<Rightarrow> do {
                let temp_size = (if sint expanded_len < 32768 then 32768 else unat expanded_len);
                (ok, token, ctx) \<leftarrow> deflate_loop (deflate_step zl) sink sha_update temp_size
                       (deflate_init zl [level, method, windowBits, memLevel, strategy] uncompressed_target_data)
                       token ctx;
                Some (if ok then Inr pos else Inl DeflateWriteFailed, token, ctx) } } } })"

section \<open>ApplyImagePatch\<close>

fun image_chunks ::
    "(nat \<Rightarrow> bool) \<Rightarrow> ('s, 'z) bz_scheme \<Rightarrow> ('d, 'y) zimg_scheme \<Rightarrow> 't sink \<Rightarrow> (bytes \<Rightarrow> 'h \<Rightarrow> 'h) \<Rightarrow> bytes \<Rightarrow> bytes \<Rightarrow>
     nat \<Rightarrow> u32 \<Rightarrow> 't \<Rightarrow> 'h \<Rightarrow> (img_error option \<times> 't \<times> 'h) option" where
  "image_chunks malloc bz zl sink sha_update old_data patch 0 pos token ctx = Some (None, token, ctx)"
| "image_chunks malloc bz zl sink sha_update old_data patch (Suc n) pos token ctx =
     (if sint (pos + 4) > sint (of_nat (length patch) :: u32) then Some (Some ShortRecord, token, ctx)
      else do {
        type_of \<leftarrow> Read4 patch (unat pos);
        let pos = pos + 4;
        (r, token, ctx) \<leftarrow>
          (if type_of = CHUNK_NORMAL then normal_chunk malloc bz sink sha_update old_data patch pos token ctx
           else if type_of = CHUNK_RAW then raw_chunk sink sha_update patch pos token ctx
           else if type_of = CHUNK_DEFLATE
           then deflate_chunk malloc bz zl sink sha_update old_data patch pos token ctx
           else Some (Inl UnknownChunkType, token, ctx));
        case r of
          Inl err \<Rightarrow> Some (Some err, token, ctx)
        | Inr pos \<Rightarrow> image_chunks malloc bz zl sink sha_update old_data patch n pos token ctx })"

text \<open>The result is \<open>None\<close> for the code's 0 and an error for its -1.\<close>

definition ApplyImagePatch ::
    "(nat \<Rightarrow> bool) \<Rightarrow> ('s, 'z) bz_scheme \<Rightarrow> ('d, 'y) zimg_scheme \<Rightarrow> 't sink \<Rightarrow> (bytes \<Rightarrow> 'h \<Rightarrow> 'h) \<Rightarrow> bytes \<Rightarrow> bytes \<Rightarrow>
     't \<Rightarrow> 'h \<Rightarrow> (img_error option \<times> 't \<times> 'h) option" where
  "ApplyImagePatch malloc bz zl sink sha_update old_data patch token ctx =
     (if length patch < 12 then Some (Some ImgTooShort, token, ctx)
      else do {
        magic \<leftarrow> memcmp patch IMGDIFF2 8;
        if magic \<noteq> 0 then Some (Some ImgBadMagic, token, ctx)
        else do {
          num_chunks \<leftarrow> Read4 patch 8;
          image_chunks malloc bz zl sink sha_update old_data patch (nat (sint num_chunks)) 12 token ctx } })"

section \<open>Sinks\<close>

text \<open>
  What the patching relies on in a sink: data for which there is room is taken as a whole and
  put behind what is there already.
\<close>

locale patch_sink =
  fixes sink :: "'t sink" and ok :: "'t \<Rightarrow> bool" and content :: "'t \<Rightarrow> bytes" and room :: "'t \<Rightarrow> nat"
  assumes sink_takes: "ok t \<Longrightarrow> length d \<le> room t \<Longrightarrow> length d < 2 ^ 31 \<Longrightarrow>
    \<exists>t'. sink d t = Some (int (length d), t') \<and> ok t' \<and> content t' = content t @ d \<and> room t' = room t - length d"

section \<open>The format\<close>

text \<open>The chunks of a patch, with the numbers in their headers, and how they are written.\<close>

datatype img_chunk =
    Normal u64 u64 u64
  | Raw bytes
  | Deflate u64 u64 u64 u64 u64 u32 u32 u32 u32 u32

fun encode_chunk :: "img_chunk \<Rightarrow> bytes" where
  "encode_chunk (Normal src_start src_len off) = Write4 CHUNK_NORMAL @ Write8 src_start @ Write8 src_len @ Write8 off"
| "encode_chunk (Raw d) = Write4 CHUNK_RAW @ Write4 (of_nat (length d)) @ d"
| "encode_chunk (Deflate src_start src_len off elen tlen level method_of windowBits memLevel strategy) =
     Write4 CHUNK_DEFLATE @ Write8 src_start @ Write8 src_len @ Write8 off @ Write8 elen @ Write8 tlen @
     Write4 level @ Write4 method_of @ Write4 windowBits @ Write4 memLevel @ Write4 strategy"

definition encode_image :: "img_chunk list \<Rightarrow> bytes" where
  "encode_image chunks = IMGDIFF2 @ Write4 (of_nat (length chunks)) @ concat (map encode_chunk chunks)"

text \<open>What a deflating stream writes until it ends.\<close>

inductive deflates :: "('d \<Rightarrow> nat \<Rightarrow> bool \<times> bytes \<times> 'd) \<Rightarrow> nat \<Rightarrow> 'd \<Rightarrow> bytes \<Rightarrow> bool" for step n where
  last: "step s n = (True, d, s') \<Longrightarrow> deflates step n s d"
| more: "step s n = (False, d, s') \<Longrightarrow> deflates step n s' out \<Longrightarrow> deflates step n s (d @ out)"

abbreviation size_t :: "u64 \<Rightarrow> u32" where "size_t w \<equiv> ucast w"

text \<open>The output a chunk stands for.\<close>

fun chunk_output ::
    "(nat \<Rightarrow> bool) \<Rightarrow> ('s, 'z) bz_scheme \<Rightarrow> ('d, 'y) zimg_scheme \<Rightarrow> bytes \<Rightarrow> bytes \<Rightarrow> img_chunk \<Rightarrow> bytes \<Rightarrow> bool" where
  "chunk_output malloc bz zl old_data patch (Normal src_start src_len off) out \<longleftrightarrow>
     ApplyBSDiffPatchMem malloc bz (drop (unat (size_t src_start)) old_data) (size_t src_len) patch (unat (size_t off)) = Some (Inr out)"
| "chunk_output malloc bz zl old_data patch (Raw d) out \<longleftrightarrow> out = d"
| "chunk_output malloc bz zl old_data patch (Deflate src_start src_len off elen tlen level method_of windowBits memLevel strategy) out \<longleftrightarrow>
     (\<exists>src expanded new. rd_slice old_data (unat (size_t src_start)) (unat (size_t src_len)) = Some src \<and> malloc (unat (size_t elen)) \<and>
        inflate_raw zl src (unat (size_t elen)) = (InfStreamEnd, expanded) \<and> length expanded = unat (size_t elen) \<and>
        ApplyBSDiffPatchMem malloc bz expanded (size_t elen) patch (unat (size_t off)) = Some (Inr new) \<and>
        deflates (deflate_step zl) (if sint (size_t elen) < 32768 then 32768 else unat (size_t elen))
          (deflate_init zl [level, method_of, windowBits, memLevel, strategy] new) out)"

lemma Read_drop:
  "drop p b = Write4 v @ post \<Longrightarrow> Read4 b p = Some v"
  "drop p b = Write8 x @ post \<Longrightarrow> Read8 b p = Some x"
proof -
  assume d: "drop p b = Write4 v @ post"
  then have "drop p b \<noteq> []" by (simp add: Write4_def)
  then have "length (take p b) = p" by simp
  from Read4_Write4 [OF this, of v post] show "Read4 b p = Some v" by (simp flip: d)
next
  assume d: "drop p b = Write8 x @ post"
  then have "drop p b \<noteq> []" by (simp add: Write8_def)
  then have "length (take p b) = p" by simp
  from Read8_Write8 [OF this, of x post] show "Read8 b p = Some x" by (simp flip: d)
qed

lemma drop_further: "drop p b = xs @ post \<Longrightarrow> length xs = n \<Longrightarrow> drop (p + n) b = post"
  by (metis add.commute append_eq_conv_conj drop_drop)

lemma read_size_drop: "drop p b = Write8 x @ post \<Longrightarrow> read_size b p = Some (size_t x)"
  by (simp add: read_size_def Read_drop(2))

lemma small_pos:
  assumes "p + n \<le> length b" and "length b < 2 ^ 31"
  shows "unat (of_nat p + of_nat n :: u32) = p + n" and "\<not> sint (of_nat p + of_nat n :: u32) > sint (of_nat (length b) :: u32)"
    and "unat (of_nat p :: u32) = p" and "of_nat p + of_nat n = (of_nat (p + n) :: u32)"
proof -
  have s: "unat (of_nat k :: u32) = k" "sint (of_nat k :: u32) = int k" if "k \<le> length b" for k
    using that assms(2) by (simp_all add: unat_of_nat_u32 sint_small)
  have e: "of_nat p + of_nat n = (of_nat (p + n) :: u32)" by simp
  show "unat (of_nat p + of_nat n :: u32) = p + n" unfolding e by (rule s(1) [OF assms(1)])
  show "\<not> sint (of_nat p + of_nat n :: u32) > sint (of_nat (length b) :: u32)" unfolding e s(2) [OF assms(1)] s(2) [OF le_refl] using assms(1) by simp
  show "unat (of_nat p :: u32) = p" using s assms(1) by simp
  show "of_nat p + of_nat n = (of_nat (p + n) :: u32)" by (rule e)
qed

lemma type_step:
  assumes "length patch < 2 ^ 31" and "drop p patch = Write4 kind @ rest"
  shows "drop (p + 4) patch = rest" and
    "image_chunks malloc bz zl sink sha_update old_data patch (Suc n) (of_nat p) t ctx = do {
        (r, token, ctx) \<leftarrow>
          (if kind = CHUNK_NORMAL then normal_chunk malloc bz sink sha_update old_data patch (of_nat (p + 4)) t ctx
           else if kind = CHUNK_RAW then raw_chunk sink sha_update patch (of_nat (p + 4)) t ctx
           else if kind = CHUNK_DEFLATE
           then deflate_chunk malloc bz zl sink sha_update old_data patch (of_nat (p + 4)) t ctx
           else Some (Inl UnknownChunkType, t, ctx));
        case r of
          Inl err \<Rightarrow> Some (Some err, token, ctx)
        | Inr pos \<Rightarrow> image_chunks malloc bz zl sink sha_update old_data patch n pos token ctx }"
proof -
  have "length (drop p patch) \<ge> 4" by (simp add: assms(2))
  then have "p + 4 \<le> length patch" by simp
  note pos = small_pos [OF this assms(1), simplified]
  show "drop (p + 4) patch = rest" using drop_further [OF assms(2)] by simp
  show "image_chunks malloc bz zl sink sha_update old_data patch (Suc n) (of_nat p) t ctx = do {
        (r, token, ctx) \<leftarrow>
          (if kind = CHUNK_NORMAL then normal_chunk malloc bz sink sha_update old_data patch (of_nat (p + 4)) t ctx
           else if kind = CHUNK_RAW then raw_chunk sink sha_update patch (of_nat (p + 4)) t ctx
           else if kind = CHUNK_DEFLATE
           then deflate_chunk malloc bz zl sink sha_update old_data patch (of_nat (p + 4)) t ctx
           else Some (Inl UnknownChunkType, t, ctx));
        case r of
          Inl err \<Rightarrow> Some (Some err, token, ctx)
        | Inr pos \<Rightarrow> image_chunks malloc bz zl sink sha_update old_data patch n pos token ctx }"
    using pos Read_drop(1) [OF assms(2)] by (simp add: Let_def)
qed

section \<open>Chunks into a sink\<close>

context patch_sink
begin

lemma deflate_loop_output:
  assumes "deflates step n s out" and "\<And>a b h. sha_update (a @ b) h = sha_update b (sha_update a h)"
    and "ok t" and "length out \<le> room t" and "length out < 2 ^ 31"
  shows "\<exists>t'. deflate_loop step sink sha_update n s t ctx = Some (True, t', sha_update out ctx) \<and>
    ok t' \<and> content t' = content t @ out \<and> room t' = room t - length out"
  using assms
proof (induction arbitrary: t ctx rule: deflates.induct)
  case (last s d s')
  then show ?case using sink_takes [of t d] by (auto simp: deflate_loop.simps [of step])
next
  case (more s d s' out)
  then obtain t1 where t1: "sink d t = Some (int (length d), t1)" "ok t1" "content t1 = content t @ d" "room t1 = room t - length d"
    using sink_takes [of t d] by auto
  with more.IH [of t1 "sha_update d ctx"] more show ?case by (auto simp: deflate_loop.simps [of step sink sha_update n s])
qed

lemma normal_chunk_output:
  assumes "ok t" and "length patch < 2 ^ 31" and "drop p patch = Write8 a @ Write8 b @ Write8 c @ post"
    and "chunk_output malloc bz zl old_data patch (Normal a b c) out" and "length out \<le> room t" and "length out < 2 ^ 31"
  shows "\<exists>t'. normal_chunk malloc bz sink sha_update old_data patch (of_nat p) t ctx =
      Some (Inr (of_nat (p + 24)), t', sha_update out ctx) \<and>
    ok t' \<and> content t' = content t @ out \<and> room t' = room t - length out"
proof -
  obtain t1 where t1: "sink out t = Some (int (length out), t1)" "ok t1" "content t1 = content t @ out" "room t1 = room t - length out"
    using sink_takes [OF assms(1,5,6)] by blast
  have "length (drop p patch) \<ge> 24" by (simp add: assms(3))
  then have "p + 24 \<le> length patch" by simp
  note pos = small_pos [OF this assms(2), simplified]
  have d: "drop (p + 8) patch = Write8 b @ Write8 c @ post" using drop_further [OF assms(3)] by simp
  have e: "drop (p + 16) patch = Write8 c @ post" using drop_further [OF d, of 8] by (simp add: add.assoc)
  note r = read_size_drop [OF assms(3)] read_size_drop [OF d] read_size_drop [OF e]
  show ?thesis using t1 assms(4) pos r by (simp add: normal_chunk_def ApplyBSDiffPatch_def Let_def)
qed

lemma raw_chunk_output:
  assumes "ok t" and "length patch < 2 ^ 31" and "drop p patch = Write4 (of_nat (length d)) @ d @ post"
    and "length d \<le> room t"
  shows "\<exists>t'. raw_chunk sink sha_update patch (of_nat p) t ctx = Some (Inr (of_nat (p + 4 + length d)), t', sha_update d ctx) \<and>
    ok t' \<and> content t' = content t @ d \<and> room t' = room t - length d"
proof -
  have "length (drop p patch) \<ge> 4 + length d" by (simp add: assms(3))
  then have l: "p + 4 \<le> length patch" "(p + 4) + length d \<le> length patch" "length d < 2 ^ 31" using assms(2) by simp_all
  obtain t1 where t1: "sink d t = Some (int (length d), t1)" "ok t1" "content t1 = content t @ d" "room t1 = room t - length d"
    using sink_takes [OF assms(1,4) l(3)] by blast
  note pos = small_pos [OF l(1) assms(2), simplified] small_pos [OF l(2) assms(2), simplified]
  have e: "drop (p + 4) patch = d @ post" using drop_further [OF assms(3)] by simp
  have s: "rd_slice patch (p + 4) (length d) = Some d" using l(2) e by (simp add: rd_slice_def)
  have sz: "sint (of_nat (length d) :: u32) = int (length d)" "unat (of_nat (length d) :: u32) = length d"
    using l(3) by (simp_all add: sint_small unat_of_nat_u32)
  show ?thesis using t1 pos s sz Read_drop(1) [OF assms(3)]
    by (simp add: raw_chunk_def Let_def add.assoc)
qed

lemma deflate_chunk_output:
  assumes "ok t" and "length patch < 2 ^ 31" and "\<And>a b h. sha_update (a @ b) h = sha_update b (sha_update a h)"
    and "Write4 CHUNK_DEFLATE @ drop p patch = encode_chunk (Deflate a b c d e l m wb ml st) @ post"
    and "chunk_output malloc bz zl old_data patch (Deflate a b c d e l m wb ml st) out"
    and "length out \<le> room t" and "length out < 2 ^ 31"
  shows "\<exists>t'. deflate_chunk malloc bz zl sink sha_update old_data patch (of_nat p) t ctx =
      Some (Inr (of_nat (p + 60)), t', sha_update out ctx) \<and>
    ok t' \<and> content t' = content t @ out \<and> room t' = room t - length out"
proof -
  have d0: "drop p patch = Write8 a @ Write8 b @ Write8 c @ Write8 d @ Write8 e @ Write4 l @ Write4 m @ Write4 wb @ Write4 ml @ Write4 st @ post"
    using assms(4) by simp
  have "length (drop p patch) \<ge> 60" by (simp add: d0)
  then have "p + 60 \<le> length patch" by simp
  note pos = small_pos [OF this assms(2), simplified]
  have k: "drop (p + k) patch = drop k (drop p patch)" for k by (simp add: add.commute)
  have d1: "drop (p + 8) patch = Write8 b @ Write8 c @ Write8 d @ Write8 e @ Write4 l @ Write4 m @ Write4 wb @ Write4 ml @ Write4 st @ post" by (simp add: k d0)
  have d2: "drop (p + 16) patch = Write8 c @ Write8 d @ Write8 e @ Write4 l @ Write4 m @ Write4 wb @ Write4 ml @ Write4 st @ post" by (simp add: k d0)
  have d3: "drop (p + 24) patch = Write8 d @ Write8 e @ Write4 l @ Write4 m @ Write4 wb @ Write4 ml @ Write4 st @ post" by (simp add: k d0)
  have d4: "drop (p + 32) patch = Write8 e @ Write4 l @ Write4 m @ Write4 wb @ Write4 ml @ Write4 st @ post" by (simp add: k d0)
  have d5: "drop (p + 40) patch = Write4 l @ Write4 m @ Write4 wb @ Write4 ml @ Write4 st @ post" by (simp add: k d0)
  have d6: "drop (p + 44) patch = Write4 m @ Write4 wb @ Write4 ml @ Write4 st @ post" by (simp add: k d0)
  have d7: "drop (p + 48) patch = Write4 wb @ Write4 ml @ Write4 st @ post" by (simp add: k d0)
  have d8: "drop (p + 52) patch = Write4 ml @ Write4 st @ post" by (simp add: k d0)
  have d9: "drop (p + 56) patch = Write4 st @ post" by (simp add: k d0)
  note r = read_size_drop [OF d0] read_size_drop [OF d1] read_size_drop [OF d2] read_size_drop [OF d3] read_size_drop [OF d4]
    Read_drop(1) [OF d5] Read_drop(1) [OF d6] Read_drop(1) [OF d7] Read_drop(1) [OF d8] Read_drop(1) [OF d9]
  obtain src expanded new where x: "rd_slice old_data (unat (size_t a)) (unat (size_t b)) = Some src" "malloc (unat (size_t d))"
    "inflate_raw zl src (unat (size_t d)) = (InfStreamEnd, expanded)" "length expanded = unat (size_t d)"
    "ApplyBSDiffPatchMem malloc bz expanded (size_t d) patch (unat (size_t c)) = Some (Inr new)"
    "deflates (deflate_step zl) (if sint (size_t d) < 32768 then 32768 else unat (size_t d))
          (deflate_init zl [l, m, wb, ml, st] new) out"
    using assms(5) by auto
  obtain t1 where t1: "deflate_loop (deflate_step zl) sink sha_update (if sint (size_t d) < 32768 then 32768 else unat (size_t d))
          (deflate_init zl [l, m, wb, ml, st] new) t ctx = Some (True, t1, sha_update out ctx)"
    "ok t1" "content t1 = content t @ out" "room t1 = room t - length out"
    using deflate_loop_output [OF x(6) assms(3,1,6,7)] by blast
  show ?thesis using t1 pos r x(1-5) by (simp add: deflate_chunk_def Let_def)
qed

lemma chunk_step:
  assumes "ok t" and "length patch < 2 ^ 31" and "\<And>a b h. sha_update (a @ b) h = sha_update b (sha_update a h)"
    and "drop p patch = encode_chunk c @ post" and "chunk_output malloc bz zl old_data patch c out"
    and "length out \<le> room t" and "length out < 2 ^ 31"
  shows "\<exists>t'. image_chunks malloc bz zl sink sha_update old_data patch (Suc n) (of_nat p) t ctx =
      image_chunks malloc bz zl sink sha_update old_data patch n (of_nat (p + length (encode_chunk c))) t' (sha_update out ctx) \<and>
    ok t' \<and> content t' = content t @ out \<and> room t' = room t - length out"
proof -
  have types: "CHUNK_RAW \<noteq> CHUNK_NORMAL" "CHUNK_DEFLATE \<noteq> CHUNK_NORMAL" "CHUNK_DEFLATE \<noteq> CHUNK_RAW"
    by (simp_all add: CHUNK_NORMAL_def CHUNK_RAW_def CHUNK_DEFLATE_def)
  show ?thesis
  proof (cases c)
    case (Normal x1 x2 x3)
    have d: "drop p patch = Write4 CHUNK_NORMAL @ Write8 x1 @ Write8 x2 @ Write8 x3 @ post" using Normal assms(4) by simp
    note s = type_step [OF assms(2) d]
    obtain t1 where "normal_chunk malloc bz sink sha_update old_data patch (of_nat (p + 4)) t ctx =
        Some (Inr (of_nat (p + 4 + 24)), t1, sha_update out ctx)" and
      "ok t1 \<and> content t1 = content t @ out \<and> room t1 = room t - length out"
      using normal_chunk_output [where sha_update = sha_update and ctx = ctx, OF assms(1,2) s(1) assms(5) [unfolded Normal] assms(6,7)] by blast
    moreover have "p + 4 + 24 = p + length (encode_chunk c)" using Normal by simp
    ultimately show ?thesis unfolding s(2) by (intro exI [of _ t1]) (simp del: of_nat_add image_chunks.simps)
  next
    case (Raw x1)
    have d: "drop p patch = Write4 CHUNK_RAW @ Write4 (of_nat (length x1)) @ x1 @ post" using Raw assms(4) by simp
    note s = type_step [OF assms(2) d]
    have out: "x1 = out" using Raw assms(5) by simp
    obtain t1 where "raw_chunk sink sha_update patch (of_nat (p + 4)) t ctx =
        Some (Inr (of_nat (p + 4 + 4 + length out)), t1, sha_update out ctx)" and
      "ok t1 \<and> content t1 = content t @ out \<and> room t1 = room t - length out"
      using raw_chunk_output [where sha_update = sha_update and ctx = ctx, OF assms(1,2) s(1) [unfolded out] assms(6)] by blast
    moreover have "length (encode_chunk c) = 4 + 4 + length out" using Raw out by simp
    ultimately show ?thesis unfolding s(2) by (intro exI [of _ t1]) (simp add: types out ac_simps del: of_nat_add image_chunks.simps)
  next
    case (Deflate x1 x2 x3 x4 x5 x6 x7 x8 x9 x10)
    obtain body where d: "drop p patch = Write4 CHUNK_DEFLATE @ body"
      and b: "Write4 CHUNK_DEFLATE @ body = encode_chunk (Deflate x1 x2 x3 x4 x5 x6 x7 x8 x9 x10) @ post"
      using Deflate assms(4) by simp
    note s = type_step [OF assms(2) d]
    obtain t1 where "deflate_chunk malloc bz zl sink sha_update old_data patch (of_nat (p + 4)) t ctx =
        Some (Inr (of_nat (p + 4 + 60)), t1, sha_update out ctx)" and
      "ok t1 \<and> content t1 = content t @ out \<and> room t1 = room t - length out"
      using deflate_chunk_output [where sha_update = sha_update and ctx = ctx, OF assms(1,2,3) b [folded s(1)] assms(5) [unfolded Deflate] assms(6,7)] by blast
    moreover have "p + 4 + 60 = p + length (encode_chunk c)" using Deflate by simp
    ultimately show ?thesis unfolding s(2) by (intro exI [of _ t1]) (simp add: types del: of_nat_add image_chunks.simps)
  qed
qed

lemma image_chunks_output:
  assumes "list_all2 (chunk_output malloc bz zl old_data patch) chunks outs" and "length patch < 2 ^ 31"
    and "\<And>a b h. sha_update (a @ b) h = sha_update b (sha_update a h)" and "\<And>h. sha_update [] h = h"
    and "drop p patch = concat (map encode_chunk chunks) @ post"
    and "ok t" and "length (concat outs) \<le> room t" and "length (concat outs) < 2 ^ 31"
  shows "\<exists>t'. image_chunks malloc bz zl sink sha_update old_data patch (length chunks) (of_nat p) t ctx =
      Some (None, t', sha_update (concat outs) ctx) \<and> ok t' \<and> content t' = content t @ concat outs"
  using assms(1,5-8)
proof (induction arbitrary: p t ctx rule: list_all2_induct)
  case Nil
  then show ?case by (simp add: assms(4))
next
  case (Cons c chunks out outs)
  have d: "drop p patch = encode_chunk c @ concat (map encode_chunk chunks) @ post" using Cons.prems(1) by simp
  obtain t1 where t1: "image_chunks malloc bz zl sink sha_update old_data patch (Suc (length chunks)) (of_nat p) t ctx =
      image_chunks malloc bz zl sink sha_update old_data patch (length chunks) (of_nat (p + length (encode_chunk c))) t1 (sha_update out ctx)"
    "ok t1" "content t1 = content t @ out" "room t1 = room t - length out"
    using chunk_step [OF Cons.prems(2) assms(2,3) d Cons.hyps(1)] Cons.prems(3,4) by (metis (no_types, lifting) add_lessD1 add_leD1 concat.simps(2) length_append)
  have "drop (p + length (encode_chunk c)) patch = concat (map encode_chunk chunks) @ post" by (rule drop_further [OF d refl])
  from Cons.IH [OF this t1(2), of "sha_update out ctx"] t1 Cons.prems(3,4)
  show ?case by (auto simp: assms(3))
qed

lemma ApplyImagePatch_output:
  assumes "patch = encode_image chunks @ post" and "length patch < 2 ^ 31" and "length chunks < 2 ^ 31"
    and "list_all2 (chunk_output malloc bz zl old_data patch) chunks outs"
    and "\<And>a b h. sha_update (a @ b) h = sha_update b (sha_update a h)" and "\<And>h. sha_update [] h = h"
    and "ok t" and "length (concat outs) \<le> room t" and "length (concat outs) < 2 ^ 31"
  shows "\<exists>t'. ApplyImagePatch malloc bz zl sink sha_update old_data patch t ctx =
      Some (None, t', sha_update (concat outs) ctx) \<and> ok t' \<and> content t' = content t @ concat outs"
proof -
  have p: "patch = IMGDIFF2 @ Write4 (of_nat (length chunks)) @ concat (map encode_chunk chunks) @ post"
    using assms(1) by (simp add: encode_image_def)
  have d8: "drop 8 patch = Write4 (of_nat (length chunks)) @ concat (map encode_chunk chunks) @ post"
    by (simp add: p IMGDIFF2_def)
  have d12: "drop 12 patch = concat (map encode_chunk chunks) @ post" using drop_further [OF d8, of 4] by simp
  have "12 \<le> length patch" by (simp add: p IMGDIFF2_def)
  moreover have "memcmp patch IMGDIFF2 8 = Some 0" by (simp add: p IMGDIFF2_def numeral_eq_Suc)
  moreover have "nat (sint (of_nat (length chunks) :: u32)) = length chunks"
    using assms(3) by (simp add: sint_small unat_of_nat_u32)
  ultimately show ?thesis
    using image_chunks_output [OF assms(4,2,5,6) d12 assms(7,8,9)] Read_drop(1) [OF d8]
    by (simp add: ApplyImagePatch_def)
qed

end

section \<open>A failed chunk\<close>

text \<open>
  A failure inside a chunk of the normal kind goes unnoticed: when the patch of its only
  chunk is corrupt, \<open>ApplyImagePatch\<close> succeeds with no output at all.
\<close>

theorem failed_chunk_ignored:
  assumes "patch = encode_image [Normal a b c] @ post" and "length patch < 2 ^ 31"
    and "ApplyBSDiffPatchMem malloc bz (drop (unat (size_t a)) old_data) (size_t b) patch (unat (size_t c)) = Some (Inl err)"
  shows "ApplyImagePatch malloc bz zl sink sha_update old_data patch t ctx = Some (None, t, ctx)"
proof -
  have p: "patch = IMGDIFF2 @ Write4 1 @ encode_chunk (Normal a b c) @ post"
    using assms(1) by (simp add: encode_image_def)
  have d8: "drop 8 patch = Write4 1 @ encode_chunk (Normal a b c) @ post" by (simp add: p IMGDIFF2_def)
  have d12: "drop 12 patch = Write4 CHUNK_NORMAL @ Write8 a @ Write8 b @ Write8 c @ post" using drop_further [OF d8, of 4] by simp
  note s = type_step [OF assms(2) d12]
  have d24: "drop 24 patch = Write8 b @ Write8 c @ post" and d32: "drop 32 patch = Write8 c @ post"
    using drop_further [OF s(1), of 8] drop_further [OF drop_further [OF s(1)], of 8 8] by simp_all
  have l: "36 + 4 \<le> length patch" "8 \<le> length patch" by (simp_all add: p IMGDIFF2_def)
  note r = read_size_drop [OF s(1) [simplified]] read_size_drop [OF d24] read_size_drop [OF d32]
  have n: "normal_chunk malloc bz sink sha_update old_data patch 16 t ctx = Some (Inr 40, t, ctx)"
    using small_pos [OF l(1) assms(2), simplified] r assms(3)
    by (simp add: normal_chunk_def ApplyBSDiffPatch_def Let_def)
  have "image_chunks malloc bz zl sink sha_update old_data patch 1 12 t ctx = Some (None, t, ctx)"
    using s(2) [of malloc bz zl sink sha_update old_data 0 t ctx] n by simp
  moreover have "memcmp patch IMGDIFF2 8 = Some 0" by (simp add: p IMGDIFF2_def numeral_eq_Suc)
  ultimately show ?thesis using l Read_drop(1) [OF d8] by (simp add: ApplyImagePatch_def)
qed

theorem failed_chunk_ignored_witness:
  "ApplyImagePatch (\<lambda>_. False) stored_bz \<lparr>inflate_raw = \<lambda>_ _. (InfOther, []), deflate_init = \<lambda>_ _. (), deflate_step = \<lambda>s _. (True, [], s)\<rparr>
     (\<lambda>d t. Some (int (length d), t @ d)) (\<lambda>d h. h) [1, 2, 3] (encode_image [Normal 0 3 0]) [] () = Some (None, [], ())"
proof (rule failed_chunk_ignored [where a = 0 and b = 3 and c = 0 and post = "[]" and err = BadMagic])
  show "length (encode_image [Normal 0 3 0]) < 2 ^ 31" by (simp add: encode_image_def IMGDIFF2_def)
  show "ApplyBSDiffPatchMem (\<lambda>_. False) stored_bz (drop (unat (size_t 0)) [1, 2, 3]) (size_t 3)
      (encode_image [Normal 0 3 0]) (unat (size_t 0)) = Some (Inl BadMagic)"
    by code_simp
qed simp

end
