(* ===== verification/Files.thy ===== *)
theory Files
  imports Edify
begin

text \<open>
  The world the update programs act on: a file system, and what its environment decides.

  A file system maps paths (without terminators) to files.  Every system call takes one step of
  \<open>clock\<close>; an environment \<open>env\<close> says at which moments calls are granted, how many bytes a read or
  write transfers, how much space \<open>statfs\<close> reports, what directories list, and which links
  \<open>/proc\<close> shows.  \<open>history\<close> holds the file systems of the past, latest first: a state in
  which the machine may have lost power.  \<open>mtd\<close> is the state of the flash partitions, kept by the
  functions of \<open>mtdutils\<close>, and \<open>scanned\<close> the static flag of \<open>applypatch.c\<close>.
\<close>

section \<open>Files and the environment\<close>

record inode =
  f_data :: bytes
  f_regular :: bool
  f_mode :: u32
  f_uid :: u32
  f_gid :: u32

type_synonym files = "bytes \<Rightarrow> inode option"

record 'm world =
  fs :: files
  clock :: nat
  history :: "files list"
  scanned :: bool
  mtd :: 'm

record env =
  granted :: "nat \<Rightarrow> bool"
  amount :: "nat \<Rightarrow> nat"
  space :: "nat \<Rightarrow> bytes \<Rightarrow> u32"
  listing :: "nat \<Rightarrow> bytes \<Rightarrow> bytes list option"
  link_of :: "nat \<Rightarrow> bytes \<Rightarrow> bytes option"

definition step_clock :: "'m world \<Rightarrow> 'm world" where
  "step_clock w = w\<lparr>clock := clock w + 1\<rparr>"

definition change :: "files \<Rightarrow> 'm world \<Rightarrow> 'm world" where
  "change new w = w\<lparr>fs := new, clock := clock w + 1, history := new # history w\<rparr>"

section \<open>System calls\<close>

definition sys_stat :: "env \<Rightarrow> bytes \<Rightarrow> 'm world \<Rightarrow> inode option \<times> 'm world" where
  "sys_stat env path w = (if granted env (clock w) then fs w path else None, step_clock w)"

definition sys_open :: "env \<Rightarrow> bytes \<Rightarrow> 'm world \<Rightarrow> inode option \<times> 'm world" where
  "sys_open = sys_stat"

text \<open>Reading \<open>n\<close> bytes from an offset into the contents of an open file.\<close>

definition sys_read :: "env \<Rightarrow> bytes \<Rightarrow> nat \<Rightarrow> nat \<Rightarrow> 'm world \<Rightarrow> bytes \<times> 'm world" where
  "sys_read env content pos n w = (take (min n (amount env (clock w))) (drop pos content), step_clock w)"

text \<open>
  \<open>open\<close> with \<open>O_CREAT | O_TRUNC\<close> (or \<open>fopen\<close> with \<open>wb\<close>): a new file has whatever mode the
  environment gives it; a device keeps its contents.
\<close>

definition sys_create :: "env \<Rightarrow> bytes \<Rightarrow> 'm world \<Rightarrow> bool \<times> 'm world" where
  "sys_create env path w =
     (if \<not> granted env (clock w) then (False, step_clock w)
      else case fs w path of
        None \<Rightarrow> (True, change ((fs w)(path \<mapsto> \<lparr>f_data = [], f_regular = True,
                    f_mode = of_nat (amount env (clock w)), f_uid = 0, f_gid = 0\<rparr>)) w)
      | Some f \<Rightarrow> (True, if f_regular f then change ((fs w)(path \<mapsto> f\<lparr>f_data := []\<rparr>)) w else step_clock w))"

text \<open>Writing behind the first \<open>pos\<close> bytes: the result is the number of bytes taken, or -1.\<close>

definition sys_write :: "env \<Rightarrow> bytes \<Rightarrow> nat \<Rightarrow> bytes \<Rightarrow> 'm world \<Rightarrow> int \<times> 'm world" where
  "sys_write env path pos buf w =
     (let k = min (length buf) (amount env (clock w)) in
      if \<not> granted env (clock w) then (-1, step_clock w)
      else case fs w path of
        None \<Rightarrow> (int k, step_clock w)
      | Some f \<Rightarrow> (int k, change ((fs w)(path \<mapsto>
            f\<lparr>f_data := take pos (f_data f) @ take k buf @ drop (pos + k) (f_data f)\<rparr>)) w))"

definition sys_unlink :: "env \<Rightarrow> bytes \<Rightarrow> 'm world \<Rightarrow> 'm world" where
  "sys_unlink env path w =
     (if granted env (clock w) then change ((fs w)(path := None)) w else step_clock w)"

definition sys_update :: "env \<Rightarrow> bytes \<Rightarrow> (inode \<Rightarrow> inode) \<Rightarrow> 'm world \<Rightarrow> int \<times> 'm world" where
  "sys_update env path upd w =
     (case fs w path of
        Some f \<Rightarrow> if granted env (clock w) then (0, change ((fs w)(path \<mapsto> upd f)) w) else (-1, step_clock w)
      | None \<Rightarrow> (-1, step_clock w))"

definition sys_chmod :: "env \<Rightarrow> bytes \<Rightarrow> u32 \<Rightarrow> 'm world \<Rightarrow> int \<times> 'm world" where
  "sys_chmod env path mode = sys_update env path (\<lambda>f. f\<lparr>f_mode := mode\<rparr>)"

definition sys_chown :: "env \<Rightarrow> bytes \<Rightarrow> u32 \<Rightarrow> u32 \<Rightarrow> 'm world \<Rightarrow> int \<times> 'm world" where
  "sys_chown env path uid gid = sys_update env path (\<lambda>f. f\<lparr>f_uid := uid, f_gid := gid\<rparr>)"

definition sys_rename :: "env \<Rightarrow> bytes \<Rightarrow> bytes \<Rightarrow> 'm world \<Rightarrow> int \<times> 'm world" where
  "sys_rename env old new w =
     (case fs w old of
        Some f \<Rightarrow> if granted env (clock w) then (0, change ((fs w)(old := None, new \<mapsto> f)) w) else (-1, step_clock w)
      | None \<Rightarrow> (-1, step_clock w))"

definition sys_statfs :: "env \<Rightarrow> bytes \<Rightarrow> 'm world \<Rightarrow> u32 option \<times> 'm world" where
  "sys_statfs env path w =
     (if granted env (clock w) then Some (space env (clock w) path) else None, step_clock w)"

definition sys_readdir :: "env \<Rightarrow> bytes \<Rightarrow> 'm world \<Rightarrow> bytes list option \<times> 'm world" where
  "sys_readdir env path w = (listing env (clock w) path, step_clock w)"

definition sys_readlink :: "env \<Rightarrow> bytes \<Rightarrow> 'm world \<Rightarrow> bytes option \<times> 'm world" where
  "sys_readlink env path w = (link_of env (clock w) path, step_clock w)"

section \<open>Digests\<close>

text \<open>SHA-1 of \<open>mincrypt\<close>, a parameter of the functions that use it.\<close>

record 'h sha =
  sha_init :: 'h
  sha_update :: "bytes \<Rightarrow> 'h \<Rightarrow> 'h"
  sha_final :: "'h \<Rightarrow> bytes"

definition SHA :: "('h, 'z) sha_scheme \<Rightarrow> bytes \<Rightarrow> bytes" where
  "SHA sha buf = sha_final sha (sha_update sha buf (sha_init sha))"

text \<open>A digest that does not depend on the portions the data come in, and an example of one.\<close>

definition incremental :: "('h, 'z) sha_scheme \<Rightarrow> bool" where
  "incremental sha \<longleftrightarrow> (\<forall>a b h. sha_update sha (a @ b) h = sha_update sha b (sha_update sha a h)) \<and>
     (\<forall>h. sha_update sha [] h = h)"

definition generous_env :: env where
  "generous_env = \<lparr>granted = \<lambda>_. True, amount = \<lambda>_. 2 ^ 32, space = \<lambda>_ _. 0, listing = \<lambda>_ _. None, link_of = \<lambda>_ _. None\<rparr>"

definition toy_sha :: "bytes sha" where
  "toy_sha = \<lparr>sha_init = [], sha_update = \<lambda>d h. h @ d, sha_final = \<lambda>h. take 20 (h @ replicate 20 0)\<rparr>"

lemma incremental_toy_sha: "incremental toy_sha"
  by (simp add: incremental_def toy_sha_def)

section \<open>What stays the same\<close>

text \<open>
  \<open>extends P w w'\<close>: \<open>w'\<close> has been reached from \<open>w\<close> through file systems that all satisfy \<open>P\<close>.
\<close>

definition extends :: "(files \<Rightarrow> bool) \<Rightarrow> 'm world \<Rightarrow> 'm world \<Rightarrow> bool" where
  "extends P w w' \<longleftrightarrow> (\<exists>new. history w' = new @ history w \<and> list_all P new) \<and>
     (fs w' = fs w \<or> P (fs w')) \<and> clock w \<le> clock w'"

lemma step_clock_simps [simp]:
  "fs (step_clock w) = fs w" "history (step_clock w) = history w" "scanned (step_clock w) = scanned w"
  "mtd (step_clock w) = mtd w" "clock (step_clock w) = Suc (clock w)"
  by (simp_all add: step_clock_def)

lemma change_simps [simp]:
  "fs (change new w) = new" "history (change new w) = new # history w" "scanned (change new w) = scanned w"
  "mtd (change new w) = mtd w" "clock (change new w) = Suc (clock w)"
  by (simp_all add: change_def)

lemma extends_refl [simp, intro]: "extends P w w"
  by (simp add: extends_def)

lemma extends_step_clock [simp]: "extends P w w' \<Longrightarrow> extends P w (step_clock w')"
  by (simp add: extends_def)

lemma extends_change [intro]: "extends P w w' \<Longrightarrow> P new \<Longrightarrow> extends P w (change new w')"
  by (auto simp: extends_def)

lemma extends_trans [trans]: "extends P w w1 \<Longrightarrow> extends P w1 w2 \<Longrightarrow> extends P w w2"
  by (auto simp: extends_def)

lemma extends_mono: "extends P w w' \<Longrightarrow> (\<And>x. P x \<Longrightarrow> Q x) \<Longrightarrow> extends Q w w'"
  by (auto simp: extends_def list_all_iff)

lemma extendsD: "extends P w w' \<Longrightarrow> list_all P (history w) \<Longrightarrow> list_all P (history w')"
  by (auto simp: extends_def)

text \<open>Calls that only look leave the file system alone.\<close>

lemma looking_simps [simp]:
  "fs (snd (sys_stat env path w)) = fs w" "fs (snd (sys_read env content pos n w)) = fs w"
  "fs (snd (sys_statfs env path w)) = fs w" "fs (snd (sys_readdir env path w)) = fs w"
  "fs (snd (sys_readlink env path w)) = fs w" "fs (snd (sys_open env path w)) = fs w"
  by (simp_all add: sys_stat_def sys_read_def sys_statfs_def sys_readdir_def sys_readlink_def sys_open_def)

lemma looking_extends [simp]:
  "extends P w w' \<Longrightarrow> extends P w (snd (sys_stat env path w'))"
  "extends P w w' \<Longrightarrow> extends P w (snd (sys_read env content pos n w'))"
  "extends P w w' \<Longrightarrow> extends P w (snd (sys_statfs env path w'))"
  "extends P w w' \<Longrightarrow> extends P w (snd (sys_readdir env path w'))"
  "extends P w w' \<Longrightarrow> extends P w (snd (sys_readlink env path w'))"
  "extends P w w' \<Longrightarrow> extends P w (snd (sys_open env path w'))"
  by (simp_all add: sys_stat_def sys_read_def sys_statfs_def sys_readdir_def sys_readlink_def sys_open_def)

text \<open>
  A call that changes one path keeps a property of the file systems if the property does not
  look at that path: it \<open>touches\<close> only that path.
\<close>

definition ignores :: "bytes \<Rightarrow> (files \<Rightarrow> bool) \<Rightarrow> bool" where
  "ignores path P \<longleftrightarrow> (\<forall>f v. P (f(path := v)) = P f)"

lemma ignoresD: "ignores path P \<Longrightarrow> P (f(path := v)) = P f"
  by (simp add: ignores_def)

definition touches :: "bytes \<Rightarrow> 'm world \<Rightarrow> 'm world \<Rightarrow> bool" where
  "touches path w w' \<longleftrightarrow> clock w \<le> clock w' \<and>
     (\<forall>P. ignores path P \<longrightarrow> P (fs w) \<longrightarrow> extends P w w' \<and> P (fs w'))"

lemma touchesD: "touches path w w' \<Longrightarrow> ignores path P \<Longrightarrow> P (fs w) \<Longrightarrow> extends P w w' \<and> P (fs w')"
  unfolding touches_def by blast

lemma touches_other: "touches path w w' \<Longrightarrow> p \<noteq> path \<Longrightarrow> fs w' p = fs w p"
  using touchesD [of path w w' "\<lambda>f. f p = fs w p"] by (simp add: ignores_def)

lemma touches_refl [simp, intro]: "touches path w w"
  by (simp add: touches_def)

lemma touches_trans [trans]: "touches path w w1 \<Longrightarrow> touches path w1 w2 \<Longrightarrow> touches path w w2"
  unfolding touches_def by (meson extends_trans le_trans)

lemma touches_call [simp, intro]:
  "touches path w (step_clock w)"
  "touches path w (change ((fs w)(path := v)) w)"
  by (auto simp: touches_def extends_def ignores_def)

lemma touches_calls [simp, intro]:
  "touches path w (snd (sys_create env path w))"
  "touches path w (snd (sys_write env path pos buf w))"
  "touches path w (sys_unlink env path w)"
  "touches path w (snd (sys_update env path upd w))"
  "touches path w (snd (sys_chmod env path mode w))"
  "touches path w (snd (sys_chown env path uid gid w))"
  by (auto simp: sys_create_def sys_write_def sys_unlink_def sys_update_def sys_chmod_def sys_chown_def Let_def
      split: option.splits)

text \<open>\<open>same w w'\<close>: nothing but time has passed between \<open>w\<close> and \<open>w'\<close>.\<close>

definition same :: "'m world \<Rightarrow> 'm world \<Rightarrow> bool" where
  "same w w' \<longleftrightarrow> fs w' = fs w \<and> history w' = history w \<and> clock w \<le> clock w'"

lemma same_refl [simp, intro]: "same w w"
  by (simp add: same_def)

lemma same_trans [trans]: "same w w1 \<Longrightarrow> same w1 w2 \<Longrightarrow> same w w2"
  by (simp add: same_def)

lemma same_step_clock [simp, intro]: "same w (step_clock w)"
  by (simp add: same_def)

lemma same_extends: "same w w' \<Longrightarrow> extends P w w'"
  by (simp add: same_def extends_def)

lemma same_calls:
  "sys_stat env path w = (st, w1) \<Longrightarrow> same w w1"
  "sys_open env path w = (st, w1) \<Longrightarrow> same w w1"
  "sys_read env content pos n w = (buf, w1) \<Longrightarrow> same w w1"
  by (auto simp: sys_stat_def sys_open_def sys_read_def)

end
