(* ===== verification/Freecache.thy ===== *)
theory Freecache
  imports Files
begin

text \<open>
  Making room on \<open>/cache\<close>, \<open>applypatch/freecache.c\<close>, with \<open>FreeSpaceForFile\<close> and
  \<open>CacheSizeCheck\<close> of \<open>applypatch/applypatch.c\<close>.  Paths are shorter than the buffers
  (\<open>FILENAME_MAX\<close>) they are put together in; \<open>strcmp(a, b) == 0\<close> is equality of strings.
\<close>

section \<open>The operations\<close>

definition CACHE_TEMP_SOURCE :: bytes where
  "CACHE_TEMP_SOURCE = str ''/cache/saved.file''"

text \<open>The result is a \<open>size_t\<close>, so the -1 of an error is the largest number.\<close>

definition FreeSpaceForFile :: "env \<Rightarrow> bytes \<Rightarrow> 'm world \<Rightarrow> u32 \<times> 'm world" where
  "FreeSpaceForFile env filename w =
     (case sys_statfs env filename w of (None, w) \<Rightarrow> (-1, w) | (Some n, w) \<Rightarrow> (n, w))"

text \<open>The names are pointers; a name that is in use is freed and set to \<open>NULL\<close>.\<close>

definition strike :: "bytes \<Rightarrow> bytes option list \<Rightarrow> bytes option list" where
  "strike link = map (\<lambda>f. case f of None \<Rightarrow> None | Some p \<Rightarrow> if p = link then None else Some p)"

fun fd_loop :: "env \<Rightarrow> bytes \<Rightarrow> bytes list \<Rightarrow> bytes option list \<Rightarrow> 'm world \<Rightarrow> bytes option list \<times> 'm world" where
  "fd_loop env path [] names w = (names, w)"
| "fd_loop env path (fd # fds) names w =
     (case sys_readlink env (path @ fd) w of
        (None, w) \<Rightarrow> fd_loop env path fds names w
      | (Some link, w) \<Rightarrow>
          fd_loop env path fds (if take 7 link = str ''/cache/'' then strike link names else names) w)"

fun proc_loop :: "env \<Rightarrow> bytes list \<Rightarrow> bytes option list \<Rightarrow> 'm world \<Rightarrow> bytes option list \<times> 'm world" where
  "proc_loop env [] names w = (names, w)"
| "proc_loop env (d_name # ds) names w =
     (if \<not> list_all isdigit d_name then proc_loop env ds names w
      else
        let path = str ''/proc/'' @ d_name @ str ''/fd/'' in
        case sys_readdir env path w of
          (None, w) \<Rightarrow> proc_loop env ds names w
        | (Some fds, w) \<Rightarrow> (let (names, w) = fd_loop env path fds names w in proc_loop env ds names w))"

definition EliminateOpenFiles :: "env \<Rightarrow> bytes option list \<Rightarrow> 'm world \<Rightarrow> (int \<times> bytes option list) \<times> 'm world" where
  "EliminateOpenFiles env names w =
     (case sys_readdir env (str ''/proc'') w of
        (None, w) \<Rightarrow> ((-1, names), w)
      | (Some ds, w) \<Rightarrow> (let (names, w) = proc_loop env ds names w in ((0, names), w)))"

definition cache_dirs :: "bytes list" where
  "cache_dirs = [str ''/cache'', str ''/cache/recovery/otatest'']"

fun entry_loop :: "env \<Rightarrow> bytes \<Rightarrow> bytes list \<Rightarrow> bytes option list \<Rightarrow> 'm world \<Rightarrow> bytes option list \<times> 'm world" where
  "entry_loop env dir [] names w = (names, w)"
| "entry_loop env dir (d_name # ds) names w =
     (let path = dir @ str ''/'' @ d_name in
      if path = CACHE_TEMP_SOURCE then entry_loop env dir ds names w
      else case sys_stat env path w of
        (Some st, w) \<Rightarrow> entry_loop env dir ds (if f_regular st then names @ [Some path] else names) w
      | (None, w) \<Rightarrow> entry_loop env dir ds names w)"

fun dir_loop :: "env \<Rightarrow> bytes list \<Rightarrow> bytes option list \<Rightarrow> 'm world \<Rightarrow> bytes option list \<times> 'm world" where
  "dir_loop env [] names w = (names, w)"
| "dir_loop env (dir # dirs) names w =
     (case sys_readdir env dir w of
        (None, w) \<Rightarrow> dir_loop env dirs names w
      | (Some ds, w) \<Rightarrow> (let (names, w) = entry_loop env dir ds names w in dir_loop env dirs names w))"

definition FindExpendableFiles :: "env \<Rightarrow> 'm world \<Rightarrow> (int \<times> bytes option list) \<times> 'm world" where
  "FindExpendableFiles env w =
     (let (names, w) = dir_loop env cache_dirs [] w;
          ((rc, names), w) = EliminateOpenFiles env names w in
      ((if rc < 0 then -1 else 0, names), w))"

fun delete_loop :: "env \<Rightarrow> u32 \<Rightarrow> bytes option list \<Rightarrow> u32 \<Rightarrow> 'm world \<Rightarrow> u32 \<times> 'm world" where
  "delete_loop env bytes_needed [] free_now w = (free_now, w)"
| "delete_loop env bytes_needed (name # names) free_now w =
     (if \<not> free_now < bytes_needed then (free_now, w)
      else case name of
        None \<Rightarrow> delete_loop env bytes_needed names free_now w
      | Some path \<Rightarrow>
          (let w = sys_unlink env path w;
               (free_now, w) = FreeSpaceForFile env (str ''/cache'') w in
           delete_loop env bytes_needed names free_now w))"

definition MakeFreeSpaceOnCache :: "env \<Rightarrow> u32 \<Rightarrow> 'm world \<Rightarrow> int \<times> 'm world" where
  "MakeFreeSpaceOnCache env bytes_needed w =
     (let (free_now, w) = FreeSpaceForFile env (str ''/cache'') w in
      if free_now \<ge> bytes_needed then (0, w)
      else
        let ((rc, names), w) = FindExpendableFiles env w in
        if rc < 0 then (-1, w)
        else if length names = 0 then (-1, w)
        else
          let (free_now, w) = delete_loop env bytes_needed names free_now w in
          (if free_now \<ge> bytes_needed then 0 else -1, w))"

definition CacheSizeCheck :: "env \<Rightarrow> u32 \<Rightarrow> 'm world \<Rightarrow> int \<times> 'm world" where
  "CacheSizeCheck env bytes_needed w =
     (let (rc, w) = MakeFreeSpaceOnCache env bytes_needed w in (if rc < 0 then 1 else 0, w))"

section \<open>What may be deleted\<close>

text \<open>
  A file is expendable when it is a regular file of one of the two directories, other than the
  saved source, that no process has open as far as \<open>/proc\<close> can be read.  Directory
  listings and links do not change while the program runs (\<open>steady\<close>).
\<close>

definition steady :: "env \<Rightarrow> bool" where
  "steady env \<longleftrightarrow> (\<forall>t. listing env t = listing env 0 \<and> link_of env t = link_of env 0)"

definition opened :: "env \<Rightarrow> bytes \<Rightarrow> bool" where
  "opened env p \<longleftrightarrow> (\<exists>pids pid fds fd.
     listing env 0 (str ''/proc'') = Some pids \<and> pid \<in> set pids \<and> list_all isdigit pid \<and>
     listing env 0 (str ''/proc/'' @ pid @ str ''/fd/'') = Some fds \<and> fd \<in> set fds \<and>
     link_of env 0 (str ''/proc/'' @ pid @ str ''/fd/'' @ fd) = Some p)"

definition in_cache :: "bytes \<Rightarrow> bool" where
  "in_cache p \<longleftrightarrow> p \<noteq> CACHE_TEMP_SOURCE \<and> (\<exists>dir \<in> set cache_dirs. \<exists>n. p = dir @ str ''/'' @ n)"

definition expendable :: "env \<Rightarrow> files \<Rightarrow> bytes \<Rightarrow> bool" where
  "expendable env f p \<longleftrightarrow> in_cache p \<and> (\<exists>i. f p = Some i \<and> f_regular i) \<and> \<not> opened env p"

lemma cache_path: "in_cache p \<Longrightarrow> take 7 p = str ''/cache/''"
  by (auto simp: in_cache_def cache_dirs_def str_def)

lemma fd_loop_spec:
  assumes "steady env"
  shows "fs (snd (fd_loop env path fds names w)) = fs w \<and>
    extends P w (snd (fd_loop env path fds names w)) \<and>
    (\<forall>p. Some p \<in> set (fst (fd_loop env path fds names w)) \<longrightarrow> Some p \<in> set names \<and>
       (take 7 p = str ''/cache/'' \<longrightarrow> (\<forall>fd \<in> set fds. link_of env 0 (path @ fd) \<noteq> Some p)))"
proof (induction fds arbitrary: names w)
  case (Cons fd fds)
  have l: "link_of env (clock w) = link_of env 0" using assms by (simp add: steady_def)
  have s: "Some p \<in> set (strike link names) \<longleftrightarrow> Some p \<in> set names \<and> p \<noteq> link" for p link
    by (force simp: strike_def split: option.splits if_splits)
  show ?case
  proof (cases "link_of env 0 (path @ fd)")
    case None
    then show ?thesis using Cons [of names "step_clock w"] by (simp add: sys_readlink_def l extends_def)
  next
    case (Some link)
    then show ?thesis
      using Cons [of "if take 7 link = str ''/cache/'' then strike link names else names" "step_clock w"]
      by (auto simp: sys_readlink_def l extends_def s split: if_splits)
  qed
qed simp

lemma proc_loop_spec:
  assumes "steady env"
  shows "fs (snd (proc_loop env pids names w)) = fs w \<and>
    extends P w (snd (proc_loop env pids names w)) \<and>
    (\<forall>p. Some p \<in> set (fst (proc_loop env pids names w)) \<longrightarrow> Some p \<in> set names \<and>
       (take 7 p = str ''/cache/'' \<longrightarrow> (\<forall>pid \<in> set pids. \<forall>fds fd.
          list_all isdigit pid \<longrightarrow> listing env 0 (str ''/proc/'' @ pid @ str ''/fd/'') = Some fds \<longrightarrow> fd \<in> set fds \<longrightarrow>
          link_of env 0 (str ''/proc/'' @ pid @ str ''/fd/'' @ fd) \<noteq> Some p)))"
proof (induction pids arbitrary: names w)
  case (Cons pid pids)
  let ?path = "str ''/proc/'' @ pid @ str ''/fd/''"
  have l: "listing env (clock w) = listing env 0" using assms by (simp add: steady_def)
  show ?case
  proof (cases "list_all isdigit pid \<and> listing env 0 ?path \<noteq> None")
    case True
    then obtain fds where f: "listing env 0 ?path = Some fds" by auto
    obtain names1 w1 where r: "fd_loop env ?path fds names (step_clock w) = (names1, w1)" by fastforce
    note one = fd_loop_spec [OF assms, where path = ?path and fds = fds and names = names and w = "step_clock w" and P = P,
        unfolded r]
    have e: "extends P w w1" using one by (simp add: extends_def)
    show ?thesis using Cons [of names1 w1] one True f e
      by (simp add: sys_readdir_def l r Let_def) (blast intro: extends_trans)
  next
    case False
    then show ?thesis using Cons [of names w] Cons [of names "step_clock w"]
      by (auto simp: sys_readdir_def l Let_def extends_def)
  qed
qed simp

lemma entry_loop_spec:
  assumes "dir \<in> set cache_dirs"
    and "\<forall>p. Some p \<in> set names \<longrightarrow> in_cache p \<and> (\<exists>i. fs w p = Some i \<and> f_regular i)"
  shows "fs (snd (entry_loop env dir ds names w)) = fs w \<and>
    extends P w (snd (entry_loop env dir ds names w)) \<and>
    (\<forall>p. Some p \<in> set (fst (entry_loop env dir ds names w)) \<longrightarrow>
       in_cache p \<and> (\<exists>i. fs w p = Some i \<and> f_regular i))"
  using assms(2)
proof (induction ds arbitrary: names w)
  case (Cons d ds)
  let ?p = "dir @ str ''/'' @ d"
  show ?case
  proof (cases "?p = CACHE_TEMP_SOURCE")
    case True
    then show ?thesis using Cons.IH [OF Cons.prems] by simp
  next
    case False
    then have c: "in_cache ?p" using assms(1) by (auto simp: in_cache_def)
    show ?thesis
    proof (cases "sys_stat env ?p w")
      case (Pair st w1)
      let ?names = "case st of Some i \<Rightarrow> if f_regular i then names @ [Some ?p] else names | None \<Rightarrow> names"
      have w1: "w1 = step_clock w" and st: "st = Some i \<Longrightarrow> fs w ?p = Some i" for i
        using Pair by (auto simp: sys_stat_def split: if_splits)
      have run: "entry_loop env dir (d # ds) names w = entry_loop env dir ds ?names w1"
        using False Pair by (simp split: option.split)
      have "\<forall>p. Some p \<in> set ?names \<longrightarrow> in_cache p \<and> (\<exists>i. fs w1 p = Some i \<and> f_regular i)"
        using Cons.prems c st w1 by (auto split: option.splits if_splits)
      from Cons.IH [OF this] show ?thesis unfolding run by (simp add: w1 extends_def)
    qed
  qed
qed simp

lemma dir_loop_spec:
  assumes "set dirs \<subseteq> set cache_dirs"
    and "\<forall>p. Some p \<in> set names \<longrightarrow> in_cache p \<and> (\<exists>i. fs w p = Some i \<and> f_regular i)"
  shows "fs (snd (dir_loop env dirs names w)) = fs w \<and> extends P w (snd (dir_loop env dirs names w)) \<and>
    (\<forall>p. Some p \<in> set (fst (dir_loop env dirs names w)) \<longrightarrow>
       in_cache p \<and> (\<exists>i. fs w p = Some i \<and> f_regular i))"
  using assms
proof (induction dirs arbitrary: names w)
  case (Cons dir dirs)
  show ?case
  proof (cases "listing env (clock w) dir")
    case None
    then show ?thesis using Cons.IH [of names "step_clock w"] Cons.prems by (simp add: sys_readdir_def extends_def)
  next
    case (Some ds)
    obtain names1 w1 where r: "entry_loop env dir ds names (step_clock w) = (names1, w1)" by fastforce
    note one = entry_loop_spec [of dir names "step_clock w" env ds P, unfolded r]
    have e: "extends P w w1" "fs w1 = fs w"
      "\<forall>p. Some p \<in> set names1 \<longrightarrow> in_cache p \<and> (\<exists>i. fs w1 p = Some i \<and> f_regular i)"
      using one Cons.prems by (simp_all add: extends_def)
    show ?thesis using Cons.IH [of names1 w1] Cons.prems e Some
      by (simp add: sys_readdir_def r) (blast intro: extends_trans)
  qed
qed simp

lemma FindExpendableFiles_spec:
  assumes "steady env" and "FindExpendableFiles env w = ((rc, names), w')"
  shows "fs w' = fs w" and "extends P w w'" and "rc = 0 \<Longrightarrow> Some p \<in> set names \<Longrightarrow> expendable env (fs w) p"
    and "rc = 0 \<or> rc = -1"
proof -
  obtain names1 w1 where d: "dir_loop env cache_dirs [] w = (names1, w1)" by fastforce
  note dirs = dir_loop_spec [of cache_dirs "[]" w env P, unfolded d, simplified]
  have l: "listing env (clock w1) = listing env 0" using assms(1) by (simp add: steady_def)
  show "rc = 0 \<or> rc = -1" using assms(2) by (auto simp: FindExpendableFiles_def Let_def split: prod.splits if_splits)
  have "fs w' = fs w \<and> extends P w w' \<and> (rc = 0 \<longrightarrow> Some p \<in> set names \<longrightarrow> expendable env (fs w) p)"
  proof (cases "listing env 0 (str ''/proc'')")
    case None
    then show ?thesis using assms(2) dirs
      by (auto simp: FindExpendableFiles_def EliminateOpenFiles_def d l sys_readdir_def extends_def)
  next
    case (Some pids)
    obtain names2 w2 where r: "proc_loop env pids names1 (step_clock w1) = (names2, w2)" by fastforce
    note procs = proc_loop_spec [OF assms(1), where pids = pids and names = names1 and w = "step_clock w1" and P = P,
        unfolded r, simplified]
    have e: "w' = w2" "names = names2"
      using assms(2) Some by (auto simp: FindExpendableFiles_def EliminateOpenFiles_def d l sys_readdir_def r)
    have "extends P w w2" "fs w2 = fs w"
      using procs dirs extends_trans [of P w "step_clock w1" w2] by (simp_all add: extends_def)
    moreover have "Some p \<in> set names2 \<Longrightarrow> expendable env (fs w) p"
      using procs dirs cache_path [of p] Some unfolding expendable_def opened_def by fastforce
    ultimately show ?thesis using e by simp
  qed
  then show "fs w' = fs w" "extends P w w'" "rc = 0 \<Longrightarrow> Some p \<in> set names \<Longrightarrow> expendable env (fs w) p"
    by blast+
qed

definition spares :: "(bytes \<Rightarrow> bool) \<Rightarrow> files \<Rightarrow> files \<Rightarrow> bool" where
  "spares D f g \<longleftrightarrow> (\<forall>p. g p = f p \<or> D p \<and> g p = None)"

text \<open>
  What \<open>MakeFreeSpaceOnCache\<close> has to do with the names it has found, as a specification: remove
  the files one after the other, asking \<open>statfs\<close> after each, up to the first time that it
  reports enough.
\<close>

definition statfs_after :: "env \<Rightarrow> bytes list \<Rightarrow> u32 \<times> 'm world \<Rightarrow> u32 \<times> 'm world" where
  "statfs_after env paths = fold (\<lambda>path (n, w). FreeSpaceForFile env (str ''/cache'') (sys_unlink env path w)) paths"

definition least_removal :: "env \<Rightarrow> u32 \<Rightarrow> bytes list \<Rightarrow> u32 \<times> 'm world \<Rightarrow> u32 \<times> 'm world \<Rightarrow> bool" where
  "least_removal env b paths s s' \<longleftrightarrow> (\<exists>k \<le> length paths. s' = statfs_after env (take k paths) s \<and>
     (\<forall>j < k. fst (statfs_after env (take j paths) s) < b) \<and> (b \<le> fst s' \<or> k = length paths))"

lemma statfs_after_Cons [simp]:
  "statfs_after env (p # ps) (n, w) = statfs_after env ps (FreeSpaceForFile env (str ''/cache'') (sys_unlink env p w))"
  "statfs_after env [] s = s"
  by (simp_all add: statfs_after_def)

lemma least_removal_stop: "b \<le> n \<Longrightarrow> least_removal env b paths (n, w) (n, w)"
  unfolding least_removal_def by (intro exI [of _ 0]) simp

lemma least_removal_Cons:
  assumes "n < b" and "least_removal env b ps (FreeSpaceForFile env (str ''/cache'') (sys_unlink env p w)) s'"
  shows "least_removal env b (p # ps) (n, w) s'"
proof -
  obtain k where k: "k \<le> length ps" "s' = statfs_after env (take (Suc k) (p # ps)) (n, w)"
    "\<forall>j < k. fst (statfs_after env (take (Suc j) (p # ps)) (n, w)) < b" "b \<le> fst s' \<or> k = length ps"
    using assms(2) unfolding least_removal_def by auto
  have "fst (statfs_after env (take j (p # ps)) (n, w)) < b" if "j < Suc k" for j
    using k(3) that assms(1) by (cases j) auto
  then show ?thesis unfolding least_removal_def using k by (intro exI [of _ "Suc k"]) auto
qed

lemma delete_loop_least: "least_removal env b (List.map_filter id names) (n, w) (delete_loop env b names n w)"
proof (induction names arbitrary: n w)
  case Nil
  then show ?case by (simp add: least_removal_def)
next
  case (Cons name names)
  show ?case
  proof (cases "b \<le> n")
    case True
    then show ?thesis by (simp add: least_removal_stop not_less)
  next
    case more: False
    show ?thesis
    proof (cases name)
      case None
      then show ?thesis using Cons.IH [of n w] more by (simp add: map_filter_simps not_less)
    next
      case (Some path)
      obtain n1 w1 where f: "FreeSpaceForFile env (str ''/cache'') (sys_unlink env path w) = (n1, w1)" by fastforce
      have "least_removal env b (path # List.map_filter id names) (n, w) (delete_loop env b names n1 w1)"
        using more Cons.IH [of n1 w1] by (intro least_removal_Cons) (simp_all only: f not_le)
      then show ?thesis using Some more f by (simp add: map_filter_simps not_less id_def)
    qed
  qed
qed

lemma delete_loop_spares:
  assumes "\<forall>p. Some p \<in> set names \<longrightarrow> D p" and "spares D f (fs w)" and "delete_loop env b names n w = (n', w')"
  shows "extends (spares D f) w w'"
  using assms
proof (induction names arbitrary: n w)
  case (Cons name names)
  show ?case
  proof (cases "n < b \<and> name \<noteq> None")
    case False
    with Cons show ?thesis by (cases name) (auto split: if_splits)
  next
    case True
    then obtain path where path: "name = Some path" "n < b" by blast
    let ?w1 = "sys_unlink env path w"
    obtain n2 w2 where f: "FreeSpaceForFile env (str ''/cache'') ?w1 = (n2, w2)" by fastforce
    have gone: "spares D f ((fs w)(path := None))" using Cons.prems(1,2) path by (auto simp: spares_def)
    have one: "extends (spares D f) w ?w1" "spares D f (fs ?w1)"
      using gone Cons.prems(2) by (auto simp: sys_unlink_def)
    have two: "w2 = step_clock ?w1" using f by (auto simp: FreeSpaceForFile_def sys_statfs_def split: if_splits)
    have "extends (spares D f) w2 w'"
      using Cons.IH [of w2 n2] Cons.prems(1,3) one(2) path f two by (simp add: Let_def)
    then show ?thesis using one(1) two extends_trans [of "spares D f" w w2 w'] by simp
  qed
qed auto

lemma MakeFreeSpaceOnCache_cases:
  assumes "MakeFreeSpaceOnCache env b w = (rc, w')"
  obtains n where "FreeSpaceForFile env (str ''/cache'') w = (n, w')" "b \<le> n" "rc = 0"
  | n w1 r names where "FreeSpaceForFile env (str ''/cache'') w = (n, w1)" "n < b"
      "FindExpendableFiles env w1 = ((r, names), w')" "r < 0 \<or> names = []" "rc = -1"
  | n w1 names w2 r n' where "FreeSpaceForFile env (str ''/cache'') w = (n, w1)" "n < b"
      "FindExpendableFiles env w1 = ((r, names), w2)" "0 \<le> r" "delete_loop env b names n w2 = (n', w')"
      "rc = (if b \<le> n' then 0 else -1)"
proof -
  obtain n w1 where 1: "FreeSpaceForFile env (str ''/cache'') w = (n, w1)" by fastforce
  obtain r names w2 where 2: "FindExpendableFiles env w1 = ((r, names), w2)" by (metis prod.collapse)
  obtain n' w3 where 3: "delete_loop env b names n w2 = (n', w3)" by fastforce
  show ?thesis
  proof (cases "b \<le> n")
    case True
    then show ?thesis using that(1) [of n] 1 assms by (simp add: MakeFreeSpaceOnCache_def)
  next
    case more: False
    show ?thesis
    proof (cases "r < 0 \<or> names = []")
      case True
      then show ?thesis using that(2) [of n w1 r names] 1 2 more assms
        by (auto simp: MakeFreeSpaceOnCache_def not_le split: if_splits)
    next
      case False
      then show ?thesis using that(3) [of n w1 r names w2 n'] 1 2 3 more assms
        by (auto simp: MakeFreeSpaceOnCache_def not_le not_less split: if_splits)
    qed
  qed
qed

lemma MakeFreeSpaceOnCache_extends:
  assumes "steady env" and "MakeFreeSpaceOnCache env b w = (rc, w')"
  shows "extends (spares (expendable env (fs w)) (fs w)) w w'"
proof -
  let ?S = "spares (expendable env (fs w)) (fs w)"
  have stat: "v' = step_clock v" if "FreeSpaceForFile env p v = (n, v')" for p v n v'
    using that by (auto simp: FreeSpaceForFile_def sys_statfs_def split: if_splits)
  from assms(2) show ?thesis
  proof (cases rule: MakeFreeSpaceOnCache_cases)
    case (1 n)
    then have "w' = step_clock w" using stat by blast
    then show ?thesis by (simp add: extends_def)
  next
    case (2 n w1 r names)
    then show ?thesis using FindExpendableFiles_spec(2) [OF assms(1) 2(3), of ?S] stat [OF 2(1)] by (simp add: extends_def)
  next
    case (3 n w1 names w2 r n')
    note find = FindExpendableFiles_spec [OF assms(1) 3(3)]
    have "r = 0" using find(4) 3(4) by auto
    have w2: "extends ?S w w2" "fs w2 = fs w"
      using find(1) find(2) [of ?S] stat [OF 3(1)] by (simp_all add: extends_def)
    have "extends ?S w2 w'"
      by (rule delete_loop_spares [OF _ _ 3(5)]) (use find(3) \<open>r = 0\<close> stat [OF 3(1)] in \<open>auto simp: w2(2) spares_def\<close>)
    then show ?thesis using extends_trans [OF w2(1)] by blast
  qed
qed

section \<open>Properties\<close>

text \<open>
  C26: the files \<open>FindExpendableFiles\<close> names are regular files directly in or below the two
  directories, never the saved source, and no process has any of them open; looking for them
  changes nothing.
\<close>

theorem FindExpendableFiles_expendable:
  assumes "steady env" and "FindExpendableFiles env w = ((rc, names), w')"
  shows "fs w' = fs w \<and> (rc = 0 \<or> rc = -1) \<and> (rc = 0 \<longrightarrow> (\<forall>p. Some p \<in> set names \<longrightarrow> expendable env (fs w) p))"
  using FindExpendableFiles_spec [OF assms] by blast

definition quiet_env :: env where
  "quiet_env = \<lparr>granted = \<lambda>_. True, amount = \<lambda>_. 4096, space = \<lambda>t _. of_nat t,
     listing = \<lambda>_ d. if d = str ''/cache'' then Some [str ''saved.file'', str ''a'', str ''b'']
                else if d = str ''/proc'' then Some [str ''7'', str ''bus'']
                else if d = str ''/proc/7/fd/'' then Some [str ''0''] else None,
     link_of = \<lambda>_ l. if l = str ''/proc/7/fd/0'' then Some (str ''/cache/b'') else None\<rparr>"

definition cache_world :: "unit world" where
  "cache_world = \<lparr>fs = (\<lambda>p. if take 7 p = str ''/cache/'' then Some \<lparr>f_data = [1], f_regular = True, f_mode = 0, f_uid = 0, f_gid = 0\<rparr>
                           else None), clock = 0, history = [], scanned = False, mtd = ()\<rparr>"

lemma quiet_expendable:
  "fst (FindExpendableFiles quiet_env cache_world) = (0, [Some (str ''/cache/a''), None])"
  by code_simp

theorem FindExpendableFiles_expendable_witness:
  "expendable quiet_env (fs cache_world) (str ''/cache/a'')"
proof -
  obtain w' where "FindExpendableFiles quiet_env cache_world = ((0, [Some (str ''/cache/a''), None]), w')"
    using quiet_expendable by (cases "FindExpendableFiles quiet_env cache_world") auto
  from FindExpendableFiles_expendable [OF _ this] show ?thesis by (simp add: steady_def quiet_env_def)
qed

text \<open>
  C25: \<open>MakeFreeSpaceOnCache\<close> does nothing but delete expendable files, at any moment of its run, and
  deletes no more than it has to.  It returns 0 when the \<open>statfs\<close> at its start reports enough; otherwise it
  looks for expendable files and removes them in the order found, with a \<open>statfs\<close> after each, up to the first
  report of enough, and returns 0 exactly when the last one was that.  (A \<open>statfs\<close> that fails reports -1,
  which as a \<open>size_t\<close> is enough for everything.)
\<close>

theorem MakeFreeSpaceOnCache_spares:
  assumes "steady env" and "MakeFreeSpaceOnCache env b w = (rc, w')"
  shows "extends (spares (expendable env (fs w)) (fs w)) w w' \<and>
    (\<exists>n0 w0. FreeSpaceForFile env (str ''/cache'') w = (n0, w0) \<and>
      (if b \<le> n0 then rc = 0 \<and> w' = w0
       else \<exists>r names w1. FindExpendableFiles env w0 = ((r, names), w1) \<and>
         (if r \<noteq> 0 then rc = -1 \<and> w' = w1
          else \<exists>n. least_removal env b (List.map_filter id names) (n0, w1) (n, w') \<and> rc = (if b \<le> n then 0 else -1))))"
  using assms(2)
proof (cases rule: MakeFreeSpaceOnCache_cases)
  case (1 n)
  then show ?thesis using MakeFreeSpaceOnCache_extends [OF assms] by simp
next
  case (2 n w1 r names)
  have "least_removal env b (List.map_filter id names) (n, w') (n, w')" if "names = []"
    using that by (simp add: least_removal_def map_filter_simps)
  then show ?thesis using 2 MakeFreeSpaceOnCache_extends [OF assms] by auto
next
  case (3 n w1 names w2 r n')
  have "r = 0" using FindExpendableFiles_spec(4) [OF assms(1) 3(3)] 3(4) by auto
  moreover have "least_removal env b (List.map_filter id names) (n, w2) (n', w')"
    using delete_loop_least [of env b names n w2] 3(5) by simp
  ultimately show ?thesis using 3 MakeFreeSpaceOnCache_extends [OF assms] by auto
qed

theorem MakeFreeSpaceOnCache_spares_witness:
  "\<exists>w' n0 w0 names w1 n. MakeFreeSpaceOnCache quiet_env 5 cache_world = (0, w') \<and>
    extends (spares (expendable quiet_env (fs cache_world)) (fs cache_world)) cache_world w' \<and>
    FreeSpaceForFile quiet_env (str ''/cache'') cache_world = (n0, w0) \<and> FindExpendableFiles quiet_env w0 = ((0, names), w1) \<and>
    least_removal quiet_env 5 (List.map_filter id names) (n0, w1) (n, w') \<and> 5 \<le> n"
proof -
  have "fst (MakeFreeSpaceOnCache quiet_env 5 cache_world) = 0 \<and>
    fst (FreeSpaceForFile quiet_env (str ''/cache'') cache_world) = 0 \<and>
    fst (fst (FindExpendableFiles quiet_env (snd (FreeSpaceForFile quiet_env (str ''/cache'') cache_world)))) = 0" by code_simp
  then obtain w' w0 names w1 where run: "MakeFreeSpaceOnCache quiet_env 5 cache_world = (0, w')"
    "FreeSpaceForFile quiet_env (str ''/cache'') cache_world = (0, w0)" "FindExpendableFiles quiet_env w0 = ((0, names), w1)"
    by (metis prod.collapse)
  from MakeFreeSpaceOnCache_spares [OF _ run(1)] run show ?thesis
    by (fastforce simp: steady_def quiet_env_def split: if_splits)
qed

text \<open>When \<open>statfs\<close> fails on \<open>/cache\<close>, any amount of space counts as available.\<close>

lemma statfs_failure_is_room:
  "MakeFreeSpaceOnCache (quiet_env\<lparr>granted := \<lambda>_. False\<rparr>) b w = (0, step_clock w)"
  by (simp add: MakeFreeSpaceOnCache_def FreeSpaceForFile_def sys_statfs_def quiet_env_def)

end
