(* ===== verification/Applypatch.thy ===== *)
theory Applypatch
  imports Imgpatch Freecache
begin

text \<open>
  Patching files and partitions, \<open>applypatch/applypatch.c\<close>.

  SHA-1 is the parameter \<open>sha\<close>.  The functions of \<open>mtdutils\<close> that are
  used here are the fields of \<open>mtd_ops\<close>, over the state \<open>'m\<close> of the flash, a read context
  \<open>'r\<close> and a write context \<open>'x\<close>.  An open descriptor is its offset together with the world.
  A failing \<open>malloc\<close> is not noticed by the functions that load files, and undefined behaviour
  there.  Calls that only print, and the errors ignored on closing, are left out.
\<close>

section \<open>Parameters\<close>

record ('m, 'r, 'x) mtd_ops =
  m_scan :: "'m \<Rightarrow> 'm option"
  m_find :: "bytes \<Rightarrow> 'm \<Rightarrow> nat option"
  m_read_partition :: "nat \<Rightarrow> 'm \<Rightarrow> 'r option \<times> 'm"
  m_read_data :: "'r \<Rightarrow> nat \<Rightarrow> 'm \<Rightarrow> (u32 \<times> bytes \<times> 'r \<times> 'm) option"
  m_write_partition :: "nat \<Rightarrow> 'm \<Rightarrow> 'x option \<times> 'm"
  m_write_data :: "'x \<Rightarrow> bytes \<Rightarrow> 'm \<Rightarrow> (u32 \<times> 'x \<times> 'm) option"
  m_erase_blocks :: "'x \<Rightarrow> int \<Rightarrow> 'm \<Rightarrow> (int \<times> 'x \<times> 'm) option"
  m_write_close :: "'x \<Rightarrow> 'm \<Rightarrow> (int \<times> 'm) option"

record FileContents =
  fc_data :: bytes
  fc_sha1 :: bytes
  fc_mode :: u32
  fc_uid :: u32
  fc_gid :: u32

abbreviation fc_size :: "FileContents \<Rightarrow> u32" where
  "fc_size fc \<equiv> of_nat (length (fc_data fc))"

section \<open>Digests\<close>

definition hex_digit :: "u8 \<Rightarrow> u8 option" where
  "hex_digit c =
     (if 48 \<le> c \<and> c \<le> 57 then Some (c - 48)
      else if 97 \<le> c \<and> c \<le> 102 then Some (c - 97 + 10)
      else if 65 \<le> c \<and> c \<le> 70 then Some (c - 65 + 10)
      else None)"

text \<open>The loop over \<open>n\<close> digits, of which the first is a high one.\<close>

fun sha1_digits :: "nat \<Rightarrow> bytes \<Rightarrow> bytes \<Rightarrow> (bytes \<times> bytes) option" where
  "sha1_digits 0 ps digest = Some (digest, ps)"
| "sha1_digits (Suc n) [] digest = None"
| "sha1_digits (Suc n) (c # ps) digest = do {
     d \<leftarrow> hex_digit c;
     sha1_digits n ps
       (if odd n then digest @ [push_bit 4 d] else butlast digest @ [last digest OR d]) }"

definition ParseSha1 :: "bytes \<Rightarrow> bytes option" where
  "ParseSha1 s = do {
     (digest, ps) \<leftarrow> sha1_digits 40 s [];
     if ps \<noteq> [] then None else Some digest }"

fun find_patch :: "bytes \<Rightarrow> bytes list \<Rightarrow> int \<Rightarrow> int" where
  "find_patch sha1 [] i = -1"
| "find_patch sha1 (s # strs) i = (if ParseSha1 s = Some sha1 then i else find_patch sha1 strs (i + 1))"

definition FindMatchingPatch :: "bytes \<Rightarrow> bytes list \<Rightarrow> int" where
  "FindMatchingPatch sha1 patch_sha1_str = find_patch sha1 patch_sha1_str 0"

section \<open>Loading\<close>

definition is_partition :: "bytes \<Rightarrow> bool" where
  "is_partition filename \<longleftrightarrow> take 4 filename = str ''MTD:'' \<or> take 5 filename = str ''EMMC:''"

abbreviation COLON :: u8 where "COLON \<equiv> 58"

text \<open>\<open>strtok\<close> with colons: the next token and the rest, \<open>None\<close> for \<open>NULL\<close>.\<close>

definition strtok :: "bytes \<Rightarrow> (bytes \<times> bytes) option" where
  "strtok s =
     (case dropWhile (\<lambda>c. c = COLON) s of
        [] \<Rightarrow> None
      | t \<Rightarrow> Some (takeWhile (\<lambda>c. c \<noteq> COLON) t, drop 1 (dropWhile (\<lambda>c. c \<noteq> COLON) t)))"

text \<open>The pairs of sizes and digests; the inner \<open>None\<close> is a size of 0.\<close>

fun read_pairs :: "nat \<Rightarrow> bytes \<Rightarrow> (u32 \<times> bytes option) list option option" where
  "read_pairs 0 s = Some (Some [])"
| "read_pairs (Suc n) s = do {
     (size_str, s) \<leftarrow> strtok s;
     let size_of = of_int (fst (strtol10 size_str));
     if size_of = 0 then Some None
     else do {
       let (sha1sum, s) = (case strtok s of None \<Rightarrow> (None, []) | Some (t, s) \<Rightarrow> (Some t, s));
       ps \<leftarrow> read_pairs n s;
       Some (map_option (\<lambda>ps. (size_of, sha1sum) # ps) ps) } }"

datatype 'r partition_reader = MtdReader 'r | DevReader bytes nat

definition read_partition ::
    "env \<Rightarrow> ('m, 'r, 'x, 'y) mtd_ops_scheme \<Rightarrow> 'r partition_reader \<Rightarrow> nat \<Rightarrow> 'm world \<Rightarrow>
     (u32 \<times> bytes \<times> 'r partition_reader \<times> 'm world) option" where
  "read_partition env ops r n w =
     (case r of
        MtdReader ctx \<Rightarrow> map_option (\<lambda>(got, data, ctx, m). (got, data, MtdReader ctx, w\<lparr>mtd := m\<rparr>)) (m_read_data ops ctx n (mtd w))
      | DevReader content pos \<Rightarrow>
          (let (data, w) = sys_read env content pos n w in
           Some (of_nat (length data), data, DevReader content (pos + length data), w)))"

text \<open>
  The loop over the pairs in order of size: \<open>Inl\<close> is the code's early -1, \<open>Inr None\<close> that no
  pair matched.
\<close>

fun match_loop ::
    "('h, 'z) sha_scheme \<Rightarrow> env \<Rightarrow> ('m, 'r, 'x, 'y) mtd_ops_scheme \<Rightarrow> (u32 \<times> bytes option) list \<Rightarrow> 'r partition_reader \<Rightarrow>
     bytes \<Rightarrow> 'h \<Rightarrow> 'm world \<Rightarrow> ((unit + (bytes \<times> 'h) option) \<times> 'm world) option" where
  "match_loop sha env ops [] r data ctx w = Some (Inr None, w)"
| "match_loop sha env ops ((size_of, sha1sum) # ps) r data ctx w =
     (let wanted = size_of - of_nat (length data) in do {
        (got, more, r, w) \<leftarrow> (if wanted > 0 then read_partition env ops r (unat wanted) w else Some (0, [], r, w));
        if wanted \<noteq> got then Some (Inl (), w)
        else do {
          let ctx = (if wanted > 0 then sha_update sha more ctx else ctx);
          let data = data @ more;
          s \<leftarrow> sha1sum;
          case ParseSha1 s of
            None \<Rightarrow> Some (Inl (), w)
          | Some parsed_sha \<Rightarrow>
              if sha_final sha ctx = parsed_sha then Some (Inr (Some (data, ctx)), w)
              else match_loop sha env ops ps r data ctx w } })"

definition scan_once :: "('m, 'r, 'x, 'y) mtd_ops_scheme \<Rightarrow> 'm world \<Rightarrow> 'm world option" where
  "scan_once ops w =
     (if scanned w then Some w else do { m \<leftarrow> m_scan ops (mtd w); Some (w\<lparr>scanned := True, mtd := m\<rparr>) })"

definition open_partition ::
    "env \<Rightarrow> ('m, 'r, 'x, 'y) mtd_ops_scheme \<Rightarrow> bool \<Rightarrow> bytes option \<Rightarrow> 'm world \<Rightarrow>
     ('r partition_reader option \<times> 'm world) option" where
  "open_partition env ops is_mtd pname w =
     (if is_mtd then do {
          w \<leftarrow> scan_once ops w;
          name \<leftarrow> pname;
          Some (case m_find ops name (mtd w) of
                  None \<Rightarrow> (None, w)
                | Some p \<Rightarrow> let (ctx, m) = m_read_partition ops p (mtd w) in (map_option MtdReader ctx, w\<lparr>mtd := m\<rparr>)) }
      else do {
        name \<leftarrow> pname;
        let (dev, w) = sys_open env name w;
        Some (map_option (\<lambda>f. DevReader (f_data f) 0) dev, w) })"

text \<open>A filename with a bad number of colons is reported and then used.\<close>

definition LoadPartitionContents ::
    "(nat \<Rightarrow> bool) \<Rightarrow> ('h, 'z) sha_scheme \<Rightarrow> env \<Rightarrow> ('m, 'r, 'x, 'y) mtd_ops_scheme \<Rightarrow> bytes \<Rightarrow> 'm world \<Rightarrow>
     (FileContents option \<times> 'm world) option" where
  "LoadPartitionContents malloc sha env ops filename w = do {
     (magic, s) \<leftarrow> strtok filename;
     if magic \<noteq> str ''MTD'' \<and> magic \<noteq> str ''EMMC'' then Some (None, w)
     else do {
       let (pname, s) = (case strtok s of None \<Rightarrow> (None, []) | Some (t, s) \<Rightarrow> (Some t, s));
       let colons = length (filter (\<lambda>c. c = COLON) filename);
       let pairs = (colons - 1) div 2;
       ps \<leftarrow> read_pairs pairs s;
       case ps of
         None \<Rightarrow> Some (None, w)
       | Some ps \<Rightarrow> do {
           let sorted_ps = sort_key fst ps;
           (r, w) \<leftarrow> open_partition env ops (magic = str ''MTD'') pname w;
           case r of
             None \<Rightarrow> Some (None, w)
           | Some r \<Rightarrow>
               if sorted_ps = [] \<or> \<not> malloc (unat (fst (last sorted_ps))) then None
               else do {
                 (found, w) \<leftarrow> match_loop sha env ops sorted_ps r [] (sha_init sha) w;
                 Some (case found of
                         Inr (Some (data, ctx)) \<Rightarrow>
                           Some \<lparr>fc_data = data, fc_sha1 = sha_final sha ctx, fc_mode = 0x1A4, fc_uid = 0, fc_gid = 0\<rparr>
                       | _ \<Rightarrow> None, w) } } } }"

definition LoadFileContents ::
    "(nat \<Rightarrow> bool) \<Rightarrow> ('h, 'z) sha_scheme \<Rightarrow> env \<Rightarrow> ('m, 'r, 'x, 'y) mtd_ops_scheme \<Rightarrow> bytes \<Rightarrow> 'm world \<Rightarrow>
     (FileContents option \<times> 'm world) option" where
  "LoadFileContents malloc sha env ops filename w =
     (if is_partition filename then LoadPartitionContents malloc sha env ops filename w
      else
        let (st, w) = sys_stat env filename w in
        case st of
          None \<Rightarrow> Some (None, w)
        | Some st \<Rightarrow>
            let size_of = unat (of_nat (length (f_data st)) :: u32);
                (f, w) = sys_open env filename w in
            case f of
              None \<Rightarrow> Some (None, w)
            | Some f \<Rightarrow>
                if \<not> malloc size_of then None
                else
                  let (data, w) = sys_read env (f_data f) 0 size_of w in
                  if length data \<noteq> size_of then Some (None, w)
                  else Some (Some \<lparr>fc_data = data, fc_sha1 = SHA sha data, fc_mode = f_mode st,
                                   fc_uid = f_uid st, fc_gid = f_gid st\<rparr>, w))"

section \<open>Sinks and saving\<close>

text \<open>\<open>FileSink\<close> writes until everything is written or a write takes nothing.\<close>

function sink_loop :: "env \<Rightarrow> bytes \<Rightarrow> bytes \<Rightarrow> nat \<times> 'm world \<Rightarrow> int \<times> nat \<times> 'm world" where
  "sink_loop env path buf (off, w) =
     (if buf = [] then (0, off, w)
      else let (wrote, w) = sys_write env path off buf w in
        if wrote \<le> 0 then (0, off, w)
        else let (n, off, w) = sink_loop env path (drop (nat wrote) buf) (off + nat wrote, w) in (wrote + n, off, w))"
  by pat_completeness auto
termination
  by (relation "measure (\<lambda>(env, path, buf, off, w). length buf)") auto

declare sink_loop.simps [simp del]

definition FileSink :: "env \<Rightarrow> bytes \<Rightarrow> (nat \<times> 'm world) sink" where
  "FileSink env path buf fd =
     Some (if sint (of_nat (length buf) :: u32) \<le> 0 then (0, fd) else sink_loop env path buf fd)"

record MemorySinkInfo =
  msi_buffer :: bytes
  msi_size :: u32
  msi_pos :: u32

definition MemorySink :: "MemorySinkInfo sink" where
  "MemorySink buf msi =
     (let len = of_nat (length buf) :: u32 in
      if sint (msi_size msi - msi_pos msi) < sint len then Some (-1, msi)
      else do {
        b \<leftarrow> wr_slice (msi_buffer msi) (unat (msi_pos msi)) buf;
        Some (sint len, msi\<lparr>msi_buffer := b, msi_pos := msi_pos msi + len\<rparr>) })"

definition SaveFileContents :: "env \<Rightarrow> bytes \<Rightarrow> FileContents \<Rightarrow> 'm world \<Rightarrow> (int \<times> 'm world) option" where
  "SaveFileContents env filename fc w =
     (case sys_create env filename w of
        (False, w) \<Rightarrow> Some (-1, w)
      | (True, w) \<Rightarrow> do {
          (bytes_written, off, w) \<leftarrow> FileSink env filename (fc_data fc) (0, w);
          if bytes_written \<noteq> sint (fc_size fc) then Some (-1, w)
          else
            let (rc, w) = sys_chmod env filename (fc_mode fc) w in
            if rc \<noteq> 0 then Some (-1, w)
            else
              let (rc, w) = sys_chown env filename (fc_uid fc) (fc_gid fc) w in
              Some (if rc \<noteq> 0 then -1 else 0, w) })"

text \<open>The stream of a failed \<open>fopen\<close> is written to without a check.\<close>

definition WriteToPartition ::
    "env \<Rightarrow> ('m, 'r, 'x, 'y) mtd_ops_scheme \<Rightarrow> bytes \<Rightarrow> bytes \<Rightarrow> 'm world \<Rightarrow> (int \<times> 'm world) option" where
  "WriteToPartition env ops buf target w = do {
     (magic, s) \<leftarrow> strtok target;
     if magic \<noteq> str ''MTD'' \<and> magic \<noteq> str ''EMMC'' then Some (-1, w)
     else case strtok s of
       None \<Rightarrow> Some (-1, w)
     | Some (name, _) \<Rightarrow>
         if magic = str ''MTD'' then do {
           w \<leftarrow> scan_once ops w;
           case m_find ops name (mtd w) of
             None \<Rightarrow> Some (-1, w)
           | Some p \<Rightarrow>
               (case m_write_partition ops p (mtd w) of
                  (None, m) \<Rightarrow> Some (-1, w\<lparr>mtd := m\<rparr>)
                | (Some ctx, m) \<Rightarrow> do {
                    (written, ctx, m) \<leftarrow> m_write_data ops ctx buf m;
                    if written \<noteq> of_nat (length buf) then do {
                      (_, m) \<leftarrow> m_write_close ops ctx m;
                      Some (-1, w\<lparr>mtd := m\<rparr>) }
                    else do {
                      (erased, ctx, m) \<leftarrow> m_erase_blocks ops ctx (-1) m;
                      (rc, m) \<leftarrow> m_write_close ops ctx m;
                      Some (if erased < 0 \<or> rc \<noteq> 0 then -1 else 0, w\<lparr>mtd := m\<rparr>) } }) }
         else
           (case sys_create env name w of
              (False, w) \<Rightarrow> None
            | (True, w) \<Rightarrow>
                (let (n, w) = (if buf = [] then (0, w) else sys_write env name 0 buf w) in
                 if n \<noteq> int (length buf) then Some (-1, w)
                 else Some (if granted env (clock w) then 0 else -1, step_clock w))) }"

section \<open>applypatch\_check\<close>

definition applypatch_check ::
    "(nat \<Rightarrow> bool) \<Rightarrow> ('h, 'z) sha_scheme \<Rightarrow> env \<Rightarrow> ('m, 'r, 'x, 'y) mtd_ops_scheme \<Rightarrow> bytes \<Rightarrow> bytes list \<Rightarrow> 'm world \<Rightarrow>
     (int \<times> 'm world) option" where
  "applypatch_check malloc sha env ops filename patch_sha1_str w = do {
     (fc, w) \<leftarrow> LoadFileContents malloc sha env ops filename w;
     if fc = None \<or>
        (length patch_sha1_str > 0 \<and> FindMatchingPatch (fc_sha1 (the fc)) patch_sha1_str < 0)
     then do {
       (fc, w) \<leftarrow> LoadFileContents malloc sha env ops CACHE_TEMP_SOURCE w;
       case fc of
         None \<Rightarrow> Some (1, w)
       | Some fc \<Rightarrow> Some (if FindMatchingPatch (fc_sha1 fc) patch_sha1_str < 0 then 1 else 0, w) }
     else Some (0, w) }"

section \<open>applypatch\<close>

text \<open>
  Choosing the source: \<open>Inl\<close> is an early return, \<open>Inr (source, patch, True)\<close> the source file
  with its patch, \<open>Inr (copy, patch, False)\<close> the saved copy with its patch.
\<close>

definition patch_for :: "bytes list \<Rightarrow> Value list \<Rightarrow> FileContents \<Rightarrow> Value option option" where
  "patch_for patch_sha1_str patch_data fc =
     (let to_use = FindMatchingPatch (fc_sha1 fc) patch_sha1_str in
      if to_use \<ge> 0 then map_option Some (if nat to_use < length patch_data then Some (patch_data ! nat to_use) else None)
      else Some None)"

definition choose_source ::
    "(nat \<Rightarrow> bool) \<Rightarrow> ('h, 'z) sha_scheme \<Rightarrow> env \<Rightarrow> ('m, 'r, 'x, 'y) mtd_ops_scheme \<Rightarrow> bytes \<Rightarrow> bytes \<Rightarrow> bytes \<Rightarrow>
     bytes list \<Rightarrow> Value list \<Rightarrow> 'm world \<Rightarrow> ((int + FileContents \<times> Value \<times> bool) \<times> 'm world) option" where
  "choose_source malloc sha env ops source_filename target_filename target_sha1 patch_sha1_str patch_data w = do {
     (source_file, w) \<leftarrow> LoadFileContents malloc sha env ops target_filename w;
     if source_file \<noteq> None \<and> fc_sha1 (the source_file) = target_sha1 then Some (Inl 0, w)
     else do {
       (source_file, w) \<leftarrow>
         (if source_file = None \<or> target_filename \<noteq> source_filename
          then LoadFileContents malloc sha env ops source_filename w else Some (source_file, w));
       source_patch \<leftarrow> (case source_file of None \<Rightarrow> Some None | Some fc \<Rightarrow> patch_for patch_sha1_str patch_data fc);
       case source_patch of
         Some patch \<Rightarrow> Some (Inr (the source_file, patch, True), w)
       | None \<Rightarrow> do {
           (copy_file, w) \<leftarrow> LoadFileContents malloc sha env ops CACHE_TEMP_SOURCE w;
           case copy_file of
             None \<Rightarrow> Some (Inl 1, w)
           | Some fc \<Rightarrow> do {
               copy_patch \<leftarrow> patch_for patch_sha1_str patch_data fc;
               Some (case copy_patch of None \<Rightarrow> Inl 1 | Some patch \<Rightarrow> Inr (fc, patch, False), w) } } } }"

text \<open>The directory at the top of the target's path, for \<open>statfs\<close>.\<close>

definition target_fs :: "bytes \<Rightarrow> bytes option" where
  "target_fs target_filename =
     (case target_filename of [] \<Rightarrow> None | c # cs \<Rightarrow> Some (c # takeWhile (\<lambda>c. c \<noteq> 47) cs))"

text \<open>Backing up the source on \<open>/cache\<close>: \<open>True\<close> when it has been saved.\<close>

definition back_up :: "env \<Rightarrow> FileContents \<Rightarrow> 'm world \<Rightarrow> (bool \<times> 'm world) option" where
  "back_up env source_file w =
     (let (rc, w) = MakeFreeSpaceOnCache env (fc_size source_file) w in
      if rc < 0 then Some (False, w)
      else do {
        (rc, w) \<leftarrow> SaveFileContents env CACHE_TEMP_SOURCE source_file w;
        Some (\<not> rc < 0, w) })"

text \<open>
  Making room, at the start of a round: \<open>Inl\<close> is an early return, \<open>Inr (cleared, made)\<close> says
  whether \<open>retry\<close> becomes 0 and a copy was made.  With a partition as the target the source is
  backed up even when it is bad; it has been freed then.
\<close>

definition make_room ::
    "env \<Rightarrow> bytes \<Rightarrow> bytes \<Rightarrow> u32 \<Rightarrow> FileContents \<Rightarrow> bool \<Rightarrow> nat \<Rightarrow> 'm world \<Rightarrow> ((int + bool \<times> bool) \<times> 'm world) option" where
  "make_room env source_filename target_filename tgt_size file_to_use from_source retry w =
     (if is_partition target_filename then
        if \<not> from_source then None
        else do {
          (saved, w) \<leftarrow> back_up env file_to_use w;
          Some (if saved then Inr (True, True) else Inl 1, w) }
      else do {
        dir \<leftarrow> target_fs target_filename;
        let (enough_space, w) =
          (if retry > 0 then
             let (free_space, w) = FreeSpaceForFile env dir w in
             (free_space > 0x40000 \<and> free_space > tgt_size * 3 div 2, w)
           else (False, w));
        if \<not> enough_space \<and> from_source then
          if is_partition source_filename then Some (Inl 1, w)
          else do {
            (saved, w) \<leftarrow> back_up env file_to_use w;
            if \<not> saved then Some (Inl 1, w)
            else
              let w = sys_unlink env source_filename w;
                  (_, w) = FreeSpaceForFile env dir w in
              Some (Inr (True, True), w) }
        else Some (Inr (\<not> enough_space, False), w) })"

datatype patched = InMemory MemorySinkInfo | InFile bytes

text \<open>One application of the patch, by the format its first bytes say.\<close>

definition apply_by_format ::
    "(nat \<Rightarrow> bool) \<Rightarrow> ('h, 'z) sha_scheme \<Rightarrow> ('s, 'y) bz_scheme \<Rightarrow> ('d, 'v) zimg_scheme \<Rightarrow> bytes \<Rightarrow> bytes \<Rightarrow> 't sink \<Rightarrow> 't \<Rightarrow>
     ((unit + int) \<times> 't \<times> 'h) option" where
  "apply_by_format malloc sha bz zl source patch sink token =
     (let ctx = sha_init sha in
      if length patch \<ge> 8 \<and> take 8 patch = BSDIFF40 then do {
        (result, token, ctx) \<leftarrow> ApplyBSDiffPatch malloc bz sink (sha_update sha) source (of_nat (length source)) patch 0 token ctx;
        Some (Inr result, token, ctx) }
      else if length patch \<ge> 8 \<and> take 8 patch = IMGDIFF2 then do {
        (err, token, ctx) \<leftarrow> ApplyImagePatch malloc bz zl sink (sha_update sha) source patch token ctx;
        Some (Inr (if err = None then 0 else -1), token, ctx) }
      else Some (Inl (), token, ctx))"

definition produce ::
    "(nat \<Rightarrow> bool) \<Rightarrow> ('h, 'z) sha_scheme \<Rightarrow> ('s, 'y) bz_scheme \<Rightarrow> ('d, 'v) zimg_scheme \<Rightarrow> env \<Rightarrow> bytes \<Rightarrow> u32 \<Rightarrow>
     FileContents \<Rightarrow> Value \<Rightarrow> 'm world \<Rightarrow> ((int + int \<times> patched \<times> 'h) \<times> 'm world) option" where
  "produce malloc sha bz zl env target_filename tgt_size file_to_use patch w =
     (if vtype patch \<noteq> VAL_BLOB then Some (Inl 1, w)
      else if is_partition target_filename then
        if \<not> malloc (unat tgt_size) then Some (Inl 1, w)
        else do {
          (r, msi, ctx) \<leftarrow> apply_by_format malloc sha bz zl (fc_data file_to_use) (vdata patch) MemorySink
             \<lparr>msi_buffer = replicate (unat tgt_size) 0, msi_size = tgt_size, msi_pos = 0\<rparr>;
          Some (map_sum (\<lambda>_. 1) (\<lambda>result. (result, InMemory msi, ctx)) r, w) }
      else
        let outname = target_filename @ str ''.patch'';
            (ok, w) = sys_create env outname w in
        if \<not> ok then Some (Inl 1, w)
        else do {
          (r, (_, w), ctx) \<leftarrow> apply_by_format malloc sha bz zl (fc_data file_to_use) (vdata patch) (FileSink env outname) (0, w);
          Some (map_sum (\<lambda>_. 1) (\<lambda>result. (result, InFile outname, ctx)) r, w) })"

text \<open>The rounds; the result is an early return, or the output with its hash and \<open>made_copy\<close>.\<close>

function rounds ::
    "(nat \<Rightarrow> bool) \<Rightarrow> ('h, 'z) sha_scheme \<Rightarrow> ('s, 'y) bz_scheme \<Rightarrow> ('d, 'v) zimg_scheme \<Rightarrow> env \<Rightarrow> bytes \<Rightarrow> bytes \<Rightarrow> u32 \<Rightarrow>
     FileContents \<Rightarrow> Value \<Rightarrow> bool \<Rightarrow> nat \<Rightarrow> bool \<Rightarrow> 'm world \<Rightarrow> ((int + patched \<times> 'h \<times> bool) \<times> 'm world) option" where
  "rounds malloc sha bz zl env source_filename target_filename tgt_size file_to_use patch from_source retry made_copy w = do {
     (room, w) \<leftarrow> make_room env source_filename target_filename tgt_size file_to_use from_source retry w;
     case room of
       Inl rc \<Rightarrow> Some (Inl rc, w)
     | Inr (cleared, made) \<Rightarrow> do {
         let retry1 = (if cleared then 0 else retry);
         let made_copy = (made_copy \<or> made);
         (r, w) \<leftarrow> produce malloc sha bz zl env target_filename tgt_size file_to_use patch w;
         case r of
           Inl rc \<Rightarrow> Some (Inl rc, w)
         | Inr (result, out, ctx) \<Rightarrow>
             if result = 0 then Some (Inr (out, ctx, made_copy), w)
             else if retry1 = 0 then Some (Inl 1, w)
             else
               let w = (case out of InFile outname \<Rightarrow> sys_unlink env outname w | InMemory _ \<Rightarrow> w) in
               rounds malloc sha bz zl env source_filename target_filename tgt_size file_to_use patch from_source
                 (retry1 - 1) made_copy w } }"
  by pat_completeness auto
termination
  by (relation "measure (\<lambda>(malloc, sha, bz, zl, env, sn, tn, ts, f, p, fs, retry, made, w). retry)") (auto split: if_splits)

declare rounds.simps [simp del]

definition install_output ::
    "env \<Rightarrow> ('m, 'r, 'x, 'y) mtd_ops_scheme \<Rightarrow> bytes \<Rightarrow> FileContents \<Rightarrow> patched \<Rightarrow> 'm world \<Rightarrow> (int \<times> 'm world) option" where
  "install_output env ops target_filename file_to_use out w =
     (case out of
        InMemory msi \<Rightarrow> do {
          (rc, w) \<leftarrow> WriteToPartition env ops (take (unat (msi_pos msi)) (msi_buffer msi)) target_filename w;
          Some (if rc \<noteq> 0 then 1 else 0, w) }
      | InFile outname \<Rightarrow>
          let (rc, w) = sys_chmod env outname (fc_mode file_to_use) w in
          if rc \<noteq> 0 then Some (1, w)
          else
            let (rc, w) = sys_chown env outname (fc_uid file_to_use) (fc_gid file_to_use) w in
            if rc \<noteq> 0 then Some (1, w)
            else
              let (rc, w) = sys_rename env outname target_filename w in
              Some (if rc \<noteq> 0 then 1 else 0, w))"

definition applypatch ::
    "(nat \<Rightarrow> bool) \<Rightarrow> ('h, 'z) sha_scheme \<Rightarrow> ('s, 'y) bz_scheme \<Rightarrow> ('d, 'v) zimg_scheme \<Rightarrow> env \<Rightarrow> ('m, 'r, 'x, 'u) mtd_ops_scheme \<Rightarrow>
     bytes \<Rightarrow> bytes \<Rightarrow> bytes \<Rightarrow> u32 \<Rightarrow> bytes list \<Rightarrow> Value list \<Rightarrow> 'm world \<Rightarrow> (int \<times> 'm world) option" where
  "applypatch malloc sha bz zl env ops source_filename target_filename target_sha1_str tgt_size patch_sha1_str patch_data w =
     (let target_filename = (if target_filename = str ''-'' then source_filename else target_filename) in
      case ParseSha1 target_sha1_str of
        None \<Rightarrow> Some (1, w)
      | Some target_sha1 \<Rightarrow> do {
          (chosen, w) \<leftarrow> choose_source malloc sha env ops source_filename target_filename target_sha1 patch_sha1_str patch_data w;
          case chosen of
            Inl rc \<Rightarrow> Some (rc, w)
          | Inr (file_to_use, patch, from_source) \<Rightarrow> do {
              (r, w) \<leftarrow> rounds malloc sha bz zl env source_filename target_filename tgt_size file_to_use patch from_source 1 False w;
              case r of
                Inl rc \<Rightarrow> Some (rc, w)
              | Inr (out, ctx, made_copy) \<Rightarrow>
                  if sha_final sha ctx \<noteq> target_sha1 then Some (1, w)
                  else do {
                    (rc, w) \<leftarrow> install_output env ops target_filename file_to_use out w;
                    if rc \<noteq> 0 then Some (rc, w)
                    else Some (0, if made_copy then sys_unlink env CACHE_TEMP_SOURCE w else w) } } })"

end
