(* ===== verification/PatchSafety.thy ===== *)
theory PatchSafety
  imports Applypatch
begin

text \<open>
  What \<open>applypatch\<close> promises for files: it can be interrupted at any moment and resumed, and when
  nothing fails it replaces the target by the patched source.  The first sections follow the
  writing and loading of files and the rounds of an update; \<open>returns\<close> statements show at the
  same time that the functions are defined.
\<close>

section \<open>Writing\<close>

lemma sys_write_appends:
  assumes "sys_write env path (length (f_data f)) buf w = (n, w')" and "fs w path = Some f" and "0 \<le> n"
  shows "n \<le> int (length buf)" and "fs w' path = Some (f\<lparr>f_data := f_data f @ take (nat n) buf\<rparr>)"
  using assms by (auto simp: sys_write_def Let_def split: if_splits)

lemma touches_write:
  "sys_write env path off buf w = (n, w') \<Longrightarrow> touches path w w'"
  "sys_create env path w = (ok, w') \<Longrightarrow> touches path w w'"
  "sys_chmod env path mode w = (rc, w') \<Longrightarrow> touches path w w'"
  "sys_chown env path uid gid w = (rc, w') \<Longrightarrow> touches path w w'"
  using touches_calls [of path w env] by (metis snd_conv)+

lemma sink_loop_spec:
  assumes "sink_loop env path buf (length (f_data f), w) = (n, off, w')" and "fs w path = Some f"
  shows "touches path w w' \<and> 0 \<le> n \<and> n \<le> int (length buf) \<and>
    fs w' path = Some (f\<lparr>f_data := f_data f @ take (nat n) buf\<rparr>)"
  using assms
proof (induction "length buf" arbitrary: buf f w n rule: less_induct)
  case less
  obtain k w1 where k: "sys_write env path (length (f_data f)) buf w = (k, w1)" by fastforce
  show ?case
  proof (cases "buf = [] \<or> k \<le> 0")
    case True
    have "k = 0 \<Longrightarrow> fs w1 path = Some f" using sys_write_appends [OF k less.prems(2)] by simp
    moreover have "k < 0 \<Longrightarrow> fs w1 path = Some f" using k less.prems(2) by (auto simp: sys_write_def Let_def split: if_splits)
    ultimately have "k \<le> 0 \<Longrightarrow> fs w1 path = Some f" by (cases "k = 0") auto
    then show ?thesis using True less.prems k touches_write(1) [OF k]
      by (cases "buf = []") (auto simp: sink_loop.simps [of env path buf] sink_loop.simps [of env path "[]"])
  next
    case False
    let ?f1 = "f\<lparr>f_data := f_data f @ take (nat k) buf\<rparr>"
    have "0 \<le> k" using False by simp
    note one = sys_write_appends [OF k less.prems(2) this]
    have len: "length (f_data ?f1) = length (f_data f) + nat k" using one(1) False by simp
    obtain n1 where n1: "sink_loop env path (drop (nat k) buf) (length (f_data ?f1), w1) = (n1, off, w')" "n = k + n1"
      using less.prems(1) False k unfolding len
      by (auto simp: sink_loop.simps [of env path buf] split: prod.splits)
    have "length (drop (nat k) buf) < length buf" using False by auto
    from less.hyps [OF this n1(1) one(2)] False
    have ih: "touches path w1 w' \<and> 0 \<le> n1 \<and> n1 \<le> int (length (drop (nat k) buf)) \<and>
        fs w' path = Some (?f1\<lparr>f_data := f_data ?f1 @ take (nat n1) (drop (nat k) buf)\<rparr>)" by simp
    have "take (nat k) buf @ take (nat n1) (drop (nat k) buf) = take (nat n) buf"
      using ih False n1(2) by (simp add: nat_add_distrib take_add)
    then show ?thesis using ih False n1(2) one(1) touches_trans [OF touches_write(1) [OF k]] by (auto simp: of_nat_diff)
  qed
qed

lemma FileSink_spec:
  assumes "FileSink env path buf (length (f_data f), w) = Some (n, off, w')" and "fs w path = Some f"
  shows "touches path w w'" and "\<exists>d. fs w' path = Some (f\<lparr>f_data := d\<rparr>)"
    and "int (length buf) \<le> n \<or> n = sint (of_nat (length buf) :: u32) \<Longrightarrow> length buf < 2 ^ 32 \<Longrightarrow>
         n = int (length buf) \<and> fs w' path = Some (f\<lparr>f_data := f_data f @ buf\<rparr>)"
proof -
  let ?len = "of_nat (length buf) :: u32"
  have all: "touches path w w' \<and> (\<exists>d. fs w' path = Some (f\<lparr>f_data := d\<rparr>)) \<and>
     ((int (length buf) \<le> n \<or> n = sint ?len) \<longrightarrow> length buf < 2 ^ 32 \<longrightarrow>
         n = int (length buf) \<and> fs w' path = Some (f\<lparr>f_data := f_data f @ buf\<rparr>))"
  proof (cases "sint ?len \<le> 0")
    case True
    then have r: "n = 0" "w' = w" using assms(1) by (auto simp: FileSink_def)
    have "sint ?len = 0 \<Longrightarrow> length buf < 2 ^ 32 \<Longrightarrow> buf = []"
    proof -
      assume z: "sint ?len = 0" and l: "length buf < 2 ^ 32"
      have "?len = 0" using z by (metis signed_0 signed_word_eqI)
      then have "unat ?len = 0" by simp
      then show "buf = []" using l by (simp add: unat_of_nat_u32)
    qed
    then show ?thesis using r assms(2) exI [of "\<lambda>d. f = f\<lparr>f_data := d\<rparr>" "f_data f"] by auto
  next
    case False
    then have s: "sink_loop env path buf (length (f_data f), w) = (n, off, w')" using assms(1) by (simp add: FileSink_def)
    note spec = sink_loop_spec [OF s assms(2)]
    have "sint ?len = int (length buf)" if "length buf < 2 ^ 32"
      using False that sint_nonneg [of ?len] by (simp add: unat_of_nat_u32)
    then show ?thesis using spec by (auto simp: nat_eq_iff)
  qed
  show "touches path w w'" "\<exists>d. fs w' path = Some (f\<lparr>f_data := d\<rparr>)"
    "int (length buf) \<le> n \<or> n = sint ?len \<Longrightarrow> length buf < 2 ^ 32 \<Longrightarrow>
         n = int (length buf) \<and> fs w' path = Some (f\<lparr>f_data := f_data f @ buf\<rparr>)"
    using all by blast+
qed

section \<open>Loading and saving\<close>

text \<open>What loading takes of a file: the sizes are 32-bit numbers.\<close>

definition loaded :: "bytes \<Rightarrow> bytes" where
  "loaded d = take (unat (of_nat (length d) :: u32)) d"

lemma loaded_short: "length d < 2 ^ 32 \<Longrightarrow> loaded d = d"
  by (simp add: loaded_def unat_of_nat_u32)

lemma length_loaded: "length (loaded d) < 2 ^ 32"
proof -
  have "length (loaded d) \<le> unat (of_nat (length d) :: u32)" by (simp add: loaded_def)
  also have "\<dots> < 2 ^ 32" using unsigned_less [of "of_nat (length d) :: u32", where 'a = nat] by simp
  finally show ?thesis .
qed

lemma loaded_loaded [simp]: "loaded (loaded d) = loaded d"
  by (rule loaded_short) (rule length_loaded)

definition regular :: "files \<Rightarrow> bytes \<Rightarrow> bool" where
  "regular f p \<longleftrightarrow> (\<forall>i. f p = Some i \<longrightarrow> f_regular i)"

lemma LoadFileContents_plain:
  assumes "\<not> is_partition p" and "\<And>n. malloc n"
  shows "returns (LoadFileContents malloc sha env ops p w) (\<lambda>(r, w'). same w w' \<and>
    (\<forall>fc. r = Some fc \<longrightarrow> (\<exists>f. fs w p = Some f \<and> fc_data fc = loaded (f_data f) \<and> fc_sha1 fc = SHA sha (fc_data fc))))"
proof -
  obtain st w1 where st: "sys_stat env p w = (st, w1)" by fastforce
  obtain f w2 where f: "sys_open env p w1 = (f, w2)" by fastforce
  have one: "same w w1" and two: "same w w2"
    using same_calls(1) [OF st] same_trans [OF same_calls(1) [OF st] same_calls(2) [OF f]] .
  have fd: "f = Some i \<Longrightarrow> fs w p = Some i" and std: "st = Some i \<Longrightarrow> fs w p = Some i" for i
    using f st one by (auto simp: sys_open_def sys_stat_def same_def split: if_splits)
  show ?thesis
  proof (cases "st = None \<or> f = None")
    case True
    then show ?thesis using assms one two st f by (auto simp: LoadFileContents_def returns_def split: option.splits)
  next
    case False
    then obtain i where i: "st = Some i" "f = Some i" "fs w p = Some i" using fd std by auto
    let ?n = "unat (of_nat (length (f_data i)) :: u32)"
    obtain d w3 where d: "sys_read env (f_data i) 0 ?n w2 = (d, w3)" by fastforce
    have "same w w3" using same_trans [OF two same_calls(3) [OF d]] .
    moreover have "length d = ?n \<Longrightarrow> d = loaded (f_data i)"
      using d by (auto simp: sys_read_def loaded_def min_def split: if_splits)
    ultimately show ?thesis using assms st f d i
      by (auto simp: LoadFileContents_def returns_def Let_def)
  qed
qed

lemma sys_update_keeps:
  "sys_chmod env path mode w = (rc, w') \<Longrightarrow> fs w path = Some f \<Longrightarrow>
     \<exists>g. fs w' path = Some g \<and> f_data g = f_data f \<and> f_regular g = f_regular f"
  "sys_chown env path uid gid w = (rc, w') \<Longrightarrow> fs w path = Some f \<Longrightarrow>
     \<exists>g. fs w' path = Some g \<and> f_data g = f_data f \<and> f_regular g = f_regular f"
  by (auto simp: sys_chmod_def sys_chown_def sys_update_def split: if_splits)

lemma sys_create_spec:
  assumes "sys_create env path w = (ok, w')" and "regular (fs w) path"
  shows "regular (fs w') path" and "ok \<Longrightarrow> \<exists>f. fs w' path = Some f \<and> f_data f = []"
  using assms by (auto simp: sys_create_def regular_def split: if_splits option.splits)

lemma SaveFileContents_spec:
  assumes "regular (fs w) path" and "length (fc_data fc) < 2 ^ 32"
  shows "returns (SaveFileContents env path fc w) (\<lambda>(rc, w'). touches path w w' \<and> regular (fs w') path \<and>
    (rc \<ge> 0 \<longrightarrow> (\<exists>f. fs w' path = Some f \<and> f_data f = fc_data fc)))"
proof -
  obtain ok w1 where c: "sys_create env path w = (ok, w1)" by fastforce
  note create = sys_create_spec [OF c assms(1)] touches_write(2) [OF c]
  show ?thesis
  proof (cases ok)
    case False
    then show ?thesis using c create by (simp add: SaveFileContents_def returns_def)
  next
    case True
    then obtain f where f: "fs w1 path = Some f" "f_data f = []" "f_regular f" using create by (auto simp: regular_def)
    obtain n off w2 where s: "FileSink env path (fc_data fc) (length (f_data f), w1) = Some (n, off, w2)"
      unfolding FileSink_def using prod_cases3 by (metis (no_types, lifting))
    note sink = FileSink_spec [OF s f(1)]
    obtain d where d: "fs w2 path = Some (f\<lparr>f_data := d\<rparr>)" using sink(2) by blast
    obtain rc3 w3 where m: "sys_chmod env path (fc_mode fc) w2 = (rc3, w3)" by fastforce
    obtain rc4 w4 where o: "sys_chown env path (fc_uid fc) (fc_gid fc) w3 = (rc4, w4)" by fastforce
    obtain g3 where g3: "fs w3 path = Some g3" "f_data g3 = d" "f_regular g3"
      using sys_update_keeps(1) [OF m d] f(3) by auto
    obtain g4 where g4: "fs w4 path = Some g4" "f_data g4 = d" "f_regular g4"
      using sys_update_keeps(2) [OF o g3(1)] g3 by auto
    have t: "touches path w w2" "touches path w w3" "touches path w w4"
      using create(3) sink(1) touches_write(3) [OF m] touches_write(4) [OF o] by (meson touches_trans)+
    have "map_option f_data (fs w2 path) = Some d" using d by simp
    then have "n = sint (fc_size fc) \<Longrightarrow> d = fc_data fc" using sink(3) assms(2) f(2) by auto
    then show ?thesis using True c s f(2) m o t g3 g4 d f(3)
      by (auto simp: SaveFileContents_def returns_def regular_def)
  qed
qed

section \<open>What must survive\<close>

text \<open>
  \<open>has sha f p hs\<close>: loading the file at \<open>p\<close> gives contents with a digest in \<open>hs\<close>.  In a
  file system from which an interrupted update can be resumed, the target is already patched, or
  the source or its saved copy is one the patches apply to.
\<close>

definition has :: "('h, 'z) sha_scheme \<Rightarrow> files \<Rightarrow> bytes \<Rightarrow> bytes set \<Rightarrow> bool" where
  "has sha f p hs \<longleftrightarrow> (\<exists>i. f p = Some i \<and> SHA sha (loaded (f_data i)) \<in> hs)"

definition patchable :: "bytes list \<Rightarrow> bytes set" where
  "patchable patch_sha1_str = {h. \<exists>s \<in> set patch_sha1_str. ParseSha1 s = Some h}"

definition source_left :: "('h, 'z) sha_scheme \<Rightarrow> bytes \<Rightarrow> bytes set \<Rightarrow> files \<Rightarrow> bool" where
  "source_left sha source hs f \<longleftrightarrow> has sha f source hs \<or> has sha f CACHE_TEMP_SOURCE hs"

definition resumable :: "('h, 'z) sha_scheme \<Rightarrow> bytes \<Rightarrow> bytes \<Rightarrow> bytes \<Rightarrow> bytes set \<Rightarrow> files \<Rightarrow> bool" where
  "resumable sha source target target_sha1 hs f \<longleftrightarrow> has sha f target {target_sha1} \<or> source_left sha source hs f"

lemma has_other: "p \<noteq> q \<Longrightarrow> has sha (f(p := v)) q hs = has sha f q hs"
  by (simp add: has_def)

lemma find_patch_ge: "find_patch h strs i \<ge> 0 \<Longrightarrow> 0 \<le> i \<Longrightarrow> \<exists>k < length strs. find_patch h strs i = i + int k \<and> ParseSha1 (strs ! k) = Some h"
proof (induction h strs i rule: find_patch.induct)
  case (2 h s strs i)
  show ?case
  proof (cases "ParseSha1 s = Some h")
    case False
    then obtain k where "k < length strs" "find_patch h strs (i + 1) = i + 1 + int k" "ParseSha1 (strs ! k) = Some h"
      using 2 by auto
    then show ?thesis using False by (intro exI [of _ "Suc k"]) auto
  qed auto
qed simp

lemma patch_for_spec:
  assumes "length patch_data = length strs" and "patch_for strs patch_data fc = r"
  shows "r = Some None \<or> (\<exists>p \<in> set patch_data. r = Some (Some p) \<and> fc_sha1 fc \<in> patchable strs)"
  using assms find_patch_ge [of "fc_sha1 fc" strs 0]
  by (auto simp: patch_for_def FindMatchingPatch_def patchable_def Let_def split: if_splits intro: nth_mem)

section \<open>The rounds of an update of a file\<close>

abbreviation patch_name :: "bytes \<Rightarrow> bytes" where
  "patch_name target \<equiv> target @ str ''.patch''"

text \<open>
  Neither name is a partition, the source is not below \<open>/cache\<close>, and the target, its \<open>.patch\<close>
  file and the saved copy are different files.
\<close>

definition plain_names :: "bytes \<Rightarrow> bytes \<Rightarrow> bool" where
  "plain_names source target \<longleftrightarrow> \<not> is_partition source \<and> \<not> is_partition target \<and> target \<noteq> [] \<and>
     take 7 source \<noteq> str ''/cache/'' \<and> target \<noteq> CACHE_TEMP_SOURCE \<and> patch_name target \<noteq> source \<and>
     patch_name target \<noteq> CACHE_TEMP_SOURCE"

lemma plain_namesD:
  assumes "plain_names source target"
  shows "source \<noteq> CACHE_TEMP_SOURCE" "\<not> in_cache source" "\<not> in_cache CACHE_TEMP_SOURCE" "patch_name target \<noteq> target"
  using assms cache_path [of source] by (auto simp: plain_names_def in_cache_def CACHE_TEMP_SOURCE_def str_def)

lemma back_up_spec:
  assumes "steady env" and "plain_names source target" and "has sha (fs w) source hs"
    and "regular (fs w) CACHE_TEMP_SOURCE" and "regular (fs w) (patch_name target)"
    and "length (fc_data fc) < 2 ^ 32" and "SHA sha (fc_data fc) \<in> hs"
  shows "returns (back_up env fc w) (\<lambda>(saved, w'). extends (source_left sha source hs) w w' \<and>
    source_left sha source hs (fs w') \<and> regular (fs w') (patch_name target) \<and> (saved \<longrightarrow> has sha (fs w') CACHE_TEMP_SOURCE hs))"
proof -
  let ?J = "source_left sha source hs" and ?P = "\<lambda>g. has sha g source hs \<and> regular g (patch_name target)"
  let ?S = "spares (expendable env (fs w)) (fs w)"
  obtain rc1 w1 where m: "MakeFreeSpaceOnCache env (fc_size fc) w = (rc1, w1)" by fastforce
  have e1: "extends ?S w w1" using MakeFreeSpaceOnCache_extends [OF assms(1) m] .
  have s: "?S g \<Longrightarrow> ?P g \<and> regular g CACHE_TEMP_SOURCE" for g
    using assms(3,4,5) plain_namesD(2) [OF assms(2)] plain_namesD(3) [OF assms(2)]
    unfolding spares_def has_def regular_def expendable_def by (metis option.distinct(1))
  have s1: "?S (fs w1)" using e1 by (auto simp: extends_def spares_def)
  have j1: "extends ?J w w1" "?J (fs w1)" using extends_mono [OF e1] s s1 by (auto simp: source_left_def)
  obtain rc2 w2 where sv: "SaveFileContents env CACHE_TEMP_SOURCE fc w1 = Some (rc2, w2)"
    and t: "touches CACHE_TEMP_SOURCE w1 w2" and g: "rc2 \<ge> 0 \<longrightarrow> (\<exists>f. fs w2 CACHE_TEMP_SOURCE = Some f \<and> f_data f = fc_data fc)"
    using returns_pairE [OF SaveFileContents_spec [of w1 CACHE_TEMP_SOURCE fc env]] s [OF s1] assms(6) by metis
  have "ignores CACHE_TEMP_SOURCE ?P" using assms(2) plain_namesD(1) [OF assms(2)]
    by (auto simp: ignores_def has_def regular_def plain_names_def)
  then have two: "extends ?P w1 w2" "?P (fs w2)" using touchesD [OF t] s [OF s1] by blast+
  have j2: "extends ?J w w2" "?J (fs w2)"
    using extends_trans [OF j1(1) extends_mono [OF two(1)]] two(2) by (auto simp: source_left_def)
  have "rc2 \<ge> 0 \<Longrightarrow> has sha (fs w2) CACHE_TEMP_SOURCE hs"
    using g assms(6,7) by (auto simp: has_def loaded_short)
  then show ?thesis using m sv j1 j2 two s [OF s1]
    by (auto simp: back_up_def returns_def)
qed

lemma FreeSpaceForFile_same: "FreeSpaceForFile env p w = (n, w') \<Longrightarrow> same w w'"
  by (auto simp: FreeSpaceForFile_def sys_statfs_def split: if_splits)

text \<open>What holds at the start of a round.\<close>

definition round_start :: "('h, 'z) sha_scheme \<Rightarrow> bytes \<Rightarrow> bytes \<Rightarrow> bytes set \<Rightarrow> bool \<Rightarrow> files \<Rightarrow> bool" where
  "round_start sha source target hs from_source f \<longleftrightarrow>
     has sha f (if from_source then source else CACHE_TEMP_SOURCE) hs \<and>
     regular f CACHE_TEMP_SOURCE \<and> regular f (patch_name target)"

lemma round_start_left: "round_start sha source target hs b f \<Longrightarrow> source_left sha source hs f"
  by (auto simp: round_start_def source_left_def split: if_splits)

lemma make_room_spec:
  assumes "steady env" and "plain_names source target" and "round_start sha source target hs from_source (fs w)"
    and "length (fc_data fc) < 2 ^ 32" and "SHA sha (fc_data fc) \<in> hs"
  shows "returns (make_room env source target tsize fc from_source retry w) (\<lambda>(r, w'). extends (source_left sha source hs) w w' \<and>
    source_left sha source hs (fs w') \<and> regular (fs w') (patch_name target) \<and>
    (case r of Inl rc \<Rightarrow> rc = 1 | Inr (cleared, made) \<Rightarrow> \<not> cleared \<longrightarrow> fs w' = fs w \<and> 0 < retry))"
proof -
  let ?J = "source_left sha source hs"
  obtain dir where dir: "target_fs target = Some dir" using assms(2) by (cases target) (auto simp: plain_names_def target_fs_def)
  obtain n1 w1 where f: "FreeSpaceForFile env dir w = (n1, w1)" by fastforce
  let ?w1 = "if retry > 0 then w1 else w"
  let ?enough = "retry > 0 \<and> n1 > 0x40000 \<and> n1 > tsize * 3 div 2"
  have s: "same w ?w1" using FreeSpaceForFile_same [OF f] by simp
  then have fs1: "fs ?w1 = fs w" by (simp add: same_def)
  have j: "?J (fs w)" by (rule round_start_left [OF assms(3)])
  have plain: "\<not> is_partition target" "\<not> is_partition source" using assms(2) by (simp_all add: plain_names_def)
  have unfolded: "make_room env source target tsize fc from_source retry w =
      (if \<not> ?enough \<and> from_source then do {
            (saved, w) \<leftarrow> back_up env fc ?w1;
            if \<not> saved then Some (Inl 1, w)
            else let w = sys_unlink env source w; (_, w) = FreeSpaceForFile env dir w in Some (Inr (True, True), w) }
       else Some (Inr (\<not> ?enough, False), ?w1))"
    using dir f plain by (simp add: make_room_def)
  show ?thesis
  proof (cases "\<not> ?enough \<and> from_source")
    case False
    then show ?thesis unfolding unfolded returns_def
      using s j assms(3) same_extends [OF s] fs1 by (auto simp: round_start_def)
  next
    case True
    then have start: "has sha (fs ?w1) source hs" "regular (fs ?w1) CACHE_TEMP_SOURCE" "regular (fs ?w1) (patch_name target)"
      using assms(3) fs1 by (simp_all add: round_start_def)
    obtain saved w2 where b: "back_up env fc ?w1 = Some (saved, w2)" and
      post: "extends ?J ?w1 w2 \<and> ?J (fs w2) \<and> regular (fs w2) (patch_name target) \<and> (saved \<longrightarrow> has sha (fs w2) CACHE_TEMP_SOURCE hs)"
      using returns_pairE [OF back_up_spec [OF assms(1,2) start assms(4,5)]] by blast
    have e2: "extends ?J w w2" using post same_extends [OF s] extends_trans by blast
    show ?thesis
    proof (cases saved)
      case False
      then show ?thesis unfolding unfolded using True b e2 post by (simp add: returns_def)
    next
      case saved: True
      let ?w3 = "sys_unlink env source w2"
      obtain n4 w4 where f4: "FreeSpaceForFile env dir ?w3 = (n4, w4)" by fastforce
      have ig: "ignores source (\<lambda>g. has sha g CACHE_TEMP_SOURCE hs \<and> regular g (patch_name target))"
        using assms(2) plain_namesD(1) [OF assms(2)] by (auto simp: ignores_def has_def regular_def plain_names_def)
      have three: "extends ?J w2 ?w3" "has sha (fs ?w3) CACHE_TEMP_SOURCE hs" "regular (fs ?w3) (patch_name target)"
        using touchesD [OF touches_calls(3) ig, of w2 env] post saved
        by (auto elim!: extends_mono simp: source_left_def)
      have s4: "same ?w3 w4" by (rule FreeSpaceForFile_same [OF f4])
      have "extends ?J w w4" using extends_trans [OF extends_trans [OF e2 three(1)] same_extends [OF s4]] .
      then show ?thesis unfolding unfolded using True b saved f4 three s4
        by (auto simp: returns_def same_def source_left_def)
    qed
  qed
qed

lemma produce_spec:
  assumes "plain_names source target" and "regular (fs w) (patch_name target)" and "take 8 (vdata patch) = BSDIFF40"
    and "ApplyBSDiffPatchMem malloc bz (fc_data fc) (of_nat (length (fc_data fc))) (vdata patch) 0 \<noteq> None"
  shows "returns (produce malloc sha bz zl env target tsize fc patch w) (\<lambda>(r, w').
    touches (patch_name target) w w' \<and> regular (fs w') (patch_name target) \<and>
    (case r of Inl rc \<Rightarrow> rc = 1
     | Inr (result, out, ctx) \<Rightarrow> out = InFile (patch_name target) \<and>
         (result = 0 \<longrightarrow> has sha (fs w') (patch_name target) {sha_final sha ctx})))"
proof -
  let ?out = "patch_name target"
  have plain: "\<not> is_partition target" using assms(1) by (simp add: plain_names_def)
  obtain ok w1 where c: "sys_create env ?out w = (ok, w1)" by fastforce
  note create = sys_create_spec [OF c assms(2)] touches_write(2) [OF c]
  have len: "8 \<le> length (vdata patch)"
  proof -
    have "length (take 8 (vdata patch)) = 8" using assms(3) by (simp add: BSDIFF40_def)
    then show ?thesis by simp
  qed
  show ?thesis
  proof (cases "vtype patch = VAL_BLOB \<and> ok")
    case False
    then show ?thesis using plain c create assms(2) by (auto simp: produce_def returns_def)
  next
    case True
    then obtain f where f: "fs w1 ?out = Some f" "f_data f = []" "f_regular f" using create by (auto simp: regular_def)
    obtain r where r: "ApplyBSDiffPatchMem malloc bz (fc_data fc) (of_nat (length (fc_data fc))) (vdata patch) 0 = Some r"
      using assms(4) by blast
    show ?thesis
    proof (cases r)
      case (Inl err)
      then show ?thesis using True plain c create r len assms(3)
        by (simp add: produce_def returns_def apply_by_format_def ApplyBSDiffPatch_def)
    next
      case (Inr nd)
      obtain n off w2 where s: "FileSink env ?out nd (length (f_data f), w1) = Some (n, off, w2)"
        unfolding FileSink_def using prod_cases3 by (metis (no_types, lifting))
      note sink = FileSink_spec [OF s f(1)]
      have short: "length nd < 2 ^ 32" using ApplyBSDiffPatchMem_length r Inr by blast
      have t: "touches ?out w w2" using touches_trans [OF create(3) sink(1)] .
      have reg: "regular (fs w2) ?out" using sink(2) f(3) by (auto simp: regular_def)
      have "int (length nd) \<le> n \<Longrightarrow> has sha (fs w2) ?out {SHA sha nd}"
        using sink(3) short f(2) by (auto simp: has_def loaded_short)
      then show ?thesis using True plain c r Inr len assms(3) s f(2) t reg
        by (cases "n < int (length nd)") (auto simp: produce_def returns_def apply_by_format_def ApplyBSDiffPatch_def SHA_def)
    qed
  qed
qed

lemma rounds_spec:
  assumes "steady env" and "plain_names source target" and "length (fc_data fc) < 2 ^ 32" and "SHA sha (fc_data fc) \<in> hs"
    and "take 8 (vdata patch) = BSDIFF40"
    and "ApplyBSDiffPatchMem malloc bz (fc_data fc) (of_nat (length (fc_data fc))) (vdata patch) 0 \<noteq> None"
    and "round_start sha source target hs from_source (fs w)"
  shows "returns (rounds malloc sha bz zl env source target tsize fc patch from_source retry made w) (\<lambda>(r, w').
    extends (source_left sha source hs) w w' \<and> source_left sha source hs (fs w') \<and>
    (case r of Inl rc \<Rightarrow> rc = 1
     | Inr (out, ctx, made') \<Rightarrow> out = InFile (patch_name target) \<and> has sha (fs w') (patch_name target) {sha_final sha ctx}))"
  using assms(7)
proof (induction retry arbitrary: made w rule: less_induct)
  case (less retry)
  let ?J = "source_left sha source hs" and ?out = "patch_name target"
  have ig: "ignores ?out ?J" "ignores ?out (\<lambda>f. has sha f (if from_source then source else CACHE_TEMP_SOURCE) hs \<and>
      regular f CACHE_TEMP_SOURCE)"
    using assms(2) by (auto simp: ignores_def source_left_def has_def regular_def plain_names_def)
  obtain room w1 where m: "make_room env source target tsize fc from_source retry w = Some (room, w1)" and
    room: "extends ?J w w1 \<and> ?J (fs w1) \<and> regular (fs w1) ?out \<and>
      (case room of Inl rc \<Rightarrow> rc = 1 | Inr (cleared, made) \<Rightarrow> \<not> cleared \<longrightarrow> fs w1 = fs w \<and> 0 < retry)"
    by (rule returns_pairE [OF make_room_spec [OF assms(1,2) less.prems assms(3,4), where retry = retry and tsize = tsize]])
  show ?case
  proof (cases room)
    case (Inl rc)
    then show ?thesis using m room by (simp add: rounds.simps [where retry = retry] returns_def)
  next
    case (Inr cm)
    obtain cleared made1 where cm: "cm = (cleared, made1)" by fastforce
    obtain r w2 where p: "produce malloc sha bz zl env target tsize fc patch w1 = Some (r, w2)" and
      prod: "touches ?out w1 w2 \<and> regular (fs w2) ?out \<and>
        (case r of Inl rc \<Rightarrow> rc = 1 | Inr (result, out, ctx) \<Rightarrow> out = InFile ?out \<and>
           (result = 0 \<longrightarrow> has sha (fs w2) ?out {sha_final sha ctx}))"
      using returns_pairE [OF produce_spec [OF assms(2) _ assms(5,6), where w = w1 and sha = sha and env = env and tsize = tsize and zl = zl]]
        room by blast
    have two: "extends ?J w w2" "?J (fs w2)"
      using touchesD [OF _ ig(1)] prod room extends_trans by blast+
    show ?thesis
    proof (cases "\<exists>result ctx. r = Inr (result, InFile ?out, ctx) \<and> result \<noteq> 0 \<and> \<not> cleared")
      case False
      show ?thesis
      proof (cases r)
        case (Inl rc)
        then show ?thesis using m Inr cm p prod two by (subst rounds.simps) (simp add: returns_def)
      next
        case r: (Inr rest)
        obtain result out ctx where "rest = (result, out, ctx)" by (cases rest)
        then show ?thesis using False m Inr cm p prod two r
          by (cases "result = 0"; cases cleared; subst rounds.simps) (simp_all add: returns_def)
      qed
    next
      case True
      then obtain result ctx where r: "r = Inr (result, InFile ?out, ctx)" "result \<noteq> 0" "\<not> cleared" by blast
      let ?w3 = "sys_unlink env ?out w2"
      have retry: "0 < retry" and fs1: "fs w1 = fs w" using room Inr cm r(3) by auto
      have t: "touches ?out w1 ?w3" using prod touches_trans touches_calls(3) by blast
      have j3: "extends ?J w ?w3" "?J (fs ?w3)" using touchesD [OF t ig(1)] room extends_trans by blast+
      have "regular (fs ?w3) ?out" using prod by (simp add: sys_unlink_def regular_def)
      then have "round_start sha source target hs from_source (fs ?w3)"
        using touchesD [OF t ig(2)] less.prems fs1 by (simp add: round_start_def)
      from less.IH [OF _ this, of "retry - 1" "made \<or> made1"] retry
      have "returns (rounds malloc sha bz zl env source target tsize fc patch from_source (retry - 1) (made \<or> made1) ?w3) (\<lambda>(r, w').
        extends ?J ?w3 w' \<and> ?J (fs w') \<and>
        (case r of Inl rc \<Rightarrow> rc = 1
         | Inr (out, ctx, made') \<Rightarrow> out = InFile ?out \<and> has sha (fs w') ?out {sha_final sha ctx}))" by simp
      moreover have "rounds malloc sha bz zl env source target tsize fc patch from_source retry made w =
        rounds malloc sha bz zl env source target tsize fc patch from_source (retry - 1) (made \<or> made1) ?w3"
        using m Inr cm p r retry by (subst rounds.simps) (simp add: Let_def)
      ultimately show ?thesis using j3(1) by (elim returns_pairE) (auto simp: returns_def intro: extends_trans)
    qed
  qed
qed

section \<open>Choosing the source\<close>

lemma choose_source_spec:
  assumes "plain_names source target" and "\<And>n. malloc n" and "length patch_data = length strs"
  shows "returns (choose_source malloc sha env ops source target target_sha1 strs patch_data w) (\<lambda>(r, w'). same w w' \<and>
    (case r of Inl rc \<Rightarrow> rc = 1 \<or> rc = 0 \<and> has sha (fs w) target {target_sha1}
     | Inr (fc, patch, from_source) \<Rightarrow> patch \<in> set patch_data \<and> length (fc_data fc) < 2 ^ 32 \<and>
         SHA sha (fc_data fc) \<in> patchable strs \<and>
         has sha (fs w) (if from_source then source else CACHE_TEMP_SOURCE) (patchable strs)))"
proof -
  have plain: "\<not> is_partition source" "\<not> is_partition target" using assms(1) by (simp_all add: plain_names_def)
  have cts: "\<not> is_partition CACHE_TEMP_SOURCE" by (simp add: is_partition_def CACHE_TEMP_SOURCE_def str_def)
  note load = returns_pairE [OF LoadFileContents_plain [where malloc = malloc and sha = sha and env = env and ops = ops]]
  obtain r1 w1 where l1: "LoadFileContents malloc sha env ops target w = Some (r1, w1)" "same w w1"
    "\<And>fc. r1 = Some fc \<Longrightarrow> \<exists>f. fs w target = Some f \<and> fc_data fc = loaded (f_data f) \<and> fc_sha1 fc = SHA sha (fc_data fc)"
    by (rule load [OF plain(2) assms(2)]) blast
  show ?thesis
  proof (cases "r1 \<noteq> None \<and> fc_sha1 (the r1) = target_sha1")
    case True
    then show ?thesis using l1 by (fastforce simp: choose_source_def returns_def has_def)
  next
    case False
    obtain r2 w2 where l2: "(if r1 = None \<or> target \<noteq> source then LoadFileContents malloc sha env ops source w1 else Some (r1, w1)) =
        Some (r2, w2)" "same w w2"
      "\<And>fc. r2 = Some fc \<Longrightarrow> \<exists>f. fs w source = Some f \<and> fc_data fc = loaded (f_data f) \<and> fc_sha1 fc = SHA sha (fc_data fc)"
    proof (cases "r1 = None \<or> target \<noteq> source")
      case True
      obtain r2 w2 where "LoadFileContents malloc sha env ops source w1 = Some (r2, w2)" "same w1 w2"
        "\<And>fc. r2 = Some fc \<Longrightarrow> \<exists>f. fs w1 source = Some f \<and> fc_data fc = loaded (f_data f) \<and> fc_sha1 fc = SHA sha (fc_data fc)"
        by (rule load [OF plain(1) assms(2)]) blast
      then show ?thesis using True l1(2) that [of r2 w2] same_trans [of w w1 w2] by (simp add: same_def)
    next
      case False
      then show ?thesis using l1 that [of r1 w1] by (cases r1) auto
    qed
    define sp where "sp = (case r2 of None \<Rightarrow> Some None | Some fc \<Rightarrow> patch_for strs patch_data fc)"
    have sp: "sp = Some None \<or> (\<exists>fc. \<exists>p \<in> set patch_data. r2 = Some fc \<and> sp = Some (Some p) \<and> fc_sha1 fc \<in> patchable strs)"
      using patch_for_spec [OF assms(3) refl] unfolding sp_def by (fastforce split: option.splits)
    obtain r3 w3 where l3: "LoadFileContents malloc sha env ops CACHE_TEMP_SOURCE w2 = Some (r3, w3)" "same w2 w3"
        "\<And>fc. r3 = Some fc \<Longrightarrow> \<exists>f. fs w2 CACHE_TEMP_SOURCE = Some f \<and> fc_data fc = loaded (f_data f) \<and> fc_sha1 fc = SHA sha (fc_data fc)"
      by (rule load [OF cts assms(2)]) blast
    have unfolded: "choose_source malloc sha env ops source target target_sha1 strs patch_data w = do {
       source_patch \<leftarrow> sp;
       case source_patch of
         Some patch \<Rightarrow> Some (Inr (the r2, patch, True), w2)
       | None \<Rightarrow> (case r3 of
             None \<Rightarrow> Some (Inl 1, w3)
           | Some fc \<Rightarrow> do {
               copy_patch \<leftarrow> patch_for strs patch_data fc;
               Some (case copy_patch of None \<Rightarrow> Inl 1 | Some patch \<Rightarrow> Inr (fc, patch, False), w3) }) }"
      by (simp only: choose_source_def l1(1) l2(1) l3(1) if_not_P [OF False] sp_def Option.bind.simps prod.case)
    have s3: "same w w3" using same_trans [OF l2(2) l3(2)] .
    have fs2: "fs w2 = fs w" using l2(2) by (simp add: same_def)
    from sp show ?thesis
    proof
      assume n: "sp = Some None"
      show ?thesis
      proof (cases r3)
        case None
        then show ?thesis unfolding unfolded n by (simp add: returns_def s3)
      next
        case (Some fc)
        then obtain f where f: "fs w CACHE_TEMP_SOURCE = Some f" "fc_data fc = loaded (f_data f)" "fc_sha1 fc = SHA sha (fc_data fc)"
          using l3(3) fs2 by auto
        then show ?thesis unfolding unfolded n using Some patch_for_spec [OF assms(3), of fc] s3
          by (auto simp: returns_def has_def length_loaded [simplified])
      qed
    next
      assume "\<exists>fc. \<exists>p \<in> set patch_data. r2 = Some fc \<and> sp = Some (Some p) \<and> fc_sha1 fc \<in> patchable strs"
      then obtain fc p where p: "p \<in> set patch_data" "r2 = Some fc" "sp = Some (Some p)" "fc_sha1 fc \<in> patchable strs" by blast
      then show ?thesis unfolding unfolded using l2(2) l2(3) [OF p(2)] by (auto simp: returns_def has_def length_loaded [simplified])
    qed
  qed
qed

lemma install_spec:
  assumes "plain_names source target" and "source_left sha source hs (fs w)"
    and "has sha (fs w) (patch_name target) {target_sha1}"
  shows "returns (install_output env ops target fc (InFile (patch_name target)) w) (\<lambda>(rc, w').
    extends (resumable sha source target target_sha1 hs) w w' \<and> resumable sha source target target_sha1 hs (fs w') \<and>
    (rc = 0 \<or> rc = 1) \<and> (rc = 0 \<longrightarrow> has sha (fs w') target {target_sha1}))"
proof -
  let ?out = "patch_name target" and ?R = "resumable sha source target target_sha1 hs"
  obtain rc1 w1 where m: "sys_chmod env ?out (fc_mode fc) w = (rc1, w1)" by fastforce
  obtain rc2 w2 where o: "sys_chown env ?out (fc_uid fc) (fc_gid fc) w1 = (rc2, w2)" by fastforce
  obtain rc3 w3 where n: "sys_rename env ?out target w2 = (rc3, w3)" by fastforce
  have ig: "ignores ?out (source_left sha source hs)"
    using assms(1) by (auto simp: ignores_def source_left_def has_def plain_names_def)
  have t: "touches ?out w w1" "touches ?out w w2"
    using touches_write(3) [OF m] touches_trans [OF touches_write(3) [OF m] touches_write(4) [OF o]] .
  have left: "extends ?R w w1" "?R (fs w1)" "extends ?R w w2" "?R (fs w2)"
    using touchesD [OF t(1) ig assms(2)] touchesD [OF t(2) ig assms(2)]
    by (auto simp: resumable_def elim!: extends_mono)
  have "has sha (fs w1) ?out {target_sha1}" using sys_update_keeps(1) [OF m] assms(3) by (fastforce simp: has_def)
  then have h2: "has sha (fs w2) ?out {target_sha1}" using sys_update_keeps(2) [OF o] by (fastforce simp: has_def)
  have ren: "extends ?R w2 w3 \<and> ?R (fs w3) \<and> (rc3 = 0 \<longrightarrow> has sha (fs w3) target {target_sha1})"
  proof (cases "rc3 = 0")
    case True
    then have "has sha (fs w3) target {target_sha1}" and "w3 = change (fs w3) w2"
      using n h2 by (auto simp: sys_rename_def has_def split: option.splits if_splits)
    then show ?thesis by (metis resumable_def extends_change extends_refl)
  next
    case False
    then show ?thesis using n left by (auto simp: sys_rename_def split: option.splits if_splits)
  qed
  show ?thesis using m o n ren left extends_trans [OF left(3), of w3]
    by (auto simp: install_output_def returns_def)
qed

lemma CTS_kept_apart:
  assumes "plain_names source target" and "has sha (fs w) target {target_sha1}"
  shows "extends (resumable sha source target target_sha1 hs) w (sys_unlink env CACHE_TEMP_SOURCE w) \<and>
    has sha (fs (sys_unlink env CACHE_TEMP_SOURCE w)) target {target_sha1}"
proof -
  have "ignores CACHE_TEMP_SOURCE (\<lambda>f. has sha f target {target_sha1})"
    using assms(1) by (auto simp: ignores_def has_def plain_names_def)
  from touchesD [OF touches_calls(3) this assms(2), of env] show ?thesis
    by (auto simp: resumable_def elim!: extends_mono)
qed

section \<open>When nothing fails\<close>

text \<open>An environment that grants every call, transfers everything and has enough space.\<close>

definition generous :: "env \<Rightarrow> u32 \<Rightarrow> bool" where
  "generous env tsize \<longleftrightarrow> (\<forall>t. granted env t \<and> 2 ^ 32 \<le> amount env t) \<and>
     (\<forall>t p. 0x40000 < space env t p \<and> tsize * 3 div 2 < space env t p)"

lemma generous_load:
  assumes "generous env tsize" and "\<not> is_partition p" and "malloc = (\<lambda>_. True)"
  shows "\<exists>w'. same w w' \<and> LoadFileContents malloc sha env ops p w =
    Some (map_option (\<lambda>i. \<lparr>fc_data = loaded (f_data i), fc_sha1 = SHA sha (loaded (f_data i)),
                            fc_mode = f_mode i, fc_uid = f_uid i, fc_gid = f_gid i\<rparr>) (fs w p), w')"
proof -
  have g: "granted env t" "2 ^ 32 \<le> amount env t" for t using assms(1) by (auto simp: generous_def)
  show ?thesis
  proof (cases "fs w p")
    case None
    then show ?thesis using assms(2) g by (auto simp: LoadFileContents_def sys_stat_def intro!: exI [of _ "step_clock w"])
  next
    case (Some i)
    let ?n = "unat (of_nat (length (f_data i)) :: u32)"
    have "?n < 2 ^ 32" using unsigned_less [of "of_nat (length (f_data i)) :: u32", where 'a = nat] by simp
    then have "sys_read env (f_data i) 0 ?n (step_clock (step_clock w)) = (loaded (f_data i), step_clock (step_clock (step_clock w)))"
      using g(2) [of "clock w + 2"] by (simp add: sys_read_def loaded_def)
    moreover have "length (loaded (f_data i)) = ?n"
    proof -
      have "?n \<le> length (f_data i)" by (simp add: unat_of_nat take_bit_eq_mod)
      then show ?thesis by (simp add: loaded_def)
    qed
    ultimately have "LoadFileContents malloc sha env ops p w =
      Some (Some \<lparr>fc_data = loaded (f_data i), fc_sha1 = SHA sha (loaded (f_data i)),
                   fc_mode = f_mode i, fc_uid = f_uid i, fc_gid = f_gid i\<rparr>, step_clock (step_clock (step_clock w)))"
      using Some assms(2,3) g by (simp add: LoadFileContents_def sys_stat_def sys_open_def Let_def)
    then show ?thesis using Some by (intro exI [of _ "step_clock (step_clock (step_clock w))"]) (simp add: same_def)
  qed
qed

lemma generous_sink:
  assumes "generous env tsize" and "length buf < 2 ^ 31" and "fs w path = Some f" and "f_data f = []"
  shows "\<exists>off w'. FileSink env path buf (0, w) = Some (int (length buf), off, w') \<and>
    fs w' = (fs w)(path \<mapsto> f\<lparr>f_data := buf\<rparr>)"
proof -
  have g: "granted env t" "2 ^ 32 \<le> amount env t" for t using assms(1) by (auto simp: generous_def)
  have s: "sint (of_nat (length buf) :: u32) = int (length buf)"
    using assms(2) by (subst sint_small) (simp_all add: unat_of_nat_u32)
  show ?thesis
  proof (cases "buf = []")
    case True
    then show ?thesis using assms(3,4) by (auto simp: FileSink_def fun_upd_idem)
  next
    case False
    have "min (length buf) (amount env (clock w)) = length buf" using g(2) [of "clock w"] assms(2) by simp
    then have wr: "sys_write env path 0 buf w = (int (length buf), change ((fs w)(path \<mapsto> f\<lparr>f_data := buf\<rparr>)) w)"
      using assms(3,4) g by (simp add: sys_write_def)
    show ?thesis using False s wr
      by (auto simp: FileSink_def sink_loop.simps [of env path buf] sink_loop.simps [of env path "[]"])
  qed
qed

section \<open>The sink in memory\<close>

definition msi_ok :: "MemorySinkInfo \<Rightarrow> bool" where
  "msi_ok msi \<longleftrightarrow> length (msi_buffer msi) = unat (msi_size msi) \<and> msi_pos msi \<le> msi_size msi \<and> unat (msi_size msi) < 2 ^ 31"

interpretation memory_sink: patch_sink MemorySink msi_ok
  "\<lambda>msi. take (unat (msi_pos msi)) (msi_buffer msi)" "\<lambda>msi. unat (msi_size msi) - unat (msi_pos msi)"
proof unfold_locales
  fix msi :: MemorySinkInfo and d :: bytes
  assume ok: "msi_ok msi" and len: "length d \<le> unat (msi_size msi) - unat (msi_pos msi)" and "length d < 2 ^ 31"
  let ?n = "of_nat (length d) :: u32" and ?p = "unat (msi_pos msi)"
  have pos: "?p \<le> unat (msi_size msi)" using ok by (simp add: msi_ok_def word_le_nat_alt)
  have small: "?p + length d < 2 ^ 32" and n: "unat ?n = length d" "sint ?n = int (length d)"
    using ok len pos \<open>length d < 2 ^ 31\<close> by (simp_all add: msi_ok_def unat_of_nat_u32 sint_small)
  have left: "sint (msi_size msi - msi_pos msi) = int (unat (msi_size msi)) - int ?p"
    using ok pos by (intro sint_diff_small) (simp_all add: msi_ok_def)
  have room: "\<not> sint (msi_size msi - msi_pos msi) < sint ?n" unfolding left n(2) using len pos by linarith
  have sum: "unat (msi_pos msi + ?n) = ?p + length d"
  proof -
    have "msi_pos msi + ?n = of_nat (?p + length d)" by simp
    then show ?thesis using small by (simp only: unat_of_nat_u32)
  qed
  obtain b where w: "wr_slice (msi_buffer msi) ?p d = Some b" and b: "b = take ?p (msi_buffer msi) @ d @ drop (?p + length d) (msi_buffer msi)"
    using ok len pos by (simp add: wr_slice_def msi_ok_def)
  have "MemorySink d msi = Some (int (length d), msi\<lparr>msi_buffer := b, msi_pos := msi_pos msi + ?n\<rparr>)"
    using w room by (simp add: MemorySink_def Let_def n(2))
  then show "\<exists>msi'. MemorySink d msi = Some (int (length d), msi') \<and> msi_ok msi' \<and>
      take (unat (msi_pos msi')) (msi_buffer msi') = take ?p (msi_buffer msi) @ d \<and>
      unat (msi_size msi') - unat (msi_pos msi') = unat (msi_size msi) - ?p - length d"
    using ok len pos b by (simp add: msi_ok_def sum word_le_nat_alt)
qed

text \<open>
  C23: an image patch applied for a partition: whatever the chunks are (patched with \<open>bsdiff\<close>,
  raw, or inflated, patched and deflated again), the buffer ends up holding the outputs of the
  chunks one after the other, and the running digest is that of the whole.
\<close>

theorem ApplyImagePatch_into_memory:
  assumes "patch = encode_image chunks @ post" and "length patch < 2 ^ 31" and "length chunks < 2 ^ 31"
    and "list_all2 (chunk_output malloc bz zl old_data patch) chunks outs"
    and "\<And>a b h. sha_update sha (a @ b) h = sha_update sha b (sha_update sha a h)" and "\<And>h. sha_update sha [] h = h"
    and "length (concat outs) \<le> unat tsize" and "unat tsize < 2 ^ 31"
  shows "\<exists>msi. ApplyImagePatch malloc bz zl MemorySink (sha_update sha) old_data patch
      \<lparr>msi_buffer = replicate (unat tsize) 0, msi_size = tsize, msi_pos = 0\<rparr> (sha_init sha) =
        Some (None, msi, sha_update sha (concat outs) (sha_init sha)) \<and>
    take (unat (msi_pos msi)) (msi_buffer msi) = concat outs"
  using memory_sink.ApplyImagePatch_output [OF assms(1-6),
      of "\<lparr>msi_buffer = replicate (unat tsize) 0, msi_size = tsize, msi_pos = 0\<rparr>" "sha_init sha"] assms(7,8)
  by (auto simp: msi_ok_def)

definition toy_zlib :: "bytes zimg" where
  "toy_zlib = \<lparr>inflate_raw = \<lambda>src _. (InfStreamEnd, src), deflate_init = \<lambda>_ d. d, deflate_step = \<lambda>s _. (True, s, [])\<rparr>"

theorem ApplyImagePatch_into_memory_witness:
  "\<exists>msi. ApplyImagePatch (\<lambda>_. True) stored_bz toy_zlib MemorySink (sha_update toy_sha) [] (encode_image [Raw [1, 2], Raw [3]])
      \<lparr>msi_buffer = replicate (unat (8 :: u32)) 0, msi_size = 8, msi_pos = 0\<rparr> (sha_init toy_sha) =
        Some (None, msi, sha_update toy_sha (concat [[1, 2], [3]]) (sha_init toy_sha)) \<and>
    take (unat (msi_pos msi)) (msi_buffer msi) = concat [[1, 2], [3]]"
  by (rule ApplyImagePatch_into_memory [where chunks = "[Raw [1, 2], Raw [3]]" and post = "[]"])
    (simp_all add: toy_sha_def encode_image_def IMGDIFF2_def)

section \<open>Digests in hexadecimal\<close>

definition hex_char :: "u8 \<Rightarrow> u8" where
  "hex_char d = (if d < 10 then 48 + d else 87 + d)"

definition hex_string :: "bytes \<Rightarrow> bytes" where
  "hex_string digest = concat (map (\<lambda>b. [hex_char (drop_bit 4 b), hex_char (b AND 15)]) digest)"

lemma hex_nibbles: "list_all (\<lambda>k. hex_digit (hex_char (of_nat k)) = Some (of_nat k)) [0..<16]"
  by code_simp

lemma hex_nibble: "x < 16 \<Longrightarrow> hex_digit (hex_char x) = Some x"
  using hex_nibbles by (auto simp: list_all_iff word_less_nat_alt dest: bspec [of _ _ "unat x"])

lemma nibbles: "drop_bit 4 (b :: u8) < 16" "b AND 15 < 16" "push_bit 4 (drop_bit 4 b) OR (b AND 15) = b"
proof -
  have m: "(15 :: u8) = mask 4" by (simp add: mask_eq_exp_minus_1)
  have "unat (drop_bit 4 b) = drop_bit 4 (unat b)" by (rule unat_drop_bit_eq)
  then show "drop_bit 4 b < 16" using unsigned_less [of b, where 'a = nat]
    by (simp only: word_less_nat_alt drop_bit_eq_div) simp
  show "b AND 15 < 16" by (simp only: m take_bit_eq_mask [symmetric] word_less_nat_alt unsigned_take_bit_eq) (simp add: take_bit_eq_mod)
  show "push_bit 4 (drop_bit 4 b) OR (b AND 15) = b"
    unfolding m by (rule bit_word_eqI) (auto simp: bit_simps)
qed

lemma sha1_digits_hex:
  "sha1_digits (2 * length d) (hex_string d @ rest) acc = Some (acc @ d, rest)"
proof (induction d arbitrary: acc)
  case (Cons b d)
  have "sha1_digits (2 * length (b # d)) (hex_string (b # d) @ rest) acc =
    sha1_digits (Suc (Suc (2 * length d))) (hex_char (drop_bit 4 b) # hex_char (b AND 15) # hex_string d @ rest) acc"
    by (simp add: hex_string_def)
  also have "\<dots> = sha1_digits (2 * length d) (hex_string d @ rest) (acc @ [b])"
    by (simp add: hex_nibble nibbles)
  finally show ?case using Cons by simp
qed (simp add: hex_string_def)

lemma ParseSha1_hex:
  assumes "length digest = 20"
  shows "ParseSha1 (hex_string digest @ rest) = (if rest = [] then Some digest else None)"
  using sha1_digits_hex [of digest rest "[]"] assms by (simp add: ParseSha1_def)

text \<open>The digits behind 9 may be capitals.\<close>

definition lower_case :: "u8 \<Rightarrow> u8" where
  "lower_case c = (if 65 \<le> c \<and> c \<le> 90 then c + 32 else c)"

lemma hex_digit_capitals: "list_all (\<lambda>k. hex_digit (of_nat k + 32) = hex_digit (of_nat k)) [65..<91]"
  by code_simp

lemma hex_digit_chars:
  "list_all (\<lambda>k. case hex_digit (of_nat k) of None \<Rightarrow> True | Some x \<Rightarrow> x < 16 \<and> hex_char x = lower_case (of_nat k))
     ([48..<58] @ [65..<71] @ [97..<103])"
  by code_simp

lemma byte_number: "(word_of_nat (unat c) :: u8) = c"
  by simp

lemma hex_digit_lower: "hex_digit (lower_case c) = hex_digit c"
proof (cases "65 \<le> c \<and> c \<le> 90")
  case True
  then have "65 \<le> unat c" "unat c \<le> 90" by (simp_all add: word_le_nat_alt)
  then have "unat c \<in> set [65..<91]" unfolding set_upt atLeastLessThan_iff by linarith
  then have "hex_digit (word_of_nat (unat c) + 32) = hex_digit (word_of_nat (unat c))"
    using hex_digit_capitals unfolding list_all_iff by blast
  then show ?thesis using True unfolding lower_case_def byte_number by simp
qed (auto simp: lower_case_def)

lemma hex_digit_char:
  assumes "hex_digit c = Some x"
  shows "x < 16" "hex_char x = lower_case c"
proof -
  have "48 \<le> unat c \<and> unat c \<le> 57 \<or> 65 \<le> unat c \<and> unat c \<le> 70 \<or> 97 \<le> unat c \<and> unat c \<le> 102"
    using assms by (auto simp: hex_digit_def word_le_nat_alt split: if_splits)
  then have "unat c \<in> set ([48..<58] @ [65..<71] @ [97..<103])"
    unfolding set_append Un_iff set_upt atLeastLessThan_iff by linarith
  then have "case hex_digit (word_of_nat (unat c)) of None \<Rightarrow> True
      | Some x \<Rightarrow> x < 16 \<and> hex_char x = lower_case (word_of_nat (unat c))"
    using hex_digit_chars unfolding list_all_iff by blast
  then show "x < 16" "hex_char x = lower_case c" using assms unfolding byte_number by simp_all
qed

lemma hex_pairs:
  "list_all (\<lambda>j. list_all (\<lambda>k. drop_bit 4 (push_bit 4 (of_nat j) OR of_nat k :: u8) = of_nat j \<and>
     (push_bit 4 (of_nat j) OR of_nat k :: u8) AND 15 = of_nat k) [0..<16]) [0..<16]"
  by code_simp

lemma hex_pair:
  assumes "x < 16" and "y < 16"
  shows "drop_bit 4 (push_bit 4 x OR y :: u8) = x" "(push_bit 4 x OR y :: u8) AND 15 = y"
proof -
  have "unat x < 16" "unat y < 16" using assms by (simp_all add: word_less_nat_alt)
  then show "drop_bit 4 (push_bit 4 x OR y) = x" "(push_bit 4 x OR y) AND 15 = y"
    using bspec [OF iffD1 [OF list_all_iff bspec [OF iffD1 [OF list_all_iff hex_pairs], of "unat x"]], of "unat y"] by simp_all
qed

lemma sha1_digits_lower:
  "sha1_digits n (map lower_case s) acc = map_option (\<lambda>(d, ps). (d, map lower_case ps)) (sha1_digits n s acc)"
proof (induction n s acc rule: sha1_digits.induct)
  case (3 n c ps digest)
  then show ?case by (cases "hex_digit c") (simp_all add: hex_digit_lower del: sha1_digits.simps(3), simp_all add: hex_digit_lower)
qed simp_all

lemma sha1_digits_read:
  "sha1_digits (2 * n) s acc = Some (r, ps) \<Longrightarrow> \<exists>d s1. r = acc @ d \<and> length d = n \<and> s = s1 @ ps \<and> map lower_case s1 = hex_string d"
proof (induction n arbitrary: s acc)
  case 0
  then show ?case by (simp add: hex_string_def)
next
  case (Suc n)
  obtain c1 c2 s' x y where c: "s = c1 # c2 # s'" "hex_digit c1 = Some x" "hex_digit c2 = Some y"
    and rest: "sha1_digits (2 * n) s' (acc @ [push_bit 4 x OR y]) = Some (r, ps)"
    using Suc.prems by (cases s; cases "tl s") (auto simp: bind_eq_Some_conv)
  obtain d s1 where d: "r = (acc @ [push_bit 4 x OR y]) @ d" "length d = n" "s' = s1 @ ps" "map lower_case s1 = hex_string d"
    using Suc.IH [OF rest] by blast
  have "map lower_case (c1 # c2 # s1) = hex_string ((push_bit 4 x OR y) # d)"
    using hex_digit_char [OF c(2)] hex_digit_char [OF c(3)] d(4) hex_pair [of x y] by (simp add: hex_string_def)
  then show ?case using d(1-3) c(1) by (intro exI [of _ "(push_bit 4 x OR y) # d"] exI [of _ "c1 # c2 # s1"]) simp
qed

text \<open>
  C27: \<open>ParseSha1\<close> reads the hexadecimal form of a digest and nothing else: on a string without a
  colon it finds a digest exactly when the string is that digest written in hexadecimal, with
  capital letters or without.
\<close>

theorem ParseSha1_hex_string:
  assumes "COLON \<notin> set s"
  shows "ParseSha1 s = Some digest \<longleftrightarrow> length digest = 20 \<and> map lower_case s = hex_string digest"
proof
  assume "ParseSha1 s = Some digest"
  then have "sha1_digits (2 * 20) s [] = Some (digest, [])" by (auto simp: ParseSha1_def bind_eq_Some_conv split: if_splits)
  from sha1_digits_read [OF this] show "length digest = 20 \<and> map lower_case s = hex_string digest" by auto
next
  assume d: "length digest = 20 \<and> map lower_case s = hex_string digest"
  then have "sha1_digits 40 (map lower_case s) [] = Some (digest, [])" using sha1_digits_hex [of digest "[]" "[]"] by simp
  then show "ParseSha1 s = Some digest" by (auto simp: sha1_digits_lower ParseSha1_def)
qed

theorem ParseSha1_hex_string_witness:
  "ParseSha1 (str ''ABCDEF0123456789aBcDeF0123456789abcdef01'') =
    Some [0xab, 0xcd, 0xef, 0x01, 0x23, 0x45, 0x67, 0x89, 0xab, 0xcd, 0xef, 0x01, 0x23, 0x45, 0x67, 0x89, 0xab, 0xcd, 0xef, 0x01]"
proof -
  let ?s = "str ''ABCDEF0123456789aBcDeF0123456789abcdef01''"
  let ?d = "[0xab, 0xcd, 0xef, 0x01, 0x23, 0x45, 0x67, 0x89, 0xab, 0xcd, 0xef, 0x01, 0x23, 0x45, 0x67, 0x89, 0xab, 0xcd, 0xef, 0x01] :: bytes"
  have "COLON \<notin> set ?s" "map lower_case ?s = hex_string ?d" by code_simp+
  then show ?thesis using ParseSha1_hex_string [of ?s ?d] by simp
qed

text \<open>The form with a colon that the comment announces is read as no digest.\<close>

lemma ParseSha1_colon: "length digest = 20 \<Longrightarrow> ParseSha1 (hex_string digest @ COLON # rest) = None"
  using ParseSha1_hex [of digest "COLON # rest"] by simp

section \<open>A small update\<close>

text \<open>The source \<open>[1]\<close> is patched to the empty file.\<close>

definition empty_patch :: Value where
  "empty_patch = \<lparr>vtype = VAL_BLOB, vsize = 32, vdata = BSDIFF40 @ replicate 24 0\<rparr>"

definition no_mtd :: "(unit, unit, unit) mtd_ops" where
  "no_mtd = \<lparr>m_scan = Some, m_find = \<lambda>_ _. None, m_read_partition = \<lambda>_ m. (None, m), m_read_data = \<lambda>_ _ _. None,
     m_write_partition = \<lambda>_ m. (None, m), m_write_data = \<lambda>_ _ _. None, m_erase_blocks = \<lambda>_ _ _. None, m_write_close = \<lambda>_ _. None\<rparr>"

definition system_world :: "unit world" where
  "system_world = \<lparr>fs = [str ''/system/a'' \<mapsto> \<lparr>f_data = [1], f_regular = True, f_mode = 7, f_uid = 1, f_gid = 2\<rparr>],
     clock = 0, history = [], scanned = False, mtd = ()\<rparr>"

lemma empty_patch_applies:
  "ApplyBSDiffPatchMem (\<lambda>_. True) stored_bz src n (vdata empty_patch) 0 = Some (Inr [])"
proof -
  have "memcmp (vdata empty_patch) BSDIFF40 8 = Some 0" "offtin (vdata empty_patch) 8 = Some 0"
    "offtin (vdata empty_patch) 16 = Some 0" "offtin (vdata empty_patch) 24 = Some 0"
    by code_simp+
  moreover have "length (vdata empty_patch) = 32" by (simp add: empty_patch_def BSDIFF40_def)
  ultimately show ?thesis
    by (simp add: ApplyBSDiffPatchMem_def rd_slice_def Let_def patch_loop.simps [of _ _ _ 0])
qed

lemma small_names: "plain_names (str ''/system/a'') (str ''/system/a'')"
  by (simp add: plain_names_def is_partition_def str_def CACHE_TEMP_SOURCE_def)

lemma small_digests:
  "ParseSha1 (hex_string (replicate 20 0)) = Some (replicate 20 0)"
  "ParseSha1 (hex_string (1 # replicate 19 0)) = Some (1 # replicate 19 0)"
  "SHA toy_sha [] = replicate 20 0" "SHA toy_sha [1] = 1 # replicate 19 0"
  using ParseSha1_hex [of "replicate 20 0" "[]"] ParseSha1_hex [of "1 # replicate 19 0" "[]"]
  by (simp_all add: SHA_def toy_sha_def)

lemma small_matching:
  "FindMatchingPatch (SHA toy_sha (loaded [1])) [hex_string (1 # replicate 19 0)] = 0"
  by (simp add: loaded_short small_digests FindMatchingPatch_def)

lemma small_patchable: "take 8 (vdata empty_patch) = BSDIFF40"
  by (simp add: empty_patch_def BSDIFF40_def)

section \<open>Properties\<close>

text \<open>
  C1: updating a file can be interrupted anywhere.  If the source, or its saved copy, is what a
  patch applies to, then in every file system that exists at some moment of \<open>applypatch\<close> the
  target is already patched, or the source or the saved copy is still there; whatever calls
  fail, whatever space there is, in both rounds.  The call returns 0 or 1, and 0 only when the
  target has the wanted digest.  (For patches in the format of \<open>bsdiff\<close> that the decompressor
  ends on.)
\<close>

theorem applypatch_resumable:
  assumes "steady env" and "\<And>n. malloc n"
    and "target = (if target_filename = str ''-'' then source else target_filename)" and "plain_names source target"
    and "length patch_data = length strs" and "ParseSha1 target_sha1_str = Some target_sha1"
    and "regular (fs w) CACHE_TEMP_SOURCE" and "regular (fs w) (patch_name target)"
    and "\<forall>p \<in> set patch_data. take 8 (vdata p) = BSDIFF40 \<and> (\<forall>src. SHA sha src \<in> patchable strs \<longrightarrow>
        ApplyBSDiffPatchMem malloc bz src (of_nat (length src)) (vdata p) 0 \<noteq> None)"
  shows "\<exists>rc w'. applypatch malloc sha bz zl env ops source target_filename target_sha1_str tsize strs patch_data w = Some (rc, w') \<and>
    (rc = 0 \<or> rc = 1) \<and> (rc = 0 \<longrightarrow> has sha (fs w') target {target_sha1}) \<and>
    extends (resumable sha source target target_sha1 (patchable strs)) w w'"
proof -
  let ?hs = "patchable strs" and ?R = "resumable sha source target target_sha1 (patchable strs)"
  obtain r w1 where c: "choose_source malloc sha env ops source target target_sha1 strs patch_data w = Some (r, w1)" "same w w1"
    and cs: "case r of Inl rc \<Rightarrow> rc = 1 \<or> rc = 0 \<and> has sha (fs w) target {target_sha1}
     | Inr (fc, patch, from_source) \<Rightarrow> patch \<in> set patch_data \<and> length (fc_data fc) < 2 ^ 32 \<and> SHA sha (fc_data fc) \<in> ?hs \<and>
         has sha (fs w) (if from_source then source else CACHE_TEMP_SOURCE) ?hs"
    by (rule returns_pairE [OF choose_source_spec [where malloc = malloc, OF assms(4,2,5)]]) blast
  have fs1: "fs w1 = fs w" using c(2) by (simp add: same_def)
  have unfolded: "applypatch malloc sha bz zl env ops source target_filename target_sha1_str tsize strs patch_data w =
    (case r of
       Inl rc \<Rightarrow> Some (rc, w1)
     | Inr (file_to_use, patch, from_source) \<Rightarrow> do {
         (r, w) \<leftarrow> rounds malloc sha bz zl env source target tsize file_to_use patch from_source 1 False w1;
         case r of
           Inl rc \<Rightarrow> Some (rc, w)
         | Inr (out, ctx, made_copy) \<Rightarrow>
             if sha_final sha ctx \<noteq> target_sha1 then Some (1, w)
             else do {
               (rc, w) \<leftarrow> install_output env ops target file_to_use out w;
               if rc \<noteq> 0 then Some (rc, w)
               else Some (0, if made_copy then sys_unlink env CACHE_TEMP_SOURCE w else w) } })"
    using c(1) assms(6) by (simp add: applypatch_def Let_def flip: assms(3))
  show ?thesis
  proof (cases r)
    case (Inl rc)
    then show ?thesis unfolding unfolded using cs fs1 same_extends [OF c(2)] by auto
  next
    case (Inr x)
    then obtain fc patch b where x: "r = Inr (fc, patch, b)" by (cases x) auto
    have p: "take 8 (vdata patch) = BSDIFF40" "ApplyBSDiffPatchMem malloc bz (fc_data fc) (of_nat (length (fc_data fc))) (vdata patch) 0 \<noteq> None"
      using cs x assms(9) by auto
    have fc: "length (fc_data fc) < 2 ^ 32" "SHA sha (fc_data fc) \<in> ?hs" using cs x by auto
    have start: "round_start sha source target ?hs b (fs w1)" using cs x assms(7,8) by (simp add: round_start_def fs1)
    obtain q w2 where q: "rounds malloc sha bz zl env source target tsize fc patch b 1 False w1 = Some (q, w2)"
      and qs: "extends (source_left sha source ?hs) w1 w2 \<and> source_left sha source ?hs (fs w2) \<and> (case q of Inl rc \<Rightarrow> rc = 1
     | Inr (out, ctx, made') \<Rightarrow> out = InFile (patch_name target) \<and> has sha (fs w2) (patch_name target) {sha_final sha ctx})"
      by (rule returns_pairE [OF rounds_spec [OF assms(1,4) fc p start]]) blast
    have "extends ?R w1 w2" using qs by (blast intro: extends_mono [where P = "source_left sha source ?hs"] resumable_def [THEN iffD2])
    then have e2: "extends ?R w w2" by (rule extends_trans [OF same_extends [OF c(2)]])
    show ?thesis
    proof (cases "\<exists>ctx made. q = Inr (InFile (patch_name target), ctx, made) \<and> sha_final sha ctx = target_sha1")
      case False
      then show ?thesis unfolding unfolded using x q qs e2 by (auto split: sum.splits)
    next
      case True
      then obtain ctx made where ctx: "q = Inr (InFile (patch_name target), ctx, made)" "sha_final sha ctx = target_sha1" by blast
      have left: "source_left sha source ?hs (fs w2)" and h: "has sha (fs w2) (patch_name target) {target_sha1}"
        using qs ctx by auto
      obtain rc w3 where i: "install_output env ops target fc (InFile (patch_name target)) w2 = Some (rc, w3)"
        and inst: "extends ?R w2 w3 \<and> ?R (fs w3) \<and> (rc = 0 \<or> rc = 1) \<and> (rc = 0 \<longrightarrow> has sha (fs w3) target {target_sha1})"
        by (rule returns_pairE [OF install_spec [OF assms(4) left h]]) blast
      have e3: "extends ?R w w3" using e2 inst extends_trans by blast
      show ?thesis unfolding unfolded
        using x q ctx i inst e3 CTS_kept_apart [OF assms(4), of sha w3 target_sha1 ?hs env] extends_trans [OF e3]
        by auto
    qed
  qed
qed

theorem applypatch_resumable_witness:
  "\<exists>rc w'. applypatch (\<lambda>_. True) toy_sha stored_bz toy_zlib quiet_env no_mtd (str ''/system/a'') (str ''-'')
      (hex_string (replicate 20 0)) 0 [hex_string (1 # replicate 19 0)] [empty_patch] system_world = Some (rc, w') \<and>
    extends (resumable toy_sha (str ''/system/a'') (str ''/system/a'') (replicate 20 0) (patchable [hex_string (1 # replicate 19 0)]))
      system_world w'"
  using applypatch_resumable [where target_filename = "str ''-''" and source = "str ''/system/a''" and target = "str ''/system/a''"
      and env = quiet_env and malloc = "\<lambda>_. True" and sha = toy_sha and bz = stored_bz and zl = toy_zlib and ops = no_mtd
      and target_sha1_str = "hex_string (replicate 20 0)" and tsize = 0
      and strs = "[hex_string (1 # replicate 19 0)]" and patch_data = "[empty_patch]" and w = system_world,
      OF _ _ _ small_names _ small_digests(1)]
  by (auto simp: steady_def quiet_env_def system_world_def regular_def CACHE_TEMP_SOURCE_def str_def small_patchable empty_patch_applies)

text \<open>
  C3: when nothing fails and there is enough space, \<open>applypatch\<close> replaces the target by what the
  patch for the source's digest makes of the source, with the mode and owner of the source; no
  other file changes, except that a left-over \<open>.patch\<close> file is gone.
\<close>

theorem applypatch_applies:
  assumes "generous env tsize" and "malloc = (\<lambda>_. True)"
    and "target = (if target_filename = str ''-'' then source else target_filename)" and "plain_names source target"
    and "ParseSha1 target_sha1_str = Some target_sha1" and "\<not> has sha (fs w) target {target_sha1}"
    and "fs w source = Some i" and "FindMatchingPatch (SHA sha (loaded (f_data i))) strs = int k" and "k < length patch_data"
    and "patch = patch_data ! k" and "vtype patch = VAL_BLOB" and "take 8 (vdata patch) = BSDIFF40"
    and "ApplyBSDiffPatchMem malloc bz (loaded (f_data i)) (of_nat (length (loaded (f_data i)))) (vdata patch) 0 = Some (Inr nd)"
    and "length nd < 2 ^ 31" and "SHA sha nd = target_sha1" and "regular (fs w) (patch_name target)"
  shows "\<exists>w'. applypatch malloc sha bz zl env ops source target_filename target_sha1_str tsize strs patch_data w = Some (0, w') \<and>
    fs w' = (fs w)(patch_name target := None, target \<mapsto>
       \<lparr>f_data = nd, f_regular = True, f_mode = f_mode i, f_uid = f_uid i, f_gid = f_gid i\<rparr>)"
proof -
  let ?out = "patch_name target"
  let ?src = "\<lparr>fc_data = loaded (f_data i), fc_sha1 = SHA sha (loaded (f_data i)), fc_mode = f_mode i, fc_uid = f_uid i, fc_gid = f_gid i\<rparr>"
  have g: "granted env t" for t using assms(1) by (auto simp: generous_def)
  have plain: "\<not> is_partition source" "\<not> is_partition target" "target \<noteq> []" "?out \<noteq> target"
    using assms(4) plain_namesD(4) [OF assms(4)] by (simp_all add: plain_names_def)
  have len8: "8 \<le> length (vdata patch)"
  proof -
    have "length (take 8 (vdata patch)) = 8" using assms(12) by (simp add: BSDIFF40_def)
    then show ?thesis by simp
  qed
  obtain w1 where w1: "same w w1" "choose_source malloc sha env ops source target target_sha1 strs patch_data w =
      Some (Inr (?src, patch, True), w1)"
  proof -
    obtain v1 where v1: "same w v1" and l1: "LoadFileContents malloc sha env ops target w =
      Some (map_option (\<lambda>i. \<lparr>fc_data = loaded (f_data i), fc_sha1 = SHA sha (loaded (f_data i)),
                            fc_mode = f_mode i, fc_uid = f_uid i, fc_gid = f_gid i\<rparr>) (fs w target), v1)"
      using generous_load [OF assms(1) plain(2) assms(2)] by blast
    obtain v2 where v2: "same v1 v2" and l2: "LoadFileContents malloc sha env ops source v1 = Some (Some ?src, v2)"
      using generous_load [OF assms(1) plain(1) assms(2), of v1] v1 assms(7) by (auto simp: same_def)
    have p: "patch_for strs patch_data ?src = Some (Some patch)"
      using assms(8,9,10) by (simp add: patch_for_def)
    have notyet: "fs w target = Some j \<Longrightarrow> SHA sha (loaded (f_data j)) \<noteq> target_sha1" for j
      using assms(6) by (auto simp: has_def)
    show ?thesis
    proof (cases "target = source")
      case True
      then show ?thesis using that [of v1] v1 l1 assms(7) p notyet [of i] by (simp add: choose_source_def)
    next
      case False
      then show ?thesis using that [of v2] same_trans [OF v1 v2] l1 l2 p notyet
        by (cases "fs w target") (simp_all add: choose_source_def)
    qed
  qed
  obtain dir where dir: "target_fs target = Some dir" using plain(3) by (cases target) (auto simp: target_fs_def)
  have room: "make_room env source target tsize ?src True 1 w1 = Some (Inr (False, False), step_clock w1)"
    using plain dir assms(1) by (simp add: make_room_def FreeSpaceForFile_def sys_statfs_def generous_def)
  obtain f v2 where c: "sys_create env ?out (step_clock w1) = (True, v2)" "fs v2 = (fs w)(?out \<mapsto> f)" "f_data f = []" "f_regular f"
    using assms(16) w1(1) g by (cases "fs w ?out") (auto simp: sys_create_def regular_def same_def)
  have f: "fs v2 ?out = Some f" using c(2) by simp
  obtain off v3 where s: "FileSink env ?out nd (0, v2) = Some (int (length nd), off, v3)" "fs v3 = (fs v2)(?out \<mapsto> f\<lparr>f_data := nd\<rparr>)"
    using generous_sink [OF assms(1,14) f c(3)] by blast
  have prod: "produce malloc sha bz zl env target tsize ?src patch (step_clock w1) =
      Some (Inr (0, InFile ?out, sha_update sha nd (sha_init sha)), v3)"
    using plain c(1) s(1) assms(11,12,13) len8 by (simp add: produce_def apply_by_format_def ApplyBSDiffPatch_def)
  have rounds: "rounds malloc sha bz zl env source target tsize ?src patch True 1 False w1 =
      Some (Inr (InFile ?out, sha_update sha nd (sha_init sha), False), v3)"
    by (subst rounds.simps) (simp add: room [simplified] prod)
  have inst: "\<exists>w'. install_output env ops target ?src (InFile ?out) v3 = Some (0, w') \<and>
      fs w' = (fs w)(?out := None, target \<mapsto> \<lparr>f_data = nd, f_regular = True, f_mode = f_mode i, f_uid = f_uid i, f_gid = f_gid i\<rparr>)"
    using g c(2,4) s(2) plain(4)
    by (cases f) (simp add: install_output_def sys_chmod_def sys_chown_def sys_update_def sys_rename_def)
  have "sha_final sha (sha_update sha nd (sha_init sha)) = target_sha1" using assms(15) by (simp add: SHA_def)
  then show ?thesis using inst w1(2) rounds assms(5)
    by (auto simp: applypatch_def Let_def simp flip: assms(3))
qed

theorem applypatch_applies_witness:
  "\<exists>w'. applypatch (\<lambda>_. True) toy_sha stored_bz toy_zlib (quiet_env\<lparr>amount := \<lambda>_. 2 ^ 32, space := \<lambda>_ _. 0x80000\<rparr>) no_mtd
      (str ''/system/a'') (str ''-'') (hex_string (replicate 20 0)) 0 [hex_string (1 # replicate 19 0)] [empty_patch] system_world =
        Some (0, w') \<and>
    fs w' (str ''/system/a'') = Some \<lparr>f_data = [], f_regular = True, f_mode = 7, f_uid = 1, f_gid = 2\<rparr>"
proof -
  let ?i = "\<lparr>f_data = [1], f_regular = True, f_mode = 7, f_uid = 1, f_gid = 2\<rparr>"
  have "fs system_world (str ''/system/a'') = Some ?i" by (simp add: system_world_def)
  moreover have "\<not> has toy_sha (fs system_world) (str ''/system/a'') {replicate 20 0}"
    by (simp add: has_def system_world_def loaded_short small_digests) (simp add: replicate_eq_replicate numeral_eq_Suc)
  moreover have "regular (fs system_world) (patch_name (str ''/system/a''))" by (simp add: regular_def system_world_def str_def)
  ultimately obtain w' where "applypatch (\<lambda>_. True) toy_sha stored_bz toy_zlib (quiet_env\<lparr>amount := \<lambda>_. 2 ^ 32, space := \<lambda>_ _. 0x80000\<rparr>) no_mtd
      (str ''/system/a'') (str ''-'') (hex_string (replicate 20 0)) 0 [hex_string (1 # replicate 19 0)] [empty_patch] system_world =
        Some (0, w')" and "fs w' = (fs system_world)(patch_name (str ''/system/a'') := None, (str ''/system/a'') \<mapsto>
       \<lparr>f_data = [], f_regular = True, f_mode = f_mode ?i, f_uid = f_uid ?i, f_gid = f_gid ?i\<rparr>)"
    using applypatch_applies [where target_filename = "str ''-''" and source = "str ''/system/a''" and target = "str ''/system/a''"
      and env = "quiet_env\<lparr>amount := \<lambda>_. 2 ^ 32, space := \<lambda>_ _. 0x80000\<rparr>" and malloc = "\<lambda>_. True" and sha = toy_sha and bz = stored_bz
      and target_sha1_str = "hex_string (replicate 20 0)" and tsize = 0 and k = 0 and i = ?i and nd = "[]"
      and strs = "[hex_string (1 # replicate 19 0)]" and patch_data = "[empty_patch]" and patch = empty_patch and w = system_world,
      OF _ _ _ small_names small_digests(1)] small_matching small_patchable empty_patch_applies small_digests(3)
    by (force simp: generous_def quiet_env_def empty_patch_def)
  then show ?thesis by auto
qed

end
