(* ===== verification/DirTree.thy ===== *)
theory DirTree
  imports DirUtil Edify
begin

text \<open>
  Whole directory trees: \<open>dirUnlinkHierarchy\<close> and \<open>dirSetHierarchyPermissions\<close> of
  \<open>minzip/DirUtil.c\<close>.

  Both recurse over what \<open>readdir\<close> delivers.  The entries of a directory are taken when it is
  opened.  Paths are built in a buffer of \<open>PATH_MAX\<close> bytes, so a long one is cut off: on a
  directory tree the recursion need not end, and a run that does not is \<open>None\<close>.
\<close>

section \<open>System calls\<close>

datatype node_kind = NFile | NDir | NLink

record 'w tree_os =
  t_lstat :: "bytes \<Rightarrow> 'w \<Rightarrow> node_kind option"
  t_unlink :: "bytes \<Rightarrow> 'w \<Rightarrow> int \<times> 'w"
  t_rmdir :: "bytes \<Rightarrow> 'w \<Rightarrow> int \<times> 'w"
  t_opendir :: "bytes \<Rightarrow> 'w \<Rightarrow> bytes list option"
  t_closedir :: "bytes \<Rightarrow> 'w \<Rightarrow> int"
  t_chown :: "bytes \<Rightarrow> u32 \<Rightarrow> u32 \<Rightarrow> 'w \<Rightarrow> int \<times> 'w"
  t_chmod :: "bytes \<Rightarrow> u32 \<Rightarrow> 'w \<Rightarrow> int \<times> 'w"

definition DN_SIZE :: nat where "DN_SIZE = 4096"

definition child_path :: "bytes \<Rightarrow> bytes \<Rightarrow> bytes" where
  "child_path path d = take (DN_SIZE - 1) (path @ SLASH # d)"

definition dots :: "bytes \<Rightarrow> bool" where
  "dots d \<longleftrightarrow> d = str ''..'' \<or> d = str ''.''"

section \<open>dirUnlinkHierarchy\<close>

text \<open>\<open>Inl path\<close> is the function itself, \<open>Inr (path, des)\<close> its loop on the entries that are left.\<close>

partial_function (option) unlink_run ::
    "('w, 'z) tree_os_scheme \<Rightarrow> bytes + bytes \<times> bytes list \<Rightarrow> 'w \<Rightarrow> (int \<times> 'w) option" where
  "unlink_run os task w =
     (case task of
        Inl path \<Rightarrow>
          (case t_lstat os path w of
             None \<Rightarrow> Some (-1, w)
           | Some kind \<Rightarrow>
               if kind \<noteq> NDir then Some (t_unlink os path w)
               else case t_opendir os path w of
                 None \<Rightarrow> Some (-1, w)
               | Some des \<Rightarrow> do {
                   (fail, w) \<leftarrow> unlink_run os (Inr (path, des)) w;
                   if fail \<noteq> 0 then Some (-1, w)
                   else if t_closedir os path w < 0 then Some (-1, w)
                   else Some (t_rmdir os path w) })
      | Inr (path, des) \<Rightarrow>
          (case des of
             [] \<Rightarrow> Some (0, w)
           | d # des \<Rightarrow>
               if dots d then unlink_run os (Inr (path, des)) w
               else do {
                 (r, w) \<leftarrow> unlink_run os (Inl (child_path path d)) w;
                 if r < 0 then Some (1, w) else unlink_run os (Inr (path, des)) w }))"

definition dirUnlinkHierarchy :: "('w, 'z) tree_os_scheme \<Rightarrow> bytes \<Rightarrow> 'w \<Rightarrow> (int \<times> 'w) option" where
  "dirUnlinkHierarchy os path w = unlink_run os (Inl path) w"

section \<open>dirSetHierarchyPermissions\<close>

partial_function (option) perm_run ::
    "('w, 'z) tree_os_scheme \<Rightarrow> u32 \<Rightarrow> u32 \<Rightarrow> u32 \<Rightarrow> u32 \<Rightarrow> bytes + bytes \<times> bytes list \<Rightarrow> 'w \<Rightarrow> (int \<times> 'w) option" where
  "perm_run os uid gid dirMode fileMode task w =
     (case task of
        Inl path \<Rightarrow>
          (case t_lstat os path w of
             None \<Rightarrow> Some (-1, w)
           | Some kind \<Rightarrow>
               if kind = NLink then Some (0, w)
               else
                 let (r, w) = t_chown os path uid gid w in
                 if r \<noteq> 0 then Some (-1, w)
                 else
                   let (r, w) = t_chmod os path (if kind = NDir then dirMode else fileMode) w in
                   if r \<noteq> 0 then Some (-1, w)
                   else if kind \<noteq> NDir then Some (0, w)
                   else case t_opendir os path w of
                     None \<Rightarrow> Some (-1, w)
                   | Some des \<Rightarrow> do {
                       (err, w) \<leftarrow> perm_run os uid gid dirMode fileMode (Inr (path, des)) w;
                       if err \<noteq> 0 then Some (-1, w)
                       else if t_closedir os path w \<noteq> 0 then Some (-1, w)
                       else Some (0, w) })
      | Inr (path, des) \<Rightarrow>
          (case des of
             [] \<Rightarrow> Some (0, w)
           | d # des \<Rightarrow>
               if dots d then perm_run os uid gid dirMode fileMode (Inr (path, des)) w
               else do {
                 (r, w) \<leftarrow> perm_run os uid gid dirMode fileMode (Inl (child_path path d)) w;
                 if r = 0 then perm_run os uid gid dirMode fileMode (Inr (path, des)) w else Some (-1, w) }))"

definition dirSetHierarchyPermissions ::
    "('w, 'z) tree_os_scheme \<Rightarrow> bytes \<Rightarrow> u32 \<Rightarrow> u32 \<Rightarrow> u32 \<Rightarrow> u32 \<Rightarrow> 'w \<Rightarrow> (int \<times> 'w) option" where
  "dirSetHierarchyPermissions os path uid gid dirMode fileMode w =
     perm_run os uid gid dirMode fileMode (Inl path) w"

declare unlink_run.simps [code] perm_run.simps [code]

section \<open>Trees of files\<close>

text \<open>
  \<open>node w\<close> are the files there are, by their paths.  \<open>tree\_laws\<close> is what the calls do when
  none of them fails; \<open>canonical\<close> says that what is in a directory has a name and that what is
  above a file is a directory.
\<close>

definition strictly_beneath :: "bytes \<Rightarrow> bytes \<Rightarrow> bool" where
  "strictly_beneath p q \<longleftrightarrow> (\<exists>b. q = p @ SLASH # b)"

definition beneath :: "bytes \<Rightarrow> bytes \<Rightarrow> bool" where
  "beneath p q \<longleftrightarrow> q = p \<or> strictly_beneath p q"

definition tree_laws :: "('w, 'z) tree_os_scheme \<Rightarrow> ('w \<Rightarrow> bytes \<Rightarrow> node_kind option) \<Rightarrow> bool" where
  "tree_laws os node \<longleftrightarrow> (\<forall>p w.
     t_lstat os p w = node w p \<and> t_closedir os p w = 0 \<and>
     (node w p = Some NDir \<longrightarrow>
        (\<exists>des. t_opendir os p w = Some des \<and> distinct des \<and>
          {d \<in> set des. \<not> dots d} = {d. SLASH \<notin> set d \<and> node w (p @ SLASH # d) \<noteq> None} - {d. dots d})) \<and>
     (node w p \<noteq> None \<and> node w p \<noteq> Some NDir \<longrightarrow>
        (\<exists>w'. t_unlink os p w = (0, w') \<and> node w' = (node w)(p := None))) \<and>
     (node w p = Some NDir \<and> (\<forall>q. strictly_beneath p q \<longrightarrow> node w q = None) \<longrightarrow>
        (\<exists>w'. t_rmdir os p w = (0, w') \<and> node w' = (node w)(p := None))))"

definition canonical :: "(bytes \<Rightarrow> node_kind option) \<Rightarrow> bool" where
  "canonical t \<longleftrightarrow> finite (dom t) \<and> (\<forall>p \<in> dom t. length p < DN_SIZE) \<and>
     (\<forall>a b. a \<noteq> [] \<and> t (a @ SLASH # b) \<noteq> None \<longrightarrow> t a = Some NDir \<and> \<not> dots (takeWhile (\<lambda>c. c \<noteq> SLASH) b))"

lemma beneath_trans: "beneath p q \<Longrightarrow> beneath q r \<Longrightarrow> beneath p r"
  by (auto simp: beneath_def strictly_beneath_def)

lemma beneath_refl [simp]: "beneath p p"
  by (simp add: beneath_def)

lemma beneath_sub: "beneath p a \<Longrightarrow> beneath p (a @ SLASH # b)"
  by (auto simp: beneath_def strictly_beneath_def)

lemma sibling_apart:
  assumes "SLASH \<notin> set d" and "SLASH \<notin> set e" and "beneath (p @ SLASH # d) (p @ SLASH # e)"
  shows "d = e"
  using assms by (auto simp: beneath_def strictly_beneath_def)

lemma canonical_without: "canonical t \<Longrightarrow> canonical (\<lambda>q. if beneath p q then None else t q)"
  unfolding canonical_def by (auto simp: beneath_sub dom_def split: if_splits intro: finite_subset [where B = "dom t"])

lemma child_of:
  assumes "canonical t" and "p \<noteq> []" and "t q \<noteq> None" and "strictly_beneath p q"
  shows "\<exists>d. SLASH \<notin> set d \<and> t (p @ SLASH # d) \<noteq> None \<and> \<not> dots d \<and> beneath (p @ SLASH # d) q"
proof -
  obtain b where b: "q = p @ SLASH # b" using assms(4) by (auto simp: strictly_beneath_def)
  let ?d = "takeWhile (\<lambda>c. c \<noteq> SLASH) b" and ?r = "dropWhile (\<lambda>c. c \<noteq> SLASH) b"
  have nodots: "\<not> dots ?d" using assms(1-3) by (auto simp: canonical_def b)
  have noslash: "SLASH \<notin> set ?d" by (auto dest: set_takeWhileD)
  show ?thesis
  proof (cases ?r)
    case Nil
    then have "?d = b" by (metis append_Nil2 takeWhile_dropWhile_id)
    then show ?thesis using assms(3) nodots noslash b by (metis beneath_refl)
  next
    case (Cons c r)
    have c: "c = SLASH" using hd_dropWhile [of "\<lambda>c. c \<noteq> SLASH" b] Cons by simp
    then have q: "q = (p @ SLASH # ?d) @ SLASH # r" using takeWhile_dropWhile_id [of "\<lambda>c. c \<noteq> SLASH" b] Cons b by simp
    have "t (p @ SLASH # ?d) = Some NDir" using assms(1,3) unfolding canonical_def q by auto
    then show ?thesis using nodots noslash beneath_sub [of "p @ SLASH # ?d" "p @ SLASH # ?d" r] q by auto
  qed
qed

section \<open>A tree is unlinked\<close>

abbreviation without :: "(bytes \<Rightarrow> node_kind option) \<Rightarrow> bytes \<Rightarrow> bytes \<Rightarrow> node_kind option" where
  "without t p \<equiv> \<lambda>q. if beneath p q then None else t q"

lemma unlink_entries:
  assumes IH: "\<And>d w. d \<in> set des \<Longrightarrow> \<not> dots d \<Longrightarrow> canonical (node w) \<Longrightarrow> node w (p @ SLASH # d) \<noteq> None \<Longrightarrow> dom (node w) \<subseteq> D \<Longrightarrow>
      \<exists>w'. unlink_run os (Inl (p @ SLASH # d)) w = Some (0, w') \<and> node w' = without (node w) (p @ SLASH # d)"
    and "distinct des" and "canonical (node w)" and "dom (node w) \<subseteq> D"
    and "\<And>d. d \<in> set des \<Longrightarrow> \<not> dots d \<Longrightarrow> SLASH \<notin> set d \<and> node w (p @ SLASH # d) \<noteq> None"
  shows "\<exists>w'. unlink_run os (Inr (p, des)) w = Some (0, w') \<and>
    node w' = (\<lambda>q. if \<exists>d \<in> set des. \<not> dots d \<and> beneath (p @ SLASH # d) q then None else node w q)"
  using assms
proof (induction des arbitrary: w)
  case Nil
  then show ?case by (subst unlink_run.simps) simp
next
  case (Cons d des)
  show ?case
  proof (cases "dots d")
    case True
    then have "unlink_run os (Inr (p, d # des)) w = unlink_run os (Inr (p, des)) w" by (subst unlink_run.simps) simp
    moreover obtain w' where "unlink_run os (Inr (p, des)) w = Some (0, w')"
      "node w' = (\<lambda>q. if \<exists>d \<in> set des. \<not> dots d \<and> beneath (p @ SLASH # d) q then None else node w q)"
      using Cons.IH [of w] Cons.prems by auto
    ultimately show ?thesis using True by auto
  next
    case False
    then have d: "SLASH \<notin> set d" "node w (p @ SLASH # d) \<noteq> None" using Cons.prems(5) by auto
    then have "length (p @ SLASH # d) < DN_SIZE" using Cons.prems(3) unfolding canonical_def by blast
    then have cp: "child_path p d = p @ SLASH # d" by (simp add: child_path_def)
    obtain w1 where w1: "unlink_run os (Inl (p @ SLASH # d)) w = Some (0, w1)" "node w1 = without (node w) (p @ SLASH # d)"
      using Cons.prems(1) [of d w] False d(2) Cons.prems(3,4) by auto
    have others: "e \<in> set des \<Longrightarrow> \<not> dots e \<Longrightarrow> SLASH \<notin> set e \<and> node w1 (p @ SLASH # e) \<noteq> None" for e
      using Cons.prems(2) Cons.prems(5) [of e] sibling_apart [OF d(1), of e p] by (auto simp: w1(2))
    have w1c: "canonical (node w1)" "dom (node w1) \<subseteq> D"
      using canonical_without [OF Cons.prems(3)] Cons.prems(4) by (auto simp: w1(2) split: if_splits)
    obtain w' where w': "unlink_run os (Inr (p, des)) w1 = Some (0, w')"
      "node w' = (\<lambda>q. if \<exists>d \<in> set des. \<not> dots d \<and> beneath (p @ SLASH # d) q then None else node w1 q)"
      using Cons.IH [OF _ _ w1c others] Cons.prems(1,2) by auto
    have "unlink_run os (Inr (p, d # des)) w = Some (0, w')"
      by (subst unlink_run.simps) (simp add: False cp w1(1) w'(1))
    then show ?thesis using False by (auto simp: w'(2) w1(2) fun_eq_iff)
  qed
qed

lemma unlink_tree:
  assumes laws: "tree_laws os node" and "canonical (node w)" and "p \<noteq> []" and "node w p \<noteq> None"
  shows "\<exists>w'. unlink_run os (Inl p) w = Some (0, w') \<and> node w' = without (node w) p"
  using assms(2-4)
proof (induction "card {q \<in> dom (node w). beneath p q}" arbitrary: p w rule: less_induct)
  case less
  note law = laws [unfolded tree_laws_def, rule_format, of p]
  show ?case
  proof (cases "node w p = Some NDir")
    case False
    then obtain w' where w': "t_unlink os p w = (0, w')" "node w' = (node w)(p := None)" using law less.prems(3) by blast
    have "node w q = None" if "strictly_beneath p q" for q
      using that less.prems(1,2) False unfolding canonical_def strictly_beneath_def by (cases "node w q") auto
    then have "node w' = without (node w) p" unfolding w'(2) by (auto simp: beneath_def)
    moreover have "unlink_run os (Inl p) w = Some (0, w')"
      using less.prems(3) False law [of w] w'(1) by (subst unlink_run.simps) (auto split: option.split)
    ultimately show ?thesis by blast
  next
    case True
    then obtain des where des: "t_opendir os p w = Some des" "distinct des"
      "{d \<in> set des. \<not> dots d} = {d. SLASH \<notin> set d \<and> node w (p @ SLASH # d) \<noteq> None} - {d. dots d}" using law by blast
    have fin: "finite (dom (node w))" using less.prems(1) by (simp add: canonical_def)
    have IH: "\<exists>w2. unlink_run os (Inl (p @ SLASH # d)) w1 = Some (0, w2) \<and> node w2 = without (node w1) (p @ SLASH # d)"
      if "canonical (node w1)" "node w1 (p @ SLASH # d) \<noteq> None" "dom (node w1) \<subseteq> dom (node w)" for d w1
    proof (rule less.hyps [OF _ that(1) _ that(2)])
      have "{q \<in> dom (node w1). beneath (p @ SLASH # d) q} \<subset> {q \<in> dom (node w). beneath p q}"
      proof (rule psubsetI)
        show "{q \<in> dom (node w1). beneath (p @ SLASH # d) q} \<subseteq> {q \<in> dom (node w). beneath p q}"
          using that(3) beneath_trans [OF beneath_sub [OF beneath_refl]] by blast
        have "p \<in> {q \<in> dom (node w). beneath p q}" using less.prems(3) by auto
        moreover have "p \<notin> {q \<in> dom (node w1). beneath (p @ SLASH # d) q}" by (auto simp: beneath_def strictly_beneath_def)
        ultimately show "{q \<in> dom (node w1). beneath (p @ SLASH # d) q} \<noteq> {q \<in> dom (node w). beneath p q}" by blast
      qed
      then show "card {q \<in> dom (node w1). beneath (p @ SLASH # d) q} < card {q \<in> dom (node w). beneath p q}"
        using fin by (intro psubset_card_mono) auto
    qed simp
    obtain w1 where w1: "unlink_run os (Inr (p, des)) w = Some (0, w1)"
      "node w1 = (\<lambda>q. if \<exists>d \<in> set des. \<not> dots d \<and> beneath (p @ SLASH # d) q then None else node w q)"
      using unlink_entries [of des node p "dom (node w)" os w] IH des(2,3) less.prems(1) by blast
    have empty: "node w1 q = None" if "strictly_beneath p q" for q
      using child_of [OF less.prems(1,2) _ that] des(3) unfolding w1(2) by (cases "node w q") auto
    have still: "node w1 p = Some NDir" using True unfolding w1(2) by (auto simp: beneath_def strictly_beneath_def)
    obtain w' where w': "t_rmdir os p w1 = (0, w')" "node w' = (node w1)(p := None)" using law [of w1] still empty by blast
    have "node w' = without (node w) p"
    proof
      fix q
      show "node w' q = without (node w) p q"
        using empty [of q] beneath_trans [OF beneath_sub [OF beneath_refl], of p _ q] unfolding w'(2) w1(2)
        by (auto simp: beneath_def split: if_splits)
    qed
    moreover have "unlink_run os (Inl p) w = Some (0, w')"
      using True law [of w] law [of w1] by (subst unlink_run.simps) (simp add: des(1) w1(1) w'(1))
    ultimately show ?thesis by blast
  qed
qed

section \<open>A list of files\<close>

text \<open>A file system for the examples: the files with their paths.\<close>

definition files_in :: "bytes \<Rightarrow> (bytes \<times> node_kind) list \<Rightarrow> bytes list" where
  "files_in p w = [drop (length p + 1) q. q \<leftarrow> remdups (map fst w), take (length p + 1) q = p @ [SLASH] \<and>
     SLASH \<notin> set (drop (length p + 1) q), \<not> dots (drop (length p + 1) q)]"

definition list_tree :: "((bytes \<times> node_kind) list) tree_os" where
  "list_tree = \<lparr>
     t_lstat = \<lambda>p w. map_of w p,
     t_unlink = \<lambda>p w. (0, filter (\<lambda>e. fst e \<noteq> p) w),
     t_rmdir = \<lambda>p w. if files_in p w = [] then (0, filter (\<lambda>e. fst e \<noteq> p) w) else (-1, w),
     t_opendir = \<lambda>p w. Some (str ''.'' # str ''..'' # files_in p w),
     t_closedir = \<lambda>p w. 0,
     t_chown = \<lambda>p uid gid w. (0, w),
     t_chmod = \<lambda>p mode w. (0, w)\<rparr>"

lemma set_files_in: "set (files_in p w) = {d. SLASH \<notin> set d \<and> map_of w (p @ SLASH # d) \<noteq> None} - {d. dots d}"
proof -
  have "d \<in> set (files_in p w) \<longleftrightarrow> SLASH \<notin> set d \<and> \<not> dots d \<and> p @ SLASH # d \<in> fst ` set w" for d
  proof
    assume "d \<in> set (files_in p w)"
    then obtain q where q: "q \<in> fst ` set w" "take (length p + 1) q = p @ [SLASH]" "d = drop (length p + 1) q"
      "SLASH \<notin> set d" "\<not> dots d" by (auto simp: files_in_def)
    have "q = take (length p + 1) q @ d" unfolding q(3) by (rule append_take_drop_id [symmetric])
    then have "q = p @ SLASH # d" unfolding q(2) by simp
    then show "SLASH \<notin> set d \<and> \<not> dots d \<and> p @ SLASH # d \<in> fst ` set w" using q by simp
  next
    assume d: "SLASH \<notin> set d \<and> \<not> dots d \<and> p @ SLASH # d \<in> fst ` set w"
    then show "d \<in> set (files_in p w)" by (force simp: files_in_def)
  qed
  then show ?thesis by (auto simp: map_of_eq_None_iff)
qed

lemma distinct_files_in: "distinct (files_in p w)"
proof -
  have "distinct [drop n q. q \<leftarrow> qs, take n q = t \<and> A q, B q]" if "distinct qs" for n t A B and qs :: "bytes list"
    using that
  proof (induction qs)
    case (Cons q qs)
    have "drop n q \<noteq> drop n r \<or> take n r \<noteq> t" if "r \<in> set qs" "take n q = t" for r
      using Cons.prems that by (metis append_take_drop_id distinct.simps(2))
    then show ?case using Cons by auto
  qed simp
  from this [OF distinct_remdups] show ?thesis unfolding files_in_def .
qed

lemma map_of_removed: "map_of (filter (\<lambda>e. fst e \<noteq> p) w) = (map_of w)(p := None)"
  by (rule ext, induction w) auto

lemma list_tree_laws: "tree_laws list_tree map_of"
  unfolding tree_laws_def
proof (intro allI conjI impI)
  fix p w
  show "\<exists>des. t_opendir list_tree p w = Some des \<and> distinct des \<and>
      {d \<in> set des. \<not> dots d} = {d. SLASH \<notin> set d \<and> map_of w (p @ SLASH # d) \<noteq> None} - {d. dots d}"
    using distinct_files_in [of p w] by (auto simp: list_tree_def set_files_in dots_def str_def)
  show "\<exists>w'. t_rmdir list_tree p w = (0, w') \<and> map_of w' = (map_of w)(p := None)"
    if "map_of w p = Some NDir \<and> (\<forall>q. strictly_beneath p q \<longrightarrow> map_of w q = None)"
  proof -
    have "set (files_in p w) = {}" using that by (auto simp: set_files_in strictly_beneath_def)
    then show ?thesis by (simp add: list_tree_def map_of_removed)
  qed
qed (simp_all add: list_tree_def map_of_removed)

section \<open>Properties\<close>

text \<open>
  C35: on a file system whose calls do not fail, \<open>dirUnlinkHierarchy\<close> returns 0 for every file
  and directory; then the path and everything beneath it is gone, and everything else is left as it
  was.  The recursion ends.
\<close>

theorem dirUnlinkHierarchy_removes:
  assumes "tree_laws os node" and "canonical (node w)" and "path \<noteq> []" and "node w path \<noteq> None"
  shows "\<exists>w'. dirUnlinkHierarchy os path w = Some (0, w') \<and>
    (\<forall>q. node w' q = (if beneath path q then None else node w q))"
  using unlink_tree [OF assms] by (auto simp: dirUnlinkHierarchy_def)

definition sample_tree :: "(bytes \<times> node_kind) list" where
  "sample_tree = [(str ''/tmp/a'', NDir), (str ''/tmp/a/x'', NFile), (str ''/tmp/a/d'', NDir), (str ''/tmp/a/d/y'', NLink),
     (str ''/tmp/ab'', NFile), (str ''/tmp'', NDir)]"

lemma sample_tree_canonical: "canonical (map_of sample_tree)"
proof -
  have ok: "list_all (\<lambda>q. list_all (\<lambda>i. i = 0 \<or> q ! i \<noteq> SLASH \<or>
      map_of sample_tree (take i q) = Some NDir \<and> \<not> dots (takeWhile (\<lambda>c. c \<noteq> SLASH) (drop (Suc i) q))) [0..<length q])
      (map fst sample_tree)" by code_simp
  have short: "list_all (\<lambda>q. length q < DN_SIZE) (map fst sample_tree)" by code_simp
  have "map_of sample_tree a = Some NDir \<and> \<not> dots (takeWhile (\<lambda>c. c \<noteq> SLASH) b)"
    if "a \<noteq> []" "map_of sample_tree (a @ SLASH # b) \<noteq> None" for a b
  proof -
    have "a @ SLASH # b \<in> set (map fst sample_tree)" using that(2) by (auto simp: map_of_eq_None_iff)
    then have "list_all (\<lambda>i. i = 0 \<or> (a @ SLASH # b) ! i \<noteq> SLASH \<or> map_of sample_tree (take i (a @ SLASH # b)) = Some NDir \<and>
        \<not> dots (takeWhile (\<lambda>c. c \<noteq> SLASH) (drop (Suc i) (a @ SLASH # b)))) [0..<length (a @ SLASH # b)]"
      using ok unfolding list_all_iff [of _ "map fst sample_tree"] by blast
    moreover have "length a \<in> set [0..<length (a @ SLASH # b)]" by simp
    ultimately show ?thesis unfolding list_all_iff using that(1) by fastforce
  qed
  moreover have "\<forall>p \<in> dom (map_of sample_tree). length p < DN_SIZE"
    using short by (auto simp: list_all_iff dest!: map_of_SomeD)
  ultimately show ?thesis unfolding canonical_def using finite_dom_map_of by blast
qed

theorem dirUnlinkHierarchy_removes_witness:
  "(\<exists>w'. dirUnlinkHierarchy list_tree (str ''/tmp/a'') sample_tree = Some (0, w') \<and>
    (\<forall>q. map_of w' q = (if beneath (str ''/tmp/a'') q then None else map_of sample_tree q))) \<and>
   \<not> beneath (str ''/tmp/a'') (str ''/tmp/ab'')"
proof
  have "str ''/tmp/a'' \<noteq> [] \<and> map_of sample_tree (str ''/tmp/a'') \<noteq> None" by code_simp
  then show "\<exists>w'. dirUnlinkHierarchy list_tree (str ''/tmp/a'') sample_tree = Some (0, w') \<and>
    (\<forall>q. map_of w' q = (if beneath (str ''/tmp/a'') q then None else map_of sample_tree q))"
    using dirUnlinkHierarchy_removes [OF list_tree_laws sample_tree_canonical] by blast
  show "\<not> beneath (str ''/tmp/a'') (str ''/tmp/ab'')" by (auto simp: beneath_def strictly_beneath_def str_def)
qed

end
