(* ===== verification/Mtd.thy ===== *)
theory Mtd
  imports Files
begin

text \<open>
  Raw flash partitions, \<open>mtdutils/mtdutils.c\<close>: the table of partitions, and reading and writing
  in erase blocks around bad ones.

  The driver of the kernel is a \<open>chip\<close>: the bytes of every device, the count of uncorrectable
  errors, and the number of calls made so far.  A \<open>nand\<close> says which calls succeed, which reads
  meet an uncorrectable error, what a write really stores, and which blocks are marked bad.
  A seek and the transfer behind it are one call.  Plain files can be read to their end.
\<close>

section \<open>The driver\<close>

record chip =
  cells :: "nat \<Rightarrow> bytes"
  ecc_failed :: nat
  calls :: nat

record nand =
  n_ok :: "nat \<Rightarrow> bool"
  n_ecc :: "nat \<Rightarrow> bool"
  n_erases :: "nat \<Rightarrow> bool"
  n_store :: "nat \<Rightarrow> bytes \<Rightarrow> bytes"
  n_bad :: "nat \<Rightarrow> nat \<Rightarrow> int"
  n_unsupported :: bool
  n_info :: "nat \<Rightarrow> (u32 \<times> u32 \<times> u32) option"
  n_proc :: "nat \<Rightarrow> bytes option"

definition overwrite :: "bytes \<Rightarrow> nat \<Rightarrow> bytes \<Rightarrow> bytes" where
  "overwrite b pos d = take pos b @ d @ drop (pos + length d) b"

definition called :: "chip \<Rightarrow> chip" where
  "called c = c\<lparr>calls := calls c + 1\<rparr>"

definition io_getstats :: "nand \<Rightarrow> chip \<Rightarrow> nat option \<times> chip" where
  "io_getstats N c = (if n_ok N (calls c) then Some (ecc_failed c) else None, called c)"

definition io_getbadblock :: "nand \<Rightarrow> nat \<Rightarrow> nat \<Rightarrow> chip \<Rightarrow> int \<times> chip" where
  "io_getbadblock N d pos c = (n_bad N d pos, called c)"

definition io_read :: "nand \<Rightarrow> nat \<Rightarrow> nat \<Rightarrow> nat \<Rightarrow> chip \<Rightarrow> bytes option \<times> chip" where
  "io_read N d pos n c =
     (if n_ok N (calls c) \<and> pos + n \<le> length (cells c d) then Some (take n (drop pos (cells c d))) else None,
      (called c)\<lparr>ecc_failed := ecc_failed c + (if n_ecc N (calls c) then 1 else 0)\<rparr>)"

definition io_erase :: "nand \<Rightarrow> nat \<Rightarrow> nat \<Rightarrow> nat \<Rightarrow> chip \<Rightarrow> bool \<times> chip" where
  "io_erase N d pos n c =
     (if n_erases N (calls c) then (True, (called c)\<lparr>cells := (cells c)(d := overwrite (cells c d) pos (replicate n 0xff))\<rparr>)
      else (False, called c))"

definition io_write :: "nand \<Rightarrow> nat \<Rightarrow> nat \<Rightarrow> bytes \<Rightarrow> chip \<Rightarrow> chip" where
  "io_write N d pos data c =
     (called c)\<lparr>cells := (cells c)(d := overwrite (cells c d) pos (take (length data) (n_store N (calls c) data)))\<rparr>"

section \<open>The table of partitions\<close>

record MtdPartition =
  device_index :: nat
  p_size :: u32
  p_erase_size :: u32
  p_name :: bytes

text \<open>
  \<open>partitions\<close> is \<open>[]\<close> before the first scan; an entry that is not in use is \<open>None\<close>.
\<close>

record mtd_state =
  partitions :: "MtdPartition option list"
  partition_count :: int
  chip :: chip

text \<open>
  \<open>sscanf\<close> with the format of the lines of \<open>/proc/mtd\<close>, on the rest of the buffer.  The result is
  what is behind a conversion; a number that is too large saturates.
\<close>

definition scan_literal :: "string \<Rightarrow> bytes \<Rightarrow> bytes option" where
  "scan_literal l s = (if take (length l) s = str l then Some (drop (length l) s) else None)"

definition scan_blanks :: "bytes \<Rightarrow> bytes" where
  "scan_blanks s = dropWhile isspace s"

fun number_value :: "int \<Rightarrow> (u8 \<Rightarrow> int option) \<Rightarrow> int \<Rightarrow> bytes \<Rightarrow> int \<times> bytes" where
  "number_value base digit v [] = (v, [])"
| "number_value base digit v (c # cs) =
     (case digit c of None \<Rightarrow> (v, c # cs) | Some d \<Rightarrow> number_value base digit (v * base + d) cs)"

definition decimal_digit :: "u8 \<Rightarrow> int option" where
  "decimal_digit c = (if 48 \<le> c \<and> c \<le> 57 then Some (uint c - 48) else None)"

definition hexadecimal_digit :: "u8 \<Rightarrow> int option" where
  "hexadecimal_digit c =
     (if 48 \<le> c \<and> c \<le> 57 then Some (uint c - 48)
      else if 97 \<le> c \<and> c \<le> 102 then Some (uint c - 87)
      else if 65 \<le> c \<and> c \<le> 70 then Some (uint c - 55) else None)"

definition scan_sign :: "bytes \<Rightarrow> int \<times> bytes" where
  "scan_sign s = (case s of c # cs \<Rightarrow> if c = 45 then (-1, cs) else if c = 43 then (1, cs) else (1, s) | [] \<Rightarrow> (1, s))"

definition scan_number :: "int \<Rightarrow> (u8 \<Rightarrow> int option) \<Rightarrow> bytes \<Rightarrow> (int \<times> bytes) option" where
  "scan_number base digit s = (case s of
     [] \<Rightarrow> None
   | c # cs \<Rightarrow> if digit c = None then None else Some (number_value base digit 0 s))"

definition scan_d :: "bytes \<Rightarrow> (int \<times> bytes) option" where
  "scan_d s = do {
     let (sign, s) = scan_sign (scan_blanks s);
     (v, s) \<leftarrow> scan_number 10 decimal_digit s;
     Some (max (- (2 ^ 31)) (min (2 ^ 31 - 1) (sign * v)), s) }"

definition scan_x :: "bytes \<Rightarrow> (u32 \<times> bytes) option" where
  "scan_x s = do {
     let (sign, s) = scan_sign (scan_blanks s);
     let s = (if take 2 s \<in> {str ''0x'', str ''0X''} then drop 2 s else s);
     (v, s) \<leftarrow> scan_number 16 hexadecimal_digit s;
     Some (if v \<ge> 2 ^ 32 then - 1 else of_int (sign * v), s) }"

definition scan_line :: "bytes \<Rightarrow> (int \<times> u32 \<times> u32 \<times> bytes) option" where
  "scan_line bufp = do {
     s \<leftarrow> scan_literal ''mtd'' (takeWhile (\<lambda>c. c \<noteq> 0) bufp);
     (mtdnum, s) \<leftarrow> scan_d s;
     s \<leftarrow> scan_literal '':'' s;
     (mtdsize, s) \<leftarrow> scan_x (scan_blanks s);
     (mtderasesize, s) \<leftarrow> scan_x (scan_blanks s);
     s \<leftarrow> scan_literal [CHR 0x22] (scan_blanks s);
     let mtdname = take 63 (takeWhile (\<lambda>c. c \<noteq> 0x22) s);
     if mtdname = [] then None else Some (mtdnum, mtdsize, mtderasesize, mtdname) }"

definition eat_line :: "bytes \<Rightarrow> bytes" where
  "eat_line bufp = drop 1 (dropWhile (\<lambda>c. c \<noteq> 10) bufp)"

lemma length_eat_line: "bufp \<noteq> [] \<Longrightarrow> length (eat_line bufp) < length bufp"
proof -
  assume "bufp \<noteq> []"
  then have "0 < length bufp" by simp
  moreover have "length (dropWhile (\<lambda>c. c \<noteq> 10) bufp) \<le> length bufp" by (rule length_dropWhile_le)
  ultimately show ?thesis unfolding eat_line_def length_drop by linarith
qed

text \<open>A number outside of the table is an access outside of it; \<open>Inl\<close> is a failed \<open>strdup\<close>.\<close>

function line_loop :: "(nat \<Rightarrow> bool) \<Rightarrow> bytes \<Rightarrow> MtdPartition option list \<Rightarrow> int \<Rightarrow> (MtdPartition option list \<times> int option) option" where
  "line_loop malloc bufp ps n =
     (if bufp = [] then Some (ps, Some n)
      else case scan_line bufp of
        None \<Rightarrow> line_loop malloc (eat_line bufp) ps n
      | Some (mtdnum, mtdsize, mtderasesize, mtdname) \<Rightarrow>
          if \<not> (0 \<le> mtdnum \<and> nat mtdnum < length ps) then None
          else if \<not> malloc (length mtdname + 1) then Some (ps, None)
          else line_loop malloc (eat_line bufp)
            (ps[nat mtdnum := Some \<lparr>device_index = nat mtdnum, p_size = mtdsize, p_erase_size = mtderasesize, p_name = mtdname\<rparr>]) (n + 1))"
  by pat_completeness auto
termination
  by (relation "measure (\<lambda>(malloc, bufp, ps, n). length bufp)") (auto intro: length_eat_line)

declare line_loop.simps [simp del]

definition mtd_scan_partitions :: "(nat \<Rightarrow> bool) \<Rightarrow> nand \<Rightarrow> mtd_state \<Rightarrow> (int \<times> mtd_state) option" where
  "mtd_scan_partitions malloc N m =
     (if partitions m = [] \<and> \<not> malloc 512 then Some (-1, m)
      else
        let c = called (chip m);
            m = m\<lparr>partitions := replicate 32 None, partition_count := 0, chip := c\<rparr> in
        case n_proc N (calls c) of
          None \<Rightarrow> Some (-1, m\<lparr>partition_count := -1\<rparr>)
        | Some text \<Rightarrow> do {
            (ps, n) \<leftarrow> line_loop malloc (take 2047 text) (partitions m) 0;
            Some (case n of
                    None \<Rightarrow> (-1, m\<lparr>partitions := ps, partition_count := -1\<rparr>)
                  | Some n \<Rightarrow> (n, m\<lparr>partitions := ps, partition_count := n\<rparr>)) })"

fun find_slot :: "bytes \<Rightarrow> nat \<Rightarrow> MtdPartition option list \<Rightarrow> nat option" where
  "find_slot name i [] = None"
| "find_slot name i (p # ps) =
     (case p of Some p \<Rightarrow> if p_name p = name then Some i else find_slot name (i + 1) ps
      | None \<Rightarrow> find_slot name (i + 1) ps)"

definition mtd_find_partition_by_name :: "bytes \<Rightarrow> mtd_state \<Rightarrow> nat option" where
  "mtd_find_partition_by_name name m = find_slot name 0 (partitions m)"

text \<open>Total size, erase size and write size.\<close>

definition mtd_partition_info :: "nand \<Rightarrow> MtdPartition \<Rightarrow> chip \<Rightarrow> (u32 \<times> u32 \<times> u32) option \<times> chip" where
  "mtd_partition_info N p c =
     (if \<not> n_ok N (calls c) then (None, called c) else (n_info N (device_index p), called c))"

section \<open>Reading\<close>

record MtdReadContext =
  r_partition :: MtdPartition
  r_buffer :: bytes
  r_consumed :: nat
  r_pos :: nat

abbreviation erase_len :: "MtdPartition \<Rightarrow> nat" where
  "erase_len p \<equiv> unat (p_erase_size p)"

text \<open>
  The size of a block is a \<open>ssize_t\<close> and the size of a partition an \<open>int\<close>: from 2 GiB on they are
  negative.  A block of a negative size cannot be transferred; that the loops below have no result
  then is \<open>None\<close>.
\<close>

abbreviation erase_int :: "MtdPartition \<Rightarrow> int" where
  "erase_int p \<equiv> sint (p_erase_size p)"

text \<open>The loop of \<open>read_block\<close>: the block that has been read, and the offset behind it, of 64 bits.\<close>

partial_function (option) read_from ::
    "nand \<Rightarrow> MtdPartition \<Rightarrow> nat \<Rightarrow> nat \<Rightarrow> chip \<Rightarrow> ((bytes \<times> nat) option \<times> chip) option" where
  "read_from N p before pos c =
     (if \<not> int pos + erase_int p \<le> sint (p_size p) then Some (None, c)
      else if erase_int p < 0 then None
      else
        let (buf, c) = io_read N (device_index p) pos (erase_len p) c in
        case buf of
          None \<Rightarrow> read_from N p before (pos + erase_len p) c
        | Some buf \<Rightarrow>
            let (after, c) = io_getstats N c in
            case after of
              None \<Rightarrow> Some (None, c)
            | Some after \<Rightarrow>
                if after \<noteq> before then read_from N p after (pos + erase_len p) c
                else
                  let (mgbb, c) = io_getbadblock N (device_index p) pos c in
                  if mgbb \<noteq> 0 then read_from N p before (pos + erase_len p) c
                  else Some (Some (buf, pos + erase_len p), c))"

definition read_block :: "nand \<Rightarrow> MtdPartition \<Rightarrow> nat \<Rightarrow> chip \<Rightarrow> ((bytes \<times> nat) option \<times> chip) option" where
  "read_block N p pos c =
     (let (before, c) = io_getstats N c in
      case before of None \<Rightarrow> Some (None, c) | Some before \<Rightarrow> read_from N p before pos c)"

definition mtd_read_partition :: "(nat \<Rightarrow> bool) \<Rightarrow> nand \<Rightarrow> MtdPartition \<Rightarrow> chip \<Rightarrow> MtdReadContext option \<times> chip" where
  "mtd_read_partition malloc N p c =
     (if \<not> malloc (erase_len p) then (None, c)
      else if \<not> n_ok N (calls c) then (None, called c)
      else (Some \<lparr>r_partition = p, r_buffer = [], r_consumed = erase_len p, r_pos = 0\<rparr>, called c))"

definition mtd_read_skip_to :: "MtdReadContext \<Rightarrow> nat \<Rightarrow> MtdReadContext" where
  "mtd_read_skip_to ctx offset = ctx\<lparr>r_pos := offset\<rparr>"

text \<open>Complete blocks go directly into the buffer of the user, here the bytes read so far.\<close>

partial_function (option) read_blocks ::
    "nand \<Rightarrow> MtdReadContext \<Rightarrow> nat \<Rightarrow> bytes \<Rightarrow> chip \<Rightarrow> ((bytes \<times> MtdReadContext) option \<times> chip) option" where
  "read_blocks N ctx len data c =
     (let n = erase_len (r_partition ctx) in
      if r_consumed ctx = n \<and> len - length data \<ge> n then do {
        (r, c) \<leftarrow> read_block N (r_partition ctx) (r_pos ctx) c;
        case r of
          None \<Rightarrow> Some (None, c)
        | Some (buf, pos) \<Rightarrow> read_blocks N (ctx\<lparr>r_pos := pos\<rparr>) len (data @ buf) c }
      else Some (Some (data, ctx), c))"

partial_function (option) read_loop ::
    "nand \<Rightarrow> MtdReadContext \<Rightarrow> nat \<Rightarrow> bytes \<Rightarrow> chip \<Rightarrow> ((bytes \<times> MtdReadContext) option \<times> chip) option" where
  "read_loop N ctx len data c =
     (if \<not> length data < len then Some (Some (data, ctx), c)
      else
        let n = erase_len (r_partition ctx);
            (data, ctx) =
              (if r_consumed ctx < n then
                 let avail = n - r_consumed ctx;
                     copy = min (len - length data) avail in
                 (data @ take copy (drop (r_consumed ctx) (r_buffer ctx)), ctx\<lparr>r_consumed := r_consumed ctx + copy\<rparr>)
               else (data, ctx)) in do {
          (r, c) \<leftarrow> read_blocks N ctx len data c;
          case r of
            None \<Rightarrow> Some (None, c)
          | Some (data, ctx) \<Rightarrow>
              if length data \<ge> len then Some (Some (data, ctx), c)
              else if r_consumed ctx = n then do {
                (r, c) \<leftarrow> read_block N (r_partition ctx) (r_pos ctx) c;
                case r of
                  None \<Rightarrow> Some (None, c)
                | Some (buf, pos) \<Rightarrow> read_loop N (ctx\<lparr>r_buffer := buf, r_consumed := 0, r_pos := pos\<rparr>) len data c }
              else read_loop N ctx len data c })"

text \<open>The bytes that have been read, or the failure of a block; what a failing call leaves in
  the buffer of the user is not looked at by any caller.  The length is compared as an \<open>int\<close>, so
  nothing is read when 2 GiB or more are asked for.\<close>

definition mtd_read_data :: "nand \<Rightarrow> MtdReadContext \<Rightarrow> nat \<Rightarrow> chip \<Rightarrow> ((bytes \<times> MtdReadContext) option \<times> chip) option" where
  "mtd_read_data N ctx len c = (if 2 ^ 31 \<le> len then Some (Some ([], ctx), c) else read_loop N ctx len [] c)"

section \<open>Writing\<close>

text \<open>\<open>w_buffer\<close> is the part of the buffer that is stored.\<close>

record MtdWriteContext =
  w_partition :: MtdPartition
  w_buffer :: bytes
  w_pos :: nat
  bad_block_offsets :: "nat list"

definition mtd_write_partition :: "(nat \<Rightarrow> bool) \<Rightarrow> nand \<Rightarrow> MtdPartition \<Rightarrow> chip \<Rightarrow> MtdWriteContext option \<times> chip" where
  "mtd_write_partition malloc N p c =
     (if \<not> malloc (erase_len p) then (None, c)
      else if \<not> n_ok N (calls c) then (None, called c)
      else (Some \<lparr>w_partition = p, w_buffer = [], w_pos = 0, bad_block_offsets = []\<rparr>, called c))"

text \<open>The attempts to write one block.\<close>

fun attempts :: "nat \<Rightarrow> nand \<Rightarrow> nat \<Rightarrow> nat \<Rightarrow> bytes \<Rightarrow> chip \<Rightarrow> bool \<times> chip" where
  "attempts 0 N d pos data c = (False, c)"
| "attempts (Suc retry) N d pos data c =
     (let (ok, c) = io_erase N d pos (length data) c in
      if \<not> ok then attempts retry N d pos data c
      else
        let c = io_write N d pos data c;
            (verify, c) = io_read N d pos (length data) c in
        if verify \<noteq> Some data then attempts retry N d pos data c
        else (True, c))"

text \<open>
  The loop of \<open>write_block\<close>.  Its offset is an \<open>off_t\<close> of 32 bits; when the end of the block is
  outside of it, the signed sum overflows and the rest is undefined: \<open>None\<close>.
\<close>

partial_function (option) write_from ::
    "nand \<Rightarrow> MtdPartition \<Rightarrow> nat \<Rightarrow> nat list \<Rightarrow> bytes \<Rightarrow> chip \<Rightarrow> (nat option \<times> nat list \<times> chip) option" where
  "write_from N p pos bad data c =
     (if 2 ^ 31 \<le> int pos + erase_int p then None
      else if \<not> int pos + erase_int p \<le> sint (p_size p) then Some (None, bad, c)
      else if erase_int p < 0 then None
      else
        let (ret, c) = io_getbadblock N (device_index p) pos c in
        if ret \<noteq> 0 \<and> \<not> (ret = -1 \<and> n_unsupported N)
        then write_from N p (pos + erase_len p) (bad @ [pos]) data c
        else
          let (ok, c) = attempts 2 N (device_index p) pos data c in
          if ok then Some (Some (pos + erase_len p), bad, c)
          else
            let (_, c) = io_erase N (device_index p) pos (erase_len p) c in
            write_from N p (pos + erase_len p) (bad @ [pos]) data c)"

text \<open>\<open>write_block\<close>; without success the offset is not known.\<close>

definition write_block :: "nand \<Rightarrow> MtdWriteContext \<Rightarrow> bytes \<Rightarrow> chip \<Rightarrow> (bool \<times> MtdWriteContext \<times> chip) option" where
  "write_block N ctx data c = do {
     (r, bad, c) \<leftarrow> write_from N (w_partition ctx) (w_pos ctx) (bad_block_offsets ctx) data c;
     Some (case r of
             None \<Rightarrow> (False, ctx\<lparr>bad_block_offsets := bad\<rparr>, c)
           | Some pos \<Rightarrow> (True, ctx\<lparr>bad_block_offsets := bad, w_pos := pos\<rparr>, c)) }"

partial_function (option) write_blocks ::
    "nand \<Rightarrow> MtdWriteContext \<Rightarrow> bytes \<Rightarrow> nat \<Rightarrow> chip \<Rightarrow> (nat option \<times> MtdWriteContext \<times> chip) option" where
  "write_blocks N ctx data wrote c =
     (let n = erase_len (w_partition ctx) in
      if w_buffer ctx = [] \<and> length data - wrote \<ge> n then do {
        (ok, ctx, c) \<leftarrow> write_block N ctx (take n (drop wrote data)) c;
        if \<not> ok then Some (None, ctx, c) else write_blocks N ctx data (wrote + n) c }
      else Some (Some wrote, ctx, c))"

partial_function (option) write_loop ::
    "nand \<Rightarrow> MtdWriteContext \<Rightarrow> bytes \<Rightarrow> nat \<Rightarrow> chip \<Rightarrow> (int \<times> MtdWriteContext \<times> chip) option" where
  "write_loop N ctx data wrote c =
     (if \<not> wrote < length data then Some (int wrote, ctx, c)
      else
        let n = erase_len (w_partition ctx);
            (wrote, ctx) =
              (if w_buffer ctx \<noteq> [] \<or> length data - wrote < n then
                 let copy = min (length data - wrote) (n - length (w_buffer ctx)) in
                 (wrote + copy, ctx\<lparr>w_buffer := w_buffer ctx @ take copy (drop wrote data)\<rparr>)
               else (wrote, ctx)) in do {
          (ok, ctx, c) \<leftarrow>
            (if length (w_buffer ctx) = n then do {
               (ok, ctx, c) \<leftarrow> write_block N ctx (w_buffer ctx) c;
               Some (ok, if ok then ctx\<lparr>w_buffer := []\<rparr> else ctx, c) }
             else Some (True, ctx, c));
          if \<not> ok then Some (-1, ctx, c)
          else do {
            (r, ctx, c) \<leftarrow> write_blocks N ctx data wrote c;
            case r of
              None \<Rightarrow> Some (-1, ctx, c)
            | Some wrote \<Rightarrow> write_loop N ctx data wrote c } })"

text \<open>The count, an unsigned number, is returned as a signed one.\<close>

definition mtd_write_data :: "nand \<Rightarrow> MtdWriteContext \<Rightarrow> bytes \<Rightarrow> chip \<Rightarrow> (int \<times> MtdWriteContext \<times> chip) option" where
  "mtd_write_data N ctx data c = do {
     (n, ctx, c) \<leftarrow> write_loop N ctx data 0 c;
     Some (sint (word_of_int n :: u32), ctx, c) }"

section \<open>Erasing and closing\<close>

fun erase_loop :: "nand \<Rightarrow> MtdPartition \<Rightarrow> nat \<Rightarrow> nat \<Rightarrow> chip \<Rightarrow> nat \<times> chip" where
  "erase_loop N p 0 pos c = (pos, c)"
| "erase_loop N p (Suc blocks) pos c =
     (let (ret, c) = io_getbadblock N (device_index p) pos c in
      if ret > 0 then erase_loop N p blocks (pos + erase_len p) c
      else
        let (_, c) = io_erase N (device_index p) pos (erase_len p) c in
        erase_loop N p blocks (pos + erase_len p) c)"

text \<open>
  The number of blocks behind the offset is found with unsigned numbers.  A division by an erase
  size of 0 is undefined, and so are offsets of 2 GiB and more.
\<close>

definition mtd_erase_blocks :: "nand \<Rightarrow> MtdWriteContext \<Rightarrow> int \<Rightarrow> chip \<Rightarrow> (int \<times> MtdWriteContext \<times> chip) option" where
  "mtd_erase_blocks N ctx blocks c = do {
     let p = w_partition ctx;
     (ok, ctx, c) \<leftarrow>
       (if w_buffer ctx \<noteq> [] then do {
          (ok, ctx, c) \<leftarrow> write_block N ctx (w_buffer ctx @ replicate (erase_len p - length (w_buffer ctx)) 0) c;
          Some (ok, if ok then ctx\<lparr>w_buffer := []\<rparr> else ctx, c) }
        else Some (True, ctx, c));
     if \<not> ok then Some (-1, ctx, c)
     else if erase_len p = 0 then None
     else
       let all_blocks = sint ((p_size p - word_of_nat (w_pos ctx)) div p_erase_size p);
           blocks = (if blocks < 0 then all_blocks else blocks) in
       if blocks > all_blocks then Some (-1, ctx, c)
       else if 2 ^ 31 \<le> w_pos ctx + nat blocks * erase_len p then None
       else
         let (pos, c) = erase_loop N p (nat blocks) (w_pos ctx) c in
         Some (int pos, ctx, c) }"

definition mtd_write_close :: "nand \<Rightarrow> MtdWriteContext \<Rightarrow> chip \<Rightarrow> (int \<times> chip) option" where
  "mtd_write_close N ctx c = do {
     (r, ctx, c) \<leftarrow> mtd_erase_blocks N ctx 0 c;
     Some (if r = -1 \<or> \<not> n_ok N (calls c) then -1 else 0, called c) }"

fun write_start :: "nat \<Rightarrow> nat list \<Rightarrow> nat \<Rightarrow> nat" where
  "write_start n [] pos = pos"
| "write_start n (b # bs) pos =
     (if b = pos then write_start n bs (pos + n) else if b > pos then pos else write_start n bs pos)"

definition mtd_find_write_start :: "MtdWriteContext \<Rightarrow> nat \<Rightarrow> nat" where
  "mtd_find_write_start ctx pos = write_start (erase_len (w_partition ctx)) (bad_block_offsets ctx) pos"

section \<open>Whole partitions\<close>

definition with_chip :: "mtd_state world \<Rightarrow> chip \<Rightarrow> mtd_state world" where
  "with_chip w c = w\<lparr>mtd := (mtd w)\<lparr>chip := c\<rparr>\<rparr>"

definition find_scanned :: "(nat \<Rightarrow> bool) \<Rightarrow> nand \<Rightarrow> bytes \<Rightarrow> mtd_state \<Rightarrow> (MtdPartition option \<times> mtd_state) option" where
  "find_scanned malloc N name m = do {
     (n, m) \<leftarrow> mtd_scan_partitions malloc N m;
     Some (if n \<le> 0 then None
           else case mtd_find_partition_by_name name m of None \<Rightarrow> None | Some i \<Rightarrow> partitions m ! i, m) }"

definition HEADER_SIZE :: nat where "HEADER_SIZE = 2048"

text \<open>
  Copying a file in portions, and the rest of the first block.  A read without a result is the end
  of the file, or an error when the environment does not grant it.
\<close>

partial_function (option) copy_in ::
    "env \<Rightarrow> nand \<Rightarrow> bytes \<Rightarrow> nat \<Rightarrow> MtdWriteContext \<Rightarrow> mtd_state world \<Rightarrow> (bool \<times> MtdWriteContext \<times> mtd_state world) option" where
  "copy_in env N content pos out w =
     (let fine = granted env (clock w);
          (buf, w) = sys_read env content pos HEADER_SIZE w in
      if buf = [] then Some (fine, out, w)
      else do {
        (wrote, out, c) \<leftarrow> mtd_write_data N out buf (chip (mtd w));
        let w = with_chip w c;
        if wrote \<noteq> int (length buf) then Some (False, out, w)
        else copy_in env N content (pos + length buf) out w })"

partial_function (option) copy_rest ::
    "env \<Rightarrow> nand \<Rightarrow> bytes \<Rightarrow> nat \<Rightarrow> int \<Rightarrow> MtdWriteContext \<Rightarrow> mtd_state world \<Rightarrow> (bool \<times> MtdWriteContext \<times> mtd_state world) option" where
  "copy_rest env N content pos left out w =
     (if \<not> left > 0 then Some (True, out, w)
      else
        let (buf, w) = sys_read env content pos (if left > int HEADER_SIZE then HEADER_SIZE else nat left) w in
        if buf = [] then Some (False, out, w)
        else do {
          (wrote, out, c) \<leftarrow> mtd_write_data N out buf (chip (mtd w));
          let w = with_chip w c;
          if wrote \<noteq> int (length buf) then Some (False, out, w)
          else copy_rest env N content (pos + length buf) (left - int (length buf)) out w })"

text \<open>\<open>while (left < 0) left += block\_size\<close>; endless for a block size of 0.\<close>

partial_function (option) raise_left :: "int \<Rightarrow> int \<Rightarrow> int option" where
  "raise_left block_size left = (if left < 0 then raise_left block_size (left + block_size) else Some left)"

definition cmd_mtd_restore_raw_partition ::
    "(nat \<Rightarrow> bool) \<Rightarrow> env \<Rightarrow> nand \<Rightarrow> bytes \<Rightarrow> bytes \<Rightarrow> mtd_state world \<Rightarrow> (int \<times> mtd_state world) option" where
  "cmd_mtd_restore_raw_partition malloc env N partition_name filename w = do {
     (part, m) \<leftarrow> find_scanned malloc N partition_name (mtd w);
     let w = w\<lparr>mtd := m\<rparr>;
     case part of
       None \<Rightarrow> Some (-1, w)
     | Some part \<Rightarrow>
         (let (fd, w) = sys_open env filename w in
          case fd of
            None \<Rightarrow> Some (-1, w)
          | Some f \<Rightarrow>
              let content = f_data f;
                  (header, w) = sys_read env content 0 HEADER_SIZE w in
              if header = [] then Some (-1, w)
              else
                let (out, c) = mtd_write_partition malloc N part (chip (mtd w)); w = with_chip w c in
                case out of
                  None \<Rightarrow> Some (-1, w)
                | Some out \<Rightarrow> do {
                    (wrote, out, c) \<leftarrow> mtd_write_data N out (replicate (length header) 0) (chip (mtd w));
                    let w = with_chip w c;
                    if wrote \<noteq> int (length header) then Some (-1, w)
                    else do {
                      (ok, out, w) \<leftarrow> copy_in env N content (length header) out w;
                      if \<not> ok then Some (-1, w)
                      else do {
                        (rc, c) \<leftarrow> mtd_write_close N out (chip (mtd w));
                        let w = with_chip w c;
                        if rc \<noteq> 0 then Some (-1, w)
                        else
                          let (out, c) = mtd_write_partition malloc N part (chip (mtd w)); w = with_chip w c in
                          case out of
                            None \<Rightarrow> Some (-1, w)
                          | Some out \<Rightarrow> do {
                              (wrote, out, c) \<leftarrow> mtd_write_data N out header (chip (mtd w));
                              let w = with_chip w c;
                              if wrote \<noteq> int (length header) then Some (-1, w)
                              else
                                let (info, c) = mtd_partition_info N part (chip (mtd w)); w = with_chip w c in
                                case info of
                                  None \<Rightarrow> Some (-1, w)
                                | Some (_, block_size, _) \<Rightarrow>
                                    if \<not> granted env (clock w) then Some (-1, step_clock w)
                                    else do {
                                    let w = step_clock w;
                                    left \<leftarrow> raise_left (uint block_size) (uint block_size - int (length header));
                                    (ok, out, w) \<leftarrow> copy_rest env N content (length header) left out w;
                                    if \<not> ok then Some (-1, w)
                                    else do {
                                      (rc, c) \<leftarrow> mtd_write_close N out (chip (mtd w));
                                      Some (if rc \<noteq> 0 then -1 else 0, with_chip w c) } } } } } }) }"

definition BLOCK_SIZE :: nat where "BLOCK_SIZE = 2048"

text \<open>The copy ends with the first block that cannot be read, at the latest with the partition.\<close>

partial_function (option) copy_out ::
    "env \<Rightarrow> nand \<Rightarrow> MtdReadContext \<Rightarrow> bytes \<Rightarrow> nat \<Rightarrow> mtd_state world \<Rightarrow> (bool \<times> mtd_state world) option" where
  "copy_out env N ctx path pos w = do {
     (r, c) \<leftarrow> mtd_read_data N ctx BLOCK_SIZE (chip (mtd w));
     let w = with_chip w c;
     case r of
       None \<Rightarrow> Some (True, w)
     | Some (buf, ctx) \<Rightarrow>
         (let (wrote, w) = sys_write env path pos buf w in
          if wrote \<noteq> int (length buf) then Some (False, w)
          else copy_out env N ctx path (pos + length buf) w) }"

definition STDOUT :: bytes where "STDOUT = str ''/dev/stdout''"

definition cmd_mtd_backup_raw_partition ::
    "(nat \<Rightarrow> bool) \<Rightarrow> env \<Rightarrow> nand \<Rightarrow> bytes \<Rightarrow> bytes \<Rightarrow> mtd_state world \<Rightarrow> (int \<times> mtd_state world) option" where
  "cmd_mtd_backup_raw_partition malloc env N partition_name filename w = do {
     (part, m) \<leftarrow> find_scanned malloc N partition_name (mtd w);
     let w = w\<lparr>mtd := m\<rparr>;
     case part of
       None \<Rightarrow> Some (-1, w)
     | Some part \<Rightarrow>
         (let (info, c) = mtd_partition_info N part (chip (mtd w)); w = with_chip w c in
          case info of
            None \<Rightarrow> Some (-1, w)
          | Some _ \<Rightarrow>
              let path = (if filename = str ''-'' then STDOUT else filename);
                  (ok, w) = (if filename = str ''-'' then (True, w) else sys_create env filename w) in
              if \<not> ok then Some (-1, w)
              else
                let (ctx, c) = mtd_read_partition malloc N part (chip (mtd w)); w = with_chip w c in
                case ctx of
                  None \<Rightarrow> Some (-1, sys_unlink env filename w)
                | Some ctx \<Rightarrow> do {
                    (ok, w) \<leftarrow> copy_out env N ctx path 0 w;
                    if \<not> ok then Some (-1, sys_unlink env filename w)
                    else if \<not> granted env (clock w) then Some (-1, sys_unlink env filename (step_clock w))
                    else Some (0, step_clock w) }) }"

text \<open>The result of \<open>mtd\_erase\_blocks\<close> is compared with 0 only.\<close>

definition cmd_mtd_erase_raw_partition :: "(nat \<Rightarrow> bool) \<Rightarrow> nand \<Rightarrow> bytes \<Rightarrow> mtd_state \<Rightarrow> (int \<times> mtd_state) option" where
  "cmd_mtd_erase_raw_partition malloc N partition_name m = do {
     (part, m) \<leftarrow> find_scanned malloc N partition_name m;
     case part of
       None \<Rightarrow> Some (-1, m)
     | Some part \<Rightarrow>
         (let (out, c) = mtd_write_partition malloc N part (chip m); m = m\<lparr>chip := c\<rparr> in
          case out of
            None \<Rightarrow> Some (-1, m)
          | Some out \<Rightarrow> do {
              (erased, out, c) \<leftarrow> mtd_erase_blocks N out (-1) (chip m);
              Some (if erased = 0 then -1 else 0, m\<lparr>chip := c\<rparr>) }) }"

definition cmd_mtd_erase_partition ::
    "(nat \<Rightarrow> bool) \<Rightarrow> nand \<Rightarrow> bytes \<Rightarrow> bytes \<Rightarrow> mtd_state \<Rightarrow> (int \<times> mtd_state) option" where
  "cmd_mtd_erase_partition malloc N partition_name filesystem = cmd_mtd_erase_raw_partition malloc N partition_name"

end
