(* ===== verification/Volumes.thy ===== *)
theory Volumes
  imports DirUtil Mtd
begin

unbundle bit_operations_syntax

text \<open>
  Volumes: the table of \<open>/etc/recovery.fstab\<close>, mounting, unmounting and formatting
  (\<open>roots.c\<close>, \<open>mounts.c\<close> and what they use of \<open>flashutils\<close>, \<open>mtdutils\<close> and \<open>extendedcommands.c\<close>).

  The kernel, the programs that are run, and the library that makes ext4 file systems are the fields of
  \<open>kernel\<close>, over a state \<open>'w\<close> of the outside world.  A stream that is opened delivers its
  bytes up to its end or an error.  Memory for strings and tables is always there.
\<close>

section \<open>The kernel\<close>

record 'w kernel = "'w os" +
  k_malloc :: "nat \<Rightarrow> bool"
  k_nand :: nand
  k_proc_mounts :: "'w \<Rightarrow> bytes option \<times> 'w"
  k_mount :: "bytes \<Rightarrow> bytes \<Rightarrow> bytes \<Rightarrow> nat \<Rightarrow> bytes option \<Rightarrow> 'w \<Rightarrow> int \<times> 'w"
  k_umount :: "bytes option \<Rightarrow> 'w \<Rightarrow> int \<times> 'w"
  k_system :: "bytes \<Rightarrow> 'w \<Rightarrow> int \<times> 'w"
  k_exec :: "bytes list \<Rightarrow> 'w \<Rightarrow> int \<times> 'w"
  k_mode :: "bytes \<Rightarrow> 'w \<Rightarrow> nat option"
  k_chmod :: "bytes \<Rightarrow> nat \<Rightarrow> 'w \<Rightarrow> int \<times> 'w"
  k_access :: "bytes \<Rightarrow> 'w \<Rightarrow> bool"
  k_rmdir :: "bytes \<Rightarrow> 'w \<Rightarrow> 'w"
  k_symlink :: "bytes \<Rightarrow> bytes \<Rightarrow> 'w \<Rightarrow> 'w"
  k_make_ext4fs :: "bytes \<Rightarrow> 'w \<Rightarrow> int \<times> 'w"
  k_read :: "bytes \<Rightarrow> 'w \<Rightarrow> bytes option \<times> 'w"
  k_write :: "bytes \<Rightarrow> bool \<Rightarrow> bytes \<Rightarrow> 'w \<Rightarrow> bool \<times> 'w"
  k_unlink :: "bytes \<Rightarrow> 'w \<Rightarrow> int \<times> 'w"
  k_uid :: "bytes \<Rightarrow> 'w \<Rightarrow> nat"
  k_errno :: "'w \<Rightarrow> nat"

definition MS_RDONLY :: nat where "MS_RDONLY = 1"
definition MS_REMOUNT :: nat where "MS_REMOUNT = 32"
definition MS_USUAL :: nat where "MS_USUAL = 1024 + 4 + 2048"

section \<open>Strings of C\<close>

definition cstring :: "bytes \<Rightarrow> bytes" where
  "cstring s = takeWhile (\<lambda>c. c \<noteq> 0) s"

text \<open>\<open>strtok\<close>: the next token, if there is one, and the rest.\<close>

definition next_token :: "bytes \<Rightarrow> bytes \<Rightarrow> bytes option \<times> bytes" where
  "next_token delims s =
     (case dropWhile (\<lambda>c. c \<in> set delims) s of
        [] \<Rightarrow> (None, [])
      | t \<Rightarrow> (Some (takeWhile (\<lambda>c. c \<notin> set delims) t), drop 1 (dropWhile (\<lambda>c. c \<notin> set delims) t)))"

text \<open>\<open>fgets\<close> into a buffer of \<open>size\<close> bytes, on the bytes a stream still delivers.\<close>

definition first_line :: "bytes \<Rightarrow> bytes" where
  "first_line s = takeWhile (\<lambda>c. c \<noteq> 10) s @ take 1 (dropWhile (\<lambda>c. c \<noteq> 10) s)"

definition fgets :: "nat \<Rightarrow> bytes \<Rightarrow> (bytes \<times> bytes) option" where
  "fgets room s =
     (if s = [] then None
      else let line = take (room - 1) (first_line s) in Some (cstring line, drop (length line) s))"

lemma first_line_nonempty: "s \<noteq> [] \<Longrightarrow> first_line s \<noteq> []"
  by (cases s) (simp_all add: first_line_def)

lemma fgets_shrinks: "fgets room s = Some (line, rest) \<Longrightarrow> 2 \<le> room \<Longrightarrow> length rest < length s"
  by (auto simp: fgets_def Let_def first_line_nonempty split: if_splits)

section \<open>The table of volumes\<close>

record Volume =
  v_mount_point :: bytes
  v_fs_type :: bytes
  v_device :: "bytes option"
  v_device2 :: "bytes option"
  v_fs_type2 :: "bytes option"
  v_fs_options :: "bytes option"
  v_fs_options2 :: "bytes option"

record MountedVolume =
  m_device :: bytes
  m_mount_point :: bytes
  m_filesystem :: bytes
  m_flags :: bytes

text \<open>
  The state of the recovery program that the volumes need; \<open>mount\_table\<close> is \<open>[]\<close> before the
  first scan, and an entry that has been cleared is \<open>None\<close>.
\<close>

record 'w phone =
  outside :: 'w
  flash :: mtd_state
  device_volumes :: "Volume list"
  mount_table :: "MountedVolume option list"
  volume_count :: nat
  the_flash_type :: int

definition is_null :: "bytes option \<Rightarrow> bool" where
  "is_null sz \<longleftrightarrow> sz = None \<or> sz = Some (str ''NULL'')"

definition dupe_string :: "bytes option \<Rightarrow> bytes option" where
  "dupe_string sz = (if is_null sz then None else sz)"

definition WHITE :: bytes where
  "WHITE = [32, 9, 10]"

text \<open>One line, from its first character that is not blank; \<open>None\<close> for a malformed line.\<close>

definition volume_of_line :: "bytes \<Rightarrow> Volume option" where
  "volume_of_line s =
     (let (mount_point, s) = next_token WHITE s;
          (fs_type, s) = next_token WHITE s;
          (device, s) = next_token WHITE s;
          (device2, s) = next_token WHITE s;
          (fs_type2, s) = next_token WHITE s;
          (fs_options, s) = next_token WHITE s;
          (fs_options2, s) = next_token WHITE s in
      if mount_point \<noteq> None \<and> fs_type \<noteq> None \<and> device \<noteq> None then
        Some \<lparr>v_mount_point = the mount_point,
          v_fs_type = (if \<not> is_null fs_type2 then the fs_type2 else the fs_type),
          v_device = device,
          v_device2 = (if \<not> is_null device2 then device2 else None),
          v_fs_type2 = (if \<not> is_null fs_type2 then fs_type else None),
          v_fs_options = (if \<not> is_null fs_type2 then dupe_string fs_options2 else dupe_string fs_options),
          v_fs_options2 = (if \<not> is_null fs_type2 then dupe_string fs_options else None)\<rparr>
      else None)"

function fstab_loop :: "bytes \<Rightarrow> Volume list \<Rightarrow> Volume list" where
  "fstab_loop fstab vs =
     (case fgets 1023 fstab of
        None \<Rightarrow> vs
      | Some (line, fstab) \<Rightarrow>
          let s = dropWhile isspace line in
          if s = [] \<or> hd s = 35 then fstab_loop fstab vs
          else case volume_of_line s of
            Some v \<Rightarrow> fstab_loop fstab (vs @ [v])
          | None \<Rightarrow> fstab_loop fstab vs)"
  by pat_completeness auto
termination
  by (relation "measure (\<lambda>(fstab, vs). length fstab)") (auto dest: fgets_shrinks)

declare fstab_loop.simps [simp del]

definition tmp_volume :: Volume where
  "tmp_volume = \<lparr>v_mount_point = str ''/tmp'', v_fs_type = str ''ramdisk'', v_device = None, v_device2 = None,
     v_fs_type2 = None, v_fs_options = None, v_fs_options2 = None\<rparr>"

definition load_volume_table :: "('w, 'z) kernel_scheme \<Rightarrow> 'w phone \<Rightarrow> 'w phone" where
  "load_volume_table K s =
     (let (fstab, w) = k_read K (str ''/etc/recovery.fstab'') (outside s);
          s = s\<lparr>outside := w, device_volumes := [tmp_volume]\<rparr> in
      case fstab of
        None \<Rightarrow> s
      | Some fstab \<Rightarrow> s\<lparr>device_volumes := fstab_loop fstab (device_volumes s)\<rparr>)"

definition in_volume :: "bytes \<Rightarrow> bytes \<Rightarrow> bool" where
  "in_volume path mp \<longleftrightarrow> take (length mp) path = mp \<and>
     (drop (length mp) path = [] \<or> hd (drop (length mp) path) = SLASH)"

fun find_volume :: "bytes \<Rightarrow> Volume list \<Rightarrow> Volume option" where
  "find_volume path [] = None"
| "find_volume path (v # vs) = (if in_volume path (v_mount_point v) then Some v else find_volume path vs)"

definition volume_for_path :: "bytes \<Rightarrow> 'w phone \<Rightarrow> Volume option" where
  "volume_for_path path s = find_volume path (device_volumes s)"

section \<open>Mounted volumes\<close>

text \<open>\<open>%s\<close> of \<open>sscanf\<close> with a field width.\<close>

definition scan_word :: "nat \<Rightarrow> bytes \<Rightarrow> (bytes \<times> bytes) option" where
  "scan_word width s =
     (let s = scan_blanks s; t = take width (takeWhile (\<lambda>c. \<not> isspace c) s) in
      if t = [] then None else Some (t, drop (length t) s))"

definition scan_mount :: "bytes \<Rightarrow> MountedVolume option" where
  "scan_mount bufp = do {
     (dev, s) \<leftarrow> scan_word 63 (cstring bufp);
     (mp, s) \<leftarrow> scan_word 63 s;
     (fs, s) \<leftarrow> scan_word 63 s;
     (flags, s) \<leftarrow> scan_word 127 s;
     Some \<lparr>m_device = dev, m_mount_point = mp, m_filesystem = fs, m_flags = flags\<rparr> }"

text \<open>The table has room for 32 volumes; an entry behind it is an access outside of it.\<close>

function mounts_loop :: "bytes \<Rightarrow> MountedVolume option list \<Rightarrow> nat \<Rightarrow> (MountedVolume option list \<times> nat) option" where
  "mounts_loop bufp vs n =
     (if bufp = [] then Some (vs, n)
      else case scan_mount bufp of
        None \<Rightarrow> mounts_loop (eat_line bufp) vs n
      | Some v \<Rightarrow> if n \<ge> length vs then None else mounts_loop (eat_line bufp) (vs[n := Some v]) (n + 1))"
  by pat_completeness auto
termination
  by (relation "measure (\<lambda>(bufp, vs, n). length bufp)") (auto intro: length_eat_line)

declare mounts_loop.simps [simp del]

definition scan_mounted_volumes :: "('w, 'z) kernel_scheme \<Rightarrow> 'w phone \<Rightarrow> (int \<times> 'w phone) option" where
  "scan_mounted_volumes K s =
     (if mount_table s = [] \<and> \<not> k_malloc K 512 then Some (-1, s)
      else
        let table = (if mount_table s = [] then replicate 32 None
                     else replicate (volume_count s) None @ drop (volume_count s) (mount_table s));
            (mounts, w) = k_proc_mounts K (outside s);
            s = s\<lparr>outside := w, mount_table := table, volume_count := 0\<rparr> in
        case mounts of
          None \<Rightarrow> Some (-1, s)
        | Some buf \<Rightarrow> do {
            (vs, n) \<leftarrow> mounts_loop (take 2047 buf) (mount_table s) 0;
            Some (0, s\<lparr>mount_table := vs, volume_count := n\<rparr>) })"

text \<open>The index of the entry.\<close>

fun find_entry :: "(MountedVolume \<Rightarrow> bool) \<Rightarrow> nat \<Rightarrow> MountedVolume option list \<Rightarrow> nat option" where
  "find_entry wanted i [] = None"
| "find_entry wanted i (v # vs) =
     (case v of Some v \<Rightarrow> if wanted v then Some i else find_entry wanted (i + 1) vs
      | None \<Rightarrow> find_entry wanted (i + 1) vs)"

definition find_mounted_volume_by_device :: "bytes \<Rightarrow> 'w phone \<Rightarrow> nat option" where
  "find_mounted_volume_by_device dev s = find_entry (\<lambda>v. m_device v = dev) 0 (take (volume_count s) (mount_table s))"

definition find_mounted_volume_by_mount_point :: "bytes \<Rightarrow> 'w phone \<Rightarrow> nat option" where
  "find_mounted_volume_by_mount_point mp s = find_entry (\<lambda>v. m_mount_point v = mp) 0 (take (volume_count s) (mount_table s))"

definition unmount_mounted_volume :: "('w, 'z) kernel_scheme \<Rightarrow> nat \<Rightarrow> 'w phone \<Rightarrow> int \<times> 'w phone" where
  "unmount_mounted_volume K i s =
     (let (ret, w) = k_umount K (map_option m_mount_point (mount_table s ! i)) (outside s);
          s = s\<lparr>outside := w\<rparr> in
      if ret = 0 then (0, s\<lparr>mount_table := (mount_table s)[i := None]\<rparr>) else (ret, s))"

text \<open>\<open>mount\<close> fails on the null pointers of an entry that has been cleared.\<close>

definition remount_read_only :: "('w, 'z) kernel_scheme \<Rightarrow> nat \<Rightarrow> 'w phone \<Rightarrow> int \<times> 'w phone" where
  "remount_read_only K i s =
     (case mount_table s ! i of
        None \<Rightarrow> (-1, s)
      | Some v \<Rightarrow>
          let (ret, w) = k_mount K (m_device v) (m_mount_point v) (m_filesystem v) (MS_USUAL + MS_RDONLY + MS_REMOUNT) None (outside s) in
          (ret, s\<lparr>outside := w\<rparr>))"

section \<open>Kinds of flash\<close>

definition UNSUPPORTED :: int where "UNSUPPORTED = -1"
definition UNKNOWN :: int where "UNKNOWN = 0"
definition MTD :: int where "MTD = 1"
definition MMC :: int where "MMC = 2"
definition BML :: int where "BML = 3"

definition BOARD_BML_BOOT :: bytes where "BOARD_BML_BOOT = str ''/dev/block/bml7''"

definition device_flash_type :: "('w, 'z) kernel_scheme \<Rightarrow> 'w phone \<Rightarrow> int \<times> 'w phone" where
  "device_flash_type K s =
     (let there = (\<lambda>path. k_access K (str path) (outside s));
          s = (if the_flash_type s = UNKNOWN then
                 if k_access K BOARD_BML_BOOT (outside s) then s\<lparr>the_flash_type := BML\<rparr>
                 else if there ''/proc/emmc'' then s\<lparr>the_flash_type := MMC\<rparr>
                 else if there ''/proc/mtd'' then s\<lparr>the_flash_type := MTD\<rparr>
                 else s\<lparr>the_flash_type := UNSUPPORTED\<rparr>
               else s) in
      (the_flash_type s, s))"

definition get_default_filesystem :: "('w, 'z) kernel_scheme \<Rightarrow> 'w phone \<Rightarrow> bytes \<times> 'w phone" where
  "get_default_filesystem K s =
     (let (t, s) = device_flash_type K s in (if t = MMC then str ''ext3'' else str ''yaffs2'', s))"

definition get_flash_type :: "bytes \<Rightarrow> int" where
  "get_flash_type partitionType =
     (if partitionType = str ''mtd'' then MTD
      else if partitionType = str ''emmc'' then MMC
      else if partitionType = str ''bml'' then BML
      else UNSUPPORTED)"

definition detect_partition :: "('w, 'z) kernel_scheme \<Rightarrow> bytes option \<Rightarrow> bytes \<Rightarrow> 'w phone \<Rightarrow> int \<times> 'w phone" where
  "detect_partition K partitionType part s =
     (let (type, s) = device_flash_type K s;
          type = (if strstr part (str ''/dev/block/mtd'') then MTD
                  else if strstr part (str ''/dev/block/mmc'') then MMC
                  else if strstr part (str ''/dev/block/bml'') then BML
                  else type) in
      (case partitionType of Some t \<Rightarrow> get_flash_type t | None \<Rightarrow> type, s))"

section \<open>Mounting\<close>

text \<open>A partition of raw flash, and the permissions of its root.\<close>

definition mtd_mount_partition ::
    "('w, 'z) kernel_scheme \<Rightarrow> MtdPartition \<Rightarrow> bytes \<Rightarrow> bytes \<Rightarrow> bool \<Rightarrow> 'w \<Rightarrow> int \<times> 'w" where
  "mtd_mount_partition K p mp filesystem read_only w =
     (let devname = str ''/dev/block/mtdblock'' @ decimal_string (int (device_index p));
          (rv, w) = (if \<not> read_only then k_mount K devname mp filesystem MS_USUAL None w else (-1, w));
          (rv, w) = (if read_only \<or> rv < 0 then k_mount K devname mp filesystem (MS_USUAL + MS_RDONLY) None w else (rv, w)) in
      if rv \<ge> 0 then
        case k_mode K mp w of
          None \<Rightarrow> (-1, w)
        | Some mode \<Rightarrow>
            let new_mode = mode OR 0x49 in
            if new_mode \<noteq> mode then k_chmod K mp new_mode w else (0, w)
      else (rv, w))"

definition try_mount ::
    "('w, 'z) kernel_scheme \<Rightarrow> bytes option \<Rightarrow> bytes \<Rightarrow> bytes option \<Rightarrow> bytes option \<Rightarrow> 'w \<Rightarrow> int \<times> 'w" where
  "try_mount K dev mp fs_type fs_options w =
     (if dev = None \<or> fs_type = None then (-1, w)
      else
        let at = the dev @ [32] @ mp;
            (ret, w) =
              (case fs_options of
                 None \<Rightarrow> k_mount K (the dev) mp (the fs_type) MS_USUAL (Some (str ''check=no'')) w
               | Some opts \<Rightarrow> k_system K (str ''mount -t '' @ the fs_type @ str '' -o'' @ opts @ [32] @ at) w) in
        if ret = 0 then (0, w)
        else
          let (ret, w) = k_system K (str ''mount -t ext4 '' @ at) w in
          if ret = 0 then (0, w)
          else
            let (ret, w) = k_system K (str ''mount -t rfs '' @ at) w in
            if ret = 0 then (0, w)
            else if mp = str ''/sdcard'' then k_system K (str ''mount -t vfat '' @ at) w
            else (ret, w))"

definition is_data_media :: "'w phone \<Rightarrow> bool" where
  "is_data_media s \<longleftrightarrow> (case volume_for_path (str ''/data'') s of
     None \<Rightarrow> False | Some v \<Rightarrow> v_fs_type v = str ''auto'' \<and> volume_for_path (str ''/sdcard'') s = None)"

definition setup_data_media :: "('w, 'z) kernel_scheme \<Rightarrow> 'w \<Rightarrow> 'w" where
  "setup_data_media K w =
     k_symlink K (str ''/data/media'') (str ''/sdcard'')
       (snd (os_mkdir K (str ''/data/media'') 0x1ED (k_rmdir K (str ''/sdcard'') w)))"

text \<open>What \<open>ensure\_path\_mounted\<close> does for a volume that is not mounted.\<close>

definition mount_volume :: "('w, 'z) kernel_scheme \<Rightarrow> bytes \<Rightarrow> Volume \<Rightarrow> 'w phone \<Rightarrow> (int \<times> 'w phone) option" where
  "mount_volume K path v s =
     (let (_, w) = os_mkdir K (v_mount_point v) 0x1ED (outside s); s = s\<lparr>outside := w\<rparr> in
      if v_fs_type v = str ''yaffs2'' then do {
        dev \<leftarrow> v_device v;
        (_, m) \<leftarrow> mtd_scan_partitions (k_malloc K) (k_nand K) (flash s);
        let s = s\<lparr>flash := m\<rparr>;
        case mtd_find_partition_by_name dev m of
          None \<Rightarrow> Some (-1, s)
        | Some i \<Rightarrow> do {
            p \<leftarrow> partitions m ! i;
            let (r, w) = mtd_mount_partition K p (v_mount_point v) (v_fs_type v) False (outside s);
            Some (r, s\<lparr>outside := w\<rparr>) } }
      else if v_fs_type v \<in> {str ''ext4'', str ''ext3'', str ''rfs'', str ''vfat''} then
        (let (r, w) = try_mount K (v_device v) (v_mount_point v) (Some (v_fs_type v)) (v_fs_options v) w in
         if r = 0 then Some (0, s\<lparr>outside := w\<rparr>)
         else
           let (r, w) = try_mount K (v_device2 v) (v_mount_point v) (Some (v_fs_type v)) (v_fs_options v) w in
           if r = 0 then Some (0, s\<lparr>outside := w\<rparr>)
           else
             let (r, w) = try_mount K (v_device v) (v_mount_point v) (v_fs_type2 v) (v_fs_options2 v) w in
             if r = 0 then Some (0, s\<lparr>outside := w\<rparr>)
             else
               let (r, w) = try_mount K (v_device2 v) (v_mount_point v) (v_fs_type2 v) (v_fs_options2 v) w in
               Some (r, s\<lparr>outside := w\<rparr>))
      else do {
        dev \<leftarrow> v_device v;
        let at = dev @ [32] @ v_mount_point v;
        let (r, w) = k_system K (str ''mount -t ext4 '' @ at) w;
        if r = 0 then Some (0, s\<lparr>outside := w\<rparr>)
        else
          let (r, w) = k_system K (str ''mount -t rfs '' @ at) w in
          if r = 0 then Some (0, s\<lparr>outside := w\<rparr>)
          else
            let (r, w) = k_system K (str ''mount '' @ path) w in
            Some (r, s\<lparr>outside := w\<rparr>) })"

function ensure_path_mounted :: "('w, 'z) kernel_scheme \<Rightarrow> bytes \<Rightarrow> 'w phone \<Rightarrow> (int \<times> 'w phone) option" where
  "ensure_path_mounted K path s =
     (case volume_for_path path s of
        None \<Rightarrow>
          if take 7 path = str ''/sdcard'' \<and> is_data_media s then do {
            (ret, s) \<leftarrow> ensure_path_mounted K (str ''/data'') s;
            if ret \<noteq> 0 then Some (ret, s)
            else Some (0, s\<lparr>outside := setup_data_media K (outside s)\<rparr>) }
          else Some (-1, s)
      | Some v \<Rightarrow>
          if v_fs_type v = str ''ramdisk'' then Some (0, s)
          else do {
            (result, s) \<leftarrow> scan_mounted_volumes K s;
            if result < 0 then Some (-1, s)
            else case find_mounted_volume_by_mount_point (v_mount_point v) s of
              Some _ \<Rightarrow> Some (0, s)
            | None \<Rightarrow> mount_volume K path v s })"
  by pat_completeness auto
termination
  by (relation "measure (\<lambda>(K, path, s). if volume_for_path path s = None then 1 else 0)")
    (auto simp: is_data_media_def split: option.splits)

declare ensure_path_mounted.simps [simp del]

function ensure_path_unmounted :: "('w, 'z) kernel_scheme \<Rightarrow> bytes \<Rightarrow> 'w phone \<Rightarrow> (int \<times> 'w phone) option" where
  "ensure_path_unmounted K path s =
     (if volume_for_path (str ''/sdcard'') s = None \<and> (take 7 path = str ''/sdcard'' \<or> take 5 path = str ''/data'') then Some (0, s)
      else case volume_for_path path s of
        None \<Rightarrow>
          if take 7 path = str ''/sdcard'' \<and> is_data_media s then ensure_path_unmounted K (str ''/data'') s
          else Some (-1, s)
      | Some v \<Rightarrow>
          if v_fs_type v = str ''ramdisk'' then Some (-1, s)
          else do {
            (result, s) \<leftarrow> scan_mounted_volumes K s;
            if result < 0 then Some (-1, s)
            else case find_mounted_volume_by_mount_point (v_mount_point v) s of
              None \<Rightarrow> Some (0, s)
            | Some i \<Rightarrow> Some (unmount_mounted_volume K i s) })"
  by pat_completeness auto
termination
  by (relation "measure (\<lambda>(K, path, s). if volume_for_path path s = None then 1 else 0)")
    (auto simp: is_data_media_def split: option.splits)

declare ensure_path_unmounted.simps [simp del]

definition is_path_mounted :: "('w, 'z) kernel_scheme \<Rightarrow> bytes \<Rightarrow> 'w phone \<Rightarrow> (bool \<times> 'w phone) option" where
  "is_path_mounted K path s =
     (case volume_for_path path s of
        None \<Rightarrow> Some (False, s)
      | Some v \<Rightarrow>
          if v_fs_type v = str ''ramdisk'' then Some (True, s)
          else do {
            (result, s) \<leftarrow> scan_mounted_volumes K s;
            if result < 0 then Some (False, s)
            else Some (find_mounted_volume_by_mount_point (v_mount_point v) s \<noteq> None, s) })"

section \<open>Formatting\<close>

definition format_rfs_device :: "('w, 'z) kernel_scheme \<Rightarrow> bytes \<Rightarrow> bytes \<Rightarrow> 'w \<Rightarrow> int \<times> 'w" where
  "format_rfs_device K dev path w =
     (let fatsize = (if path = str ''/dbdata'' \<or> path = str ''/cache'' then str ''16'' else str ''32'');
          (r, w) = k_system K (str ''/sbin/dd if=/dev/zero of='' @ dev @ str '' bs=4096 count=10'') w in
      if r \<noteq> 0 then (-1, w)
      else
        let (r, w) = k_system K (str ''/sbin/fat.format -F '' @ fatsize @ str '' -S 4096 -s 1 '' @ dev) w in
        if r \<noteq> 0 then (-1, w) else (0, w))"

text \<open>\<open>run\_exec\_process\<close> one program after the other.\<close>

fun run_programs :: "('w, 'z) kernel_scheme \<Rightarrow> bytes list list \<Rightarrow> 'w \<Rightarrow> int \<times> 'w" where
  "run_programs K [] w = (0, w)"
| "run_programs K (argv # rest) w =
     (let (status, w) = k_exec K argv w in if status \<noteq> 0 then (-1, w) else run_programs K rest w)"

definition format_ext3_device :: "('w, 'z) kernel_scheme \<Rightarrow> bytes \<Rightarrow> 'w \<Rightarrow> int \<times> 'w" where
  "format_ext3_device K dev =
     run_programs K
       [[str ''/sbin/mke2fs'', str ''-j'', dev],
        [str ''/sbin/tune2fs'', str ''-j'', str ''-C'', str ''1'', dev],
        [str ''/sbin/e2fsck'', str ''-fy'', dev]]"

definition format_ext2_device :: "('w, 'z) kernel_scheme \<Rightarrow> bytes \<Rightarrow> 'w \<Rightarrow> int \<times> 'w" where
  "format_ext2_device K dev =
     run_programs K
       [[str ''/sbin/mke2fs'', dev],
        [str ''/sbin/tune2fs'', str ''-C'', str ''1'', dev],
        [str ''/sbin/e2fsck'', str ''-fy'', dev]]"

text \<open>\<open>erase\_raw\_partition\<close>; the commands for MMC and BML do nothing.\<close>

definition erase_raw_partition ::
    "('w, 'z) kernel_scheme \<Rightarrow> bytes option \<Rightarrow> bytes \<Rightarrow> 'w phone \<Rightarrow> (int \<times> 'w phone) option" where
  "erase_raw_partition K partitionType part s =
     (let (type, s) = detect_partition K partitionType part s in
      if type = MTD then do {
        (r, m) \<leftarrow> cmd_mtd_erase_raw_partition (k_malloc K) (k_nand K) part (flash s);
        Some (r, s\<lparr>flash := m\<rparr>) }
      else if type = MMC \<or> type = BML then Some (0, s)
      else Some (-1, s))"

definition wipe_files :: "('w, 'z) kernel_scheme \<Rightarrow> bytes \<Rightarrow> 'w \<Rightarrow> 'w" where
  "wipe_files K path w =
     (if path = str ''/data'' then
        snd (k_system K (str ''cd /data ; for f in $(ls -a | grep -v ^media$); do rm -rf $f; done'') w)
      else
        snd (k_system K (str ''rm -rf '' @ path @ str ''/.*'') (snd (k_system K (str ''rm -rf '' @ path @ str ''/*'') w))))"

definition format_unknown_device ::
    "('w, 'z) kernel_scheme \<Rightarrow> bytes option \<Rightarrow> bytes \<Rightarrow> bytes option \<Rightarrow> 'w phone \<Rightarrow> (int \<times> 'w phone) option" where
  "format_unknown_device K dev path fs_type s =
     (if fs_type \<noteq> None \<and> get_flash_type (the fs_type) \<noteq> UNSUPPORTED
      then do { d \<leftarrow> dev; erase_raw_partition K fs_type d s }
      else if path = str ''/sd-ext'' \<and>
        (case volume_for_path (str ''/sd-ext'') s of
           None \<Rightarrow> True
         | Some vol \<Rightarrow> os_stat K (the (v_device vol)) (outside s) \<notin> {StatDir, StatOther})
      then Some (0, s)
      else if fs_type = Some (str ''ext3'') \<or> fs_type = Some (str ''ext2'') then do {
        (r, s) \<leftarrow> ensure_path_unmounted K path s;
        if r \<noteq> 0 then Some (-12, s)
        else do {
          d \<leftarrow> dev;
          let (r, w) = (if fs_type = Some (str ''ext3'') then format_ext3_device K d (outside s)
                        else format_ext2_device K d (outside s));
          Some (r, s\<lparr>outside := w\<rparr>) } }
      else do {
        (r, s) \<leftarrow> ensure_path_mounted K path s;
        if r \<noteq> 0 then Some (0, s)
        else do {
          (_, s) \<leftarrow> ensure_path_unmounted K path (s\<lparr>outside := wipe_files K path (outside s)\<rparr>);
          Some (0, s) } })"

text \<open>The part that \<open>format\_volume\<close> and \<open>format\_device\<close> share, for the type and the device of the file system.\<close>

definition format_mtd :: "('w, 'z) kernel_scheme \<Rightarrow> bytes \<Rightarrow> 'w phone \<Rightarrow> (int \<times> 'w phone) option" where
  "format_mtd K dev s = do {
     (_, m) \<leftarrow> mtd_scan_partitions (k_malloc K) (k_nand K) (flash s);
     let s = s\<lparr>flash := m\<rparr>;
     case mtd_find_partition_by_name dev m of
       None \<Rightarrow> Some (-1, s)
     | Some i \<Rightarrow> do {
         p \<leftarrow> partitions m ! i;
         let (out, c) = mtd_write_partition (k_malloc K) (k_nand K) p (chip m);
         let s = s\<lparr>flash := m\<lparr>chip := c\<rparr>\<rparr>;
         case out of
           None \<Rightarrow> Some (-1, s)
         | Some out \<Rightarrow> do {
             (erased, out, c) \<leftarrow> mtd_erase_blocks (k_nand K) out (-1) c;
             (r, c) \<leftarrow> mtd_write_close (k_nand K) out c;
             Some (if erased = -1 \<or> r \<noteq> 0 then -1 else 0, s\<lparr>flash := m\<lparr>chip := c\<rparr>\<rparr>) } } }"

definition format_contents ::
    "('w, 'z) kernel_scheme \<Rightarrow> bytes option \<Rightarrow> bytes \<Rightarrow> bytes \<Rightarrow> 'w phone \<Rightarrow> (int \<times> 'w phone) option" where
  "format_contents K dev path fs_type s = do {
     (r, s) \<leftarrow> ensure_path_unmounted K path s;
     if r \<noteq> 0 then Some (-1, s)
     else if fs_type = str ''yaffs2'' \<or> fs_type = str ''mtd'' then do { d \<leftarrow> dev; format_mtd K d s }
     else if fs_type = str ''ext4'' then do {
       d \<leftarrow> dev;
       let (result, w) = k_make_ext4fs K d (outside s);
       Some (if result \<noteq> 0 then -1 else 0, s\<lparr>outside := w\<rparr>) }
     else format_unknown_device K dev path (Some fs_type) s }"

definition format_volume :: "('w, 'z) kernel_scheme \<Rightarrow> bytes \<Rightarrow> 'w phone \<Rightarrow> (int \<times> 'w phone) option" where
  "format_volume K volume s =
     (case volume_for_path volume s of
        None \<Rightarrow>
          if take 7 volume = str ''/sdcard'' \<and> is_data_media s then format_unknown_device K None volume None s
          else Some (-1, s)
      | Some v \<Rightarrow>
          if v_fs_type v = str ''ramdisk'' then Some (-1, s)
          else if v_mount_point v \<noteq> volume then format_unknown_device K (v_device v) volume None s
          else format_contents K (v_device v) volume (v_fs_type v) s)"

definition format_device ::
    "('w, 'z) kernel_scheme \<Rightarrow> bytes option \<Rightarrow> bytes \<Rightarrow> bytes \<Rightarrow> 'w phone \<Rightarrow> (int \<times> 'w phone) option" where
  "format_device K dev path fs_type s =
     (case volume_for_path path s of
        None \<Rightarrow>
          if take 7 path = str ''/sdcard'' \<and> is_data_media s then format_unknown_device K None path None s
          else Some (-1, s)
      | Some v \<Rightarrow>
          if fs_type = str ''ramdisk'' then Some (-1, s)
          else if v_mount_point v \<noteq> path then format_unknown_device K (v_device v) path None s
          else format_contents K dev path fs_type s)"

end
