(* ===== verification/Mmc.thy ===== *)
theory Mmc
  imports Volumes
begin

text \<open>
  Cards and Samsung flash: the partition table of the card (\<open>mmcutils/mmcutils.c\<close>), and the raw
  images of \<open>mmcutils.c\<close> and \<open>bmlutils/bmlutils.c\<close>.

  Devices are files of \<open>Files\<close>; a stream delivers what the reads of the environment deliver, and
  data are written when they are put into a stream.  Errors noticed only when a stream is closed are
  left out, as \<open>fclose\<close> is not looked at.
\<close>

section \<open>The table of partitions\<close>

definition TABLE_ENTRY_0 :: nat where "TABLE_ENTRY_0 = 0x1BE"
definition TABLE_ENTRY_1 :: nat where "TABLE_ENTRY_1 = 0x1CE"
definition TABLE_SIGNATURE :: nat where "TABLE_SIGNATURE = 0x1FE"
definition TABLE_ENTRY_SIZE :: nat where "TABLE_ENTRY_SIZE = 16"
definition OFFSET_STATUS :: nat where "OFFSET_STATUS = 0"
definition OFFSET_TYPE :: nat where "OFFSET_TYPE = 4"
definition OFFSET_FIRST_SEC :: nat where "OFFSET_FIRST_SEC = 8"
definition OFFSET_SIZE :: nat where "OFFSET_SIZE = 12"
definition MAX_PARTITIONS :: nat where "MAX_PARTITIONS = 64"

definition MMC_BOOT_TYPE :: u8 where "MMC_BOOT_TYPE = 0x48"
definition MMC_RECOVERY_TYPE :: u8 where "MMC_RECOVERY_TYPE = 0x71"
definition MMC_EXT3_TYPE :: u8 where "MMC_EXT3_TYPE = 0x83"
definition MMC_VFAT_TYPE :: u8 where "MMC_VFAT_TYPE = 0x0C"

record MmcPartition =
  mp_device :: "bytes option"
  mp_filesystem :: "bytes option"
  mp_name :: "bytes option"
  mp_dstatus :: u8
  mp_dtype :: u8
  mp_dfirstsec :: u32
  mp_dsize :: u32

definition no_partition :: MmcPartition where
  "no_partition = \<lparr>mp_device = None, mp_filesystem = None, mp_name = None, mp_dstatus = 0, mp_dtype = 0, mp_dfirstsec = 0, mp_dsize = 0\<rparr>"

text \<open>The static data: the table is \<open>[]\<close> before the first scan.\<close>

record mmc_state =
  mmc_partitions :: "MmcPartition list"
  mmc_count :: int

text \<open>What the scan works on: the table, the number of entries, and the counters of names.\<close>

record mbr_state =
  mbr :: "MmcPartition list"
  found :: nat
  ext3_count :: nat
  vfat_count :: nat

definition MMC_DEVICENAME :: bytes where "MMC_DEVICENAME = str ''/dev/block/mmcblk0''"

definition ext3_partitions :: "bytes list" where
  "ext3_partitions = [str ''system'', str ''userdata'', str ''cache'', str ''NONE'']"

definition vfat_partitions :: "bytes list" where
  "vfat_partitions = [str ''modem'', str ''NONE'']"

definition mmc_partition_name :: "u8 \<Rightarrow> MmcPartition \<Rightarrow> mbr_state \<Rightarrow> MmcPartition \<times> mbr_state" where
  "mmc_partition_name type p s =
     (if type = MMC_BOOT_TYPE then (p\<lparr>mp_name := Some (str ''boot'')\<rparr>, s)
      else if type = MMC_RECOVERY_TYPE then (p\<lparr>mp_name := Some (str ''recovery'')\<rparr>, s)
      else if type = MMC_EXT3_TYPE then
        (let name = ext3_partitions ! ext3_count s;
             (p, s) = (if name \<noteq> str ''NONE'' then (p\<lparr>mp_name := Some name\<rparr>, s\<lparr>ext3_count := ext3_count s + 1\<rparr>) else (p, s)) in
         (p\<lparr>mp_filesystem := Some (str ''ext3'')\<rparr>, s))
      else if type = MMC_VFAT_TYPE then
        (let name = vfat_partitions ! vfat_count s;
             (p, s) = (if name \<noteq> str ''NONE'' then (p\<lparr>mp_name := Some name\<rparr>, s\<lparr>vfat_count := vfat_count s + 1\<rparr>) else (p, s)) in
         (p\<lparr>mp_filesystem := Some (str ''vfat'')\<rparr>, s))
      else (p, s))"

definition lword :: "bytes \<Rightarrow> nat \<Rightarrow> u32" where
  "lword buffer i = ucast (buffer ! i) OR push_bit 8 (ucast (buffer ! (i + 1))) OR
     push_bit 16 (ucast (buffer ! (i + 2))) OR push_bit 24 (ucast (buffer ! (i + 3)))"

definition signed_table :: "bytes \<Rightarrow> bool" where
  "signed_table buffer \<longleftrightarrow> buffer ! TABLE_SIGNATURE = 0x55 \<and> buffer ! (TABLE_SIGNATURE + 1) = 0xAA"

text \<open>
  One entry of the table on the card, at \<open>idx\<close> of a sector, with sector numbers relative to
  \<open>base\<close>; behind the end of the table in memory it would be written outside of it.
\<close>

definition put_entry :: "bytes \<Rightarrow> bytes \<Rightarrow> nat \<Rightarrow> u32 \<Rightarrow> mbr_state \<Rightarrow> mbr_state option" where
  "put_entry dev buffer idx base s = do {
     p \<leftarrow> rd (mbr s) (found s);
     let p = p\<lparr>mp_dstatus := buffer ! (idx + OFFSET_STATUS),
               mp_dtype := buffer ! (idx + OFFSET_TYPE),
               mp_dfirstsec := lword buffer (idx + OFFSET_FIRST_SEC) + base,
               mp_dsize := lword buffer (idx + OFFSET_SIZE)\<rparr>;
     let (p, s) = mmc_partition_name (mp_dtype p) p s;
     let p = p\<lparr>mp_device := Some (dev @ str ''p'' @ digits (found s + 1))\<rparr>;
     Some (s\<lparr>mbr := (mbr s)[found s := p], found := found s + 1\<rparr>) }"

text \<open>The four primary entries; the flag says that the table is full.\<close>

fun primary_loop :: "bytes \<Rightarrow> bytes \<Rightarrow> nat list \<Rightarrow> mbr_state \<Rightarrow> (bool \<times> mbr_state) option" where
  "primary_loop dev buffer [] s = Some (False, s)"
| "primary_loop dev buffer (i # ixs) s = do {
     s \<leftarrow> put_entry dev buffer (TABLE_ENTRY_0 + i * TABLE_ENTRY_SIZE) 0 s;
     if found s = MAX_PARTITIONS then Some (True, s) else primary_loop dev buffer ixs s }"

text \<open>
  \<open>fseek\<close> to a sector: the product is computed with 32 bits, and a \<open>long\<close> that is negative
  is refused, so the stream stays where it is.
\<close>

definition seek_sector :: "u32 \<Rightarrow> nat \<Rightarrow> nat" where
  "seek_sector sec pos = (let off = sec * 512 in if sint off < 0 then pos else unat off)"

lemma put_entry_shrinks:
  "put_entry dev buffer idx base s = Some s' \<Longrightarrow> length (mbr s') = length (mbr s) \<and> found s' = found s + 1 \<and> found s < length (mbr s)"
  by (auto simp: put_entry_def mmc_partition_name_def Let_def rd_def split: if_split_asm Option.bind_split_asm prod.split_asm)

text \<open>The chain of extended tables: \<open>False\<close> is a sector that cannot be read.\<close>

function ebr_loop ::
    "env \<Rightarrow> bytes \<Rightarrow> bytes \<Rightarrow> u32 \<Rightarrow> u32 \<Rightarrow> bytes \<Rightarrow> nat \<Rightarrow> mbr_state \<Rightarrow> 'm world \<Rightarrow> ((bool \<times> mbr_state) \<times> 'm world) option" where
  "ebr_loop env dev content first current buffer pos s w =
     (if \<not> signed_table buffer then Some ((True, s), w)
      else case put_entry dev buffer TABLE_ENTRY_0 current s of
        None \<Rightarrow> None
      | Some s' \<Rightarrow>
          if found s' = MAX_PARTITIONS then Some ((True, s'), w)
          else
            let dfirstsec = lword buffer (TABLE_ENTRY_1 + OFFSET_FIRST_SEC) in
            if dfirstsec = 0 then Some ((True, s'), w)
            else
              let pos = seek_sector (first + dfirstsec) pos;
                  (buffer, w) = sys_read env content pos 512 w in
              if length buffer \<noteq> 512 then Some ((False, s'), w)
              else ebr_loop env dev content first (first + dfirstsec) buffer (pos + 512) s' w)"
  by pat_completeness auto
termination
  by (relation "measure (\<lambda>(env, dev, content, first, current, buffer, pos, s, w). length (mbr s) - found s)")
    (auto dest: put_entry_shrinks)

declare ebr_loop.simps [simp del]

definition mmc_read_mbr :: "env \<Rightarrow> bytes \<Rightarrow> mbr_state \<Rightarrow> 'm world \<Rightarrow> ((int \<times> mbr_state) \<times> 'm world) option" where
  "mmc_read_mbr env dev s w =
     (let (fd, w) = sys_open env dev w in
      case fd of
        None \<Rightarrow> Some ((-1, s), w)
      | Some f \<Rightarrow>
          let (buffer, w) = sys_read env (f_data f) 0 512 w in
          if length buffer \<noteq> 512 then Some ((-1, s), w)
          else if \<not> signed_table buffer then Some ((-1, s), w)
          else do {
            (full, s) \<leftarrow> primary_loop dev buffer [0, 1, 2, 3] s;
            if full then Some ((int (found s), s), w)
            else do {
              p \<leftarrow> rd (mbr s) (found s - 1);
              if mp_dtype p \<noteq> 5 then Some ((int (found s), s), w)
              else
                let first = mp_dfirstsec p;
                    pos = seek_sector first 512;
                    (buffer, w) = sys_read env (f_data f) pos 512 w in
                if length buffer \<noteq> 512 then Some ((-1, s), w)
                else do {
                  ((ok, s), w) \<leftarrow> ebr_loop env dev (f_data f) first first buffer (pos + 512) s w;
                  Some ((if ok then int (found s) else -1, s), w) } } })"

definition mmc_scan_partitions :: "(nat \<Rightarrow> bool) \<Rightarrow> env \<Rightarrow> mmc_state \<Rightarrow> 'm world \<Rightarrow> ((int \<times> mmc_state) \<times> 'm world) option" where
  "mmc_scan_partitions malloc env g w =
     (if mmc_partitions g = [] \<and> \<not> malloc (MAX_PARTITIONS * 28) then Some ((-1, g), w)
      else
        let table = (if mmc_partitions g = [] then replicate MAX_PARTITIONS no_partition else mmc_partitions g);
            table = map (\<lambda>p. p\<lparr>mp_device := None, mp_name := None, mp_filesystem := None\<rparr>) table in
        do {
          ((n, s), w) \<leftarrow> mmc_read_mbr env MMC_DEVICENAME \<lparr>mbr = table, found = 0, ext3_count = 0, vfat_count = 0\<rparr> w;
          Some ((n, \<lparr>mmc_partitions = mbr s, mmc_count = n\<rparr>), w) })"

fun find_mmc :: "(MmcPartition \<Rightarrow> bool) \<Rightarrow> MmcPartition list \<Rightarrow> MmcPartition option" where
  "find_mmc wanted [] = None"
| "find_mmc wanted (p # ps) =
     (if mp_device p \<noteq> None \<and> mp_name p \<noteq> None \<and> wanted p then Some p else find_mmc wanted ps)"

definition mmc_find_partition_by_device_index :: "bytes \<Rightarrow> mmc_state \<Rightarrow> MmcPartition option" where
  "mmc_find_partition_by_device_index dev g = find_mmc (\<lambda>p. mp_device p = Some dev) (mmc_partitions g)"

definition mmc_find_partition_by_name :: "bytes \<Rightarrow> mmc_state \<Rightarrow> MmcPartition option" where
  "mmc_find_partition_by_name name g =
     (if name \<noteq> [] \<and> hd name = SLASH then mmc_find_partition_by_device_index name g
      else find_mmc (\<lambda>p. mp_name p = Some name) (mmc_partitions g))"

section \<open>Raw images\<close>

text \<open>
  Copying a file to a device.  \<open>copy\_blocks\<close> is the loop for whole blocks of 512 bytes,
  \<open>copy\_chars\<close> the one of \<open>fgetc\<close> and \<open>fputc\<close>, whose results are not looked at.
\<close>

fun copy_blocks :: "env \<Rightarrow> bytes \<Rightarrow> bytes \<Rightarrow> nat \<Rightarrow> nat \<Rightarrow> 'm world \<Rightarrow> bool \<times> 'm world" where
  "copy_blocks env content out 0 pos w = (True, w)"
| "copy_blocks env content out (Suc k) pos w =
     (let (buf, w) = sys_read env content pos 512 w in
      if length buf \<noteq> 512 then (False, w)
      else let (n, w) = sys_write env out pos buf w in
        if n \<noteq> 512 then (False, w) else copy_blocks env content out k (pos + 512) w)"

function copy_chars :: "env \<Rightarrow> bytes \<Rightarrow> bytes \<Rightarrow> nat \<Rightarrow> nat \<Rightarrow> 'm world \<Rightarrow> 'm world" where
  "copy_chars env content out pos opos w =
     (let (buf, w) = sys_read env content pos 1 w in
      if buf = [] then w
      else let (n, w) = sys_write env out opos buf w in
        copy_chars env content out (pos + 1) (opos + nat n) w)"
  by pat_completeness auto
termination
  by (relation "measure (\<lambda>(env, content, out, pos, opos, w). length content - pos)") (auto simp: sys_read_def Let_def)

declare copy_chars.simps [simp del]

text \<open>
  The length of the input is what \<open>ftell\<close> says, a \<open>long\<close> of 32 bits, as an unsigned number:
  from 2 GiB on it fails with -1, and the bytes are copied one by one.
\<close>

definition mmc_raw_dump_internal :: "env \<Rightarrow> bytes \<Rightarrow> bytes \<Rightarrow> 'm world \<Rightarrow> int \<times> 'm world" where
  "mmc_raw_dump_internal env in_file out_file w =
     (let (fd, w) = sys_open env in_file w in
      case fd of
        None \<Rightarrow> (-1, w)
      | Some _ \<Rightarrow>
          let (ok, w) = sys_create env out_file w in
          if \<not> ok then (-1, w)
          else
            let content = (case fs w in_file of None \<Rightarrow> [] | Some f \<Rightarrow> f_data f);
                sz = (if length content < 2 ^ 31 then length content else 2 ^ 32 - 1) in
            if sz mod 512 \<noteq> 0 then (0, copy_chars env content out_file 0 0 w)
            else let (ok, w) = copy_blocks env content out_file (sz div 512) 0 w in (if ok then 0 else -1, w))"

definition mmc_raw_copy :: "env \<Rightarrow> MmcPartition \<Rightarrow> bytes \<Rightarrow> 'm world \<Rightarrow> (int \<times> 'm world) option" where
  "mmc_raw_copy env p in_file w = do { dev \<leftarrow> mp_device p; Some (mmc_raw_dump_internal env in_file dev w) }"

definition mmc_raw_dump :: "env \<Rightarrow> MmcPartition \<Rightarrow> bytes \<Rightarrow> 'm world \<Rightarrow> (int \<times> 'm world) option" where
  "mmc_raw_dump env p out_file w = do { dev \<leftarrow> mp_device p; Some (mmc_raw_dump_internal env dev out_file w) }"

text \<open>The number of items read or written is not looked at.\<close>

definition mmc_raw_read :: "env \<Rightarrow> MmcPartition \<Rightarrow> nat \<Rightarrow> 'm world \<Rightarrow> ((int \<times> bytes) \<times> 'm world) option" where
  "mmc_raw_read env p data_size w = do {
     dev \<leftarrow> mp_device p;
     let (fd, w) = sys_open env dev w;
     Some (case fd of
             None \<Rightarrow> ((-1, []), w)
           | Some f \<Rightarrow> let (buf, w) = sys_read env (f_data f) 0 data_size w in ((0, buf), w)) }"

definition mmc_raw_write :: "env \<Rightarrow> MmcPartition \<Rightarrow> bytes \<Rightarrow> 'm world \<Rightarrow> (int \<times> 'm world) option" where
  "mmc_raw_write env p data w = do {
     dev \<leftarrow> mp_device p;
     let (ok, w) = sys_create env dev w;
     Some (if \<not> ok then (-1, w) else (0, snd (sys_write env dev 0 data w))) }"

definition mmc_format_ext3 :: "('m world, 'z) kernel_scheme \<Rightarrow> MmcPartition \<Rightarrow> 'm world \<Rightarrow> (int \<times> 'm world) option" where
  "mmc_format_ext3 K p w = do { dev \<leftarrow> mp_device p; Some (format_ext3_device K dev w) }"

definition mmc_mount_partition ::
    "('m world, 'z) kernel_scheme \<Rightarrow> MmcPartition \<Rightarrow> bytes \<Rightarrow> bool \<Rightarrow> 'm world \<Rightarrow> (int \<times> 'm world) option" where
  "mmc_mount_partition K p mp read_only w = do {
     dev \<leftarrow> mp_device p;
     Some (case mp_filesystem p of
             None \<Rightarrow> (-1, w)
           | Some filesystem \<Rightarrow>
               let (rv, w) = (if \<not> read_only then k_mount K dev mp filesystem MS_USUAL None w else (-1, w)) in
               if read_only \<or> rv < 0 then k_mount K dev mp filesystem (MS_USUAL + MS_RDONLY) None w else (rv, w)) }"

section \<open>The commands for cards\<close>

definition with_mmc ::
    "(nat \<Rightarrow> bool) \<Rightarrow> env \<Rightarrow> bytes \<Rightarrow> (MmcPartition \<Rightarrow> 'm world \<Rightarrow> (int \<times> 'm world) option) \<Rightarrow> mmc_state \<Rightarrow> 'm world \<Rightarrow>
     ((int \<times> mmc_state) \<times> 'm world) option" where
  "with_mmc malloc env part act g w = do {
     ((_, g), w) \<leftarrow> mmc_scan_partitions malloc env g w;
     case mmc_find_partition_by_name part g of
       None \<Rightarrow> Some ((-1, g), w)
     | Some p \<Rightarrow> do { (r, w) \<leftarrow> act p w; Some ((r, g), w) } }"

definition cmd_mmc_restore_raw_partition ::
    "(nat \<Rightarrow> bool) \<Rightarrow> env \<Rightarrow> bytes \<Rightarrow> bytes \<Rightarrow> mmc_state \<Rightarrow> 'm world \<Rightarrow> ((int \<times> mmc_state) \<times> 'm world) option" where
  "cmd_mmc_restore_raw_partition malloc env part filename g w =
     (if \<not> (part \<noteq> [] \<and> hd part = SLASH) then with_mmc malloc env part (\<lambda>p. mmc_raw_copy env p filename) g w
      else let (r, w) = mmc_raw_dump_internal env filename part w in Some ((r, g), w))"

definition cmd_mmc_backup_raw_partition ::
    "(nat \<Rightarrow> bool) \<Rightarrow> env \<Rightarrow> bytes \<Rightarrow> bytes \<Rightarrow> mmc_state \<Rightarrow> 'm world \<Rightarrow> ((int \<times> mmc_state) \<times> 'm world) option" where
  "cmd_mmc_backup_raw_partition malloc env part filename g w =
     (if \<not> (part \<noteq> [] \<and> hd part = SLASH) then with_mmc malloc env part (\<lambda>p. mmc_raw_dump env p filename) g w
      else let (r, w) = mmc_raw_dump_internal env part filename w in Some ((r, g), w))"

definition cmd_mmc_erase_partition ::
    "(nat \<Rightarrow> bool) \<Rightarrow> env \<Rightarrow> ('m world, 'z) kernel_scheme \<Rightarrow> bytes \<Rightarrow> mmc_state \<Rightarrow> 'm world \<Rightarrow>
     ((int \<times> mmc_state) \<times> 'm world) option" where
  "cmd_mmc_erase_partition malloc env K part g w = with_mmc malloc env part (mmc_format_ext3 K) g w"

definition cmd_mmc_mount_partition ::
    "(nat \<Rightarrow> bool) \<Rightarrow> env \<Rightarrow> ('m world, 'z) kernel_scheme \<Rightarrow> bytes \<Rightarrow> bytes \<Rightarrow> bool \<Rightarrow> mmc_state \<Rightarrow> 'm world \<Rightarrow>
     ((int \<times> mmc_state) \<times> 'm world) option" where
  "cmd_mmc_mount_partition malloc env K part mp read_only g w =
     with_mmc malloc env part (\<lambda>p. mmc_mount_partition K p mp read_only) g w"

definition cmd_mmc_get_partition_device ::
    "(nat \<Rightarrow> bool) \<Rightarrow> env \<Rightarrow> bytes \<Rightarrow> mmc_state \<Rightarrow> 'm world \<Rightarrow> ((bytes option \<times> mmc_state) \<times> 'm world) option" where
  "cmd_mmc_get_partition_device malloc env part g w = do {
     ((_, g), w) \<leftarrow> mmc_scan_partitions malloc env g w;
     Some ((case mmc_find_partition_by_name part g of None \<Rightarrow> None | Some p \<Rightarrow> mp_device p, g), w) }"

section \<open>The commands for Samsung flash\<close>

definition BOARD_BML_RECOVERY :: bytes where "BOARD_BML_RECOVERY = str ''/dev/block/bml8''"

text \<open>
  The loop of \<open>restore\_internal\<close>: blocks of 4096 bytes, the last one filled with zeros.  A read
  that fails gives -1 bytes, and the filling starts before the buffer.
\<close>

function bml_loop :: "env \<Rightarrow> bytes \<Rightarrow> bytes \<Rightarrow> nat \<Rightarrow> nat \<Rightarrow> 'm world \<Rightarrow> (int \<times> 'm world) option" where
  "bml_loop env content bml pos opos w =
     (let fine = granted env (clock w);
          (buf, w) = sys_read env content pos 4096 w in
      if buf = [] then (if fine then Some (0, w) else None)
      else
        let (n, w) = sys_write env bml opos (buf @ replicate (4096 - length buf) 0) w in
        if n < 4096 then Some (5, w)
        else if length buf = 4096 then bml_loop env content bml (pos + 4096) (opos + 4096) w
        else Some (0, w))"
  by pat_completeness auto
termination
  by (relation "measure (\<lambda>(env, content, bml, pos, opos, w). length content - pos)") (auto simp: sys_read_def Let_def)

declare bml_loop.simps [simp del]

definition restore_internal :: "env \<Rightarrow> bytes \<Rightarrow> bytes \<Rightarrow> 'm world \<Rightarrow> (int \<times> 'm world) option" where
  "restore_internal env bml filename w =
     (let (src, w) = sys_open env filename w in
      case src of
        None \<Rightarrow> Some (2, w)
      | Some f \<Rightarrow>
          let (dst, w) = sys_open env bml w in
          if dst = None then Some (3, w)
          else if \<not> granted env (clock w) then Some (4, step_clock w)
          else bml_loop env (f_data f) bml 0 0 (step_clock w))"

definition cmd_bml_restore_raw_partition :: "env \<Rightarrow> bytes \<Rightarrow> bytes \<Rightarrow> 'm world \<Rightarrow> (int \<times> 'm world) option" where
  "cmd_bml_restore_raw_partition env part filename w =
     (if part \<noteq> str ''boot'' \<and> part \<noteq> str ''recovery'' \<and> part \<noteq> str ''recoveryonly'' then Some (6, w)
      else do {
        (ret, w) \<leftarrow> (if part \<noteq> str ''recoveryonly'' then restore_internal env BOARD_BML_BOOT filename w else Some (-1, w));
        if part \<noteq> str ''recoveryonly'' \<and> ret \<noteq> 0 then Some (ret, w)
        else do {
          (ret, w) \<leftarrow> (if part = str ''recovery'' \<or> part = str ''recoveryonly''
                       then restore_internal env BOARD_BML_RECOVERY filename w else Some (ret, w));
          if part \<noteq> [] \<and> hd part = SLASH then restore_internal env part filename w else Some (ret, w) } })"

definition cmd_bml_backup_raw_partition :: "env \<Rightarrow> bytes \<Rightarrow> bytes \<Rightarrow> 'm world \<Rightarrow> int \<times> 'm world" where
  "cmd_bml_backup_raw_partition env part out_file w =
     (if part = str ''boot'' then mmc_raw_dump_internal env BOARD_BML_BOOT out_file w
      else if part = str ''recovery'' then mmc_raw_dump_internal env BOARD_BML_RECOVERY out_file w
      else if part \<noteq> [] \<and> hd part = SLASH then mmc_raw_dump_internal env part out_file w
      else (-1, w))"

end
