(* ===== verification/MmcSafety.thy ===== *)
theory MmcSafety
  imports Mmc
begin

text \<open>
  What holds of \<open>Mmc\<close>: the scan of the partition table stays inside its table and ends on every
  card, its names are unambiguous, and an image that is restored is what the device holds.
\<close>

section \<open>The scan\<close>

text \<open>\<open>ext3_count\<close> and \<open>vfat_count\<close> are the names given away; a name has been given to one entry.\<close>

definition given :: "mbr_state \<Rightarrow> bytes set" where
  "given s = set (take (ext3_count s) ext3_partitions) \<union> set (take (vfat_count s) vfat_partitions)"

definition POOL :: "bytes set" where
  "POOL = {str ''system'', str ''userdata'', str ''cache'', str ''modem''}"

definition unambiguous :: "MmcPartition list \<Rightarrow> bool" where
  "unambiguous ps \<longleftrightarrow> (\<forall>i j name. i < length ps \<longrightarrow> j < length ps \<longrightarrow> name \<in> POOL \<longrightarrow>
     mp_name (ps ! i) = Some name \<longrightarrow> mp_name (ps ! j) = Some name \<longrightarrow> i = j)"

definition mbr_ok :: "bytes \<Rightarrow> mbr_state \<Rightarrow> bool" where
  "mbr_ok dev s \<longleftrightarrow> length (mbr s) = MAX_PARTITIONS \<and> found s \<le> MAX_PARTITIONS \<and>
     ext3_count s \<le> 3 \<and> vfat_count s \<le> 1 \<and> unambiguous (mbr s) \<and>
     (\<forall>i < found s. mp_device (mbr s ! i) = Some (dev @ str ''p'' @ digits (i + 1))) \<and>
     (\<forall>i. found s \<le> i \<longrightarrow> i < MAX_PARTITIONS \<longrightarrow> mp_name (mbr s ! i) = None) \<and>
     (\<forall>i < MAX_PARTITIONS. \<forall>name \<in> POOL. mp_name (mbr s ! i) = Some name \<longrightarrow> name \<in> given s)"

text \<open>What the choice of a name does: it is no pool name, or one that has not been given away.\<close>

lemma le_3_cases: "(n :: nat) \<le> 3 \<Longrightarrow> n = 0 \<or> n = 1 \<or> n = 2 \<or> n = 3"
  by linarith

lemma mmc_partition_name_pool:
  assumes "mmc_partition_name type p s = (p', s')" and "mp_name p = None" and "ext3_count s \<le> 3" and "vfat_count s \<le> 1"
  shows "mbr s' = mbr s \<and> found s' = found s \<and> ext3_count s' \<le> 3 \<and> vfat_count s' \<le> 1 \<and> given s \<subseteq> given s' \<and>
    (case mp_name p' of None \<Rightarrow> True | Some name \<Rightarrow> name \<in> POOL \<longrightarrow> name \<in> given s' - given s)"
proof -
  have v: "vfat_count s = 0 \<or> vfat_count s = 1" using assms(4) by linarith
  show ?thesis
    using assms(1,2) le_3_cases [OF assms(3)] v
    by (elim disjE) (auto simp: mmc_partition_name_def given_def POOL_def ext3_partitions_def vfat_partitions_def str_def
        numeral_2_eq_2 numeral_3_eq_3 split: if_split_asm)
qed

lemma put_entry_ok:
  assumes ok: "mbr_ok dev s" and room: "found s < MAX_PARTITIONS"
  shows "\<exists>s'. put_entry dev buffer idx base s = Some s' \<and> mbr_ok dev s' \<and> found s' = found s + 1"
proof -
  have len: "length (mbr s) = MAX_PARTITIONS" using ok by (simp add: mbr_ok_def)
  define p0 where "p0 = (mbr s ! found s)\<lparr>mp_dstatus := buffer ! (idx + OFFSET_STATUS), mp_dtype := buffer ! (idx + OFFSET_TYPE),
    mp_dfirstsec := lword buffer (idx + OFFSET_FIRST_SEC) + base, mp_dsize := lword buffer (idx + OFFSET_SIZE)\<rparr>"
  have dtype: "mp_dtype p0 = buffer ! (idx + OFFSET_TYPE)" by (simp add: p0_def)
  obtain p1 s1 where n: "mmc_partition_name (mp_dtype p0) p0 s = (p1, s1)" by fastforce
  have "mp_name p0 = None" using ok room by (simp add: p0_def mbr_ok_def)
  from mmc_partition_name_pool [OF n this] ok
  have s1: "mbr s1 = mbr s" "found s1 = found s" "ext3_count s1 \<le> 3" "vfat_count s1 \<le> 1" "given s \<subseteq> given s1"
    "\<And>name. mp_name p1 = Some name \<Longrightarrow> name \<in> POOL \<Longrightarrow> name \<in> given s1 \<and> name \<notin> given s"
    by (auto simp: mbr_ok_def split: option.splits)
  define p2 where "p2 = p1\<lparr>mp_device := Some (dev @ str ''p'' @ digits (found s1 + 1))\<rparr>"
  define s2 where "s2 = s1\<lparr>mbr := (mbr s1)[found s1 := p2], found := found s1 + 1\<rparr>"
  have put: "put_entry dev buffer idx base s = Some s2"
    using room n [unfolded dtype] by (simp add: put_entry_def rd_def len s2_def p2_def s1(2) p0_def [symmetric])
  have m: "mbr s2 = (mbr s)[found s := p2]" "found s2 = found s + 1" "given s2 = given s1" "mp_name p2 = mp_name p1"
    by (simp_all add: s2_def s1 p2_def given_def)
  have old: "name \<in> given s" if "i < MAX_PARTITIONS" "name \<in> POOL" "mp_name (mbr s ! i) = Some name" for i name
    using ok that by (simp add: mbr_ok_def)
  have "unambiguous (mbr s2)"
    unfolding unambiguous_def
  proof (intro allI impI)
    fix i j name
    assume *: "i < length (mbr s2)" "j < length (mbr s2)" "name \<in> POOL" "mp_name (mbr s2 ! i) = Some name" "mp_name (mbr s2 ! j) = Some name"
    then have ij: "i < MAX_PARTITIONS" "j < MAX_PARTITIONS" by (simp_all add: m(1) len)
    have fresh: "mp_name p1 = Some name \<Longrightarrow> name \<notin> given s" using s1(6) *(3) by blast
    show "i = j"
    proof (cases "i = found s")
      case True
      then show ?thesis using *(4,5) old [OF ij(2) *(3)] fresh room len m(4) by (cases "j = found s") (auto simp: m(1))
    next
      case False
      then have i: "mp_name (mbr s ! i) = Some name" using *(4) by (simp add: m(1))
      then have "j \<noteq> found s" using old [OF ij(1) *(3)] fresh *(5) room len m(4) by (auto simp: m(1))
      then have "mp_name (mbr s ! j) = Some name" using *(5) by (simp add: m(1))
      then show ?thesis using i ok ij *(3) len unfolding mbr_ok_def unambiguous_def by auto
    qed
  qed
  moreover have "name \<in> given s2" if "i < MAX_PARTITIONS" "name \<in> POOL" "mp_name (mbr s2 ! i) = Some name" for i name
    using that old [OF that(1,2)] s1(5,6) room len m(3,4) by (cases "i = found s") (auto simp: m(1))
  moreover have "mp_device (mbr s2 ! i) = Some (dev @ str ''p'' @ digits (i + 1))" if "i < found s2" for i
    using that ok room len by (cases "i = found s") (simp_all add: m(1,2) p2_def s1(2) mbr_ok_def)
  moreover have "mp_name (mbr s2 ! i) = None" if "found s2 \<le> i" "i < MAX_PARTITIONS" for i
    using that ok by (simp add: m(1,2) mbr_ok_def)
  moreover have "length (mbr s2) = MAX_PARTITIONS" "found s2 \<le> MAX_PARTITIONS" "ext3_count s2 \<le> 3" "vfat_count s2 \<le> 1"
    using len room s1(3,4) by (simp_all add: m(1,2)) (simp_all add: s2_def)
  ultimately have "mbr_ok dev s2" unfolding mbr_ok_def by blast
  then show ?thesis using put m(2) by blast
qed

lemma primary_loop_ok:
  assumes "mbr_ok dev s" and "found s + length ixs < MAX_PARTITIONS"
  shows "\<exists>s'. primary_loop dev buffer ixs s = Some (False, s') \<and> mbr_ok dev s' \<and> found s' = found s + length ixs"
  using assms
proof (induction ixs arbitrary: s)
  case (Cons i ixs)
  then have room: "found s < MAX_PARTITIONS" by simp
  obtain s1 where s1: "put_entry dev buffer (TABLE_ENTRY_0 + i * TABLE_ENTRY_SIZE) 0 s = Some s1" "mbr_ok dev s1" "found s1 = found s + 1"
    using put_entry_ok [OF Cons.prems(1) room] by blast
  then show ?case using Cons.IH [OF s1(2)] Cons.prems(2) by auto
qed simp

lemma ebr_loop_ok:
  assumes "mbr_ok dev s" and "found s < MAX_PARTITIONS"
  shows "\<exists>ok s' w'. ebr_loop env dev content first current buffer pos s w = Some ((ok, s'), w') \<and> mbr_ok dev s'"
  using assms
proof (induction env dev content first current buffer pos s w rule: ebr_loop.induct)
  case (1 env dev content first current buffer pos s w)
  obtain s1 where s1: "put_entry dev buffer TABLE_ENTRY_0 current s = Some s1" "mbr_ok dev s1" "found s1 = found s + 1"
    using put_entry_ok [OF 1(2,3)] by blast
  show ?case
  proof (cases "\<not> signed_table buffer \<or> found s1 = MAX_PARTITIONS \<or> lword buffer (TABLE_ENTRY_1 + OFFSET_FIRST_SEC) = 0")
    case True
    then show ?thesis using s1 1(2) by (subst ebr_loop.simps) (auto simp: Let_def)
  next
    case False
    obtain b w1 where b: "sys_read env content (seek_sector (first + lword buffer (TABLE_ENTRY_1 + OFFSET_FIRST_SEC)) pos) 512 w = (b, w1)"
      by fastforce
    have "found s1 < MAX_PARTITIONS" using False s1(2) by (simp add: mbr_ok_def)
    then show ?thesis
      using False s1 b 1(1) [of s1] by (subst ebr_loop.simps) (auto simp: Let_def)
  qed
qed

lemma mmc_read_mbr_ok:
  assumes "mbr_ok dev s" and "found s = 0"
  shows "\<exists>n s' w'. mmc_read_mbr env dev s w = Some ((n, s'), w') \<and> mbr_ok dev s' \<and> (n = -1 \<or> n = int (found s'))"
proof -
  obtain fd w1 where fd: "sys_open env dev w = (fd, w1)" by fastforce
  show ?thesis
  proof (cases fd)
    case None
    then show ?thesis using assms(1) fd by (auto simp: mmc_read_mbr_def)
  next
    case (Some f)
    obtain b w2 where b: "sys_read env (f_data f) 0 512 w1 = (b, w2)" by fastforce
    obtain s1 where s1: "primary_loop dev b [0, 1, 2, 3] s = Some (False, s1)" "mbr_ok dev s1" "found s1 = 4"
      using primary_loop_ok [OF assms(1), of "[0, 1, 2, 3]" b] assms(2) by (auto simp: MAX_PARTITIONS_def)
    define first where "first = mp_dfirstsec (mbr s1 ! 3)"
    obtain b2 w3 where b2: "sys_read env (f_data f) (seek_sector first 512) 512 w2 = (b2, w3)" by fastforce
    obtain ok s2 w4 where e: "ebr_loop env dev (f_data f) first first b2 (seek_sector first 512 + 512) s1 w3 = Some ((ok, s2), w4)"
      "mbr_ok dev s2" using ebr_loop_ok [OF s1(2)] s1(3) by (fastforce simp: MAX_PARTITIONS_def)
    have "rd (mbr s1) 3 = Some (mbr s1 ! 3)" using s1(2) by (simp add: rd_def mbr_ok_def MAX_PARTITIONS_def)
    then show ?thesis
      using assms(1) fd Some b s1 b2 e by (auto simp: mmc_read_mbr_def first_def Let_def simp del: primary_loop.simps)
  qed
qed

definition mmc_ok :: "mmc_state \<Rightarrow> bool" where
  "mmc_ok g \<longleftrightarrow> mmc_partitions g = [] \<or> length (mmc_partitions g) = MAX_PARTITIONS"

lemma start_ok:
  assumes "length ps = MAX_PARTITIONS" and "\<And>p. p \<in> set ps \<Longrightarrow> mp_name p = None"
  shows "mbr_ok dev \<lparr>mbr = ps, found = 0, ext3_count = 0, vfat_count = 0\<rparr>"
  using assms by (simp add: mbr_ok_def unambiguous_def)

text \<open>
  C31: \<open>mmc_scan_partitions\<close> ends on every card, also one whose chain of extended tables is
  circular, and never leaves its table of 64 entries; entry \<open>i\<close> of the found ones is device
  \<open>p(i+1)\<close>, and each of the names system, userdata, cache and modem is given to one partition at
  most.  The names boot and recovery are not meant: every partition of their type gets them.
\<close>

theorem mmc_scan_partitions_bounded:
  assumes "mmc_ok g"
  shows "\<exists>n g' w'. mmc_scan_partitions malloc env g w = Some ((n, g'), w') \<and> mmc_ok g' \<and>
    -1 \<le> n \<and> n \<le> 64 \<and>
    (malloc (64 * 28) \<longrightarrow>
      (\<forall>i < nat n. mp_device (mmc_partitions g' ! i) = Some (MMC_DEVICENAME @ str ''p'' @ digits (i + 1))) \<and>
      unambiguous (mmc_partitions g'))"
proof (cases "mmc_partitions g = [] \<and> \<not> malloc (MAX_PARTITIONS * 28)")
  case True
  then show ?thesis using assms by (simp add: mmc_scan_partitions_def MAX_PARTITIONS_def)
next
  case False
  define ps where "ps = map (\<lambda>p. p\<lparr>mp_device := None, mp_name := None, mp_filesystem := None\<rparr>)
    (if mmc_partitions g = [] then replicate MAX_PARTITIONS no_partition else mmc_partitions g)"
  have "mbr_ok MMC_DEVICENAME \<lparr>mbr = ps, found = 0, ext3_count = 0, vfat_count = 0\<rparr>"
    using assms by (intro start_ok) (auto simp: ps_def mmc_ok_def)
  then obtain n s w' where r: "mmc_read_mbr env MMC_DEVICENAME \<lparr>mbr = ps, found = 0, ext3_count = 0, vfat_count = 0\<rparr> w = Some ((n, s), w')"
    "mbr_ok MMC_DEVICENAME s" "n = -1 \<or> n = int (found s)" using mmc_read_mbr_ok by fastforce
  have "mmc_scan_partitions malloc env g w = Some ((n, \<lparr>mmc_partitions = mbr s, mmc_count = n\<rparr>), w')"
    unfolding mmc_scan_partitions_def Let_def ps_def [symmetric] using False by (auto simp: r(1))
  moreover have "mmc_ok \<lparr>mmc_partitions = mbr s, mmc_count = n\<rparr>" "-1 \<le> n" "n \<le> 64"
    "\<forall>i < nat n. mp_device (mbr s ! i) = Some (MMC_DEVICENAME @ str ''p'' @ digits (i + 1))" "unambiguous (mbr s)"
    using r(2,3) by (auto simp: mbr_ok_def mmc_ok_def MAX_PARTITIONS_def)
  ultimately show ?thesis by auto
qed

text \<open>A card whose last primary entry is an extended table that points to itself.\<close>

definition circular_sector :: bytes where
  "circular_sector = replicate 0x1BE 0 @
     [0, 0, 0, 0, 0x83, 0, 0, 0, 0, 0, 0, 0, 0, 0, 0, 0] @
     [0, 0, 0, 0, 5, 0, 0, 0, 1, 0, 0, 0, 0, 0, 0, 0] @
     replicate 16 0 @
     [0, 0, 0, 0, 5, 0, 0, 0, 1, 0, 0, 0, 0, 0, 0, 0] @ [0x55, 0xAA]"

definition circular_card :: "unit world" where
  "circular_card = \<lparr>fs = [MMC_DEVICENAME \<mapsto> \<lparr>f_data = circular_sector @ circular_sector @ circular_sector, f_regular = False,
     f_mode = 0, f_uid = 0, f_gid = 0\<rparr>], clock = 0, history = [], scanned = False, mtd = ()\<rparr>"

theorem mmc_scan_partitions_bounded_witness:
  "\<exists>n g' w'. mmc_scan_partitions (\<lambda>_. True) generous_env \<lparr>mmc_partitions = [], mmc_count = -1\<rparr> circular_card = Some ((n, g'), w') \<and>
    mmc_ok g' \<and> -1 \<le> n \<and> n \<le> 64 \<and> unambiguous (mmc_partitions g')"
proof -
  have "mmc_ok \<lparr>mmc_partitions = [], mmc_count = -1\<rparr>" by (simp add: mmc_ok_def)
  from mmc_scan_partitions_bounded [OF this, of "\<lambda>_. True" generous_env circular_card] show ?thesis by auto
qed

section \<open>Images\<close>

text \<open>What a copy does to the device up to a position: the data are there, the rest is as before.\<close>

definition copied_to :: "bytes \<Rightarrow> bytes \<Rightarrow> nat \<Rightarrow> inode \<Rightarrow> 'm world \<Rightarrow> bool" where
  "copied_to content out pos g w \<longleftrightarrow> (\<exists>h. fs w out = Some h \<and> f_data h = take pos content @ drop pos (f_data g))"

lemma copied_to_start: "fs w out = Some g \<Longrightarrow> copied_to content out 0 g w"
  by (simp add: copied_to_def)

lemma copied_to_read: "copied_to content out pos g w \<Longrightarrow> sys_read env c p n w = (buf, w') \<Longrightarrow> copied_to content out pos g w'"
  by (auto simp: copied_to_def sys_read_def)

lemma copied_to_write:
  assumes "copied_to content out pos g w" and "sys_write env out pos buf w = (int (length buf), w')"
    and "buf = take k (drop pos content)" and "pos \<le> length content"
  shows "copied_to content out (pos + length buf) g w'"
proof -
  obtain h where h: "fs w out = Some h" "f_data h = take pos content @ drop pos (f_data g)" using assms(1) by (auto simp: copied_to_def)
  have g: "granted env (clock w)" "min (length buf) (amount env (clock w)) = length buf"
    "w' = change ((fs w)(out \<mapsto> h\<lparr>f_data := take pos (f_data h) @ buf @ drop (pos + length buf) (f_data h)\<rparr>)) w"
    using assms(2) h(1) by (auto simp: sys_write_def Let_def split: if_splits)
  have "take pos content @ buf = take (pos + length buf) content"
    using assms(3) by (auto simp: take_add min_def)
  then show ?thesis
    using assms(4) by (auto simp: copied_to_def g(3) h(2) add.commute)
qed

lemma copy_blocks_copies:
  assumes "copy_blocks env content out k pos w = (True, w')" and "copied_to content out pos g w" and "pos + 512 * k \<le> length content"
  shows "copied_to content out (pos + 512 * k) g w'"
  using assms
proof (induction k arbitrary: pos w)
  case (Suc k)
  obtain buf w1 where r: "sys_read env content pos 512 w = (buf, w1)" by fastforce
  obtain n w2 where n: "sys_write env out pos buf w1 = (n, w2)" by fastforce
  have ok: "length buf = 512" "n = 512" "copy_blocks env content out k (pos + 512) w2 = (True, w')"
    using Suc.prems(1) r n by (auto split: if_splits)
  have "buf = take 512 (drop pos content)" using r ok(1) by (auto simp: sys_read_def min_def split: if_splits)
  then have "copied_to content out (pos + length buf) g w2"
    using Suc.prems(3) ok n by (intro copied_to_write [OF copied_to_read [OF Suc.prems(2) r]]) auto
  then show ?case using Suc.IH [OF ok(3)] Suc.prems(3) ok(1) by (simp add: add.assoc)
qed simp

lemma copy_chars_copies:
  assumes "\<And>t. granted env t \<and> 0 < amount env t" and "copied_to content out pos g w" and "pos \<le> length content"
  shows "copied_to content out (length content) g (copy_chars env content out pos pos w)"
  using assms(2,3)
proof (induction "length content - pos" arbitrary: pos w rule: less_induct)
  case less
  obtain buf w1 where r: "sys_read env content pos 1 w = (buf, w1)" by fastforce
  have buf: "buf = take 1 (drop pos content)" using r assms(1) [of "clock w"] by (auto simp: sys_read_def min_def)
  show ?case
  proof (cases "buf = []")
    case True
    then have "pos = length content" using buf less.prems(2) by simp
    then show ?thesis using True r copied_to_read [OF less.prems(1) r] by (subst copy_chars.simps) simp
  next
    case False
    then have b: "length buf = 1" "pos < length content" using buf by auto
    obtain n w2 where n: "sys_write env out pos buf w1 = (n, w2)" by fastforce
    have n1: "n = int (length buf)"
      using n assms(1) [of "clock w1"] b(1) by (auto simp: sys_write_def Let_def min_def split: option.splits if_splits)
    have "copied_to content out (pos + length buf) g w2"
      using n n1 b(2) buf by (intro copied_to_write [OF copied_to_read [OF less.prems(1) r]]) auto
    then show ?thesis
      using less.hyps [of "pos + 1" w2] b False r n n1 by (subst copy_chars.simps) simp
  qed
qed

definition able :: "env \<Rightarrow> bool" where
  "able env \<longleftrightarrow> (\<forall>t. granted env t \<and> 4096 \<le> amount env t)"

lemma ableD: "able env \<Longrightarrow> granted env t \<and> 4096 \<le> amount env t \<and> 0 < amount env t"
  unfolding able_def by (metis less_le_trans zero_less_numeral)

text \<open>A dump into a file that is empty once it has been created, in an environment that is able.\<close>

lemma copy_blocks_able:
  assumes "able env" and "fs w out = Some g" and "pos + 512 * k \<le> length content"
  shows "fst (copy_blocks env content out k pos w)"
  using assms(2,3)
proof (induction k arbitrary: pos w g)
  case (Suc k)
  obtain buf w1 where r: "sys_read env content pos 512 w = (buf, w1)" by fastforce
  have buf: "length buf = 512" "fs w1 out = Some g"
    using r Suc.prems ableD [OF assms(1), of "clock w"] by (auto simp: sys_read_def)
  obtain n w2 where n: "sys_write env out pos buf w1 = (n, w2)" by fastforce
  have w2: "n = 512" "\<exists>g. fs w2 out = Some g"
    using n buf ableD [OF assms(1), of "clock w1"] by (auto simp: sys_write_def Let_def)
  then show ?case using r buf(1) n Suc.IH [of w2] Suc.prems(2) by auto
qed simp

lemma dump_able:
  assumes "able env" and "in_file \<noteq> out" and "fs w in_file = Some f"
    and "\<And>g. fs w out = Some g \<Longrightarrow> f_regular g"
  shows "\<exists>h w'. mmc_raw_dump_internal env in_file out w = (0, w') \<and> fs w' out = Some h \<and> f_data h = f_data f"
proof -
  note able = ableD [OF assms(1)]
  have o: "sys_open env in_file w = (Some f, step_clock w)" using able assms(3) by (simp add: sys_open_def sys_stat_def)
  obtain ok w1 where c: "sys_create env out (step_clock w) = (ok, w1)" by fastforce
  have w1: "ok" "fs w1 in_file = Some f" "\<exists>g. fs w1 out = Some g \<and> f_data g = []"
    using c able assms(2-4) by (auto simp: sys_create_def split: option.splits)
  then obtain g where g: "fs w1 out = Some g" "f_data g = []" by blast
  let ?sz = "if length (f_data f) < 2 ^ 31 then length (f_data f) else 2 ^ 32 - 1"
  show ?thesis
  proof (cases "?sz mod 512 = 0")
    case False
    have "copied_to (f_data f) out (length (f_data f)) g (copy_chars env (f_data f) out 0 0 w1)"
      using able by (intro copy_chars_copies copied_to_start g(1)) auto
    then show ?thesis using False o c w1(1,2) g(2) by (auto simp: mmc_raw_dump_internal_def copied_to_def Let_def)
  next
    case True
    then have sz: "length (f_data f) < 2 ^ 31" "length (f_data f) mod 512 = 0" by (auto split: if_splits)
    let ?k = "length (f_data f) div 512"
    obtain ok w2 where b: "copy_blocks env (f_data f) out ?k 0 w1 = (ok, w2)" by fastforce
    have "ok" using copy_blocks_able [OF assms(1) g(1), of 0 ?k "f_data f"] b by simp
    moreover have "copied_to (f_data f) out (0 + 512 * ?k) g w2"
      using b \<open>ok\<close> by (intro copy_blocks_copies [OF _ copied_to_start [OF g(1)]]) auto
    ultimately show ?thesis using sz o c w1(1,2) g(2) b by (auto simp: mmc_raw_dump_internal_def copied_to_def)
  qed
qed

text \<open>An image as \<open>restore\_internal\<close> writes it: filled up to whole blocks of 4096 bytes.\<close>

definition padded :: "bytes \<Rightarrow> bytes" where
  "padded content = content @ replicate ((4096 - length content mod 4096) mod 4096) 0"

lemma fill_up:
  assumes "0 < (b :: nat)"
  shows "b dvd l + (b - l mod b) mod b"
proof -
  have "l mod b + (b - l mod b) = b" using mod_less_divisor [OF assms, of l] by simp
  moreover have "(l + (b - l mod b) mod b) mod b = (l mod b + (b - l mod b)) mod b"
    by (simp only: mod_add_left_eq mod_add_right_eq)
  ultimately have "(l + (b - l mod b) mod b) mod b = b mod b" by metis
  then show ?thesis unfolding dvd_eq_mod_eq_0 mod_self .
qed

lemma padded_block:
  assumes "pos mod 4096 = 0" and "pos < length content"
  shows "take 4096 (drop pos content) @ replicate (4096 - length (take 4096 (drop pos content))) 0 = take 4096 (drop pos (padded content))"
    and "pos + 4096 \<le> length (padded content)"
proof -
  let ?l = "length content" and ?r = "(4096 - length content mod 4096) mod 4096"
  obtain q where q: "pos = 4096 * q" using assms(1) by (auto elim: dvdE simp: mod_eq_0_iff_dvd)
  define r where "r = ?r"
  have "4096 dvd ?l + r" unfolding r_def by (rule fill_up) simp
  then obtain m where m: "?l + r = 4096 * m" by (rule dvdE)
  have "4096 * q < 4096 * m" using assms(2) q m by linarith
  then have "q + 1 \<le> m" by simp
  then have "4096 * (q + 1) \<le> 4096 * m" by (rule mult_le_mono2)
  then have le: "pos + 4096 \<le> ?l + r" unfolding m q by (simp add: distrib_left)
  then show "pos + 4096 \<le> length (padded content)" by (simp add: padded_def r_def)
  show "take 4096 (drop pos content) @ replicate (4096 - length (take 4096 (drop pos content))) 0 = take 4096 (drop pos (padded content))"
  proof (cases "pos + 4096 \<le> ?l")
    case True
    then show ?thesis by (simp add: padded_def)
  next
    case False
    have "r < 4096" by (simp add: r_def)
    then have "4096 - (?l - pos) \<le> r" using le by linarith
    then show ?thesis using False assms(2) by (simp add: padded_def r_def [symmetric] min_def)
  qed
qed

lemma padded_end: "length content mod 4096 = 0 \<Longrightarrow> padded content = content"
  by (simp add: padded_def)

lemma bml_loop_able:
  assumes "able env" and "copied_to (padded content) bml pos g w" and "pos mod 4096 = 0" and "pos \<le> length content"
  shows "\<exists>w'. bml_loop env content bml pos pos w = Some (0, w') \<and> copied_to (padded content) bml (length (padded content)) g w' \<and>
    touches bml w w'"
  using assms(2-4)
proof (induction "length content - pos" arbitrary: pos w rule: less_induct)
  case less
  note able = ableD [OF assms(1)]
  obtain buf w1 where r: "sys_read env content pos 4096 w = (buf, w1)" by fastforce
  have buf: "buf = take 4096 (drop pos content)" using r able [of "clock w"] by (auto simp: sys_read_def min_def)
  have w1: "w1 = step_clock w" using r by (auto simp: sys_read_def)
  show ?case
  proof (cases "pos = length content")
    case True
    then have "buf = []" "padded content = content" using buf less.prems(2) by (simp_all add: padded_end)
    then show ?thesis
      using True r able [of "clock w"] copied_to_read [OF less.prems(1) r] w1 by (subst bml_loop.simps) auto
  next
    case False
    then have pos: "pos < length content" using less.prems(3) by simp
    let ?block = "buf @ replicate (4096 - length buf) 0"
    have block: "?block = take 4096 (drop pos (padded content))" "pos + 4096 \<le> length (padded content)"
      using padded_block [OF less.prems(2) pos] buf by simp_all
    have len: "length ?block = 4096" unfolding block(1) using block(2) by simp
    have nonempty: "buf \<noteq> []" using pos buf by simp
    obtain n w2 where n: "sys_write env bml pos ?block w1 = (n, w2)" by fastforce
    have n1: "n = int (length ?block)"
      using n able [of "clock w1"] len by (auto simp: sys_write_def Let_def min_def split: option.splits)
    have t: "touches bml w w2" using touches_calls(2) [of bml w1 env pos ?block] n w1 touches_trans touches_call(1) by (metis snd_conv)
    have c: "copied_to (padded content) bml (pos + 4096) g w2"
      using copied_to_write [OF copied_to_read [OF less.prems(1) r], of env ?block w2 4096] n n1 block len by simp
    show ?thesis
    proof (cases "length buf = 4096")
      case True
      then have le: "pos + 4096 \<le> length content" using buf by simp
      have lt: "length content - (pos + 4096) < length content - pos" using pos by (intro diff_less_mono2) simp_all
      obtain w' where w': "bml_loop env content bml (pos + 4096) (pos + 4096) w2 = Some (0, w')"
        "copied_to (padded content) bml (length (padded content)) g w'" "touches bml w2 w'"
        using less.hyps [OF lt c _ le] less.prems(2) by auto
      have "bml_loop env content bml pos pos w = bml_loop env content bml (pos + 4096) (pos + 4096) w2"
        using r nonempty n n1 len True by (subst bml_loop.simps) simp
      then show ?thesis using w' touches_trans [OF t w'(3)] by auto
    next
      case False
      have k: "length buf < 4096" "length content = pos + length buf" "0 < length buf"
        using False buf pos nonempty by (auto simp: min_def split: if_splits)
      have "(pos + length buf) mod 4096 = length buf" using less.prems(2) k(1) by (metis add_0 mod_add_left_eq mod_less)
      then have "length content mod 4096 = length buf" by (simp only: k(2))
      moreover have "(4096 - length buf) mod 4096 = 4096 - length buf" using k(3) by (intro mod_less diff_less) simp_all
      ultimately have "length (padded content) = pos + 4096" using k(1,2) by (simp add: padded_def)
      then show ?thesis
        using r nonempty n n1 len False t c by (subst bml_loop.simps) auto
    qed
  qed
qed

lemma restore_able:
  assumes "able env" and "fs w img = Some f" and "fs w bml = Some g"
  shows "\<exists>w'. restore_internal env bml img w = Some (0, w') \<and>
    copied_to (padded (f_data f)) bml (length (padded (f_data f))) g w' \<and> touches bml w w'"
proof -
  note able = ableD [OF assms(1)]
  let ?w = "step_clock (step_clock (step_clock w))"
  have "copied_to (padded (f_data f)) bml 0 g ?w" using assms(3) by (intro copied_to_start) simp
  from bml_loop_able [OF assms(1) this]
  obtain w' where w': "bml_loop env (f_data f) bml 0 0 ?w = Some (0, w')"
    "copied_to (padded (f_data f)) bml (length (padded (f_data f))) g w'" "touches bml ?w w'" by auto
  have "touches bml w w'" using touches_trans [OF _ w'(3)] touches_trans touches_call(1) by metis
  moreover have "restore_internal env bml img w = Some (0, w')"
    using able assms(2,3) w'(1) by (simp add: restore_internal_def sys_open_def sys_stat_def)
  ultimately show ?thesis using w'(2) by blast
qed

lemma bml_devices: "BOARD_BML_BOOT \<noteq> BOARD_BML_RECOVERY"
  by (simp add: BOARD_BML_BOOT_def BOARD_BML_RECOVERY_def str_def)

text \<open>
  C22: an image that is restored as recovery is what a backup gives.  When calls are granted
  and the image and both partitions are there, restoring returns 0, the boot and the recovery
  partition then start with the image, filled up with zeros to blocks of 4096 bytes, and are as
  before behind it; a backup of either returns 0 and its file holds exactly that.
\<close>

theorem restored_image_backed_up:
  assumes "able env" and "fs w img = Some f" and "img \<noteq> BOARD_BML_BOOT" and "img \<noteq> BOARD_BML_RECOVERY"
    and "fs w BOARD_BML_BOOT = Some boot" and "fs w BOARD_BML_RECOVERY = Some reco"
    and "backup \<noteq> BOARD_BML_BOOT" and "backup \<noteq> BOARD_BML_RECOVERY" and "\<And>h. fs w backup = Some h \<Longrightarrow> f_regular h"
    and "(part, dev) = (str ''boot'', boot) \<or> (part, dev) = (str ''recovery'', reco)"
  shows "\<exists>w1 w2 h. cmd_bml_restore_raw_partition env (str ''recovery'') img w = Some (0, w1) \<and>
    cmd_bml_backup_raw_partition env part backup w1 = (0, w2) \<and> fs w2 backup = Some h \<and>
    f_data h = padded (f_data f) @ drop (length (padded (f_data f))) (f_data dev)"
proof -
  let ?p = "padded (f_data f)"
  obtain w0 where w0: "restore_internal env BOARD_BML_BOOT img w = Some (0, w0)"
    "copied_to ?p BOARD_BML_BOOT (length ?p) boot w0" "touches BOARD_BML_BOOT w w0"
    using restore_able [OF assms(1,2,5)] by blast
  have "fs w0 img = Some f" "fs w0 BOARD_BML_RECOVERY = Some reco"
    using touches_other [OF w0(3)] assms(2,3,6) bml_devices by auto
  from restore_able [OF assms(1) this]
  obtain w1 where w1: "restore_internal env BOARD_BML_RECOVERY img w0 = Some (0, w1)"
    "copied_to ?p BOARD_BML_RECOVERY (length ?p) reco w1" "touches BOARD_BML_RECOVERY w0 w1" by blast
  have restored: "cmd_bml_restore_raw_partition env (str ''recovery'') img w = Some (0, w1)"
    using w0(1) w1(1) by (simp add: cmd_bml_restore_raw_partition_def str_def)
  have boot: "copied_to ?p BOARD_BML_BOOT (length ?p) boot w1"
    using w0(2) touches_other [OF w1(3) bml_devices] by (simp add: copied_to_def)
  define path where "path = (if part = str ''boot'' then BOARD_BML_BOOT else BOARD_BML_RECOVERY)"
  obtain d where d: "fs w1 path = Some d" "f_data d = ?p @ drop (length ?p) (f_data dev)"
    using boot w1(2) assms(10) by (auto simp: copied_to_def path_def str_def)
  have "fs w1 backup = fs w backup" using touches_other [OF w1(3) assms(8)] touches_other [OF w0(3) assms(7)] by simp
  then have "\<And>h. fs w1 backup = Some h \<Longrightarrow> f_regular h" "path \<noteq> backup" using assms(7-9) by (auto simp: path_def)
  then obtain h w2 where h: "mmc_raw_dump_internal env path backup w1 = (0, w2)" "fs w2 backup = Some h" "f_data h = f_data d"
    using dump_able [OF assms(1) _ d(1), of backup] by blast
  have "cmd_bml_backup_raw_partition env part backup w1 = (0, w2)"
    using h(1) assms(10) by (auto simp: cmd_bml_backup_raw_partition_def path_def str_def split: if_splits)
  then show ?thesis using restored h(2,3) d(2) by metis
qed

definition bml_world :: "unit world" where
  "bml_world = \<lparr>fs = [str ''/sdcard/recovery.img'' \<mapsto> \<lparr>f_data = [1, 2, 3], f_regular = True, f_mode = 0, f_uid = 0, f_gid = 0\<rparr>,
     BOARD_BML_BOOT \<mapsto> \<lparr>f_data = replicate 8192 9, f_regular = False, f_mode = 0, f_uid = 0, f_gid = 0\<rparr>,
     BOARD_BML_RECOVERY \<mapsto> \<lparr>f_data = replicate 8192 8, f_regular = False, f_mode = 0, f_uid = 0, f_gid = 0\<rparr>],
     clock = 0, history = [], scanned = False, mtd = ()\<rparr>"

theorem restored_image_backed_up_witness:
  "\<exists>w1 w2 h. cmd_bml_restore_raw_partition generous_env (str ''recovery'') (str ''/sdcard/recovery.img'') bml_world = Some (0, w1) \<and>
    cmd_bml_backup_raw_partition generous_env (str ''boot'') (str ''/sdcard/boot.img'') w1 = (0, w2) \<and>
    fs w2 (str ''/sdcard/boot.img'') = Some h \<and>
    f_data h = padded [1, 2, 3] @ drop (length (padded [1, 2, 3])) (replicate 8192 9)"
proof -
  have "able generous_env" by (simp add: able_def generous_env_def)
  moreover have paths: "str ''/sdcard/recovery.img'' \<noteq> BOARD_BML_BOOT" "str ''/sdcard/recovery.img'' \<noteq> BOARD_BML_RECOVERY"
    "str ''/sdcard/boot.img'' \<noteq> BOARD_BML_BOOT" "str ''/sdcard/boot.img'' \<noteq> BOARD_BML_RECOVERY"
    "str ''/sdcard/boot.img'' \<noteq> str ''/sdcard/recovery.img''"
    by (simp_all add: BOARD_BML_BOOT_def BOARD_BML_RECOVERY_def str_def)
  ultimately show ?thesis
    using restored_image_backed_up [of generous_env bml_world "str ''/sdcard/recovery.img''"
        "\<lparr>f_data = [1, 2, 3], f_regular = True, f_mode = 0, f_uid = 0, f_gid = 0\<rparr>"
        "\<lparr>f_data = replicate 8192 9, f_regular = False, f_mode = 0, f_uid = 0, f_gid = 0\<rparr>"
        "\<lparr>f_data = replicate 8192 8, f_regular = False, f_mode = 0, f_uid = 0, f_gid = 0\<rparr>"
        "str ''/sdcard/boot.img''" "str ''boot''"
        "\<lparr>f_data = replicate 8192 9, f_regular = False, f_mode = 0, f_uid = 0, f_gid = 0\<rparr>"]
      bml_devices by (simp add: bml_world_def)
qed

end
