(* ===== verification/MtdRoundtrip.thy ===== *)
theory MtdRoundtrip
  imports Mtd
begin

text \<open>
  What is written to a partition of raw flash can be read back: the writer and the reader
  agree on the blocks that are skipped, as long as the writer does not have to give up on a
  block that is not marked.
\<close>

section \<open>The data in the good blocks\<close>

definition block_at :: "MtdPartition \<Rightarrow> bytes \<Rightarrow> nat \<Rightarrow> bytes" where
  "block_at p b k = take (erase_len p) (drop (k * erase_len p) b)"

definition usable_block :: "nand \<Rightarrow> MtdPartition \<Rightarrow> nat \<Rightarrow> bool" where
  "usable_block N p k \<longleftrightarrow> n_bad N (device_index p) (k * erase_len p) = 0"

definition block_count :: "MtdPartition \<Rightarrow> nat" where
  "block_count p = unat (p_size p) div erase_len p"

definition stored :: "nand \<Rightarrow> MtdPartition \<Rightarrow> bytes \<Rightarrow> nat \<Rightarrow> nat \<Rightarrow> bytes" where
  "stored N p b i j = concat (map (block_at p b) (filter (usable_block N p) [i..<j]))"

text \<open>A partition of blocks that are there, on a device that is as long.\<close>

definition sound_partition :: "MtdPartition \<Rightarrow> bytes \<Rightarrow> bool" where
  "sound_partition p b \<longleftrightarrow> 0 < erase_len p \<and> unat (p_size p) < 2 ^ 31 \<and> unat (p_size p) \<le> length b"

lemma fits_nat: "0 < erase_len p \<Longrightarrow> k * erase_len p + erase_len p \<le> unat (p_size p) \<longleftrightarrow> k < block_count p"
proof -
  assume "0 < erase_len p"
  then have "Suc k * erase_len p \<le> unat (p_size p) \<longleftrightarrow> Suc k \<le> block_count p"
    by (simp add: block_count_def less_eq_div_iff_mult_less_eq)
  then show ?thesis by (simp add: add.commute Suc_le_eq)
qed

lemma fits_block:
  assumes "sound_partition p b"
  shows "int (k * erase_len p + erase_len p) \<le> sint (p_size p) \<longleftrightarrow> k < block_count p"
proof -
  have "sint (p_size p) = int (unat (p_size p))" using assms by (intro sint_small) (simp add: sound_partition_def)
  then show ?thesis using fits_nat [of p k] assms by (simp only: of_nat_le_iff sound_partition_def)
qed

lemma block_fits:
  assumes "sound_partition p b" and "k < block_count p"
  shows "int (k * erase_len p) + erase_int p \<le> sint (p_size p)" "\<not> 2 ^ 31 \<le> int (k * erase_len p) + erase_int p"
    "\<not> erase_int p < 0"
proof -
  have le: "k * erase_len p + erase_len p \<le> unat (p_size p)" and s: "unat (p_size p) < 2 ^ 31"
    using fits_nat [of p k] assms by (simp_all add: sound_partition_def)
  then have e: "erase_int p = int (erase_len p)" by (intro sint_small) linarith
  show "int (k * erase_len p) + erase_int p \<le> sint (p_size p)"
    using iffD2 [OF fits_block [OF assms(1)] assms(2)] unfolding e of_nat_add .
  have "k * erase_len p + erase_len p < 2 ^ 31" using le s by (rule le_less_trans)
  then have "int (k * erase_len p + erase_len p) < int (2 ^ 31)" by (rule iffD2 [OF of_nat_less_iff])
  then show "\<not> 2 ^ 31 \<le> int (k * erase_len p) + erase_int p" unfolding e of_nat_add by simp
  show "\<not> erase_int p < 0" unfolding e by simp
qed

lemma block_inside: "sound_partition p b \<Longrightarrow> k < block_count p \<Longrightarrow> k * erase_len p + erase_len p \<le> length b"
  using fits_nat [of p k] by (simp add: sound_partition_def)

lemma stored_split: "i \<le> j \<Longrightarrow> j \<le> k \<Longrightarrow> stored N p b i k = stored N p b i j @ stored N p b j k"
  using upt_add_eq_append [of i j "k - j"] by (simp add: stored_def)

lemma stored_skip: "(\<forall>l \<in> {i..<j}. \<not> usable_block N p l) \<Longrightarrow> stored N p b i j = []"
  by (simp add: stored_def filter_empty_conv)

lemma stored_next:
  assumes "i \<le> j" "usable_block N p j" "\<forall>l \<in> {i..<j}. \<not> usable_block N p l"
  shows "stored N p b i (Suc j) = block_at p b j"
  using stored_split [of i j "Suc j" N p b] stored_skip [OF assms(3)] assms(1,2) by (simp add: stored_def)

lemma stored_same:
  "take (j * erase_len p) b = take (j * erase_len p) b' \<Longrightarrow> stored N p b i j = stored N p b' i j"
proof -
  assume t: "take (j * erase_len p) b = take (j * erase_len p) b'"
  have "block_at p b k = block_at p b' k" if "k < j" for k
  proof -
    have "k * erase_len p + erase_len p \<le> j * erase_len p" using that by (metis Suc_leI mult_Suc add.commute mult_le_mono1)
    then have "block_at p c k = take (erase_len p) (drop (k * erase_len p) (take (j * erase_len p) c))" for c
      by (simp add: block_at_def drop_take)
    with t show ?thesis by simp
  qed
  then show ?thesis by (auto simp: stored_def intro!: arg_cong [of _ _ concat])
qed

lemma length_stored:
  "sound_partition p b \<Longrightarrow> j \<le> block_count p \<Longrightarrow>
    length (stored N p b i j) = erase_len p * length (filter (usable_block N p) [i..<j])"
proof -
  assume s: "sound_partition p b" "j \<le> block_count p"
  have "length (block_at p b k) = erase_len p" if "k < j" for k
    using block_inside [OF s(1), of k] that s(2) by (simp add: block_at_def)
  then have m: "map (length \<circ> block_at p b) (filter (usable_block N p) [i..<j]) = map (\<lambda>_. erase_len p) (filter (usable_block N p) [i..<j])"
    by (intro map_cong) auto
  show ?thesis unfolding stored_def length_concat map_map m by (simp add: sum_list_triv)
qed

section \<open>Writing\<close>

lemma overwrite_slices:
  assumes "pos + length d \<le> length b"
  shows "length (overwrite b pos d) = length b" "take pos (overwrite b pos d) = take pos b"
    "take (length d) (drop pos (overwrite b pos d)) = d"
  using assms by (simp_all add: overwrite_def)

lemma overwrite_length: "pos + length d \<le> length b \<Longrightarrow> length (overwrite b pos d) = length b"
  by (simp add: overwrite_def)

lemma overwrite_before: "pos \<le> length b \<Longrightarrow> take pos (overwrite b pos d) = take pos b"
  by (simp add: overwrite_def)

lemma attempts_spec:
  "attempts n N d pos data c = (ok, c') \<Longrightarrow> pos + length data \<le> length (cells c d) \<Longrightarrow>
    length (cells c' d) = length (cells c d) \<and> take pos (cells c' d) = take pos (cells c d) \<and>
    (ok \<longrightarrow> take (length data) (drop pos (cells c' d)) = data)"
proof (induction n N d pos data c rule: attempts.induct)
  case (2 retry N d pos data c)
  obtain e c1 where e: "io_erase N d pos (length data) c = (e, c1)" by fastforce
  have c1: "length (cells c1 d) = length (cells c d)" "take pos (cells c1 d) = take pos (cells c d)"
    using e 2(4) by (auto simp: io_erase_def called_def overwrite_length overwrite_before split: if_splits)
  show ?case
  proof (cases e)
    case False
    then show ?thesis using 2 e c1 by simp
  next
    case True
    define c2 where "c2 = io_write N d pos data c1"
    have c2: "length (cells c2 d) = length (cells c d)" "take pos (cells c2 d) = take pos (cells c d)"
      using 2(4) c1 by (auto simp: c2_def io_write_def called_def overwrite_length overwrite_before)
    obtain v c3 where v: "io_read N d pos (length data) c2 = (v, c3)" by fastforce
    then have c3: "cells c3 = cells c2" by (auto simp: io_read_def called_def)
    show ?thesis
    proof (cases "v = Some data")
      case good: True
      then have "take (length data) (drop pos (cells c2 d)) = data" using v by (auto simp: io_read_def split: if_splits)
      then show ?thesis using 2(3) e True v good c2 c3 by (simp add: c2_def)
    next
      case bad: False
      then have "attempts retry N d pos data c3 = (ok, c')" using 2(3) e True v by (simp add: c2_def [symmetric] Let_def)
      from 2(2) [OF refl e [symmetric] _ c2_def refl v [symmetric] bad this] True c2 c3 2(4) show ?thesis by simp
    qed
  qed
qed simp

text \<open>Every good block takes one of the two attempts.\<close>

definition dependable :: "nand \<Rightarrow> bool" where
  "dependable N \<longleftrightarrow> \<not> n_unsupported N \<and> (\<forall>d pos data c. n_bad N d pos = 0 \<longrightarrow> pos + length data \<le> length (cells c d) \<longrightarrow>
     fst (attempts 2 N d pos data c))"

lemma write_from_spec:
  assumes dep: "dependable N" and s: "sound_partition p (cells c (device_index p))" and len: "length data = erase_len p"
  shows "(\<exists>j \<in> {k..<block_count p}. usable_block N p j) \<Longrightarrow> \<exists>j bad' c'. k \<le> j \<and> j < block_count p \<and> usable_block N p j \<and>
    (\<forall>l \<in> {k..<j}. \<not> usable_block N p l) \<and>
    write_from N p (k * erase_len p) bad data c = Some (Some (Suc j * erase_len p), bad', c') \<and>
    sound_partition p (cells c' (device_index p)) \<and>
    take (j * erase_len p) (cells c' (device_index p)) = take (j * erase_len p) (cells c (device_index p)) \<and>
    block_at p (cells c' (device_index p)) j = data"
  using s
proof (induction "block_count p - k" arbitrary: k bad c)
  case 0
  then show ?case by auto
next
  case (Suc m)
  let ?d = "device_index p" and ?n = "erase_len p"
  have k: "k < block_count p" using Suc(2) by simp
  note fits = block_fits [OF Suc(4) k]
  have inside: "k * ?n + ?n \<le> length (cells c ?d)" by (rule block_inside [OF Suc(4) k])
  have nx: "k * ?n + ?n = Suc k * ?n" by simp
  show ?case
  proof (cases "usable_block N p k")
    case False
    have s1: "sound_partition p (cells (called c) ?d)" using Suc(4) by (simp add: called_def)
    have "\<exists>j \<in> {Suc k..<block_count p}. usable_block N p j" using Suc(3) False by (metis Suc_leI atLeastLessThan_iff le_neq_implies_less)
    moreover have "m = block_count p - Suc k" using Suc(2) by simp
    ultimately obtain j bad' c' where j: "Suc k \<le> j" "j < block_count p" "usable_block N p j"
      "\<forall>l \<in> {Suc k..<j}. \<not> usable_block N p l"
      "write_from N p (Suc k * ?n) (bad @ [k * ?n]) data (called c) = Some (Some (Suc j * ?n), bad', c')"
      "sound_partition p (cells c' ?d)" "take (j * ?n) (cells c' ?d) = take (j * ?n) (cells (called c) ?d)" "block_at p (cells c' ?d) j = data"
      using Suc(1) [OF _ _ s1, where bad = "bad @ [k * ?n]"] by blast
    have "write_from N p (k * ?n) bad data c = write_from N p (Suc k * ?n) (bad @ [k * ?n]) data (called c)"
      using fits False dep by (subst write_from.simps) (simp add: io_getbadblock_def usable_block_def dependable_def nx)
    moreover have "\<forall>l \<in> {k..<j}. \<not> usable_block N p l" using j(4) False by (metis Suc_leI atLeastLessThan_iff le_neq_implies_less)
    ultimately show ?thesis using j by (intro exI [of _ j] exI [of _ bad'] exI [of _ c']) (simp add: called_def)
  next
    case True
    obtain ok c' where a: "attempts 2 N ?d (k * ?n) data (called c) = (ok, c')" by fastforce
    have inside': "k * ?n + length data \<le> length (cells (called c) ?d)" using inside len by (simp add: called_def)
    have ok: ok using dep a True inside' unfolding dependable_def usable_block_def by (metis fst_conv)
    have "write_from N p (k * ?n) bad data c = Some (Some (Suc k * ?n), bad, c')"
      using fits True a ok by (subst write_from.simps) (simp add: io_getbadblock_def usable_block_def nx)
    moreover note attempts_spec [OF a inside']
    ultimately show ?thesis using True k ok Suc(4) len
      by (intro exI [of _ k] exI [of _ bad] exI [of _ c']) (auto simp: called_def sound_partition_def block_at_def)
  qed
qed

text \<open>
  \<open>written N ctx c s\<close>: what has been handed to the context so far is \<open>s\<close>; its complete blocks are
  in the good blocks before the offset, the rest is in the buffer.
\<close>

definition written :: "nand \<Rightarrow> MtdWriteContext \<Rightarrow> chip \<Rightarrow> bytes \<Rightarrow> bool" where
  "written N ctx c s \<longleftrightarrow> (let p = w_partition ctx; b = cells c (device_index p) in
     sound_partition p b \<and> (\<exists>k \<le> block_count p. w_pos ctx = k * erase_len p \<and> s = stored N p b 0 k @ w_buffer ctx))"

definition capacity :: "nand \<Rightarrow> MtdPartition \<Rightarrow> nat" where
  "capacity N p = erase_len p * length (filter (usable_block N p) [0..<block_count p])"

lemma room_left:
  assumes "sound_partition p b" "k \<le> block_count p" "length (stored N p b 0 k) < capacity N p"
  shows "\<exists>j \<in> {k..<block_count p}. usable_block N p j"
proof (rule ccontr)
  assume "\<not> ?thesis"
  then have "stored N p b k (block_count p) = []" by (intro stored_skip) blast
  then have "stored N p b 0 (block_count p) = stored N p b 0 k" using stored_split [of 0 k "block_count p"] assms(2) by simp
  with assms(3) length_stored [OF assms(1), of "block_count p" N 0] show False by (simp add: capacity_def)
qed

lemma take_shorter:
  assumes "take m x = take m y" and "n \<le> m"
  shows "take n x = take n y"
proof -
  have "take n z = take n (take m z)" for z :: "'a list" using assms(2) by simp
  from this [of x] this [of y] assms(1) show ?thesis by simp
qed

lemma write_block_ok:
  assumes dep: "dependable N" and w: "written N ctx c (s @ w_buffer ctx)" and len: "length data = erase_len (w_partition ctx)"
    and room: "length s < capacity N (w_partition ctx)"
  shows "\<exists>ctx' c'. write_block N ctx data c = Some (True, ctx', c') \<and> w_partition ctx' = w_partition ctx \<and>
    w_buffer ctx' = w_buffer ctx \<and> written N (ctx'\<lparr>w_buffer := []\<rparr>) c' (s @ data)"
proof -
  let ?p = "w_partition ctx" let ?d = "device_index ?p" let ?n = "erase_len ?p"
  obtain k where k: "sound_partition ?p (cells c ?d)" "k \<le> block_count ?p" "w_pos ctx = k * ?n" "s = stored N ?p (cells c ?d) 0 k"
    using w by (auto simp: written_def Let_def)
  obtain j bad' c' where j: "k \<le> j" "j < block_count ?p" "usable_block N ?p j" "\<forall>l \<in> {k..<j}. \<not> usable_block N ?p l"
    "write_from N ?p (k * ?n) (bad_block_offsets ctx) data c = Some (Some (Suc j * ?n), bad', c')"
    "sound_partition ?p (cells c' ?d)" "take (j * ?n) (cells c' ?d) = take (j * ?n) (cells c ?d)" "block_at ?p (cells c' ?d) j = data"
    using write_from_spec [where bad = "bad_block_offsets ctx", OF dep k(1) len room_left [OF k(1,2)]] room k(4) by blast
  have "stored N ?p (cells c' ?d) 0 (Suc j) = stored N ?p (cells c' ?d) 0 k @ data"
    using stored_split [of 0 k "Suc j"] stored_next [OF j(1,3,4)] j(1,8) by simp
  also have "take (k * ?n) (cells c' ?d) = take (k * ?n) (cells c ?d)"
    by (rule take_shorter [OF j(7)]) (use j(1) in simp)
  then have "stored N ?p (cells c' ?d) 0 k = s" using stored_same k(4) by metis
  finally have st: "stored N ?p (cells c' ?d) 0 (Suc j) = s @ data" .
  let ?ctx = "ctx\<lparr>bad_block_offsets := bad', w_pos := Suc j * ?n\<rparr>"
  have "written N (?ctx\<lparr>w_buffer := []\<rparr>) c' (s @ data)"
    unfolding written_def Let_def using j(2,6) st by (intro conjI exI [of _ "Suc j"]) (simp_all del: mult_Suc)
  moreover have "write_block N ctx data c = Some (True, ?ctx, c')"
    using j(5) k(3) by (simp add: write_block_def)
  ultimately show ?thesis by (intro exI [of _ ?ctx] exI [of _ c']) simp
qed

lemma written_nonempty_pos: "written N ctx c s \<Longrightarrow> 0 < erase_len (w_partition ctx)"
  by (simp add: written_def sound_partition_def Let_def)

lemma write_blocks_ok:
  assumes dep: "dependable N"
  shows "written N ctx c s \<Longrightarrow> wrote \<le> length data \<Longrightarrow> length s + (length data - wrote) \<le> capacity N (w_partition ctx) \<Longrightarrow>
    \<exists>wrote' ctx' c'. write_blocks N ctx data wrote c = Some (Some wrote', ctx', c') \<and> wrote \<le> wrote' \<and> wrote' \<le> length data \<and>
      w_partition ctx' = w_partition ctx \<and> w_buffer ctx' = w_buffer ctx \<and> written N ctx' c' (s @ take (wrote' - wrote) (drop wrote data)) \<and>
      (w_buffer ctx = [] \<and> erase_len (w_partition ctx) \<le> length data - wrote \<longrightarrow> wrote < wrote')"
proof (induction "length data - wrote" arbitrary: wrote s ctx c rule: less_induct)
  case less
  let ?n = "erase_len (w_partition ctx)"
  note pos = written_nonempty_pos [OF less(2)]
  show ?case
  proof (cases "w_buffer ctx = [] \<and> length data - wrote \<ge> ?n")
    case False
    then show ?thesis using less(2-) by (subst write_blocks.simps) (auto simp: Let_def)
  next
    case True
    define blk where "blk = take ?n (drop wrote data)"
    have blk: "length blk = ?n" using True by (simp add: blk_def)
    have "length s < capacity N (w_partition ctx)" using True pos less(4) by linarith
    from write_block_ok [OF dep _ blk this, of c] less(2) True obtain ctx1 c1 where b:
      "write_block N ctx blk c = Some (True, ctx1, c1)" "w_partition ctx1 = w_partition ctx" "w_buffer ctx1 = []"
      "written N (ctx1\<lparr>w_buffer := []\<rparr>) c1 (s @ blk)" by auto
    have same: "ctx1\<lparr>w_buffer := []\<rparr> = ctx1" using b(3) by simp
    have "\<exists>wrote' ctx' c'. write_blocks N ctx1 data (wrote + ?n) c1 = Some (Some wrote', ctx', c') \<and> wrote + ?n \<le> wrote' \<and> wrote' \<le> length data \<and>
      w_partition ctx' = w_partition ctx1 \<and> w_buffer ctx' = w_buffer ctx1 \<and>
      written N ctx' c' ((s @ blk) @ take (wrote' - (wrote + ?n)) (drop (wrote + ?n) data)) \<and>
      (w_buffer ctx1 = [] \<and> erase_len (w_partition ctx1) \<le> length data - (wrote + ?n) \<longrightarrow> wrote + ?n < wrote')"
      by (rule less(1)) (use pos True less(3,4) b same blk in auto)
    then obtain wrote' ctx' c' where r: "write_blocks N ctx1 data (wrote + ?n) c1 = Some (Some wrote', ctx', c')"
      "wrote + ?n \<le> wrote'" "wrote' \<le> length data" "w_partition ctx' = w_partition ctx" "w_buffer ctx' = []"
      "written N ctx' c' ((s @ blk) @ take (wrote' - (wrote + ?n)) (drop (wrote + ?n) data))" using b(2,3) by auto
    have "blk @ take (wrote' - (wrote + ?n)) (drop (wrote + ?n) data) = take (wrote' - wrote) (drop wrote data)"
      using take_add [of ?n "wrote' - (wrote + ?n)" "drop wrote data"] r(2) by (simp add: blk_def add.commute)
    then show ?thesis
      using r b(1) True pos by (subst write_blocks.simps) (auto simp: Let_def blk_def)
  qed
qed

lemma write_loop_ok:
  assumes dep: "dependable N"
  shows "written N ctx c s \<Longrightarrow> wrote \<le> length data \<Longrightarrow> length (w_buffer ctx) < erase_len (w_partition ctx) \<Longrightarrow>
    length s + (length data - wrote) \<le> capacity N (w_partition ctx) \<Longrightarrow>
    \<exists>ctx' c'. write_loop N ctx data wrote c = Some (int (length data), ctx', c') \<and> w_partition ctx' = w_partition ctx \<and>
      length (w_buffer ctx') < erase_len (w_partition ctx) \<and> written N ctx' c' (s @ drop wrote data)"
proof (induction "length data - wrote" arbitrary: wrote s ctx c rule: less_induct)
  case less
  let ?p = "w_partition ctx" let ?n = "erase_len ?p"
  show ?case
  proof (cases "wrote < length data")
    case False
    then show ?thesis using less(2-) by (subst write_loop.simps) (auto simp: Let_def)
  next
    case True
    define fill where "fill \<longleftrightarrow> w_buffer ctx \<noteq> [] \<or> length data - wrote < ?n"
    define copy where "copy = (if fill then min (length data - wrote) (?n - length (w_buffer ctx)) else 0)"
    define ctx1 where "ctx1 = ctx\<lparr>w_buffer := w_buffer ctx @ take copy (drop wrote data)\<rparr>"
    have copy: "copy \<le> length data - wrote" "length (w_buffer ctx) + copy \<le> ?n" using less(4) by (auto simp: copy_def)
    have w1: "written N ctx1 c (s @ take copy (drop wrote data))" using less(2) by (auto simp: written_def ctx1_def Let_def)
    have p1: "w_partition ctx1 = ?p" and l1: "length (w_buffer ctx1) = length (w_buffer ctx) + copy" using copy(1) by (simp_all add: ctx1_def)
    have step1: "\<exists>ctx2 c2. (if length (w_buffer ctx1) = ?n then do {
               (ok, ctx, c) \<leftarrow> write_block N ctx1 (w_buffer ctx1) c;
               Some (ok, if ok then ctx\<lparr>w_buffer := []\<rparr> else ctx, c) }
             else Some (True, ctx1, c)) = Some (True, ctx2, c2) \<and> w_partition ctx2 = ?p \<and>
             length (w_buffer ctx2) < ?n \<and> written N ctx2 c2 (s @ take copy (drop wrote data)) \<and> (\<not> fill \<longrightarrow> w_buffer ctx2 = [])"
    proof (cases "length (w_buffer ctx1) = ?n")
      case False
      then show ?thesis using w1 p1 l1 copy by (auto simp: fill_def ctx1_def copy_def)
    next
      case full: True
      obtain s0 where s0: "s @ take copy (drop wrote data) = s0 @ w_buffer ctx1" using w1 by (auto simp: written_def Let_def)
      have "length s0 + ?n \<le> length s + (length data - wrote)" using arg_cong [OF s0, of length] full copy(1) by simp
      then have room: "length s0 < capacity N (w_partition ctx1)" using less(5) p1 written_nonempty_pos [OF less(2)] by simp
      from write_block_ok [OF dep w1 [unfolded s0] _ room, of "w_buffer ctx1"] full p1 obtain ctx2 c2 where
        "write_block N ctx1 (w_buffer ctx1) c = Some (True, ctx2, c2)" "w_partition ctx2 = ?p"
        "written N (ctx2\<lparr>w_buffer := []\<rparr>) c2 (s0 @ w_buffer ctx1)" by auto
      then show ?thesis using full less(4) s0 by auto
    qed
    then obtain ctx2 c2 where s2: "(if length (w_buffer ctx1) = ?n then do {
               (ok, ctx, c) \<leftarrow> write_block N ctx1 (w_buffer ctx1) c;
               Some (ok, if ok then ctx\<lparr>w_buffer := []\<rparr> else ctx, c) }
             else Some (True, ctx1, c)) = Some (True, ctx2, c2)" "w_partition ctx2 = ?p" "length (w_buffer ctx2) < ?n"
             "written N ctx2 c2 (s @ take copy (drop wrote data))" "\<not> fill \<longrightarrow> w_buffer ctx2 = []" by blast
    have fits: "wrote + copy \<le> length data"
      "length (s @ take copy (drop wrote data)) + (length data - (wrote + copy)) \<le> capacity N (w_partition ctx2)"
      using less(5) copy(1) True s2(2) by simp_all
    obtain wrote' ctx3 c3 where s3: "write_blocks N ctx2 data (wrote + copy) c2 = Some (Some wrote', ctx3, c3)"
      "wrote + copy \<le> wrote'" "wrote' \<le> length data" "w_partition ctx3 = ?p" "w_buffer ctx3 = w_buffer ctx2"
      "written N ctx3 c3 ((s @ take copy (drop wrote data)) @ take (wrote' - (wrote + copy)) (drop (wrote + copy) data))"
      "w_buffer ctx2 = [] \<and> ?n \<le> length data - (wrote + copy) \<longrightarrow> wrote + copy < wrote'"
      using write_blocks_ok [OF dep s2(4) fits] unfolding s2(2) by blast
    have prog: "wrote < wrote'"
    proof (cases fill)
      case True
      then have "0 < copy" using less(4) \<open>wrote < length data\<close> by (simp add: copy_def)
      with s3(2) show ?thesis by linarith
    qed (use s2(5) s3(2,7) copy_def fill_def in auto)
    have "take copy (drop wrote data) @ take (wrote' - (wrote + copy)) (drop (wrote + copy) data) = take (wrote' - wrote) (drop wrote data)"
      using take_add [of copy "wrote' - (wrote + copy)" "drop wrote data"] s3(2) by (simp add: add.commute)
    then have w3: "written N ctx3 c3 (s @ take (wrote' - wrote) (drop wrote data))" using s3(6) by simp
    have "\<exists>ctx' c'. write_loop N ctx3 data wrote' c3 = Some (int (length data), ctx', c') \<and> w_partition ctx' = w_partition ctx3 \<and>
      length (w_buffer ctx') < erase_len (w_partition ctx3) \<and> written N ctx' c' ((s @ take (wrote' - wrote) (drop wrote data)) @ drop wrote' data)"
      by (rule less(1)) (use prog s3 w3 s2(3) less(5) in auto)
    moreover have "take (wrote' - wrote) (drop wrote data) @ drop wrote' data = drop wrote data"
      using prog by (metis append_take_drop_id drop_drop le_add_diff_inverse less_imp_le add.commute)
    moreover have "write_loop N ctx data wrote c = write_loop N ctx3 data wrote' c3"
    proof -
      have init: "(if w_buffer ctx \<noteq> [] \<or> length data - wrote < ?n then
          (wrote + min (length data - wrote) (?n - length (w_buffer ctx)),
           ctx\<lparr>w_buffer := w_buffer ctx @ take (min (length data - wrote) (?n - length (w_buffer ctx))) (drop wrote data)\<rparr>)
        else (wrote, ctx)) = (wrote + copy, ctx1)"
        by (simp add: fill_def copy_def ctx1_def)
      show ?thesis
        using True by (subst write_loop.simps) (simp only: Let_def init prod.case s2(1) s3(1) Option.bind.simps option.case if_True if_False not_not not_True_eq_False)
    qed
    ultimately show ?thesis using s3(4) by simp
  qed
qed

lemma written_bufferE:
  assumes "written N ctx c s"
  obtains s0 where "s = s0 @ w_buffer ctx" and "written N ctx c (s0 @ w_buffer ctx)"
  using assms that by (auto simp: written_def Let_def)

text \<open>Closing pads the last block with zeros and writes it.\<close>

definition padding :: "MtdWriteContext \<Rightarrow> bytes" where
  "padding ctx = (if w_buffer ctx = [] then [] else replicate (erase_len (w_partition ctx) - length (w_buffer ctx)) 0)"

lemma erase_loop_spec:
  "erase_loop N p n pos c = (pos', c') \<Longrightarrow> pos + n * erase_len p \<le> length (cells c (device_index p)) \<Longrightarrow>
    pos' = pos + n * erase_len p \<and> length (cells c' (device_index p)) = length (cells c (device_index p)) \<and>
    take pos (cells c' (device_index p)) = take pos (cells c (device_index p))"
proof (induction n arbitrary: pos c)
  case (Suc n)
  let ?d = "device_index p"
  define c1 where "c1 = (if n_bad N ?d pos > 0 then called c else snd (io_erase N ?d pos (erase_len p) (called c)))"
  have c1: "length (cells c1 ?d) = length (cells c ?d)" "take pos (cells c1 ?d) = take pos (cells c ?d)"
    using Suc(3) by (auto simp: c1_def io_erase_def called_def overwrite_length overwrite_before)
  have run: "erase_loop N p n (pos + erase_len p) c1 = (pos', c')"
    using Suc(2) by (auto simp: io_getbadblock_def c1_def split: if_splits prod.splits)
  from Suc(1) [OF run] c1 Suc(3)
    take_shorter [of "pos + erase_len p" "cells c' ?d" "cells c1 ?d" pos] show ?case by auto
qed simp

lemma blocks_behind:
  assumes "unat (p_size p) < 2 ^ 31" and "pos \<le> unat (p_size p)"
  shows "sint ((p_size p - word_of_nat pos) div p_erase_size p) = int ((unat (p_size p) - pos) div erase_len p)"
proof -
  have "pos < 2 ^ 32" using assms by simp
  then have u: "unat (word_of_nat pos :: u32) = pos" by (rule unat_of_nat_u32)
  have "unat (p_size p - word_of_nat pos) = unat (p_size p) - pos"
    using assms(2) u by (simp add: unat_sub word_le_nat_alt)
  then have d: "unat ((p_size p - word_of_nat pos) div p_erase_size p) = (unat (p_size p) - pos) div erase_len p"
    by (simp add: unat_div)
  have "(unat (p_size p) - pos) div erase_len p \<le> unat (p_size p)" using div_le_dividend order.trans diff_le_self by blast
  then have "unat ((p_size p - word_of_nat pos) div p_erase_size p) < 2 ^ 31" unfolding d using assms(1) by (rule le_less_trans)
  then show ?thesis using d by (simp add: sint_small)
qed

lemma written_pos:
  assumes "written N ctx c s"
  shows "unat (p_size (w_partition ctx)) < 2 ^ 31" "w_pos ctx \<le> unat (p_size (w_partition ctx))"
proof -
  let ?p = "w_partition ctx"
  obtain k where k: "unat (p_size ?p) < 2 ^ 31" "k \<le> block_count ?p" "w_pos ctx = k * erase_len ?p"
    using assms by (auto simp: written_def sound_partition_def Let_def)
  then show "unat (p_size ?p) < 2 ^ 31" by simp
  have "k * erase_len ?p \<le> block_count ?p * erase_len ?p" using k(2) by (rule mult_le_mono1)
  also have "\<dots> \<le> unat (p_size ?p)" by (simp add: block_count_def)
  finally show "w_pos ctx \<le> unat (p_size ?p)" using k(3) by simp
qed

lemma flush_ok:
  assumes dep: "dependable N" and w: "written N ctx c s" and buf: "length (w_buffer ctx) < erase_len (w_partition ctx)"
    and room: "length s \<le> capacity N (w_partition ctx)" and blocks: "blocks \<le> 0"
  shows "\<exists>e ctx' c'. mtd_erase_blocks N ctx blocks c = Some (int e, ctx', c') \<and> w_partition ctx' = w_partition ctx \<and>
    w_buffer ctx' = [] \<and> written N ctx' c' (s @ padding ctx)"
proof -
  let ?p = "w_partition ctx" let ?n = "erase_len ?p" let ?d = "device_index ?p"
  have "\<exists>ctx' c'. (if w_buffer ctx \<noteq> [] then do {
          (ok, ctx, c) \<leftarrow> write_block N ctx (w_buffer ctx @ replicate (?n - length (w_buffer ctx)) 0) c;
          Some (ok, if ok then ctx\<lparr>w_buffer := []\<rparr> else ctx, c) }
        else Some (True, ctx, c)) = Some (True, ctx', c') \<and> w_partition ctx' = ?p \<and> w_buffer ctx' = [] \<and>
        written N ctx' c' (s @ padding ctx)"
  proof (cases "w_buffer ctx = []")
    case True
    then show ?thesis using w by (simp add: padding_def)
  next
    case False
    obtain s0 where s0: "s = s0 @ w_buffer ctx" "written N ctx c (s0 @ w_buffer ctx)" using w by (rule written_bufferE)
    have "length s0 < capacity N ?p" using s0(1) room False by (auto simp: neq_Nil_conv)
    from write_block_ok [OF dep s0(2) _ this, of "w_buffer ctx @ padding ctx"] buf False obtain ctx' c' where
      "write_block N ctx (w_buffer ctx @ padding ctx) c = Some (True, ctx', c')" "w_partition ctx' = ?p"
      "written N (ctx'\<lparr>w_buffer := []\<rparr>) c' (s0 @ w_buffer ctx @ padding ctx)" by (auto simp: padding_def)
    then show ?thesis using False s0(1) by (simp add: padding_def)
  qed
  then obtain ctx' c' where f: "(if w_buffer ctx \<noteq> [] then do {
          (ok, ctx, c) \<leftarrow> write_block N ctx (w_buffer ctx @ replicate (?n - length (w_buffer ctx)) 0) c;
          Some (ok, if ok then ctx\<lparr>w_buffer := []\<rparr> else ctx, c) }
        else Some (True, ctx, c)) = Some (True, ctx', c')" "w_partition ctx' = ?p" "w_buffer ctx' = []"
        "written N ctx' c' (s @ padding ctx)" by blast
  define n where "n = (if blocks < 0 then (unat (p_size ?p) - w_pos ctx') div ?n else 0)"
  obtain e c2 where e: "erase_loop N ?p n (w_pos ctx') c' = (e, c2)" by fastforce
  obtain k where k: "sound_partition ?p (cells c' ?d)" "k \<le> block_count ?p" "w_pos ctx' = k * ?n"
    "s @ padding ctx = stored N ?p (cells c' ?d) 0 k"
    using f(4) unfolding written_def Let_def f(2,3) by auto
  note sz = written_pos(1) [OF f(4), unfolded f(2)] and pos = written_pos(2) [OF f(4), unfolded f(2)]
  have "n * ?n \<le> unat (p_size ?p) - w_pos ctx'" by (simp add: n_def)
  then have end_le: "w_pos ctx' + n * ?n \<le> unat (p_size ?p)" using pos by linarith
  then have end_lt: "w_pos ctx' + n * ?n < 2 ^ 31" using sz by (rule le_less_trans)
  have run: "mtd_erase_blocks N ctx blocks c = Some (int e, ctx', c2)"
  proof (cases "blocks < 0")
    case True
    then have n: "(unat (p_size ?p) - w_pos ctx') div ?n = n" by (simp add: n_def)
    show ?thesis using True buf e end_lt unfolding mtd_erase_blocks_def Let_def f(1)
      by (simp add: f(2) blocks_behind [OF sz pos] n)
  next
    case False
    then have "n = 0" "blocks = 0" using blocks by (simp_all add: n_def)
    then show ?thesis using buf e end_lt unfolding mtd_erase_blocks_def Let_def f(1)
      by (auto simp: f(2) blocks_behind [OF sz pos])
  qed
  have "w_pos ctx' + n * ?n \<le> length (cells c' ?d)" using end_le k(1) unfolding sound_partition_def by linarith
  from erase_loop_spec [OF e this] have c2: "length (cells c2 ?d) = length (cells c' ?d)"
    "take (k * ?n) (cells c2 ?d) = take (k * ?n) (cells c' ?d)" by (simp_all add: k(3))
  have "written N ctx' c2 (s @ padding ctx)"
    unfolding written_def Let_def f(2,3) using c2(1) k stored_same [OF c2(2), of N 0]
    by (auto simp: sound_partition_def)
  with run f(2,3) show ?thesis by blast
qed

lemma nothing_to_flush:
  assumes "written N ctx c s" and "w_buffer ctx = []"
  shows "mtd_erase_blocks N ctx 0 c = Some (int (w_pos ctx), ctx, c)"
  using written_pos [OF assms(1)] written_nonempty_pos [OF assms(1)] assms(2)
  by (auto simp: mtd_erase_blocks_def blocks_behind)

section \<open>Reading\<close>

definition quiet :: "nand \<Rightarrow> bool" where
  "quiet N \<longleftrightarrow> (\<forall>t. n_ok N t \<and> \<not> n_ecc N t)"

lemma quiet_calls:
  assumes "quiet N"
  shows "io_getstats N c = (Some (ecc_failed c), called c)"
    "pos + n \<le> length (cells c d) \<Longrightarrow> io_read N d pos n c = (Some (take n (drop pos (cells c d))), called c)"
  using assms by (simp_all add: quiet_def io_getstats_def io_read_def called_def)

lemma read_from_ok:
  assumes q: "quiet N" and s: "sound_partition p (cells c (device_index p))"
  shows "(\<exists>j \<in> {k..<block_count p}. usable_block N p j) \<Longrightarrow> \<exists>j c'. k \<le> j \<and> j < block_count p \<and> usable_block N p j \<and>
    (\<forall>l \<in> {k..<j}. \<not> usable_block N p l) \<and> cells c' = cells c \<and>
    read_from N p (ecc_failed c) (k * erase_len p) c = Some (Some (block_at p (cells c (device_index p)) j, Suc j * erase_len p), c')"
  using s
proof (induction "block_count p - k" arbitrary: k c)
  case 0
  then show ?case by auto
next
  case (Suc m)
  let ?d = "device_index p" and ?n = "erase_len p"
  have k: "k < block_count p" using Suc(2) by simp
  note fits = block_fits [OF Suc(4) k]
  have inside: "k * ?n + ?n \<le> length (cells c ?d)" by (rule block_inside [OF Suc(4) k])
  have nx: "k * ?n + ?n = Suc k * ?n" by simp
  have stats: "ecc_failed (called c') = ecc_failed c'" "cells (called c') = cells c'" for c' by (simp_all add: called_def)
  have run: "read_from N p (ecc_failed c) (k * ?n) c = (if n_bad N ?d (k * ?n) \<noteq> 0
      then read_from N p (ecc_failed c) (Suc k * ?n) (called (called (called c)))
      else Some (Some (block_at p (cells c ?d) k, Suc k * ?n), called (called (called c))))"
    using fits inside by (subst read_from.simps) (simp add: quiet_calls [OF q] stats io_getbadblock_def nx block_at_def)
  show ?case
  proof (cases "usable_block N p k")
    case True
    then show ?thesis using run k by (intro exI [of _ k] exI [of _ "called (called (called c))"]) (auto simp: usable_block_def stats)
  next
    case False
    let ?c = "called (called (called c))"
    have "\<exists>j \<in> {Suc k..<block_count p}. usable_block N p j" using Suc(3) False by (metis Suc_leI atLeastLessThan_iff le_neq_implies_less)
    moreover have "m = block_count p - Suc k" using Suc(2) by simp
    ultimately obtain j c' where j: "Suc k \<le> j" "j < block_count p" "usable_block N p j" "\<forall>l \<in> {Suc k..<j}. \<not> usable_block N p l"
      "cells c' = cells ?c" "read_from N p (ecc_failed ?c) (Suc k * ?n) ?c = Some (Some (block_at p (cells ?c ?d) j, Suc j * ?n), c')"
      using Suc(1) [of "Suc k" ?c] Suc(4) stats by auto
    moreover have "\<forall>l \<in> {k..<j}. \<not> usable_block N p l" using j(4) False by (metis Suc_leI atLeastLessThan_iff le_neq_implies_less)
    ultimately show ?thesis using False run by (intro exI [of _ j] exI [of _ c']) (simp add: usable_block_def stats)
  qed
qed

text \<open>\<open>readable N ctx c s\<close>: \<open>s\<close> is what the context has still to give.\<close>

definition readable :: "nand \<Rightarrow> MtdReadContext \<Rightarrow> chip \<Rightarrow> bytes \<Rightarrow> bool" where
  "readable N ctx c s \<longleftrightarrow> (let p = r_partition ctx; b = cells c (device_index p) in
     sound_partition p b \<and> r_consumed ctx \<le> erase_len p \<and> length (r_buffer ctx) \<le> erase_len p \<and>
     (r_consumed ctx < erase_len p \<longrightarrow> length (r_buffer ctx) = erase_len p) \<and>
     (\<exists>k \<le> block_count p. r_pos ctx = k * erase_len p \<and>
        s = drop (r_consumed ctx) (r_buffer ctx) @ stored N p b k (block_count p)))"

lemma read_block_ok:
  assumes q: "quiet N" and r: "readable N ctx c s" and all: "r_consumed ctx = erase_len (r_partition ctx)" and ne: "s \<noteq> []"
  shows "\<exists>buf pos c'. read_block N (r_partition ctx) (r_pos ctx) c = Some (Some (buf, pos), c') \<and>
    length buf = erase_len (r_partition ctx) \<and> (\<exists>s'. s = buf @ s' \<and> readable N (ctx\<lparr>r_pos := pos\<rparr>) c' s')"
proof -
  let ?p = "r_partition ctx" let ?d = "device_index ?p" let ?n = "erase_len ?p"
  obtain k where k: "sound_partition ?p (cells c ?d)" "k \<le> block_count ?p" "r_pos ctx = k * ?n" "length (r_buffer ctx) \<le> ?n"
    "s = stored N ?p (cells c ?d) k (block_count ?p)"
    using r all by (auto simp: readable_def Let_def)
  have ex: "\<exists>j \<in> {k..<block_count ?p}. usable_block N ?p j" using k(5) ne stored_skip [of k "block_count ?p" N ?p] by blast
  have s1: "sound_partition ?p (cells (called c) ?d)" using k(1) by (simp add: called_def)
  obtain j c' where j: "k \<le> j" "j < block_count ?p" "usable_block N ?p j" "\<forall>l \<in> {k..<j}. \<not> usable_block N ?p l"
    "cells c' = cells (called c)"
    "read_from N ?p (ecc_failed (called c)) (k * ?n) (called c) = Some (Some (block_at ?p (cells (called c) ?d) j, Suc j * ?n), c')"
    using read_from_ok [OF q s1 ex] by blast
  have st: "s = block_at ?p (cells c ?d) j @ stored N ?p (cells c ?d) (Suc j) (block_count ?p)"
    using k(5) stored_split [of k "Suc j" "block_count ?p" N ?p "cells c ?d"] stored_next [OF j(1,3,4)] j(1,2) by simp
  have "length (block_at ?p (cells c ?d) j) = ?n" using block_inside [OF k(1) j(2)] by (simp add: block_at_def)
  moreover have "read_block N ?p (r_pos ctx) c = Some (Some (block_at ?p (cells c ?d) j, Suc j * ?n), c')"
    using j(6) k(3) by (simp add: read_block_def quiet_calls [OF q]) (simp add: called_def)
  moreover have "readable N (ctx\<lparr>r_pos := Suc j * ?n\<rparr>) c' (stored N ?p (cells c ?d) (Suc j) (block_count ?p))"
    unfolding readable_def Let_def using j(2,5) k(1,4) all
    by (intro conjI exI [of _ "Suc j"]) (simp_all add: called_def del: mult_Suc)
  ultimately show ?thesis using st by blast
qed

lemma read_blocks_ok:
  assumes q: "quiet N"
  shows "readable N ctx c s \<Longrightarrow> length data \<le> len \<Longrightarrow> len - length data \<le> length s \<Longrightarrow>
    \<exists>m ctx' c'. read_blocks N ctx len data c = Some (Some (data @ take m s, ctx'), c') \<and> m \<le> len - length data \<and>
      r_partition ctx' = r_partition ctx \<and> r_consumed ctx' = r_consumed ctx \<and> readable N ctx' c' (drop m s) \<and>
      \<not> (r_consumed ctx = erase_len (r_partition ctx) \<and> erase_len (r_partition ctx) \<le> len - (length data + m))"
proof (induction "len - length data" arbitrary: data s ctx c rule: less_induct)
  case less
  let ?p = "r_partition ctx" let ?n = "erase_len ?p"
  have n: "0 < ?n" using less(2) by (simp add: readable_def sound_partition_def Let_def)
  show ?case
  proof (cases "r_consumed ctx = ?n \<and> len - length data \<ge> ?n")
    case False
    then show ?thesis using less(2-) by (subst read_blocks.simps) (auto simp: Let_def intro!: exI [of _ "0 :: nat"])
  next
    case True
    then have "s \<noteq> []" using less(4) n by auto
    then obtain buf pos c1 s1 where b: "read_block N ?p (r_pos ctx) c = Some (Some (buf, pos), c1)" "length buf = ?n"
      "s = buf @ s1" "readable N (ctx\<lparr>r_pos := pos\<rparr>) c1 s1"
      using read_block_ok [OF q less(2)] True by blast
    have "\<exists>m ctx' c'. read_blocks N (ctx\<lparr>r_pos := pos\<rparr>) len (data @ buf) c1 = Some (Some ((data @ buf) @ take m s1, ctx'), c') \<and>
      m \<le> len - length (data @ buf) \<and>
      r_partition ctx' = r_partition (ctx\<lparr>r_pos := pos\<rparr>) \<and> r_consumed ctx' = r_consumed (ctx\<lparr>r_pos := pos\<rparr>) \<and> readable N ctx' c' (drop m s1) \<and>
      \<not> (r_consumed (ctx\<lparr>r_pos := pos\<rparr>) = erase_len (r_partition (ctx\<lparr>r_pos := pos\<rparr>)) \<and>
         erase_len (r_partition (ctx\<lparr>r_pos := pos\<rparr>)) \<le> len - (length (data @ buf) + m))"
      by (rule less(1) [OF _ b(4)]) (use True n b(2,3) less(3,4) in auto)
    then obtain m ctx' c' where m: "read_blocks N (ctx\<lparr>r_pos := pos\<rparr>) len (data @ buf) c1 = Some (Some ((data @ buf) @ take m s1, ctx'), c')"
      "m \<le> len - length (data @ buf)" "r_partition ctx' = ?p" "r_consumed ctx' = r_consumed ctx" "readable N ctx' c' (drop m s1)"
      "\<not> (r_consumed ctx = ?n \<and> ?n \<le> len - (length (data @ buf) + m))" by auto
    have "read_blocks N ctx len data c = Some (Some (data @ take (?n + m) s, ctx'), c')"
      using True b(1-3) m(1) by (subst read_blocks.simps) (simp add: Let_def)
    moreover have "?n + m \<le> len - length data" using m(2) True unfolding length_append b(2) by linarith
    moreover have "drop (?n + m) s = drop m s1" using b(2,3) by simp
    ultimately show ?thesis using m(3-) b(2) by (intro exI [of _ "?n + m"] exI [of _ ctx'] exI [of _ c']) (simp add: add.assoc)
  qed
qed

lemma read_loop_ok:
  assumes q: "quiet N"
  shows "readable N ctx c s \<Longrightarrow> length data \<le> len \<Longrightarrow> len - length data \<le> length s \<Longrightarrow>
    \<exists>ctx' c'. read_loop N ctx len data c = Some (Some (data @ take (len - length data) s, ctx'), c') \<and>
      r_partition ctx' = r_partition ctx \<and> readable N ctx' c' (drop (len - length data) s)"
proof (induction "(len - length data) * 2 + (if r_consumed ctx = erase_len (r_partition ctx) then 1 else 0)" arbitrary: data s ctx c rule: less_induct)
  case less
  let ?p = "r_partition ctx" let ?n = "erase_len ?p"
  have n: "0 < ?n" using less(2) by (simp add: readable_def sound_partition_def Let_def)
  show ?case
  proof (cases "length data < len")
    case False
    then show ?thesis using less(2-) by (subst read_loop.simps) auto
  next
    case True
    define m0 where "m0 = (if r_consumed ctx < ?n then min (len - length data) (?n - r_consumed ctx) else 0)"
    define data1 where "data1 = data @ take m0 (drop (r_consumed ctx) (r_buffer ctx))"
    define ctx1 where "ctx1 = ctx\<lparr>r_consumed := r_consumed ctx + m0\<rparr>"
    obtain k where k: "sound_partition ?p (cells c (device_index ?p))" "r_consumed ctx \<le> ?n" "length (r_buffer ctx) \<le> ?n"
      "r_consumed ctx < ?n \<longrightarrow> length (r_buffer ctx) = ?n" "k \<le> block_count ?p" "r_pos ctx = k * ?n"
      "s = drop (r_consumed ctx) (r_buffer ctx) @ stored N ?p (cells c (device_index ?p)) k (block_count ?p)"
      using less(2) by (auto simp: readable_def Let_def)
    have m0: "m0 \<le> len - length data" "r_consumed ctx + m0 \<le> ?n" "m0 \<le> length (drop (r_consumed ctx) (r_buffer ctx))"
      using k(2-4) by (auto simp: m0_def)
    have d1: "data1 = data @ take m0 s" "length data1 = length data + m0" using m0(3) by (simp_all add: data1_def k(7))
    have r1: "readable N ctx1 c (drop m0 s)"
      unfolding readable_def Let_def using k m0 by (auto simp: ctx1_def add.commute)
    have init: "(if r_consumed ctx < ?n then (data @ take (min (len - length data) (?n - r_consumed ctx)) (drop (r_consumed ctx) (r_buffer ctx)),
        ctx\<lparr>r_consumed := r_consumed ctx + min (len - length data) (?n - r_consumed ctx)\<rparr>) else (data, ctx)) = (data1, ctx1)"
      by (simp add: data1_def ctx1_def m0_def)
    have c1: "length data1 \<le> len" "len - length data1 \<le> length (drop m0 s)" using m0(1) d1(2) less(3,4) by auto
    obtain m ctx2 c2 where b: "read_blocks N ctx1 len data1 c = Some (Some (data1 @ take m (drop m0 s), ctx2), c2)"
      "m \<le> len - length data1" "r_partition ctx2 = ?p" "r_consumed ctx2 = r_consumed ctx1" "readable N ctx2 c2 (drop m (drop m0 s))"
      "\<not> (r_consumed ctx1 = ?n \<and> ?n \<le> len - (length data1 + m))"
      using read_blocks_ok [OF q r1 c1] by (auto simp: ctx1_def)
    define data2 where "data2 = data1 @ take m (drop m0 s)"
    have d2: "data2 = data @ take (m0 + m) s" by (simp add: data2_def d1(1) take_add)
    have l2: "length data2 = length data + (m0 + m)" using d2 less(4) b(2) m0(1) d1(2) by simp
    have le2: "length data + (m0 + m) \<le> len" using b(2) d1(2) c1(1) by simp
    have run: "read_loop N ctx len data c = (if length data2 \<ge> len then Some (Some (data2, ctx2), c2)
        else if r_consumed ctx2 = ?n then do {
                (r, c) \<leftarrow> read_block N (r_partition ctx2) (r_pos ctx2) c2;
                case r of
                  None \<Rightarrow> Some (None, c)
                | Some (buf, pos) \<Rightarrow> read_loop N (ctx2\<lparr>r_buffer := buf, r_consumed := 0, r_pos := pos\<rparr>) len data2 c }
              else read_loop N ctx2 len data2 c2)"
      using True by (subst read_loop.simps) (simp only: Let_def init prod.case b(1) Option.bind.simps option.case data2_def not_not if_True if_False not_True_eq_False)
    show ?thesis
    proof (cases "length data2 \<ge> len")
      case True
      then have m: "len - length data = m0 + m" using le2 l2 by simp
      have "read_loop N ctx len data c = Some (Some (data2, ctx2), c2)" using run True by simp
      then show ?thesis using d2 b(3,5) unfolding m by (intro exI [of _ ctx2] exI [of _ c2]) (simp add: add.commute)
    next
      case more: False
      have full: "r_consumed ctx2 = ?n"
      proof (rule ccontr)
        assume "r_consumed ctx2 \<noteq> ?n"
        then have "m0 = len - length data" using b(4) m0(2) by (auto simp: ctx1_def m0_def min_def split: if_splits)
        with more l2 le2 show False by simp
      qed
      have rest: "drop m (drop m0 s) \<noteq> []" using more l2 less(4) by auto
      obtain buf pos c3 s3 where r3: "read_block N ?p (r_pos ctx2) c2 = Some (Some (buf, pos), c3)" "length buf = ?n"
        "drop m (drop m0 s) = buf @ s3" "readable N (ctx2\<lparr>r_pos := pos\<rparr>) c3 s3"
        using read_block_ok [OF q b(5) _ rest] full b(3) by auto
      let ?ctx3 = "ctx2\<lparr>r_buffer := buf, r_consumed := 0, r_pos := pos\<rparr>"
      have r3': "readable N ?ctx3 c3 (drop m (drop m0 s))"
        using r3(2-4) full b(3) unfolding readable_def Let_def by (auto simp: sound_partition_def)
      have "\<exists>ctx' c'. read_loop N ?ctx3 len data2 c3 = Some (Some (data2 @ take (len - length data2) (drop m (drop m0 s)), ctx'), c') \<and>
          r_partition ctx' = r_partition ?ctx3 \<and> readable N ctx' c' (drop (len - length data2) (drop m (drop m0 s)))"
      proof (rule less(1) [OF _ r3'])
        have "m0 + m = 0 \<Longrightarrow> r_consumed ctx = ?n" using full b(4) by (simp add: ctx1_def)
        then show "(len - length data2) * 2 + (if r_consumed ?ctx3 = erase_len (r_partition ?ctx3) then 1 else 0) <
            (len - length data) * 2 + (if r_consumed ctx = ?n then 1 else 0)"
          using more l2 n b(3) by (cases "m0 + m = 0") auto
      qed (use l2 le2 less(4) in auto)
      moreover have "take (m0 + m) s @ take (len - length data2) (drop m (drop m0 s)) = take (len - length data) s"
        using take_add [of "m0 + m" "len - length data2" s] l2 le2 by (simp add: add.commute)
      moreover have "drop (len - length data2) (drop m (drop m0 s)) = drop (len - length data) s" using l2 le2 by simp
      ultimately show ?thesis using run more full r3(1) b(3) d2 by auto
    qed
  qed
qed

section \<open>Writing and reading back\<close>

lemma written_start: "sound_partition p (cells c (device_index p)) \<Longrightarrow> w_partition ctx = p \<Longrightarrow> w_pos ctx = 0 \<Longrightarrow> w_buffer ctx = [] \<Longrightarrow>
    written N ctx c []"
  by (auto simp: written_def stored_def Let_def intro!: exI [of _ 0])

text \<open>What is in the good blocks of a partition, read by a nand with the same marks.\<close>

definition same_marks :: "nand \<Rightarrow> nand \<Rightarrow> bool" where
  "same_marks N N' \<longleftrightarrow> n_bad N' = n_bad N"

lemma stored_marks: "same_marks N N' \<Longrightarrow> stored N' p b i j = stored N p b i j"
proof -
  assume "same_marks N N'"
  then have "usable_block N' p = usable_block N p" by (simp add: same_marks_def usable_block_def fun_eq_iff)
  then show ?thesis by (simp add: stored_def)
qed

lemma written_readable:
  assumes w: "written N ctx c s" "w_buffer ctx = []" and m: "same_marks N N'"
    and r: "r_partition r = w_partition ctx" "r_consumed r = erase_len (r_partition r)" "r_buffer r = []" "r_pos r = 0"
  shows "\<exists>t. readable N' r c (s @ t)"
proof -
  let ?p = "w_partition ctx" let ?b = "cells c (device_index ?p)"
  obtain k where k: "sound_partition ?p ?b" "k \<le> block_count ?p" "s = stored N ?p ?b 0 k"
    using w by (auto simp: written_def Let_def)
  have "s @ stored N ?p ?b k (block_count ?p) = stored N' ?p ?b 0 (block_count ?p)"
    using stored_split [of 0 k "block_count ?p" N ?p ?b] k(2,3) stored_marks [OF m] by simp
  then have "readable N' r c (s @ stored N ?p ?b k (block_count ?p))"
    using k(1) r by (auto simp: readable_def Let_def intro!: exI [of _ 0])
  then show ?thesis ..
qed

lemma capacity_size: "capacity N p \<le> unat (p_size p)"
proof -
  have "length (filter (usable_block N p) [0..<block_count p]) \<le> block_count p"
    using length_filter_le [of "usable_block N p" "[0..<block_count p]"] by simp
  then have "capacity N p \<le> erase_len p * block_count p" unfolding capacity_def by (rule mult_le_mono2)
  also have "\<dots> \<le> unat (p_size p)" by (simp add: block_count_def)
  finally show ?thesis .
qed

lemma signed_count: "n < 2 ^ 31 \<Longrightarrow> sint (word_of_int (int n) :: u32) = int n"
  using sint_small [of "word_of_nat n"] by (simp add: unat_of_nat_u32)

lemma mtd_stores:
  assumes dep: "dependable N" and s: "sound_partition p (cells c (device_index p))" and room: "length data \<le> capacity N p"
    and ctx: "w_partition ctx = p" "w_pos ctx = 0" "w_buffer ctx = []" and blocks: "blocks \<le> 0"
  shows "\<exists>ctx1 c1 ctx2 c2 e. mtd_write_data N ctx data c = Some (int (length data), ctx1, c1) \<and>
    mtd_erase_blocks N ctx1 blocks c1 = Some (int e, ctx2, c2) \<and>
    w_partition ctx2 = p \<and> w_buffer ctx2 = [] \<and> written N ctx2 c2 (data @ padding ctx1)"
proof -
  have w: "written N ctx c []" by (rule written_start [OF s ctx])
  obtain ctx1 c1 where d: "write_loop N ctx data 0 c = Some (int (length data), ctx1, c1)" "w_partition ctx1 = p"
    "length (w_buffer ctx1) < erase_len p" "written N ctx1 c1 data"
    using write_loop_ok [OF dep w, of 0 data] ctx room written_nonempty_pos [OF w] by auto
  obtain e ctx2 c2 where "mtd_erase_blocks N ctx1 blocks c1 = Some (int e, ctx2, c2)" "w_partition ctx2 = p" "w_buffer ctx2 = []"
    "written N ctx2 c2 (data @ padding ctx1)"
    using flush_ok [OF dep d(4) _ _ blocks] d(2,3) room by auto
  moreover have "length data < 2 ^ 31" using room capacity_size [of N p] s by (simp add: sound_partition_def)
  then have "mtd_write_data N ctx data c = Some (int (length data), ctx1, c1)"
    using d(1) signed_count by (simp add: mtd_write_data_def)
  ultimately show ?thesis by blast
qed

text \<open>Erasures and writes may fail as long as one of two attempts succeeds; reads succeed.\<close>

definition workable :: "(nat \<Rightarrow> bool) \<Rightarrow> nand \<Rightarrow> bool" where
  "workable malloc N \<longleftrightarrow> (\<forall>n. malloc n) \<and> dependable N \<and> quiet N"

section \<open>Reading leaves the device as it is\<close>

lemma io_cells:
  "cells (called c) = cells c" "cells (snd (io_getstats N c)) = cells c" "cells (snd (io_getbadblock N d pos c)) = cells c"
  "cells (snd (io_read N d pos n c)) = cells c"
  by (simp_all add: called_def io_getstats_def io_getbadblock_def io_read_def)

lemma read_from_cells: "read_from N p before pos c = Some y \<Longrightarrow> cells (snd y) = cells c"
  apply (erule read_from.raw_induct [rotated])
  subgoal premises run for f N p before pos c y
  proof -
    obtain b c1 where b: "io_read N (device_index p) pos (erase_len p) c = (b, c1)" by fastforce
    obtain a c2 where a: "io_getstats N c1 = (a, c2)" by fastforce
    obtain g c3 where g: "io_getbadblock N (device_index p) pos c2 = (g, c3)" by fastforce
    have "cells c1 = cells c" "cells c2 = cells c" "cells c3 = cells c"
      using b a g io_cells(4) [of N "device_index p" pos "erase_len p" c] io_cells(2) [of N c1] io_cells(3) [of N "device_index p" pos c2] by simp_all
    then show ?thesis using run(2) by (auto simp: b a g split: if_splits option.splits dest!: run(1))
  qed
  done

lemma read_block_cells: "read_block N p pos c = Some y \<Longrightarrow> cells (snd y) = cells c"
  using read_from_cells [of N p] io_cells(2) [of N c]
  by (auto simp: read_block_def split: option.splits prod.splits)

lemma read_blocks_cells: "read_blocks N ctx len data c = Some y \<Longrightarrow> cells (snd y) = cells c"
  apply (erule read_blocks.raw_induct [rotated])
  subgoal premises run for f N ctx len data c y
    using run(2) by (auto simp: Let_def bind_eq_Some_conv split: if_splits option.splits dest!: read_block_cells run(1))
  done

lemma read_loop_cells: "read_loop N ctx len data c = Some y \<Longrightarrow> cells (snd y) = cells c"
  apply (erule read_loop.raw_induct [rotated])
  subgoal premises run for f N ctx len data c y
  proof -
    obtain data1 ctx1 where init: "(if r_consumed ctx < erase_len (r_partition ctx) then
        (data @ take (min (len - length data) (erase_len (r_partition ctx) - r_consumed ctx)) (drop (r_consumed ctx) (r_buffer ctx)),
         ctx\<lparr>r_consumed := r_consumed ctx + min (len - length data) (erase_len (r_partition ctx) - r_consumed ctx)\<rparr>)
        else (data, ctx)) = (data1, ctx1)" by fastforce
    show ?thesis
      using run(2) unfolding Let_def init prod.case
      by (auto split: if_split_asm option.split_asm Option.bind_split_asm prod.split_asm
          dest!: read_block_cells read_blocks_cells run(1))
  qed
  done

end
