(* ===== verification/MtdTotal.thy ===== *)
theory MtdTotal
  imports MtdRoundtrip
begin

text \<open>
  Reading and writing raw flash always comes to an end, whatever the driver answers, on a
  partition whose offsets stay in the 31 bits of an \<open>off_t\<close>.
\<close>

section \<open>Reading, whatever the driver does\<close>

lemma erase_int_small: "erase_len p < 2 ^ 31 \<Longrightarrow> erase_int p = int (erase_len p)"
  by (rule sint_small)

lemma read_from_returns:
  "0 < erase_len p \<Longrightarrow> erase_len p < 2 ^ 31 \<Longrightarrow> returns (read_from N p before pos c) (\<lambda>(r, c'). \<forall>buf pos'. r = Some (buf, pos') \<longrightarrow> length buf = erase_len p)"
proof (induction "nat (sint (p_size p) + 1 - int pos)" arbitrary: before pos c rule: less_induct)
  case less
  let ?P = "\<lambda>(r, c'). \<forall>buf pos'. r = Some (buf, pos') \<longrightarrow> length buf = erase_len p"
  show ?case
  proof (cases "int (pos + erase_len p) \<le> sint (p_size p)")
    case False
    then show ?thesis using erase_int_small [OF less(3)] by (subst read_from.simps) (simp add: returns_def)
  next
    case True
    have rest: "returns (read_from N p b (pos + erase_len p) c') ?P" for b c'
    proof (rule less(1))
      have "0 < int (erase_len p)" using less(2) by linarith
      then show "nat (sint (p_size p) + 1 - int (pos + erase_len p)) < nat (sint (p_size p) + 1 - int pos)"
        using True unfolding of_nat_add by (subst nat_less_eq_zless) linarith+
    qed (rule less(2,3))+
    have e: "int pos + erase_int p \<le> sint (p_size p)" "\<not> erase_int p < 0" using True erase_int_small [OF less(3)] by simp_all
    obtain buf c1 where b: "io_read N (device_index p) pos (erase_len p) c = (buf, c1)" by fastforce
    show ?thesis
    proof (cases buf)
      case None
      then show ?thesis using e b rest by (subst read_from.simps) simp
    next
      case (Some d)
      then have "length d = erase_len p" using b by (auto simp: io_read_def split: if_splits)
      then show ?thesis using e b Some rest
        by (subst read_from.simps) (auto simp: io_getstats_def io_getbadblock_def returns_def)
    qed
  qed
qed

lemma read_block_returns:
  "0 < erase_len p \<Longrightarrow> erase_len p < 2 ^ 31 \<Longrightarrow> returns (read_block N p pos c) (\<lambda>(r, c'). \<forall>buf pos'. r = Some (buf, pos') \<longrightarrow> length buf = erase_len p)"
  using read_from_returns [of p N] by (auto simp: read_block_def io_getstats_def returns_def)

definition reader_ok :: "MtdReadContext \<Rightarrow> bool" where
  "reader_ok r \<longleftrightarrow> 0 < erase_len (r_partition r) \<and> erase_len (r_partition r) < 2 ^ 31 \<and> r_consumed r \<le> erase_len (r_partition r) \<and>
     (r_consumed r < erase_len (r_partition r) \<longrightarrow> length (r_buffer r) = erase_len (r_partition r))"

lemma read_blocks_returns:
  "reader_ok r \<Longrightarrow> length data \<le> len \<Longrightarrow> returns (read_blocks N r len data c) (\<lambda>(res, c'). \<forall>data' r'. res = Some (data', r') \<longrightarrow>
     reader_ok r' \<and> r_partition r' = r_partition r \<and> r_consumed r' = r_consumed r \<and> length data \<le> length data' \<and> length data' \<le> len)"
proof (induction "len - length data" arbitrary: data r c rule: less_induct)
  case less
  let ?n = "erase_len (r_partition r)"
  have n: "0 < ?n" "?n < 2 ^ 31" using less(2) by (simp_all add: reader_ok_def)
  show ?case
  proof (cases "r_consumed r = ?n \<and> len - length data \<ge> ?n")
    case False
    then show ?thesis using less(2,3) by (subst read_blocks.simps) (auto simp: returns_def Let_def)
  next
    case True
    obtain res c1 where b: "read_block N (r_partition r) (r_pos r) c = Some (res, c1)" "\<forall>buf pos'. res = Some (buf, pos') \<longrightarrow> length buf = ?n"
      using read_block_returns [OF n, of N "r_pos r" c] by (auto simp: returns_def)
    show ?thesis
    proof (cases res)
      case None
      then show ?thesis using True b by (subst read_blocks.simps) (auto simp: returns_def Let_def)
    next
      case (Some bp)
      obtain buf pos where bp: "bp = (buf, pos)" by fastforce
      have l: "length buf = ?n" using b(2) Some bp by simp
      let ?r = "r\<lparr>r_pos := pos\<rparr>"
      have "returns (read_blocks N ?r len (data @ buf) c1) (\<lambda>(res, c'). \<forall>data' r'. res = Some (data', r') \<longrightarrow>
          reader_ok r' \<and> r_partition r' = r_partition ?r \<and> r_consumed r' = r_consumed ?r \<and> length (data @ buf) \<le> length data' \<and> length data' \<le> len)"
        by (rule less(1)) (use True less(2,3) n l in \<open>auto simp: reader_ok_def\<close>)
      then obtain res' c2 where r: "read_blocks N ?r len (data @ buf) c1 = Some (res', c2)"
        "\<forall>data' r'. res' = Some (data', r') \<longrightarrow>
          reader_ok r' \<and> r_partition r' = r_partition ?r \<and> r_consumed r' = r_consumed ?r \<and> length (data @ buf) \<le> length data' \<and> length data' \<le> len"
        by (rule returns_pairE)
      have "read_blocks N r len data c = Some (res', c2)"
        using True b(1) Some bp r(1)
        by (subst read_blocks.simps) (simp only: Let_def if_True b(1) Some bp Option.bind.simps prod.case option.case simp_thms)
      moreover have "case (res', c2) of (res, c') \<Rightarrow> \<forall>data' r'. res = Some (data', r') \<longrightarrow>
     reader_ok r' \<and> r_partition r' = r_partition r \<and> r_consumed r' = r_consumed r \<and> length data \<le> length data' \<and> length data' \<le> len"
        unfolding prod.case
      proof (intro allI impI)
        fix data' r' assume "res' = Some (data', r')"
        from r(2) [rule_format, OF this]
        show "reader_ok r' \<and> r_partition r' = r_partition r \<and> r_consumed r' = r_consumed r \<and> length data \<le> length data' \<and> length data' \<le> len"
          by (auto simp del: length_greater_0_conv)
      qed
      ultimately show ?thesis unfolding returns_def by blast
    qed
  qed
qed

lemma read_loop_returns:
  "reader_ok r \<Longrightarrow> length data \<le> len \<Longrightarrow> returns (read_loop N r len data c) (\<lambda>(res, c'). \<forall>data' r'. res = Some (data', r') \<longrightarrow>
     r_partition r' = r_partition r \<and> reader_ok r' \<and> length data' = len)"
proof (induction "(len - length data) * 2 + (if r_consumed r = erase_len (r_partition r) then 1 else 0)" arbitrary: data r c rule: less_induct)
  case less
  let ?n = "erase_len (r_partition r)"
  have ok: "0 < ?n" "r_consumed r \<le> ?n" "r_consumed r < ?n \<longrightarrow> length (r_buffer r) = ?n" "?n < 2 ^ 31" using less(2) by (simp_all add: reader_ok_def)
  show ?case
  proof (cases "length data < len")
    case False
    then show ?thesis using less(2,3) by (subst read_loop.simps) (auto simp: returns_def)
  next
    case True
    define m0 where "m0 = (if r_consumed r < ?n then min (len - length data) (?n - r_consumed r) else 0)"
    define data1 where "data1 = data @ take m0 (drop (r_consumed r) (r_buffer r))"
    define r1 where "r1 = r\<lparr>r_consumed := r_consumed r + m0\<rparr>"
    have init: "(if r_consumed r < ?n then (data @ take (min (len - length data) (?n - r_consumed r)) (drop (r_consumed r) (r_buffer r)),
        r\<lparr>r_consumed := r_consumed r + min (len - length data) (?n - r_consumed r)\<rparr>) else (data, r)) = (data1, r1)"
      by (simp add: data1_def r1_def m0_def)
    have l1: "length data1 = length data + m0" "length data1 \<le> len" using True ok(3) by (auto simp: data1_def m0_def)
    have r1: "reader_ok r1" "r_partition r1 = r_partition r" using ok by (auto simp: reader_ok_def r1_def m0_def)
    obtain res c1 where b: "read_blocks N r1 len data1 c = Some (res, c1)" "\<forall>data' r'. res = Some (data', r') \<longrightarrow>
     reader_ok r' \<and> r_partition r' = r_partition r1 \<and> r_consumed r' = r_consumed r1 \<and> length data1 \<le> length data' \<and> length data' \<le> len"
      using read_blocks_returns [OF r1(1) l1(2), of N c] by (auto simp: returns_def)
    have run: "read_loop N r len data c = (case res of
            None \<Rightarrow> Some (None, c1)
          | Some (data, ctx) \<Rightarrow>
              if length data \<ge> len then Some (Some (data, ctx), c1)
              else if r_consumed ctx = ?n then do {
                (r, c) \<leftarrow> read_block N (r_partition ctx) (r_pos ctx) c1;
                case r of
                  None \<Rightarrow> Some (None, c)
                | Some (buf, pos) \<Rightarrow> read_loop N (ctx\<lparr>r_buffer := buf, r_consumed := 0, r_pos := pos\<rparr>) len data c }
              else read_loop N ctx len data c1)"
      using True by (subst read_loop.simps) (simp only: Let_def init prod.case b(1) Option.bind.simps not_not if_True if_False not_True_eq_False)
    show ?thesis
    proof (cases res)
      case None
      then show ?thesis by (simp add: run returns_def)
    next
      case (Some dr)
      obtain data2 r2 where dr: "dr = (data2, r2)" by fastforce
      have b2: "reader_ok r2" "r_partition r2 = r_partition r" "r_consumed r2 = r_consumed r1" "length data1 \<le> length data2" "length data2 \<le> len"
        using b(2) Some dr r1(2) by auto
      show ?thesis
      proof (cases "length data2 \<ge> len")
        case True
        then have "read_loop N r len data c = Some (Some (data2, r2), c1)" using Some dr by (simp add: run)
          then show ?thesis using True b2(1,2,5) by (simp add: returns_def)
      next
        case more: False
        show ?thesis
        proof (cases "r_consumed r2 = ?n")
          case False
          have "m0 = len - length data" using False b2(3) ok by (auto simp: m0_def r1_def min_def split: if_splits)
          then show ?thesis using more b2(4) l1 by simp
        next
          case full: True
          obtain res3 c3 where r3: "read_block N (r_partition r2) (r_pos r2) c1 = Some (res3, c3)"
            "\<forall>buf pos'. res3 = Some (buf, pos') \<longrightarrow> length buf = ?n"
            using read_block_returns [of "r_partition r2" N "r_pos r2" c1] ok(1,4) b2(2) by (auto simp: returns_def)
          show ?thesis
          proof (cases res3)
            case None
            then show ?thesis using more full Some dr r3(1) by (simp add: run returns_def)
          next
            case (Some bp)
            obtain buf pos where bp: "bp = (buf, pos)" by fastforce
            let ?r3 = "r2\<lparr>r_buffer := buf, r_consumed := 0, r_pos := pos\<rparr>"
            have "returns (read_loop N ?r3 len data2 c3) (\<lambda>(res, c'). \<forall>data' r'. res = Some (data', r') \<longrightarrow>
                r_partition r' = r_partition ?r3 \<and> reader_ok r' \<and> length data' = len)"
            proof (rule less(1))
              have "m0 = 0 \<Longrightarrow> r_consumed r = ?n" using full b2(3) by (simp add: r1_def)
              then show "(len - length data2) * 2 + (if r_consumed ?r3 = erase_len (r_partition ?r3) then 1 else 0) <
                  (len - length data) * 2 + (if r_consumed r = ?n then 1 else 0)"
                using more b2(2,4) l1(1) ok(1) by (cases "m0 = 0") auto
            qed (use b2 r3(2) Some bp ok(1,4) in \<open>auto simp: reader_ok_def\<close>)
            then show ?thesis using more full \<open>res = Some dr\<close> dr r3(1) Some bp b2(2) by (simp add: run)
          qed
        qed
      qed
    qed
  qed
qed

section \<open>Writing, whatever the driver does\<close>

definition addressable :: "MtdPartition \<Rightarrow> bool" where
  "addressable p \<longleftrightarrow> 0 < erase_len p \<and> unat (p_size p) + erase_len p < 2 ^ 31"

lemma addressableD:
  assumes "addressable p"
  shows "0 < erase_len p" "erase_len p < 2 ^ 31" "unat (p_size p) < 2 ^ 31" "erase_int p = int (erase_len p)"
    "sint (p_size p) = int (unat (p_size p))"
proof -
  show "0 < erase_len p" and b: "erase_len p < 2 ^ 31" "unat (p_size p) < 2 ^ 31" using assms by (simp_all add: addressable_def)
  show "erase_int p = int (erase_len p)" "sint (p_size p) = int (unat (p_size p))" using b by (simp_all add: sint_small)
qed

lemma write_from_returns:
  "addressable p \<Longrightarrow> pos \<le> unat (p_size p) \<Longrightarrow> returns (write_from N p pos bad data c) (\<lambda>(r, bad', c').
     \<forall>pos'. r = Some pos' \<longrightarrow> pos' \<le> unat (p_size p))"
proof (induction "unat (p_size p) - pos" arbitrary: pos bad c rule: less_induct)
  case less
  note p = addressableD [OF less(2)]
  let ?Q = "\<lambda>(r, bad', c'). \<forall>pos'. r = Some pos' \<longrightarrow> pos' \<le> unat (p_size p)"
  have "pos + erase_len p < 2 ^ 31" using less(2,3) by (simp add: addressable_def)
  then have "int (pos + erase_len p) < int (2 ^ 31)" by (rule iffD2 [OF of_nat_less_iff])
  then have bound: "\<not> 2 ^ 31 \<le> int pos + erase_int p" by (simp add: p(4))
  have fits: "int pos + erase_int p \<le> sint (p_size p) \<longleftrightarrow> pos + erase_len p \<le> unat (p_size p)"
    unfolding p(4,5) of_nat_add [symmetric] of_nat_le_iff ..
  show ?case
  proof (cases "pos + erase_len p \<le> unat (p_size p)")
    case True
    have rest: "returns (write_from N p (pos + erase_len p) b data c') ?Q" for b c'
    proof (rule less(1))
      show "unat (p_size p) - (pos + erase_len p) < unat (p_size p) - pos" using True p(1) by linarith
    qed (rule less(2) True)+
    obtain ret c1 where ret: "io_getbadblock N (device_index p) pos c = (ret, c1)" by fastforce
    obtain ok c2 where ok: "attempts 2 N (device_index p) pos data c1 = (ok, c2)" by fastforce
    obtain e c3 where e: "io_erase N (device_index p) pos (erase_len p) c2 = (e, c3)" by fastforce
    have run: "write_from N p pos bad data c =
        (if ret \<noteq> 0 \<and> \<not> (ret = -1 \<and> n_unsupported N) then write_from N p (pos + erase_len p) (bad @ [pos]) data c1
         else if ok then Some (Some (pos + erase_len p), bad, c2)
         else write_from N p (pos + erase_len p) (bad @ [pos]) data c3)"
      using True bound fits p(4) by (subst write_from.simps) (simp add: ret ok e Let_def)
    show ?thesis unfolding run using rest True by (auto simp: returns_def)
  next
    case False
    then show ?thesis using bound fits by (subst write_from.simps) (simp add: returns_def)
  qed
qed

definition writer_ok :: "MtdWriteContext \<Rightarrow> bool" where
  "writer_ok x \<longleftrightarrow> addressable (w_partition x) \<and> length (w_buffer x) \<le> erase_len (w_partition x) \<and>
     w_pos x \<le> unat (p_size (w_partition x))"

lemma writer_buffer: "writer_ok x \<Longrightarrow> length b \<le> erase_len (w_partition x) \<Longrightarrow> writer_ok (x\<lparr>w_buffer := b\<rparr>)"
  by (simp add: writer_ok_def)

lemma write_block_returns:
  assumes "writer_ok x"
  shows "returns (write_block N x data c) (\<lambda>(ok, x', c'). w_partition x' = w_partition x \<and> w_buffer x' = w_buffer x \<and> writer_ok x')"
proof -
  have "addressable (w_partition x)" "w_pos x \<le> unat (p_size (w_partition x))" using assms by (simp_all add: writer_ok_def)
  then obtain r bad c1 where "write_from N (w_partition x) (w_pos x) (bad_block_offsets x) data c = Some (r, bad, c1)"
    "\<forall>pos'. r = Some pos' \<longrightarrow> pos' \<le> unat (p_size (w_partition x))"
    using write_from_returns [of "w_partition x" "w_pos x" N "bad_block_offsets x" data c] by (auto simp: returns_def)
  then show ?thesis using assms by (auto simp: write_block_def returns_def writer_ok_def split: option.split)
qed

lemma write_blocks_returns:
  "writer_ok x \<Longrightarrow> wrote \<le> length data \<Longrightarrow> returns (write_blocks N x data wrote c) (\<lambda>(r, x', c').
     w_partition x' = w_partition x \<and> w_buffer x' = w_buffer x \<and> writer_ok x' \<and> (\<forall>wrote'. r = Some wrote' \<longrightarrow> wrote \<le> wrote' \<and> wrote' \<le> length data \<and>
     (w_buffer x = [] \<and> erase_len (w_partition x) \<le> length data - wrote \<longrightarrow> wrote < wrote')))"
proof (induction "length data - wrote" arbitrary: wrote x c rule: less_induct)
  case less
  let ?n = "erase_len (w_partition x)"
  have n: "0 < ?n" using less(2) by (simp add: writer_ok_def addressable_def)
  show ?case
  proof (cases "w_buffer x = [] \<and> length data - wrote \<ge> ?n")
    case False
    then show ?thesis using less(2,3) by (subst write_blocks.simps) (auto simp: returns_def Let_def)
  next
    case True
    obtain ok x1 c1 where b: "write_block N x (take ?n (drop wrote data)) c = Some (ok, x1, c1)" "w_partition x1 = w_partition x" "w_buffer x1 = w_buffer x" "writer_ok x1"
      using write_block_returns [OF less(2), of N "take ?n (drop wrote data)" c] by (auto simp: returns_def)
    have "returns (write_blocks N x1 data (wrote + ?n) c1) (\<lambda>(r, x', c').
        w_partition x' = w_partition x1 \<and> w_buffer x' = w_buffer x1 \<and> writer_ok x' \<and> (\<forall>wrote'. r = Some wrote' \<longrightarrow> wrote + ?n \<le> wrote' \<and> wrote' \<le> length data \<and>
        (w_buffer x1 = [] \<and> erase_len (w_partition x1) \<le> length data - (wrote + ?n) \<longrightarrow> wrote + ?n < wrote')))"
      by (rule less(1)) (use True less(3) n b(2,4) in auto)
    then show ?thesis using True b n
      by (subst write_blocks.simps) (auto simp: Let_def returns_def)
  qed
qed

lemma write_loop_returns:
  "writer_ok x \<Longrightarrow> wrote \<le> length data \<Longrightarrow> returns (write_loop N x data wrote c) (\<lambda>(r, x', c').
     w_partition x' = w_partition x \<and> writer_ok x' \<and> (r = -1 \<or> r = int (length data)))"
proof (induction "(length data - wrote) * 2 + (if length (w_buffer x) = erase_len (w_partition x) then 1 else 0)"
    arbitrary: wrote x c rule: less_induct)
  case less
  let ?n = "erase_len (w_partition x)"
  let ?Q = "\<lambda>(r, x', c'). w_partition x' = w_partition x \<and> writer_ok x' \<and> (r = -1 \<or> r = int (length data))"
  have n: "0 < ?n" "length (w_buffer x) \<le> ?n" using less(2) by (simp_all add: writer_ok_def addressable_def)
  show ?case
  proof (cases "wrote < length data")
    case False
    then show ?thesis using less(2,3) by (subst write_loop.simps) (auto simp: returns_def)
  next
    case True
    define fill where "fill \<longleftrightarrow> w_buffer x \<noteq> [] \<or> length data - wrote < ?n"
    define copy where "copy = (if fill then min (length data - wrote) (?n - length (w_buffer x)) else 0)"
    define x1 where "x1 = x\<lparr>w_buffer := w_buffer x @ take copy (drop wrote data)\<rparr>"
    have init: "(if w_buffer x \<noteq> [] \<or> length data - wrote < ?n then
          (wrote + min (length data - wrote) (?n - length (w_buffer x)),
           x\<lparr>w_buffer := w_buffer x @ take (min (length data - wrote) (?n - length (w_buffer x))) (drop wrote data)\<rparr>)
        else (wrote, x)) = (wrote + copy, x1)"
      by (simp add: fill_def copy_def x1_def)
    have l1: "length (w_buffer x1) \<le> ?n" "w_partition x1 = w_partition x" "wrote + copy \<le> length data"
      "\<not> fill \<Longrightarrow> w_buffer x1 = []" using n(2) True by (auto simp: x1_def copy_def fill_def)
    have ok1: "writer_ok x1" using l1(1) by (simp add: x1_def writer_buffer [OF less(2)])
    obtain ok x2 c2 where s1: "(if length (w_buffer x1) = ?n then do {
               (ok, ctx, c) \<leftarrow> write_block N x1 (w_buffer x1) c;
               Some (ok, if ok then ctx\<lparr>w_buffer := []\<rparr> else ctx, c) }
             else Some (True, x1, c)) = Some (ok, x2, c2)" "w_partition x2 = w_partition x" "writer_ok x2"
             "ok \<Longrightarrow> length (w_buffer x2) < ?n \<and> (\<not> fill \<longrightarrow> w_buffer x2 = [])"
    proof (cases "length (w_buffer x1) = ?n")
      case full: True
      obtain ok x2 c2 where b: "write_block N x1 (w_buffer x1) c = Some (ok, x2, c2)" "w_partition x2 = w_partition x" "writer_ok x2"
        using write_block_returns [OF ok1, of N "w_buffer x1" c] l1(2) by (auto simp: returns_def)
      then show thesis using that [of ok "if ok then x2\<lparr>w_buffer := []\<rparr> else x2" c2] full n(1)
        by (auto simp: writer_buffer [OF b(3)])
    qed (use that [of True x1 c] ok1 l1 in auto)
    obtain r x3 c3 where s2: "write_blocks N x2 data (wrote + copy) c2 = Some (r, x3, c3)" "w_partition x3 = w_partition x" "w_buffer x3 = w_buffer x2"
      "writer_ok x3" "\<forall>wrote'. r = Some wrote' \<longrightarrow> wrote + copy \<le> wrote' \<and> wrote' \<le> length data \<and>
        (w_buffer x2 = [] \<and> ?n \<le> length data - (wrote + copy) \<longrightarrow> wrote + copy < wrote')"
      using write_blocks_returns [OF s1(3) l1(3), of N c2] s1(2) by (auto simp: returns_def)
    have run: "write_loop N x data wrote c = (if \<not> ok then Some (-1, x2, c2) else
        case r of None \<Rightarrow> Some (-1, x3, c3) | Some wrote \<Rightarrow> write_loop N x3 data wrote c3)"
      using True by (subst write_loop.simps)
        (simp only: Let_def init prod.case s1(1) s2(1) Option.bind.simps not_not if_True if_False not_True_eq_False)
    show ?thesis
    proof (cases "ok \<and> r \<noteq> None")
      case False
      then show ?thesis using s1(2,3) s2(2,4) by (auto simp: run returns_def)
    next
      case ok: True
      then obtain wrote' where r: "r = Some wrote'" by blast
      have le: "wrote + copy \<le> wrote'" "wrote' \<le> length data" using s2(5) r by simp_all
      have "length (w_buffer x) = ?n \<or> wrote < wrote'"
      proof (cases fill)
        case True
        then have "length (w_buffer x) = ?n \<or> 0 < copy" using n(2) \<open>wrote < length data\<close> by (auto simp: copy_def)
        then show ?thesis using le(1) by linarith
      next
        case False
        then have "w_buffer x2 = [] \<and> ?n \<le> length data - (wrote + copy)" using s1(4) ok by (auto simp: copy_def fill_def)
        then show ?thesis using s2(5) r by auto
      qed
      then have "(length data - wrote') * 2 < (length data - wrote) * 2 + (if length (w_buffer x) = ?n then 1 else 0)"
        using le True by auto
      moreover have "length (w_buffer x3) \<noteq> erase_len (w_partition x3)" using s1(4) s2(2,3) ok by auto
      ultimately have "returns (write_loop N x3 data wrote' c3) (\<lambda>(r, x', c'). w_partition x' = w_partition x3 \<and> writer_ok x' \<and>
          (r = -1 \<or> r = int (length data)))"
        by (intro less(1) s2(4) le(2)) simp
      then show ?thesis using ok r s2(2) by (simp add: run)
    qed
  qed
qed

section \<open>Every call comes back\<close>

text \<open>
  The contexts a caller can hold, with a driver that may answer differently every time.  After a
  call that failed the descriptor may be anywhere in the partition, and a reader has used up its block.
\<close>

inductive reading :: "MtdPartition \<Rightarrow> MtdReadContext \<Rightarrow> bool" for p where
  opened: "fst (mtd_read_partition malloc N p c) = Some r \<Longrightarrow> reading p r"
| skipped: "reading p r \<Longrightarrow> reading p (mtd_read_skip_to r offset)"
| continued: "reading p r \<Longrightarrow> mtd_read_data N r len c = Some (Some (data, r'), c') \<Longrightarrow> reading p r'"
| failed: "reading p r \<Longrightarrow> reading p (r\<lparr>r_consumed := erase_len p, r_pos := pos\<rparr>)"

inductive writing :: "MtdPartition \<Rightarrow> MtdWriteContext \<Rightarrow> bool" for p where
  opened: "fst (mtd_write_partition malloc N p c) = Some x \<Longrightarrow> writing p x"
| continued: "writing p x \<Longrightarrow> mtd_write_data N x data c = Some (n, x', c') \<Longrightarrow> writing p x'"
| erased: "writing p x \<Longrightarrow> mtd_erase_blocks N x blocks c = Some (n, x', c') \<Longrightarrow> writing p x'"
| failed: "writing p x \<Longrightarrow> pos \<le> unat (p_size p) \<Longrightarrow> writing p (x\<lparr>w_pos := pos\<rparr>)"

lemma read_data_returns:
  "reader_ok r \<Longrightarrow> returns (mtd_read_data N r len c) (\<lambda>(res, c'). \<forall>data r'. res = Some (data, r') \<longrightarrow>
     r_partition r' = r_partition r \<and> reader_ok r' \<and> (len < 2 ^ 31 \<longrightarrow> length data = len))"
  unfolding mtd_read_data_def using read_loop_returns [of r "[]" len N c] by (auto simp: returns_def)

lemma write_data_returns:
  assumes "writer_ok x"
  shows "returns (mtd_write_data N x data c) (\<lambda>(n, x', c'). w_partition x' = w_partition x \<and> writer_ok x' \<and>
     (length data < 2 ^ 31 \<longrightarrow> n = -1 \<or> n = int (length data)))"
proof -
  obtain r x' c' where run: "write_loop N x data 0 c = Some (r, x', c')" "w_partition x' = w_partition x" "writer_ok x'"
    "r = -1 \<or> r = int (length data)"
    using write_loop_returns [OF assms, of 0 data N c] by (auto simp: returns_def)
  have "sint (word_of_int r :: u32) = -1 \<or> sint (word_of_int r :: u32) = int (length data)" if "length data < 2 ^ 31"
    using run(4) signed_count [OF that] by auto
  with run(1-3) show ?thesis by (simp add: mtd_write_data_def returns_def)
qed

lemma erase_loop_pos: "fst (erase_loop N p n pos c) = pos + n * erase_len p"
  by (induction n arbitrary: pos c) (auto simp: split: prod.split)

lemma erase_blocks_returns:
  assumes "writer_ok x"
  shows "returns (mtd_erase_blocks N x blocks c) (\<lambda>(n, x', c'). w_partition x' = w_partition x \<and> writer_ok x' \<and>
    (n = -1 \<or> 0 \<le> n \<and> nat n \<le> unat (p_size (w_partition x))))"
proof -
  let ?p = "w_partition x" let ?n = "erase_len ?p"
  have p: "addressable ?p" using assms by (simp add: writer_ok_def)
  obtain ok x1 c1 where f: "(if w_buffer x \<noteq> [] then do {
          (ok, ctx, c) \<leftarrow> write_block N x (w_buffer x @ replicate (?n - length (w_buffer x)) 0) c;
          Some (ok, if ok then ctx\<lparr>w_buffer := []\<rparr> else ctx, c) }
        else Some (True, x, c)) = Some (ok, x1, c1)" "w_partition x1 = ?p" "writer_ok x1"
  proof (cases "w_buffer x = []")
    case True
    then show thesis using that [of True x c] assms by simp
  next
    case False
    obtain ok x2 c2 where b: "write_block N x (w_buffer x @ replicate (?n - length (w_buffer x)) 0) c = Some (ok, x2, c2)"
      "w_partition x2 = ?p" "writer_ok x2"
      using write_block_returns [OF assms, of N "w_buffer x @ replicate (?n - length (w_buffer x)) 0" c] by (auto simp: returns_def)
    then show thesis using that [of ok "if ok then x2\<lparr>w_buffer := []\<rparr> else x2" c2] False by (simp add: writer_buffer [OF b(3)])
  qed
  have pos: "w_pos x1 \<le> unat (p_size ?p)" using f(2,3) by (simp add: writer_ok_def)
  note all_blocks = blocks_behind [OF addressableD(3) [OF p] pos]
  define total where "total = (unat (p_size ?p) - w_pos x1) div ?n"
  define blocks' where "blocks' = (if blocks < 0 then int total else blocks)"
  obtain e c2 where e: "erase_loop N ?p (nat blocks') (w_pos x1) c1 = (e, c2)" by fastforce
  have run: "mtd_erase_blocks N x blocks c = (if \<not> ok then Some (-1, x1, c1) else if int total < blocks' then Some (-1, x1, c1)
      else if 2 ^ 31 \<le> w_pos x1 + nat blocks' * ?n then None else Some (int e, x1, c2))"
  proof (cases "blocks < 0")
    case True
    then have b: "blocks' = int total" by (simp add: blocks'_def)
    show ?thesis using addressableD(1) [OF p] e [unfolded b] True unfolding mtd_erase_blocks_def Let_def f(1) b
      by (simp add: f(2) all_blocks flip: total_def)
  next
    case False
    then have b: "blocks' = blocks" by (simp add: blocks'_def)
    show ?thesis using addressableD(1) [OF p] e [unfolded b] False unfolding mtd_erase_blocks_def Let_def f(1) b
      by (simp add: f(2) all_blocks flip: total_def)
  qed
  have "w_pos x1 + nat blocks' * ?n \<le> unat (p_size ?p)" if "blocks' \<le> int total"
  proof -
    have "nat blocks' * ?n \<le> total * ?n" using that by (intro mult_le_mono1) simp
    also have "\<dots> \<le> unat (p_size ?p) - w_pos x1" by (simp add: total_def)
    finally show ?thesis using pos by linarith
  qed
  moreover have "e = w_pos x1 + nat blocks' * ?n" using erase_loop_pos [of N ?p "nat blocks'" "w_pos x1" c1] e by simp
  ultimately have "e \<le> unat (p_size ?p) \<and> w_pos x1 + nat blocks' * ?n < 2 ^ 31" if "blocks' \<le> int total"
    using that addressableD(3) [OF p] by (metis order.strict_trans1)
  then show ?thesis using f(2,3) by (auto simp: run returns_def)
qed

lemma reading_ok:
  "reading p r \<Longrightarrow> 0 < erase_len p \<Longrightarrow> erase_len p < 2 ^ 31 \<Longrightarrow> r_partition r = p \<and> reader_ok r"
proof (induction rule: reading.induct)
  case (continued r N len c data r' c')
  then show ?case using read_data_returns [of r N len c] by (auto simp: returns_def)
qed (auto simp: mtd_read_partition_def mtd_read_skip_to_def reader_ok_def split: if_splits)

lemma writing_ok: "writing p x \<Longrightarrow> addressable p \<Longrightarrow> w_partition x = p \<and> writer_ok x"
proof (induction rule: writing.induct)
  case (continued x N data c n x' c')
  then show ?case using write_data_returns [of x N data c] by (auto simp: returns_def)
next
  case (erased x N blocks c n x' c')
  then show ?case using erase_blocks_returns [of x N blocks c] by (auto simp: returns_def)
qed (auto simp: mtd_write_partition_def writer_ok_def split: if_splits)

text \<open>
  C18: On a partition whose erase size is not 0 and that ends, with one more block, below 2 GiB,
  every call on a context in use comes back, whatever the driver has failed at before and fails
  at now: a read of less than 2 GiB with all the bytes asked for or an error, a write of less than
  2 GiB with the length of the data or -1, an erasure with -1 or an offset in the partition, and closing as well.
\<close>

theorem mtd_transfers_return:
  assumes "reading p r" and "writing p x" and "0 < erase_len p" and "unat (p_size p) + erase_len p < 2 ^ 31"
    and "len < 2 ^ 31" and "length data < 2 ^ 31"
  shows "returns (mtd_read_data N r len c) (\<lambda>(res, c'). \<forall>data r'. res = Some (data, r') \<longrightarrow> length data = len) \<and>
    returns (mtd_write_data N x data c) (\<lambda>(n, x', c'). n = -1 \<or> n = int (length data)) \<and>
    returns (mtd_erase_blocks N x blocks c) (\<lambda>(n, x', c'). n = -1 \<or> 0 \<le> n \<and> nat n \<le> unat (p_size p)) \<and>
    returns (mtd_write_close N x c) (\<lambda>(n, c'). n \<in> {-1, 0})"
proof (intro conjI)
  have p: "addressable p" using assms(3,4) by (simp add: addressable_def)
  have ok: "reader_ok r" "writer_ok x" "w_partition x = p"
    using reading_ok [OF assms(1,3) addressableD(2) [OF p]] writing_ok [OF assms(2) p] by auto
  show "returns (mtd_read_data N r len c) (\<lambda>(res, c'). \<forall>data r'. res = Some (data, r') \<longrightarrow> length data = len)"
    by (rule returns_mono [OF read_data_returns [OF ok(1)]]) (use assms(5) in auto)
  show "returns (mtd_write_data N x data c) (\<lambda>(n, x', c'). n = -1 \<or> n = int (length data))"
    by (rule returns_mono [OF write_data_returns [OF ok(2)]]) (use assms(6) in auto)
  show "returns (mtd_erase_blocks N x blocks c) (\<lambda>(n, x', c'). n = -1 \<or> 0 \<le> n \<and> nat n \<le> unat (p_size p))"
    by (rule returns_mono [OF erase_blocks_returns [OF ok(2)]]) (use ok(3) in auto)
  show "returns (mtd_write_close N x c) (\<lambda>(n, c'). n \<in> {-1, 0})"
    using erase_blocks_returns [OF ok(2), of N 0 c] by (auto simp: mtd_write_close_def returns_def)
qed

text \<open>A driver that fails at everything, on a partition of two blocks.\<close>

definition broken_nand :: nand where
  "broken_nand = \<lparr>n_ok = \<lambda>t. t = 0, n_ecc = \<lambda>_. True, n_erases = \<lambda>_. False, n_store = \<lambda>_ d. [],
     n_bad = \<lambda>_ _. -1, n_unsupported = True, n_info = \<lambda>_. None, n_proc = \<lambda>_. None\<rparr>"

definition two_blocks :: MtdPartition where
  "two_blocks = \<lparr>device_index = 0, p_size = 8, p_erase_size = 4, p_name = str ''misc''\<rparr>"

definition dead_chip :: chip where
  "dead_chip = \<lparr>cells = \<lambda>_. [], ecc_failed = 0, calls = 0\<rparr>"

theorem mtd_transfers_return_witness:
  "\<exists>r x. reading two_blocks r \<and> writing two_blocks x \<and>
    returns (mtd_read_data broken_nand r 7 dead_chip) (\<lambda>(res, c'). \<forall>data r'. res = Some (data, r') \<longrightarrow> length data = 7) \<and>
    returns (mtd_write_data broken_nand x [1, 2, 3, 4, 5] dead_chip) (\<lambda>(n, x', c'). n = -1 \<or> n = 5)"
proof -
  obtain r x where r: "fst (mtd_read_partition (\<lambda>_. True) broken_nand two_blocks dead_chip) = Some r"
      and x: "fst (mtd_write_partition (\<lambda>_. True) broken_nand two_blocks dead_chip) = Some x"
    by (simp add: mtd_read_partition_def mtd_write_partition_def broken_nand_def dead_chip_def)
  have "reading two_blocks r" using r by (rule reading.opened)
  moreover have "writing two_blocks x" using x by (rule writing.opened)
  moreover have "0 < erase_len two_blocks" "unat (p_size two_blocks) + erase_len two_blocks < 2 ^ 31" by (simp_all add: two_blocks_def)
  ultimately show ?thesis
    using mtd_transfers_return [of two_blocks r x 7 "[1, 2, 3, 4, 5]" broken_nand dead_chip] by auto
qed

end
