(* ===== verification/FlashPatch.thy ===== *)
theory FlashPatch
  imports PatchSafety MtdRoundtrip
begin

text \<open>
  \<open>applypatch\<close> on raw flash: the operations of \<open>mtdutils\<close> as the interface \<open>mtd\_ops\<close> of
  \<open>Applypatch\<close>, what \<open>applypatch\<close> relies on as a locale, and its interpretation on \<open>Mtd\<close>.
\<close>

section \<open>The operations of mtdutils\<close>

definition mtd_utils :: "(nat \<Rightarrow> bool) \<Rightarrow> nand \<Rightarrow> (mtd_state, MtdReadContext, MtdWriteContext) mtd_ops" where
  "mtd_utils malloc N = \<lparr>
     m_scan = \<lambda>m. map_option snd (mtd_scan_partitions malloc N m),
     m_find = mtd_find_partition_by_name,
     m_read_partition = \<lambda>i m. let (r, c) = mtd_read_partition malloc N (the (partitions m ! i)) (chip m) in (r, m\<lparr>chip := c\<rparr>),
     m_read_data = \<lambda>ctx n m. do {
       (r, c) \<leftarrow> mtd_read_data N ctx n (chip m);
       Some (case r of None \<Rightarrow> (-1, [], ctx, m\<lparr>chip := c\<rparr>) | Some (data, ctx) \<Rightarrow> (of_nat (length data), data, ctx, m\<lparr>chip := c\<rparr>)) },
     m_write_partition = \<lambda>i m. let (x, c) = mtd_write_partition malloc N (the (partitions m ! i)) (chip m) in (x, m\<lparr>chip := c\<rparr>),
     m_write_data = \<lambda>ctx data m. do { (n, ctx, c) \<leftarrow> mtd_write_data N ctx data (chip m); Some (of_int n, ctx, m\<lparr>chip := c\<rparr>) },
     m_erase_blocks = \<lambda>ctx n m. do { (r, ctx, c) \<leftarrow> mtd_erase_blocks N ctx n (chip m); Some (r, ctx, m\<lparr>chip := c\<rparr>) },
     m_write_close = \<lambda>ctx m. do { (r, c) \<leftarrow> mtd_write_close N ctx (chip m); Some (r, m\<lparr>chip := c\<rparr>) }\<rparr>"

section \<open>Names of partitions\<close>

lemma strtok_token:
  assumes "t \<noteq> []" and "COLON \<notin> set t"
  shows "strtok (t @ COLON # rest) = Some (t, rest)" "strtok t = Some (t, [])"
proof -
  obtain c cs where t: "t = c # cs" using assms(1) by (cases t) auto
  have d: "dropWhile (\<lambda>c. c = COLON) (t @ xs) = t @ xs" for xs using assms(2) by (simp add: t)
  have c: "\<And>c. c \<in> set t \<Longrightarrow> c \<noteq> COLON" using assms(2) by metis
  have "takeWhile (\<lambda>c. c \<noteq> COLON) (t @ COLON # rest) = t" "dropWhile (\<lambda>c. c \<noteq> COLON) (t @ COLON # rest) = COLON # rest"
    using c by (simp_all add: takeWhile_append dropWhile_append)
  then show "strtok (t @ COLON # rest) = Some (t, rest)" using d [of "COLON # rest"] by (simp add: strtok_def t)
  have "takeWhile (\<lambda>c. c \<noteq> COLON) t = t" "dropWhile (\<lambda>c. c \<noteq> COLON) t = []"
    using c by simp_all
  then show "strtok t = Some (t, [])" using d [of "[]"] by (simp add: strtok_def t)
qed

lemma digits_no_colon: "COLON \<notin> set (digits n)"
proof (induction n rule: digits.induct)
  case (1 n)
  have "list_all (\<lambda>k. (of_nat (48 + k) :: u8) \<noteq> COLON) [0..<10]" by code_simp
  then have d: "(of_nat (48 + k) :: u8) \<noteq> COLON" if "k < 10" for k using that by (simp only: list_all_iff set_upt atLeastLessThan_iff) simp
  show ?case using 1 d [of n] d [of "n mod 10"] by (subst digits.simps) (simp del: of_nat_add of_nat_numeral)
qed

lemma hex_no_colon: "COLON \<notin> set (hex_string d)"
proof -
  have "hex_digit COLON = None" by code_simp
  then have "hex_char x \<noteq> COLON" if "x < 16" for x using hex_nibble [OF that] by auto
  then show ?thesis using nibbles by (fastforce simp: hex_string_def)
qed

text \<open>The name under which a partition is loaded that should hold the given data.\<close>

definition partition_name :: "bytes \<Rightarrow> bytes \<Rightarrow> bytes \<Rightarrow> bytes" where
  "partition_name name data digest =
     str ''MTD'' @ COLON # name @ COLON # decimal_string (int (length data)) @ COLON # hex_string digest"

section \<open>Stores of partitions\<close>

text \<open>
  What \<open>applypatch\<close> relies on: data that fit into a partition can be written to it, are there
  afterwards, and a reader gives them, in any portions of less than 2 GiB.
\<close>

locale partition_store =
  fixes ops :: "('m, 'r, 'x, 'y) mtd_ops_scheme"
    and fits :: "'m \<Rightarrow> nat \<Rightarrow> bytes \<Rightarrow> bool"
    and holds :: "'m \<Rightarrow> nat \<Rightarrow> bytes \<Rightarrow> bool"
    and gives :: "'m \<Rightarrow> 'r \<Rightarrow> bytes \<Rightarrow> bool"
  assumes stores: "fits m p data \<Longrightarrow> m_find ops name m = Some p \<Longrightarrow>
      \<exists>x m1 x1 m2 e x2 m3 m4. m_write_partition ops p m = (Some x, m1) \<and>
        m_write_data ops x data m1 = Some (of_nat (length data), x1, m2) \<and>
        m_erase_blocks ops x1 (-1) m2 = Some (int e, x2, m3) \<and>
        m_write_close ops x2 m3 = Some (0, m4) \<and> holds m4 p data \<and> m_find ops name m4 = Some p"
    and opens: "holds m p data \<Longrightarrow> \<exists>r m' rest. m_read_partition ops p m = (Some r, m') \<and> gives m' r (data @ rest)"
    and reads: "gives m r (s @ rest) \<Longrightarrow> length s < 2 ^ 31 \<Longrightarrow>
      \<exists>r' m'. m_read_data ops r (length s) m = Some (of_nat (length s), s, r', m') \<and> gives m' r' rest"
begin

lemma WriteToPartition_stores:
  assumes "scanned w" and "m_find ops name (mtd w) = Some p" and "fits (mtd w) p buf"
    and name: "name \<noteq> []" "COLON \<notin> set name"
  shows "\<exists>m. WriteToPartition env ops buf (str ''MTD'' @ COLON # name) w = Some (0, w\<lparr>mtd := m\<rparr>) \<and>
    holds m p buf \<and> m_find ops name m = Some p"
proof -
  obtain x m1 x1 m2 e x2 m3 m4 where s: "m_write_partition ops p (mtd w) = (Some x, m1)"
    "m_write_data ops x buf m1 = Some (of_nat (length buf), x1, m2)" "m_erase_blocks ops x1 (-1) m2 = Some (int e, x2, m3)"
    "m_write_close ops x2 m3 = Some (0, m4)" "holds m4 p buf" "m_find ops name m4 = Some p"
    using stores [OF assms(3,2)] by blast
  have t: "strtok (str ''MTD'' @ COLON # name) = Some (str ''MTD'', name)" "strtok name = Some (name, [])"
    using strtok_token(1) [of "str ''MTD''"] strtok_token(2) [OF name] by (simp_all add: str_def)
  have "WriteToPartition env ops buf (str ''MTD'' @ COLON # name) w = Some (0, w\<lparr>mtd := m4\<rparr>)"
    unfolding WriteToPartition_def t Option.bind.simps prod.case using assms(1,2) s(1-4) t(2) by (simp add: scan_once_def)
  then show ?thesis using s(5,6) by blast
qed

lemma LoadPartitionContents_holds:
  assumes "scanned w" and "m_find ops name (mtd w) = Some p" and "holds (mtd w) p data"
    and name: "name \<noteq> []" "COLON \<notin> set name" and data: "data \<noteq> []" "length data < 2 ^ 31"
    and digest: "SHA sha data = digest" "length digest = 20" and malloc: "\<And>n. malloc n"
  shows "\<exists>m. LoadPartitionContents malloc sha env ops (partition_name name data digest) w =
    Some (Some \<lparr>fc_data = data, fc_sha1 = digest, fc_mode = 0x1A4, fc_uid = 0, fc_gid = 0\<rparr>, w\<lparr>mtd := m\<rparr>)"
proof -
  let ?len = "decimal_string (int (length data))" and ?hex = "hex_string digest"
  have len: "strtol10 ?len = (int (length data), [])" "?len \<noteq> []"
    using strtol10_decimal [of "int (length data)"] data(2) by (simp_all add: LONG_MIN_def LONG_MAX_def)
  have hex: "ParseSha1 ?hex = Some digest" "?hex \<noteq> []" using ParseSha1_hex [OF digest(2), of "[]"] digest(2)
    by (auto simp: hex_string_def)
  have cl: "COLON \<notin> set ?len" by (simp add: decimal_string_def digits_no_colon)
  note ch = hex_no_colon [of digest]
  have t: "strtok (partition_name name data digest) = Some (str ''MTD'', name @ COLON # ?len @ COLON # ?hex)"
    "strtok (name @ COLON # ?len @ COLON # ?hex) = Some (name, ?len @ COLON # ?hex)"
    "strtok (?len @ COLON # ?hex) = Some (?len, ?hex)" "strtok ?hex = Some (?hex, [])"
    using strtok_token(1) [of "str ''MTD''"] strtok_token(1) [OF name] strtok_token(1) [OF len(2) cl] strtok_token(2) [OF hex(2) ch]
    by (simp_all add: partition_name_def str_def)
  have colons: "length (filter (\<lambda>c. c = COLON) (partition_name name data digest)) = 3"
    using name(2) cl ch by (auto simp: partition_name_def str_def filter_empty_conv)
  have u: "unat (of_nat (length data) :: u32) = length data" using data(2) by simp
  have nz: "(of_nat (length data) :: u32) \<noteq> 0"
  proof
    assume "(of_nat (length data) :: u32) = 0"
    from u [unfolded this] have "unat (0 :: u32) = length data" .
    with data(1) show False by simp
  qed
  have pairs: "read_pairs (Suc 0) (?len @ COLON # ?hex) = Some (Some [(of_nat (length data), Some ?hex)])"
    using len(1) t(3,4) nz by simp
  obtain r m1 rest where o1: "m_read_partition ops p (mtd w) = (Some r, m1)" "gives m1 r (data @ rest)"
    using opens [OF assms(3)] by blast
  obtain r2 m2 where r2: "m_read_data ops r (length data) m1 = Some (of_nat (length data), data, r2, m2)"
    using reads [OF o1(2) data(2)] by blast
  have match: "match_loop sha env ops [(of_nat (length data), Some ?hex)] (MtdReader r) [] (sha_init sha) (w\<lparr>mtd := m1\<rparr>) =
      Some (Inr (Some (data, sha_update sha data (sha_init sha))), w\<lparr>mtd := m2\<rparr>)"
    using nz r2 hex(1) digest(1) u by (simp add: read_partition_def SHA_def word_gt_0)
  show ?thesis
    unfolding LoadPartitionContents_def t Option.bind.simps prod.case colons
    using pairs match assms(1,2) o1(1) malloc digest(1) t(2)
    by (auto simp: open_partition_def scan_once_def SHA_def Let_def simp del: read_pairs.simps match_loop.simps)
qed

lemma written_loads:
  assumes "scanned w" and "m_find ops name (mtd w) = Some p" and "fits (mtd w) p data"
    and name: "name \<noteq> []" "COLON \<notin> set name" and data: "data \<noteq> []" "length data < 2 ^ 31"
    and digest: "length (SHA sha data) = 20" and malloc: "\<And>n. malloc n"
  shows "\<exists>m1 m2. WriteToPartition env ops data (str ''MTD'' @ COLON # name) w = Some (0, w\<lparr>mtd := m1\<rparr>) \<and>
    LoadPartitionContents malloc sha env' ops (partition_name name data (SHA sha data)) (w\<lparr>mtd := m1\<rparr>) =
      Some (Some \<lparr>fc_data = data, fc_sha1 = SHA sha data, fc_mode = 0x1A4, fc_uid = 0, fc_gid = 0\<rparr>, w\<lparr>mtd := m2\<rparr>)"
proof -
  obtain m1 where m1: "WriteToPartition env ops data (str ''MTD'' @ COLON # name) w = Some (0, w\<lparr>mtd := m1\<rparr>)"
    "holds m1 p data" "m_find ops name m1 = Some p"
    using WriteToPartition_stores [OF assms(1-3) name] by blast
  have "scanned (w\<lparr>mtd := m1\<rparr>)" "m_find ops name (mtd (w\<lparr>mtd := m1\<rparr>)) = Some p" "holds (mtd (w\<lparr>mtd := m1\<rparr>)) p data"
    using assms(1) m1(2,3) by simp_all
  from LoadPartitionContents_holds [where env = env' and malloc = malloc and sha = sha, OF this name data refl digest malloc] m1(1) show ?thesis by auto
qed

end

section \<open>Raw flash is such a store\<close>

definition partition_at :: "mtd_state \<Rightarrow> nat \<Rightarrow> MtdPartition \<Rightarrow> bool" where
  "partition_at m i p \<longleftrightarrow> i < length (partitions m) \<and> partitions m ! i = Some p \<and>
     sound_partition p (cells (chip m) (device_index p))"

definition flash_fits :: "(nat \<Rightarrow> bool) \<Rightarrow> nand \<Rightarrow> mtd_state \<Rightarrow> nat \<Rightarrow> bytes \<Rightarrow> bool" where
  "flash_fits malloc N m i data \<longleftrightarrow> workable malloc N \<and> (\<exists>p. partition_at m i p \<and> length data \<le> capacity N p)"

definition flash_holds :: "(nat \<Rightarrow> bool) \<Rightarrow> nand \<Rightarrow> mtd_state \<Rightarrow> nat \<Rightarrow> bytes \<Rightarrow> bool" where
  "flash_holds malloc N m i data \<longleftrightarrow> workable malloc N \<and> (\<exists>p rest. partition_at m i p \<and>
     stored N p (cells (chip m) (device_index p)) 0 (block_count p) = data @ rest)"

definition flash_gives :: "nand \<Rightarrow> mtd_state \<Rightarrow> MtdReadContext \<Rightarrow> bytes \<Rightarrow> bool" where
  "flash_gives N m r s \<longleftrightarrow> quiet N \<and> readable N r (chip m) s"

lemma find_slot_bound: "find_slot name i ps = Some j \<Longrightarrow> i \<le> j \<and> j < i + length ps \<and> (\<exists>p. ps ! (j - i) = Some p \<and> p_name p = name)"
proof (induction name i ps rule: find_slot.induct)
  case (2 name i p ps)
  then show ?case by (fastforce split: option.splits if_splits simp: Suc_le_eq nth_Cons')
qed simp

lemma mtd_stores_partition:
  assumes f: "flash_fits malloc N m i data" and find: "m_find (mtd_utils malloc N) name m = Some i"
  shows "\<exists>x m1 x1 m2 e x2 m3 m4. m_write_partition (mtd_utils malloc N) i m = (Some x, m1) \<and>
    m_write_data (mtd_utils malloc N) x data m1 = Some (of_nat (length data), x1, m2) \<and>
    m_erase_blocks (mtd_utils malloc N) x1 (-1) m2 = Some (int e, x2, m3) \<and>
    m_write_close (mtd_utils malloc N) x2 m3 = Some (0, m4) \<and> flash_holds malloc N m4 i data \<and>
    m_find (mtd_utils malloc N) name m4 = Some i"
proof -
  obtain p where p: "i < length (partitions m)" "partitions m ! i = Some p" "sound_partition p (cells (chip m) (device_index p))"
    "length data \<le> capacity N p" and wk: "\<And>n. malloc n" "dependable N" "quiet N"
    using f unfolding flash_fits_def workable_def partition_at_def by blast
  define x where "x = \<lparr>w_partition = p, w_buffer = [], w_pos = 0, bad_block_offsets = []\<rparr>"
  define c0 where "c0 = called (chip m)"
  have c0: "sound_partition p (cells c0 (device_index p))" using p(3) by (simp add: c0_def called_def)
  have open_it: "mtd_write_partition malloc N p (chip m) = (Some x, c0)"
    using wk by (simp add: mtd_write_partition_def quiet_def x_def c0_def)
  obtain x1 c1 x2 c2 e where w: "mtd_write_data N x data c0 = Some (int (length data), x1, c1)"
    "mtd_erase_blocks N x1 (-1) c1 = Some (int e, x2, c2)" "w_partition x2 = p" "w_buffer x2 = []" "written N x2 c2 (data @ padding x1)"
    using mtd_stores [OF wk(2) c0 p(4), of x "-1"] by (auto simp: x_def)
  obtain k where k: "sound_partition p (cells c2 (device_index p))" "k \<le> block_count p" "data @ padding x1 = stored N p (cells c2 (device_index p)) 0 k"
    using w(3-5) by (auto simp: written_def Let_def)
  have close_it: "mtd_write_close N x2 c2 = Some (0, called c2)"
    using nothing_to_flush [OF w(5,4)] wk(3) by (simp add: mtd_write_close_def quiet_def)
  let ?m4 = "m\<lparr>chip := called c2\<rparr>"
  have "stored N p (cells c2 (device_index p)) 0 (block_count p) =
      data @ padding x1 @ stored N p (cells c2 (device_index p)) k (block_count p)"
    using stored_split [of 0 k "block_count p" N p] k(2) k(3) [symmetric] by simp
  then have "flash_holds malloc N ?m4 i data"
    unfolding flash_holds_def workable_def partition_at_def using p(1,2) k(1) wk by (auto simp: called_def)
  moreover have "m_find (mtd_utils malloc N) name ?m4 = Some i"
    using find by (simp add: mtd_utils_def mtd_find_partition_by_name_def)
  ultimately show ?thesis
    using p(2) open_it w(1,2) close_it by (simp add: mtd_utils_def)
qed

lemma mtd_opens_partition:
  assumes "flash_holds malloc N m i data"
  shows "\<exists>r m' rest. m_read_partition (mtd_utils malloc N) i m = (Some r, m') \<and> flash_gives N m' r (data @ rest)"
proof -
  obtain p rest where p: "partitions m ! i = Some p" "sound_partition p (cells (chip m) (device_index p))"
    "stored N p (cells (chip m) (device_index p)) 0 (block_count p) = data @ rest" and wk: "\<And>n. malloc n" "quiet N"
    using assms unfolding flash_holds_def workable_def partition_at_def by blast
  let ?r = "\<lparr>r_partition = p, r_buffer = [], r_consumed = erase_len p, r_pos = 0\<rparr>"
  have "readable N ?r (called (chip m)) (data @ rest)"
    unfolding readable_def Let_def using p(2,3) by (auto simp: called_def intro!: exI [of _ 0])
  then have "flash_gives N (m\<lparr>chip := called (chip m)\<rparr>) ?r (data @ rest)" using wk(2) by (simp add: flash_gives_def)
  moreover have "m_read_partition (mtd_utils malloc N) i m = (Some ?r, m\<lparr>chip := called (chip m)\<rparr>)"
    using p(1) wk by (simp add: mtd_utils_def mtd_read_partition_def quiet_def)
  ultimately show ?thesis by blast
qed

lemma mtd_reads_partition:
  assumes "flash_gives N m r (s @ rest)" and "length s < 2 ^ 31"
  shows "\<exists>r' m'. m_read_data (mtd_utils malloc N) r (length s) m = Some (of_nat (length s), s, r', m') \<and> flash_gives N m' r' rest"
proof -
  have q: "quiet N" "readable N r (chip m) (s @ rest)" using assms(1) by (simp_all add: flash_gives_def)
  obtain r' c' where "read_loop N r (length s) [] (chip m) = Some (Some (s, r'), c')" "readable N r' c' rest"
    using read_loop_ok [OF q, of "[]" "length s"] by auto
  then show ?thesis using q(1) assms(2) by (intro exI [of _ r'] exI [of _ "m\<lparr>chip := c'\<rparr>"]) (simp add: mtd_utils_def mtd_read_data_def flash_gives_def)
qed

interpretation raw_flash: partition_store "mtd_utils malloc N" "flash_fits malloc N" "flash_holds malloc N" "flash_gives N"
  for malloc N
  by unfold_locales (rule mtd_stores_partition mtd_opens_partition mtd_reads_partition; assumption)+

section \<open>A partition that was written can be loaded\<close>

text \<open>
  C17: Data that fit into the good blocks of a flash partition are written by WriteToPartition
  with 0, and LoadPartitionContents, asked for the partition by name, length and digest, then
  finds exactly these data, although blocks are marked bad and attempts to write fail in between.
\<close>

theorem written_partition_loads:
  assumes "scanned w" and "mtd_find_partition_by_name name (mtd w) = Some i" and "flash_fits malloc N (mtd w) i data"
    and "name \<noteq> []" and "COLON \<notin> set name" and "data \<noteq> []" and "length data < 2 ^ 31"
    and "length (SHA sha data) = 20"
  shows "\<exists>m1 m2. WriteToPartition env (mtd_utils malloc N) data (str ''MTD'' @ COLON # name) w = Some (0, w\<lparr>mtd := m1\<rparr>) \<and>
    LoadPartitionContents malloc sha env' (mtd_utils malloc N) (partition_name name data (SHA sha data)) (w\<lparr>mtd := m1\<rparr>) =
      Some (Some \<lparr>fc_data = data, fc_sha1 = SHA sha data, fc_mode = 0x1A4, fc_uid = 0, fc_gid = 0\<rparr>, w\<lparr>mtd := m2\<rparr>)"
proof (rule raw_flash.written_loads)
  show "m_find (mtd_utils malloc N) name (mtd w) = Some i" using assms(2) by (simp add: mtd_utils_def)
  show "malloc n" for n using assms(3) by (simp add: flash_fits_def workable_def)
qed (use assms in simp_all)

text \<open>A device of four blocks of four bytes, the second of them marked bad.\<close>

definition small_nand :: nand where
  "small_nand = \<lparr>n_ok = \<lambda>_. True, n_ecc = \<lambda>_. False, n_erases = \<lambda>_. True, n_store = \<lambda>_ d. d,
     n_bad = \<lambda>_ pos. if pos = 4 then 1 else 0, n_unsupported = False, n_info = \<lambda>_. Some (16, 4, 4), n_proc = \<lambda>_. None\<rparr>"

definition boot_partition :: MtdPartition where
  "boot_partition = \<lparr>device_index = 0, p_size = 16, p_erase_size = 4, p_name = str ''boot''\<rparr>"

definition small_chip :: chip where
  "small_chip = \<lparr>cells = \<lambda>_. replicate 16 0, ecc_failed = 0, calls = 0\<rparr>"

definition flash_world :: "mtd_state world" where
  "flash_world = \<lparr>fs = Map.empty, clock = 0, history = [], scanned = True,
     mtd = \<lparr>partitions = [Some boot_partition], partition_count = 1, chip = small_chip\<rparr>\<rparr>"

lemma small_nand_workable: "workable (\<lambda>_. True) small_nand"
proof -
  have "fst (attempts 2 small_nand d pos data c)" if "pos + length data \<le> length (cells c d)" for d pos data c
    using that by (simp add: numeral_2_eq_2 io_erase_def io_write_def io_read_def small_nand_def called_def overwrite_def Let_def)
  then show ?thesis by (simp add: workable_def dependable_def quiet_def) (simp add: small_nand_def)
qed

lemma flash_world_fits: "flash_fits (\<lambda>_. True) small_nand (mtd flash_world) 0 [1, 2, 3, 4, 5]"
proof -
  have "block_count boot_partition = 4" by (simp add: block_count_def boot_partition_def)
  then have "capacity small_nand boot_partition = 12"
    by (simp add: capacity_def usable_block_def small_nand_def upt_conv_Cons) (simp add: boot_partition_def)
  moreover have "partition_at (mtd flash_world) 0 boot_partition"
    by (simp add: partition_at_def sound_partition_def flash_world_def small_chip_def) (simp add: boot_partition_def)
  ultimately show ?thesis using small_nand_workable by (auto simp: flash_fits_def)
qed

theorem written_partition_loads_witness:
  "\<exists>m1 m2. WriteToPartition generous_env (mtd_utils (\<lambda>_. True) small_nand) [1, 2, 3, 4, 5] (str ''MTD:boot'') flash_world =
      Some (0, flash_world\<lparr>mtd := m1\<rparr>) \<and>
    LoadPartitionContents (\<lambda>_. True) toy_sha generous_env (mtd_utils (\<lambda>_. True) small_nand)
        (partition_name (str ''boot'') [1, 2, 3, 4, 5] (SHA toy_sha [1, 2, 3, 4, 5])) (flash_world\<lparr>mtd := m1\<rparr>) =
      Some (Some \<lparr>fc_data = [1, 2, 3, 4, 5], fc_sha1 = SHA toy_sha [1, 2, 3, 4, 5], fc_mode = 0x1A4, fc_uid = 0, fc_gid = 0\<rparr>,
        flash_world\<lparr>mtd := m2\<rparr>)"
proof -
  have "mtd_find_partition_by_name (str ''boot'') (mtd flash_world) = Some 0"
    by (simp add: mtd_find_partition_by_name_def flash_world_def boot_partition_def)
  moreover have "str ''MTD:boot'' = str ''MTD'' @ COLON # str ''boot''" by code_simp
  moreover have "str ''boot'' \<noteq> []" "COLON \<notin> set (str ''boot'')" by code_simp+
  moreover have "length (SHA toy_sha [1, 2, 3, 4, 5]) = 20" by code_simp
  ultimately show ?thesis
    using written_partition_loads [where w = flash_world, OF _ _ flash_world_fits, of "str ''boot''" toy_sha generous_env generous_env]
    by (simp add: flash_world_def)
qed

end
