(* ===== verification/FlashUtils.thy ===== *)
theory FlashUtils
  imports Mmc FlashPatch
begin

text \<open>
  The commands on flash of every kind (\<open>flashutils/flashutils.c\<close>), which choose between \<open>mtdutils\<close>,
  \<open>mmcutils\<close> and \<open>bmlutils\<close>, and the programs built on them.

  A \<open>machine\<close> is what a program that uses them sees: the outside world with the flash, and the
  static data of the utilities.  The parts for volumes (\<open>Volumes\<close>) see it as a \<open>phone\<close>
  without a table of volumes.
\<close>

section \<open>Machines\<close>

record machine =
  m_world :: "mtd_state world"
  m_mmc :: mmc_state
  m_mounts :: "MountedVolume option list"
  m_mount_count :: nat
  m_flash_type :: int

definition phone_of :: "'z machine_scheme \<Rightarrow> (mtd_state world) phone" where
  "phone_of m = \<lparr>outside = m_world m, flash = mtd (m_world m), device_volumes = [], mount_table = m_mounts m,
     volume_count = m_mount_count m, the_flash_type = m_flash_type m\<rparr>"

definition set_phone :: "(mtd_state world) phone \<Rightarrow> 'z machine_scheme \<Rightarrow> 'z machine_scheme" where
  "set_phone s m = m\<lparr>m_world := (outside s)\<lparr>mtd := flash s\<rparr>, m_mounts := mount_table s,
     m_mount_count := volume_count s, m_flash_type := the_flash_type s\<rparr>"

definition in_world ::
    "(mtd_state world \<Rightarrow> ('a \<times> mtd_state world) option) \<Rightarrow> 'z machine_scheme \<Rightarrow> ('a \<times> 'z machine_scheme) option" where
  "in_world f m = do { (a, w) \<leftarrow> f (m_world m); Some (a, m\<lparr>m_world := w\<rparr>) }"

definition in_phone ::
    "((mtd_state world) phone \<Rightarrow> ('a \<times> (mtd_state world) phone) option) \<Rightarrow> 'z machine_scheme \<Rightarrow> ('a \<times> 'z machine_scheme) option" where
  "in_phone f m = do { (a, s) \<leftarrow> f (phone_of m); Some (a, set_phone s m) }"

definition in_mmc ::
    "(mmc_state \<Rightarrow> mtd_state world \<Rightarrow> (('a \<times> mmc_state) \<times> mtd_state world) option) \<Rightarrow> 'z machine_scheme \<Rightarrow>
     ('a \<times> 'z machine_scheme) option" where
  "in_mmc f m = do { ((a, g), w) \<leftarrow> f (m_mmc m) (m_world m); Some (a, m\<lparr>m_world := w, m_mmc := g\<rparr>) }"

section \<open>The commands\<close>

definition cmd_mtd_mount_partition ::
    "((mtd_state world), 'z) kernel_scheme \<Rightarrow> bytes \<Rightarrow> bytes \<Rightarrow> bytes \<Rightarrow> bool \<Rightarrow> mtd_state world \<Rightarrow> (int \<times> mtd_state world) option" where
  "cmd_mtd_mount_partition K part mp filesystem read_only w = do {
     (_, m) \<leftarrow> mtd_scan_partitions (k_malloc K) (k_nand K) (mtd w);
     let w = w\<lparr>mtd := m\<rparr>;
     case mtd_find_partition_by_name part m of
       None \<Rightarrow> Some (-1, w)
     | Some i \<Rightarrow> do { p \<leftarrow> partitions m ! i; Some (mtd_mount_partition K p mp filesystem read_only w) } }"

definition cmd_mtd_get_partition_device ::
    "((mtd_state world), 'z) kernel_scheme \<Rightarrow> bytes \<Rightarrow> mtd_state world \<Rightarrow> (bytes option \<times> mtd_state world) option" where
  "cmd_mtd_get_partition_device K part w = do {
     (_, m) \<leftarrow> mtd_scan_partitions (k_malloc K) (k_nand K) (mtd w);
     let w = w\<lparr>mtd := m\<rparr>;
     case mtd_find_partition_by_name part m of
       None \<Rightarrow> Some (None, w)
     | Some i \<Rightarrow> do {
         p \<leftarrow> partitions m ! i;
         Some (Some (str ''/dev/block/mtdblock'' @ decimal_string (int (device_index p))), w) } }"

definition restore_raw_partition ::
    "((mtd_state world), 'z) kernel_scheme \<Rightarrow> env \<Rightarrow> bytes option \<Rightarrow> bytes \<Rightarrow> bytes \<Rightarrow> 'y machine_scheme \<Rightarrow>
     (int \<times> 'y machine_scheme) option" where
  "restore_raw_partition K env partitionType part filename m = do {
     (type, m) \<leftarrow> in_phone (\<lambda>s. Some (detect_partition K partitionType part s)) m;
     if type = MTD then in_world (cmd_mtd_restore_raw_partition (k_malloc K) env (k_nand K) part filename) m
     else if type = MMC then in_mmc (cmd_mmc_restore_raw_partition (k_malloc K) env part filename) m
     else if type = BML then in_world (cmd_bml_restore_raw_partition env part filename) m
     else Some (-1, m) }"

definition backup_raw_partition ::
    "((mtd_state world), 'z) kernel_scheme \<Rightarrow> env \<Rightarrow> bytes option \<Rightarrow> bytes \<Rightarrow> bytes \<Rightarrow> 'y machine_scheme \<Rightarrow>
     (int \<times> 'y machine_scheme) option" where
  "backup_raw_partition K env partitionType part filename m = do {
     (type, m) \<leftarrow> in_phone (\<lambda>s. Some (detect_partition K partitionType part s)) m;
     if type = MTD then in_world (cmd_mtd_backup_raw_partition (k_malloc K) env (k_nand K) part filename) m
     else if type = MMC then in_mmc (cmd_mmc_backup_raw_partition (k_malloc K) env part filename) m
     else if type = BML then in_world (\<lambda>w. Some (cmd_bml_backup_raw_partition env part filename w)) m
     else Some (-1, m) }"

definition erase_partition ::
    "((mtd_state world), 'z) kernel_scheme \<Rightarrow> env \<Rightarrow> bytes \<Rightarrow> bytes \<Rightarrow> 'y machine_scheme \<Rightarrow> (int \<times> 'y machine_scheme) option" where
  "erase_partition K env part filesystem m = do {
     (type, m) \<leftarrow> in_phone (\<lambda>s. Some (detect_partition K None part s)) m;
     if type = MTD then
       in_world (\<lambda>w. do { (r, f) \<leftarrow> cmd_mtd_erase_partition (k_malloc K) (k_nand K) part filesystem (mtd w); Some (r, w\<lparr>mtd := f\<rparr>) }) m
     else if type = MMC then in_mmc (cmd_mmc_erase_partition (k_malloc K) env K part) m
     else if type = BML then Some (-1, m)
     else Some (-1, m) }"

definition mount_partition ::
    "((mtd_state world), 'z) kernel_scheme \<Rightarrow> env \<Rightarrow> bytes \<Rightarrow> bytes \<Rightarrow> bytes \<Rightarrow> bool \<Rightarrow> 'y machine_scheme \<Rightarrow>
     (int \<times> 'y machine_scheme) option" where
  "mount_partition K env part mp filesystem read_only m = do {
     (type, m) \<leftarrow> in_phone (\<lambda>s. Some (detect_partition K None part s)) m;
     if type = MTD then in_world (cmd_mtd_mount_partition K part mp filesystem read_only) m
     else if type = MMC then in_mmc (cmd_mmc_mount_partition (k_malloc K) env K part mp read_only) m
     else if type = BML then Some (-1, m)
     else Some (-1, m) }"

text \<open>The device's name, or \<open>None\<close> for the result -1.\<close>

definition get_partition_device ::
    "((mtd_state world), 'z) kernel_scheme \<Rightarrow> env \<Rightarrow> bytes \<Rightarrow> 'y machine_scheme \<Rightarrow> (bytes option \<times> 'y machine_scheme) option" where
  "get_partition_device K env part m = do {
     (type, m) \<leftarrow> in_phone (\<lambda>s. Some (device_flash_type K s)) m;
     if type = MTD then in_world (cmd_mtd_get_partition_device K part) m
     else if type = MMC then in_mmc (cmd_mmc_get_partition_device (k_malloc K) env part) m
     else if type = BML then Some (None, m)
     else Some (None, m) }"

section \<open>The programs flash\_image, dump\_image and erase\_image\<close>

definition flash_image_main ::
    "((mtd_state world), 'z) kernel_scheme \<Rightarrow> env \<Rightarrow> bytes list \<Rightarrow> 'y machine_scheme \<Rightarrow> (int \<times> 'y machine_scheme) option" where
  "flash_image_main K env argv m =
     (if length argv \<noteq> 3 then Some (2, m) else restore_raw_partition K env None (argv ! 1) (argv ! 2) m)"

definition dump_image_main ::
    "((mtd_state world), 'z) kernel_scheme \<Rightarrow> env \<Rightarrow> bytes list \<Rightarrow> 'y machine_scheme \<Rightarrow> (int \<times> 'y machine_scheme) option" where
  "dump_image_main K env argv m =
     (if length argv \<noteq> 3 then Some (2, m) else backup_raw_partition K env None (argv ! 1) (argv ! 2) m)"

definition erase_image_main ::
    "((mtd_state world), 'z) kernel_scheme \<Rightarrow> bytes list \<Rightarrow> 'y machine_scheme \<Rightarrow> (int \<times> 'y machine_scheme) option" where
  "erase_image_main K argv m =
     (if length argv \<noteq> 2 then Some (2, m) else in_phone (erase_raw_partition K None (argv ! 1)) m)"

end
