(* ===== verification/Updater.thy ===== *)
theory Updater
  imports FlashUtils DirTree ZipExtract
begin

unbundle bit_operations_syntax

text \<open>
  The functions the update program adds to the script language: \<open>updater/install.c\<close>.

  The cookie of a script is an \<open>updater\<close>: the machine, the opened package, and what has been
  written to the pipe to the recovery program.  Libraries, the kernel and the programs that are run
  are the fields of \<open>platform\<close>.  What is printed on \<open>stderr\<close>, and the text of
  \<open>strerror\<close> in messages, is left out.
\<close>

section \<open>The state and its surroundings\<close>

record updater = machine +
  cmd_pipe :: bytes
  package_zip :: ZipArchive
  api_version :: int

text \<open>
  \<open>pl_float\<close> is what \<open>%f\<close> prints for the number \<open>strtod\<close> reads, \<open>pl_run\<close> the status of a
  program that has been run, and \<open>pl_stray\<close> what \<open>printf\<close> finds for an argument that is not there.
\<close>

record ('h, 's, 'd, 'z) platform =
  pl_kernel :: "(mtd_state world) kernel"
  pl_env :: env
  pl_tree :: "(mtd_state world) tree_os"
  pl_xos :: "(mtd_state world) xos"
  pl_sha :: "'h sha"
  pl_bz :: "'s bz"
  pl_zimg :: "'d zimg"
  pl_zlib :: "'z zlib"
  pl_reader :: reader
  pl_property :: "bytes \<Rightarrow> mtd_state world \<Rightarrow> bytes"
  pl_float :: "bytes \<Rightarrow> bytes"
  pl_run :: "bytes list \<Rightarrow> mtd_state world \<Rightarrow> int \<times> mtd_state world"
  pl_stray :: int
  pl_use_ext4 :: bool

abbreviation pl_malloc :: "('h, 's, 'd, 'z) platform \<Rightarrow> nat \<Rightarrow> bool" where
  "pl_malloc P \<equiv> k_malloc (pl_kernel P)"

abbreviation pl_mtd :: "('h, 's, 'd, 'z) platform \<Rightarrow> (mtd_state, MtdReadContext, MtdWriteContext) mtd_ops" where
  "pl_mtd P \<equiv> mtd_utils (pl_malloc P) (k_nand (pl_kernel P))"

text \<open>A call on the machine, and one on the outside world, in a script.\<close>

definition on_machine :: "(updater \<Rightarrow> ('a \<times> updater) option) \<Rightarrow> updater State \<Rightarrow> ('a \<times> updater State) option" where
  "on_machine f st = do { (a, u) \<leftarrow> f (cookie st); Some (a, st\<lparr>cookie := u\<rparr>) }"

definition on_world :: "(mtd_state world \<Rightarrow> 'a \<times> mtd_state world) \<Rightarrow> updater State \<Rightarrow> ('a \<times> updater State) option" where
  "on_world f = on_machine (in_world (\<lambda>w. Some (f w)))"

definition to_pipe :: "bytes \<Rightarrow> updater State \<Rightarrow> updater State" where
  "to_pipe s st = st\<lparr>cookie := (cookie st)\<lparr>cmd_pipe := cmd_pipe (cookie st) @ s\<rparr>\<rparr>"

text \<open>The result of a \<open>goto done\<close> behind \<open>ErrorAbort\<close>, and the message on the number of arguments.\<close>

definition fails :: "bytes \<Rightarrow> updater State \<Rightarrow> (Value option \<times> updater State) option" where
  "fails msg st = Some (None, ErrorAbort msg st)"

definition expects :: "bytes \<Rightarrow> string \<Rightarrow> nat \<Rightarrow> updater run" where
  "expects name what argc = fails (name @ str ''() expects '' @ str what @ str '', got '' @ digits argc)"

definition gives :: "bytes \<Rightarrow> updater run" where
  "gives s st = Some (StringValue (Some s), st)"

definition quoted :: "bytes \<Rightarrow> bytes" where
  "quoted s = [34] @ s @ [34]"

text \<open>The pattern of \<open>ReadArgs\<close> with its early return.\<close>

definition reading_args ::
    "updater arg list \<Rightarrow> nat \<Rightarrow> (bytes list \<Rightarrow> updater run) \<Rightarrow> updater run" where
  "reading_args argv n f st = do {
     (args, st) \<leftarrow> ReadArgs argv n st;
     case args of None \<Rightarrow> Some (None, st) | Some args \<Rightarrow> f args st }"

definition cannot_be_empty :: "bytes \<Rightarrow> string \<Rightarrow> updater run" where
  "cannot_be_empty name what = fails (str what @ str '' argument to '' @ name @ str ''() can't be empty'')"

section \<open>Mounting and formatting\<close>

definition mount_mtd ::
    "('h, 's, 'd, 'z) platform \<Rightarrow> bytes \<Rightarrow> bytes \<Rightarrow> bytes \<Rightarrow> mtd_state world \<Rightarrow> (int \<times> mtd_state world) option" where
  "mount_mtd P fs_type location mp w = cmd_mtd_mount_partition (pl_kernel P) location mp fs_type False w"

definition MountFn :: "('h, 's, 'd, 'z) platform \<Rightarrow> updater Function" where
  "MountFn P name argv st =
     (if length argv \<noteq> 4 then expects name ''4 args'' (length argv) st
      else reading_args argv 4 (\<lambda>args st.
        let fs_type = args ! 0; partition_type = args ! 1; location = args ! 2; mount_point = args ! 3 in
        if fs_type = [] then cannot_be_empty name ''fs_type'' st
        else if partition_type = [] then cannot_be_empty name ''partition_type'' st
        else if location = [] then cannot_be_empty name ''location'' st
        else if mount_point = [] then cannot_be_empty name ''mount_point'' st
        else do {
          (_, st) \<leftarrow> on_world (os_mkdir (pl_kernel P) mount_point 0x1ED) st;
          (rc, st) \<leftarrow>
            (if partition_type = str ''MTD'' then on_machine (in_world (mount_mtd P fs_type location mount_point)) st
             else on_world (k_mount (pl_kernel P) location mount_point fs_type MS_USUAL (Some [])) st);
          gives (if (if partition_type = str ''MTD'' then rc \<noteq> 0 else rc < 0) then [] else mount_point) st }) st)"

definition find_mounted ::
    "('h, 's, 'd, 'z) platform \<Rightarrow> bytes \<Rightarrow> updater State \<Rightarrow> (nat option \<times> updater State) option" where
  "find_mounted P mount_point =
     on_machine (in_phone (\<lambda>s. do {
       (_, s) \<leftarrow> scan_mounted_volumes (pl_kernel P) s;
       Some (find_mounted_volume_by_mount_point mount_point s, s) }))"

definition IsMountedFn :: "('h, 's, 'd, 'z) platform \<Rightarrow> updater Function" where
  "IsMountedFn P name argv st =
     (if length argv \<noteq> 1 then expects name ''1 arg'' (length argv) st
      else reading_args argv 1 (\<lambda>args st.
        let mount_point = args ! 0 in
        if mount_point = [] then fails (str ''mount_point argument to unmount() can't be empty'') st
        else do {
          (vol, st) \<leftarrow> find_mounted P mount_point st;
          gives (if vol = None then [] else mount_point) st }) st)"

definition UnmountFn :: "('h, 's, 'd, 'z) platform \<Rightarrow> updater Function" where
  "UnmountFn P name argv st =
     (if length argv \<noteq> 1 then expects name ''1 arg'' (length argv) st
      else reading_args argv 1 (\<lambda>args st.
        let mount_point = args ! 0 in
        if mount_point = [] then fails (str ''mount_point argument to unmount() can't be empty'') st
        else do {
          (vol, st) \<leftarrow> find_mounted P mount_point st;
          case vol of
            None \<Rightarrow> gives [] st
          | Some i \<Rightarrow> do {
              (_, st) \<leftarrow> on_machine (in_phone (\<lambda>s. Some (unmount_mounted_volume (pl_kernel P) i s))) st;
              gives mount_point st } }) st)"

text \<open>The MTD part of \<open>FormatFn\<close>: whether it succeeded.\<close>

definition format_mtd_partition ::
    "('h, 's, 'd, 'z) platform \<Rightarrow> bytes \<Rightarrow> mtd_state world \<Rightarrow> (bool \<times> mtd_state world) option" where
  "format_mtd_partition P location w = do {
     (_, m) \<leftarrow> mtd_scan_partitions (pl_malloc P) (k_nand (pl_kernel P)) (mtd w);
     let w = w\<lparr>mtd := m\<rparr>;
     case mtd_find_partition_by_name location m of
       None \<Rightarrow> Some (False, w)
     | Some i \<Rightarrow> do {
         p \<leftarrow> partitions m ! i;
         let (ctx, c) = mtd_write_partition (pl_malloc P) (k_nand (pl_kernel P)) p (chip m);
         let w = with_chip w c;
         case ctx of
           None \<Rightarrow> Some (False, w)
         | Some ctx \<Rightarrow> do {
             (erased, ctx, c) \<leftarrow> mtd_erase_blocks (k_nand (pl_kernel P)) ctx (-1) c;
             (rc, c) \<leftarrow> mtd_write_close (k_nand (pl_kernel P)) ctx c;
             Some (erased \<noteq> -1 \<and> rc = 0, with_chip w c) } } }"

text \<open>A type that is not supported is only reported on \<open>stderr\<close>: the result is \<open>NULL\<close> without a message.\<close>

definition FormatFn :: "('h, 's, 'd, 'z) platform \<Rightarrow> updater Function" where
  "FormatFn P name argv st =
     (if length argv \<noteq> 3 then expects name ''3 args'' (length argv) st
      else reading_args argv 3 (\<lambda>args st.
        let fs_type = args ! 0; partition_type = args ! 1; location = args ! 2;
            finish = (\<lambda>(status :: int, st). gives (if status \<noteq> 0 then [] else location) st) in
        if fs_type = [] then cannot_be_empty name ''fs_type'' st
        else if partition_type = [] then cannot_be_empty name ''partition_type'' st
        else if location = [] then cannot_be_empty name ''location'' st
        else if partition_type = str ''MTD'' then do {
          (ok, st) \<leftarrow> on_machine (in_world (format_mtd_partition P location)) st;
          gives (if ok then location else []) st }
        else if pl_use_ext4 P \<and> fs_type = str ''ext4'' then on_world (k_make_ext4fs (pl_kernel P) location) st \<bind> finish
        else if fs_type = str ''ext2'' then on_world (format_ext2_device (pl_kernel P) location) st \<bind> finish
        else if fs_type = str ''ext3'' then on_world (format_ext3_device (pl_kernel P) location) st \<bind> finish
        else Some (None, st)) st)"

section \<open>Files\<close>

text \<open>
  Evaluating the paths to delete.  When one but the first is \<open>NULL\<close>, the loop that frees the
  others increments the wrong variable and frees the first again and again.
\<close>

fun delete_paths :: "updater arg list \<Rightarrow> nat \<Rightarrow> updater State \<Rightarrow> (bytes list option \<times> updater State) option" where
  "delete_paths [] i st = Some (Some [], st)"
| "delete_paths (a # argv) i st = do {
     (v, st) \<leftarrow> Evaluate a st;
     case v of
       None \<Rightarrow> if i = 0 then Some (None, st) else None
     | Some v \<Rightarrow> do { (vs, st) \<leftarrow> delete_paths argv (i + 1) st; Some (map_option ((#) v) vs, st) } }"

fun delete_files ::
    "('h, 's, 'd, 'z) platform \<Rightarrow> bool \<Rightarrow> bytes list \<Rightarrow> nat \<Rightarrow> mtd_state world \<Rightarrow> (nat \<times> mtd_state world) option" where
  "delete_files P recursive [] success w = Some (success, w)"
| "delete_files P recursive (path # paths) success w = do {
     (r, w) \<leftarrow> (if recursive then dirUnlinkHierarchy (pl_tree P) path w else Some (t_unlink (pl_tree P) path w));
     delete_files P recursive paths (if r = 0 then success + 1 else success) w }"

definition DeleteFn :: "('h, 's, 'd, 'z) platform \<Rightarrow> updater Function" where
  "DeleteFn P name argv st = do {
     (paths, st) \<leftarrow> delete_paths argv 0 st;
     case paths of
       None \<Rightarrow> Some (None, st)
     | Some paths \<Rightarrow> do {
         (success, st) \<leftarrow> on_machine (in_world (delete_files P (name = str ''delete_recursive'') paths 0)) st;
         gives (digits success) st } }"

definition TIMESTAMP :: nat where "TIMESTAMP = 1217592000"

definition PackageExtractDirFn :: "('h, 's, 'd, 'z) platform \<Rightarrow> updater Function" where
  "PackageExtractDirFn P name argv st =
     (if length argv \<noteq> 2 then expects name ''2 args'' (length argv) st
      else reading_args argv 2 (\<lambda>args st. do {
        (success, st) \<leftarrow> on_machine (\<lambda>u. in_world
          (mzExtractRecursive (pl_zlib P) (pl_malloc P) (pl_xos P) (pl_reader P) (package_zip u) (args ! 0) (args ! 1)
             False True (Some TIMESTAMP) (\<lambda>_ w. w)) u) st;
        gives (if success then str ''t'' else []) st }) st)"

text \<open>The entry of a name; a fault inside the hash table is undefined.\<close>

definition package_entry :: "ZipArchive \<Rightarrow> bytes \<Rightarrow> ZipEntry option option" where
  "package_entry za path =
     (case mzFindZipEntry za path of
        Some (Inr (Ptr i)) \<Rightarrow> map_option Some (rd (arcEntries za) i)
      | Some (Inr NULL) \<Rightarrow> Some None
      | _ \<Rightarrow> None)"

text \<open>A blob without contents has the size -1, which as a number of 32 bits is the largest.\<close>

definition NO_SIZE :: nat where "NO_SIZE = 2 ^ 32 - 1"

definition negative_size :: "Value \<Rightarrow> bool" where
  "negative_size v \<longleftrightarrow> 2 ^ 31 \<le> vsize v"

definition extract_file ::
    "('h, 's, 'd, 'z) platform \<Rightarrow> ZipEntry \<Rightarrow> bytes \<Rightarrow> mtd_state world \<Rightarrow> (bool \<times> mtd_state world) option" where
  "extract_file P entry dest_path w =
     (let (fd, w) = os_creat (pl_xos P) dest_path w in
      if fd < 0 then Some (False, w)
      else do {
        (success, w) \<leftarrow> mzExtractZipEntryToFile (pl_zlib P) (pl_xos P) (pl_reader P) entry fd w;
        Some (success, os_close (pl_xos P) fd w) })"

definition extract_blob :: "('h, 's, 'd, 'z) platform \<Rightarrow> ZipEntry \<Rightarrow> Value option" where
  "extract_blob P entry =
     (let room = unat (uncompLen entry); nothing = \<lparr>vtype = VAL_BLOB, vsize = NO_SIZE, vdata = []\<rparr> in
      if \<not> pl_malloc P room then Some nothing
      else do {
        (success, data) \<leftarrow> mzExtractZipEntryToBuffer (pl_zlib P) (pl_reader P) entry (replicate room 0);
        Some (if success then \<lparr>vtype = VAL_BLOB, vsize = room, vdata = data\<rparr> else nothing) })"

definition PackageExtractFileFn :: "('h, 's, 'd, 'z) platform \<Rightarrow> updater Function" where
  "PackageExtractFileFn P name argv st =
     (if length argv \<noteq> 1 \<and> length argv \<noteq> 2 then expects name ''1 or 2 args'' (length argv) st
      else if length argv = 2 then
        reading_args argv 2 (\<lambda>args st. do {
          entry \<leftarrow> package_entry (package_zip (cookie st)) (args ! 0);
          (success, st) \<leftarrow>
            (case entry of
               None \<Rightarrow> Some (False, st)
             | Some entry \<Rightarrow> on_machine (in_world (extract_file P entry (args ! 1))) st);
          gives (if success then str ''t'' else []) st }) st
      else
        reading_args argv 1 (\<lambda>args st. do {
          entry \<leftarrow> package_entry (package_zip (cookie st)) (args ! 0);
          v \<leftarrow> (case entry of
                  None \<Rightarrow> Some \<lparr>vtype = VAL_BLOB, vsize = NO_SIZE, vdata = []\<rparr>
                | Some entry \<Rightarrow> extract_blob P entry);
          Some (Some v, st) }) st)"

fun symlinks :: "('h, 's, 'd, 'z) platform \<Rightarrow> bytes \<Rightarrow> bytes list \<Rightarrow> mtd_state world \<Rightarrow> mtd_state world" where
  "symlinks P target [] w = w"
| "symlinks P target (src # srcs) w =
     symlinks P target srcs (snd (os_symlink (pl_xos P) target src (snd (t_unlink (pl_tree P) src w))))"

definition SymlinkFn :: "('h, 's, 'd, 'z) platform \<Rightarrow> updater Function" where
  "SymlinkFn P name argv st =
     (case argv of
        [] \<Rightarrow> expects name ''1+ args'' 0 st
      | a # argv \<Rightarrow> do {
          (target, st) \<leftarrow> Evaluate a st;
          case target of
            None \<Rightarrow> Some (None, st)
          | Some target \<Rightarrow> do {
              (srcs, st) \<leftarrow> ReadVarArgs argv st;
              case srcs of
                None \<Rightarrow> Some (None, st)
              | Some srcs \<Rightarrow> do {
                  (_, st) \<leftarrow> on_world (\<lambda>w. ((), symlinks P target srcs w)) st;
                  gives [] st } } })"

section \<open>Permissions\<close>

text \<open>\<open>strtoul\<close> to base 0: the value, saturated, and what is left of the string.\<close>

definition octal_digit :: "u8 \<Rightarrow> int option" where
  "octal_digit c = (if 48 \<le> c \<and> c \<le> 55 then Some (uint c - 48) else None)"

definition ULONG_MAX :: int where "ULONG_MAX = 2 ^ 32 - 1"

definition strtoul0 :: "bytes \<Rightarrow> u32 \<times> bytes" where
  "strtoul0 s =
     (let (sign, t) = scan_sign (dropWhile isspace s);
          hex = (length t > 2 \<and> hd t = 48 \<and> (t ! 1 = 120 \<or> t ! 1 = 88) \<and> hexadecimal_digit (t ! 2) \<noteq> None);
          number = (if hex then scan_number 16 hexadecimal_digit (drop 2 t)
                    else if t \<noteq> [] \<and> hd t = 48 then scan_number 8 octal_digit t
                    else scan_number 10 decimal_digit t) in
      case number of
        None \<Rightarrow> (0, s)
      | Some (v, rest) \<Rightarrow> (if v > ULONG_MAX then of_int ULONG_MAX else of_int (sign * v), rest))"

text \<open>A whole argument as a number.\<close>

definition whole_number :: "bytes \<Rightarrow> u32 option" where
  "whole_number s = (let (v, rest) = strtoul0 s in if rest \<noteq> [] \<or> s = [] then None else Some v)"

definition not_valid :: "bytes \<Rightarrow> bytes \<Rightarrow> string \<Rightarrow> updater run" where
  "not_valid name arg what = fails (name @ str '': '' @ quoted arg @ str '' not a valid '' @ str what)"

fun set_perms :: "('h, 's, 'd, 'z) platform \<Rightarrow> u32 \<Rightarrow> u32 \<Rightarrow> u32 \<Rightarrow> bytes list \<Rightarrow> mtd_state world \<Rightarrow> mtd_state world" where
  "set_perms P uid gid mode [] w = w"
| "set_perms P uid gid mode (path # paths) w =
     set_perms P uid gid mode paths (snd (t_chmod (pl_tree P) path mode (snd (t_chown (pl_tree P) path uid gid w))))"

fun set_perms_recursive ::
    "('h, 's, 'd, 'z) platform \<Rightarrow> u32 \<Rightarrow> u32 \<Rightarrow> u32 \<Rightarrow> u32 \<Rightarrow> bytes list \<Rightarrow> mtd_state world \<Rightarrow> (unit \<times> mtd_state world) option" where
  "set_perms_recursive P uid gid dir_mode file_mode [] w = Some ((), w)"
| "set_perms_recursive P uid gid dir_mode file_mode (path # paths) w = do {
     (_, w) \<leftarrow> dirSetHierarchyPermissions (pl_tree P) path uid gid dir_mode file_mode w;
     set_perms_recursive P uid gid dir_mode file_mode paths w }"

text \<open>The message on the number of arguments lacks one: \<open>argc\<close> is printed for the least number.\<close>

definition SetPermFn :: "('h, 's, 'd, 'z) platform \<Rightarrow> updater Function" where
  "SetPermFn P name argv st =
     (let recursive = (name = str ''set_perm_recursive''); min_args = 4 + (if recursive then 1 else 0) in
      if length argv < min_args
      then fails (name @ str ''() expects '' @ digits (length argv) @ str ''+ args, got '' @ decimal_string (pl_stray P)) st
      else do {
        (args, st) \<leftarrow> ReadVarArgs argv st;
        case args of
          None \<Rightarrow> Some (None, st)
        | Some args \<Rightarrow>
            (case whole_number (args ! 0) of
               None \<Rightarrow> not_valid name (args ! 0) ''uid'' st
             | Some uid \<Rightarrow>
            (case whole_number (args ! 1) of
               None \<Rightarrow> not_valid name (args ! 1) ''gid'' st
             | Some gid \<Rightarrow>
            if recursive then
              (case whole_number (args ! 2) of
                 None \<Rightarrow> not_valid name (args ! 2) ''dirmode'' st
               | Some dir_mode \<Rightarrow>
              (case whole_number (args ! 3) of
                 None \<Rightarrow> not_valid name (args ! 3) ''filemode'' st
               | Some file_mode \<Rightarrow> do {
                  (_, st) \<leftarrow> on_machine (in_world (set_perms_recursive P uid gid dir_mode file_mode (drop 4 args))) st;
                  gives [] st }))
            else
              (case whole_number (args ! 2) of
                 None \<Rightarrow> not_valid name (args ! 2) ''mode'' st
               | Some mode \<Rightarrow> do {
                  (_, st) \<leftarrow> on_world (\<lambda>w. ((), set_perms P uid gid mode (drop 3 args) w)) st;
                  gives [] st }))) })"

section \<open>Properties of the system and of files\<close>

definition GetPropFn :: "('h, 's, 'd, 'z) platform \<Rightarrow> updater Function" where
  "GetPropFn P name argv st =
     (case argv of
        [a] \<Rightarrow> do {
          (key, st) \<leftarrow> Evaluate a st;
          case key of
            None \<Rightarrow> Some (None, st)
          | Some key \<Rightarrow> gives (pl_property P key (m_world (cookie st))) st }
      | _ \<Rightarrow> expects name ''1 arg'' (length argv) st)"

definition trim_end :: "bytes \<Rightarrow> bytes" where
  "trim_end s = rev (dropWhile isspace (rev s))"

datatype prop_line = Skip | Malformed bytes | Found bytes

text \<open>One line of a file of properties.  The first character of a key or a value is never a blank.\<close>

definition prop_line :: "bytes \<Rightarrow> bytes \<Rightarrow> prop_line" where
  "prop_line key line =
     (let line = dropWhile isspace line in
      if line = [] \<or> hd line = 35 then Skip
      else if 61 \<notin> set line then Malformed line
      else if trim_end (takeWhile (\<lambda>c. c \<noteq> 61) line) \<noteq> key then Skip
      else Found (trim_end (dropWhile isspace (drop 1 (dropWhile (\<lambda>c. c \<noteq> 61) line)))))"

lemma next_token_shrinks: "next_token delims s = (Some t, rest) \<Longrightarrow> length rest < length s"
proof -
  assume a: "next_token delims s = (Some t, rest)"
  obtain c cs where c: "dropWhile (\<lambda>c. c \<in> set delims) s = c # cs"
    using a by (cases "dropWhile (\<lambda>c. c \<in> set delims) s") (auto simp: next_token_def)
  then have "c \<notin> set delims" using hd_dropWhile [of "\<lambda>c. c \<in> set delims" s] by auto
  then have "length rest \<le> length cs"
    using a c length_dropWhile_le [of "\<lambda>c. c \<notin> set delims" cs] by (auto simp: next_token_def)
  moreover have "length (c # cs) \<le> length s" unfolding c [symmetric] by (rule length_dropWhile_le)
  ultimately show ?thesis by simp
qed

text \<open>The loop over the lines; \<open>Skip\<close> when the key has not been found.\<close>

function prop_lines :: "bytes \<Rightarrow> bytes \<Rightarrow> bytes \<Rightarrow> prop_line" where
  "prop_lines key line rest =
     (case prop_line key line of
        Skip \<Rightarrow>
          (case next_token [10] rest of
             (None, _) \<Rightarrow> Skip
           | (Some line, rest) \<Rightarrow> prop_lines key line rest)
      | r \<Rightarrow> r)"
  by pat_completeness auto
termination
  by (relation "measure (\<lambda>(key, line, rest). length rest)") (auto dest: next_token_shrinks next_token_shrinks [OF sym])

declare prop_lines.simps [simp del]

definition MAX_FILE_GETPROP_SIZE :: nat where "MAX_FILE_GETPROP_SIZE = 65536"

text \<open>
  The number of arguments is not looked at, and neither is the first result of \<open>strtok\<close>: a file
  without a line makes the loop read through a null pointer.
\<close>

definition FileGetPropFn :: "('h, 's, 'd, 'z) platform \<Rightarrow> updater Function" where
  "FileGetPropFn P name argv st = reading_args argv 2 (\<lambda>args st. do {
     let filename = args ! 0;
     let key = args ! 1;
     (inode, st) \<leftarrow> on_world (sys_stat (pl_env P) filename) st;
     case inode of
       None \<Rightarrow> fails (name @ str '': failed to stat '' @ quoted filename) st
     | Some inode \<Rightarrow>
         let st_size = length (f_data inode) in
         if st_size > MAX_FILE_GETPROP_SIZE then fails (filename @ str '' too large for '' @ name @ str '' (max 65536)'') st
         else if \<not> pl_malloc P (st_size + 1) then fails (name @ str '': failed to alloc '' @ digits (st_size + 1) @ str '' bytes'') st
         else do {
           (f, st) \<leftarrow> on_world (sys_open (pl_env P) filename) st;
           case f of
             None \<Rightarrow> fails (name @ str '': failed to open '' @ filename) st
           | Some f \<Rightarrow> do {
               (buffer, st) \<leftarrow> on_world (sys_read (pl_env P) (f_data f) 0 st_size) st;
               if length buffer \<noteq> st_size
               then fails (name @ str '': failed to read '' @ digits (st_size + 1) @ str '' bytes from '' @ filename) st
               else
                 (case next_token [10] (cstring buffer) of
                    (None, _) \<Rightarrow> None
                  | (Some line, rest) \<Rightarrow>
                      (case prop_lines key line rest of
                         Skip \<Rightarrow> gives [] st
                       | Malformed line \<Rightarrow>
                           fails (name @ str '': malformed line '' @ quoted line @ str '': '' @ filename @ str '' not a prop file?'') st
                       | Found value \<Rightarrow> gives value st)) } } }) st"

section \<open>Images and patches\<close>

definition WriteRawImageFn :: "('h, 's, 'd, 'z) platform \<Rightarrow> updater Function" where
  "WriteRawImageFn P name argv st = reading_args argv 2 (\<lambda>args st.
     let filename = args ! 0; part = args ! 1 in
     if part = [] then fails (str ''partition argument to '' @ name @ str '' can't be empty'') st
     else if filename = [] then fails (str ''file argument to '' @ name @ str '' can't be empty'') st
     else do {
       (r, st) \<leftarrow> on_machine (restore_raw_partition (pl_kernel P) (pl_env P) None part filename) st;
       gives (if r = 0 then part else []) st }) st"

text \<open>A number of bytes: nothing when no digit could be read.\<close>

definition byte_count :: "bytes \<Rightarrow> u32 option" where
  "byte_count s = (let (v, rest) = strtol10 s in if v = 0 \<and> rest = s then None else Some (of_int v))"

definition ApplyPatchSpaceFn :: "('h, 's, 'd, 'z) platform \<Rightarrow> updater Function" where
  "ApplyPatchSpaceFn P name argv st = reading_args argv 1 (\<lambda>args st.
     case byte_count (args ! 0) of
       None \<Rightarrow> fails (name @ str ''(): can't parse '' @ quoted (args ! 0) @ str '' as byte count'' @ [10, 10]) st
     | Some n \<Rightarrow> do {
         (r, st) \<leftarrow> on_world (CacheSizeCheck (pl_env P) n) st;
         gives (if r \<noteq> 0 then [] else str ''t'') st }) st"

text \<open>The first pair that is not a string and a blob.\<close>

fun bad_pair :: "bytes \<Rightarrow> nat \<Rightarrow> Value list \<Rightarrow> bytes option" where
  "bad_pair name i (s # p # vs) =
     (if vtype s \<noteq> VAL_STRING then Some (name @ str ''(): sha-1 #'' @ digits i @ str '' is not string'')
      else if vtype p \<noteq> VAL_BLOB then Some (name @ str ''(): patch #'' @ digits i @ str '' is not blob'')
      else bad_pair name (i + 1) vs)"
| "bad_pair name i vs = None"

fun evens :: "'a list \<Rightarrow> 'a list" where
  "evens (x # y # xs) = x # evens xs"
| "evens xs = xs"

fun odds :: "'a list \<Rightarrow> 'a list" where
  "odds (x # y # xs) = y # odds xs"
| "odds xs = []"

text \<open>The patches are looked at although reading them may have given \<open>NULL\<close>.\<close>

definition ApplyPatchFn :: "('h, 's, 'd, 'z) platform \<Rightarrow> updater Function" where
  "ApplyPatchFn P name argv st =
     (if length argv < 6 \<or> length argv mod 2 = 1
      then fails (name @ str ''(): expected at least 6 args and an even number, got '' @ digits (length argv)) st
      else reading_args argv 4 (\<lambda>args st.
        case byte_count (args ! 3) of
          None \<Rightarrow> fails (name @ str ''(): can't parse '' @ quoted (args ! 3) @ str '' as byte count'') st
        | Some tgt_size \<Rightarrow> do {
            (patches, st) \<leftarrow> ReadValueVarArgs (drop 4 argv) st;
            patches \<leftarrow> patches;
            case bad_pair name 0 patches of
              Some msg \<Rightarrow> fails msg st
            | None \<Rightarrow> do {
                (result, st) \<leftarrow> on_machine (in_world
                  (applypatch (pl_malloc P) (pl_sha P) (pl_bz P) (pl_zimg P) (pl_env P) (pl_mtd P) (args ! 0) (args ! 1) (args ! 2)
                     tgt_size (map vdata (evens patches)) (odds patches))) st;
                gives (if result = 0 then str ''t'' else []) st } }) st)"

definition ApplyPatchCheckFn :: "('h, 's, 'd, 'z) platform \<Rightarrow> updater Function" where
  "ApplyPatchCheckFn P name argv st =
     (if length argv < 1 then fails (name @ str ''(): expected at least 1 arg, got '' @ digits (length argv)) st
      else reading_args argv 1 (\<lambda>args st. do {
        (sha1s, st) \<leftarrow> ReadVarArgs (drop 1 argv) st;
        sha1s \<leftarrow> sha1s;
        (result, st) \<leftarrow> on_machine (in_world
          (applypatch_check (pl_malloc P) (pl_sha P) (pl_env P) (pl_mtd P) (args ! 0) sha1s)) st;
        gives (if result = 0 then str ''t'' else []) st }) st)"

section \<open>Messages, programs and digests\<close>

function ui_lines :: "bytes \<Rightarrow> bytes" where
  "ui_lines s =
     (case next_token [10] s of
        (None, _) \<Rightarrow> []
      | (Some line, rest) \<Rightarrow> str ''ui_print '' @ line @ [10] @ ui_lines rest)"
  by pat_completeness auto
termination
  by (relation "measure length") (auto dest: next_token_shrinks next_token_shrinks [OF sym])

declare ui_lines.simps [simp del]

text \<open>\<open>strtok\<close> ends the buffer behind its first line.\<close>

definition first_token_kept :: "bytes \<Rightarrow> bytes" where
  "first_token_kept s =
     takeWhile (\<lambda>c. c = 10) s @ takeWhile (\<lambda>c. c \<noteq> 10) (dropWhile (\<lambda>c. c = 10) s)"

definition UIPrintFn :: "updater Function" where
  "UIPrintFn name argv st = do {
     (args, st) \<leftarrow> ReadVarArgs argv st;
     case args of
       None \<Rightarrow> Some (None, st)
     | Some args \<Rightarrow>
         let buffer = concat args in
         gives (first_token_kept buffer) (to_pipe (ui_lines buffer @ str ''ui_print'' @ [10]) st) }"

definition ShowProgressFn :: "('h, 's, 'd, 'z) platform \<Rightarrow> updater Function" where
  "ShowProgressFn P name argv st =
     (if length argv \<noteq> 2 then expects name ''2 args'' (length argv) st
      else reading_args argv 2 (\<lambda>args st.
        gives (args ! 0) (to_pipe (str ''progress '' @ pl_float P (args ! 0) @ [32] @
          decimal_string (fst (strtol10 (args ! 1))) @ [10]) st)) st)"

definition SetProgressFn :: "('h, 's, 'd, 'z) platform \<Rightarrow> updater Function" where
  "SetProgressFn P name argv st =
     (if length argv \<noteq> 1 then expects name ''1 arg'' (length argv) st
      else reading_args argv 1 (\<lambda>args st.
        gives (args ! 0) (to_pipe (str ''set_progress '' @ pl_float P (args ! 0) @ [10]) st)) st)"

definition RunProgramFn :: "('h, 's, 'd, 'z) platform \<Rightarrow> updater Function" where
  "RunProgramFn P name argv st =
     (if length argv < 1 then fails (name @ str ''() expects at least 1 arg'') st
      else do {
        (args, st) \<leftarrow> ReadVarArgs argv st;
        case args of
          None \<Rightarrow> Some (None, st)
        | Some args \<Rightarrow> do {
            (status, st) \<leftarrow> on_world (pl_run P args) st;
            gives (decimal_string status) st } })"

definition hex_alphabet :: bytes where
  "hex_alphabet = str ''0123456789abcdef''"

definition PrintSha1 :: "bytes \<Rightarrow> bytes" where
  "PrintSha1 digest = concat (map (\<lambda>b. [hex_alphabet ! unat (drop_bit 4 b AND 0xf), hex_alphabet ! unat (b AND 0xf)]) digest)"

fun matching_digest :: "bytes \<Rightarrow> Value list \<Rightarrow> Value option" where
  "matching_digest digest [] = None"
| "matching_digest digest (v # vs) =
     (if vtype v \<noteq> VAL_STRING then matching_digest digest vs
      else case ParseSha1 (vdata v) of
        None \<Rightarrow> matching_digest digest vs
      | Some d \<Rightarrow> if d = digest then Some v else matching_digest digest vs)"

definition Sha1CheckFn :: "('h, 's, 'd, 'z) platform \<Rightarrow> updater Function" where
  "Sha1CheckFn P name argv st =
     (if length argv < 1 then fails (name @ str ''() expects at least 1 arg'') st
      else do {
        (args, st) \<leftarrow> ReadValueVarArgs argv st;
        case args of
          None \<Rightarrow> Some (None, st)
        | Some args \<Rightarrow>
            if negative_size (args ! 0) then gives [] st
            else
              let digest = SHA (pl_sha P) (vdata (args ! 0)) in
              if length argv = 1 then gives (PrintSha1 digest) st
              else case matching_digest digest (drop 1 args) of
                None \<Rightarrow> gives [] st
              | Some v \<Rightarrow> Some (Some v, st) })"

definition ReadFileFn :: "('h, 's, 'd, 'z) platform \<Rightarrow> updater Function" where
  "ReadFileFn P name argv st =
     (if length argv \<noteq> 1 then expects name ''1 arg'' (length argv) st
      else reading_args argv 1 (\<lambda>args st. do {
        (fc, st) \<leftarrow> on_machine (in_world (LoadFileContents (pl_malloc P) (pl_sha P) (pl_env P) (pl_mtd P) (args ! 0))) st;
        case fc of
          None \<Rightarrow> fails (name @ str ''() loading '' @ quoted (args ! 0) @ str '' failed'') st
        | Some fc \<Rightarrow> Some (Some \<lparr>vtype = VAL_BLOB, vsize = length (fc_data fc), vdata = fc_data fc\<rparr>, st) }) st)"

section \<open>Registration\<close>

definition install_functions :: "('h, 's, 'd, 'z) platform \<Rightarrow> (bytes \<times> updater Function) list" where
  "install_functions P =
     [(str ''mount'', MountFn P), (str ''is_mounted'', IsMountedFn P), (str ''unmount'', UnmountFn P), (str ''format'', FormatFn P),
      (str ''show_progress'', ShowProgressFn P), (str ''set_progress'', SetProgressFn P), (str ''delete'', DeleteFn P),
      (str ''delete_recursive'', DeleteFn P), (str ''package_extract_dir'', PackageExtractDirFn P),
      (str ''package_extract_file'', PackageExtractFileFn P), (str ''symlink'', SymlinkFn P), (str ''set_perm'', SetPermFn P),
      (str ''set_perm_recursive'', SetPermFn P), (str ''getprop'', GetPropFn P), (str ''file_getprop'', FileGetPropFn P),
      (str ''write_raw_image'', WriteRawImageFn P), (str ''apply_patch'', ApplyPatchFn P), (str ''apply_patch_check'', ApplyPatchCheckFn P),
      (str ''apply_patch_space'', ApplyPatchSpaceFn P), (str ''read_file'', ReadFileFn P), (str ''sha1_check'', Sha1CheckFn P),
      (str ''ui_print'', UIPrintFn), (str ''run_program'', RunProgramFn P)]"

definition RegisterInstallFunctions :: "('h, 's, 'd, 'z) platform \<Rightarrow> updater fn_table \<Rightarrow> updater fn_table" where
  "RegisterInstallFunctions P t = foldl (\<lambda>t (name, fn). RegisterFunction name fn t) t (install_functions P)"

end
