(* ===== verification/UpdaterReports.thy ===== *)
theory UpdaterReports
  imports Updater
begin

text \<open>
  The functions of the update program keep the contract \<open>edify_fn\<close> of \<open>Edify\<close>: a result
  \<open>NULL\<close> comes with a message.  \<open>format\<close> does not.
\<close>

section \<open>Rules\<close>

lemma null_ok_fails [null_rules]: "null_ok (fails msg st)"
  by (simp add: fails_def ErrorAbort_def null_ok_def)

lemma null_ok_expects [null_rules]: "null_ok (expects name what argc st)"
  unfolding expects_def by (rule null_ok_fails)

lemma null_ok_not_valid [null_rules]: "null_ok (not_valid name arg what st)"
  unfolding not_valid_def by (rule null_ok_fails)

lemma null_ok_cannot_be_empty [null_rules]: "null_ok (cannot_be_empty name what st)"
  unfolding cannot_be_empty_def by (rule null_ok_fails)

lemma null_ok_gives [null_rules]: "null_ok (gives s st)"
  unfolding gives_def by (rule null_rules)

lemma null_ok_step: "(\<And>a st. null_ok (f a st)) \<Longrightarrow> null_ok (m \<bind> (\<lambda>(a, st). f a st))"
  by (cases m) (auto simp: null_ok_def)

lemma null_ok_defined: "(\<And>a. null_ok (f a)) \<Longrightarrow> null_ok ((m :: 'a option) \<bind> f)"
  by (cases m) (auto simp: null_ok_def)

lemma null_ok_option: "null_ok x \<Longrightarrow> (\<And>a. null_ok (f a)) \<Longrightarrow> null_ok (case a of None \<Rightarrow> x | Some a \<Rightarrow> f a)"
  by (cases a) auto

lemma null_ok_reading_args [null_rules]:
  assumes "\<forall>a \<in> set argv. reports a" and "\<And>args st. null_ok (f args st)"
  shows "null_ok (reading_args argv n f st)"
  unfolding reading_args_def ReadArgs_def using assms by (auto intro!: null_rules)

lemma null_ok_ReadVarArgs [null_rules]:
  "\<forall>a \<in> set argv. reports a \<Longrightarrow> null_ok (ReadVarArgs argv st)" "\<forall>a \<in> set argv. reports a \<Longrightarrow> null_ok (ReadValueVarArgs argv st)"
  unfolding ReadVarArgs_def ReadValueVarArgs_def by (auto intro!: null_rules)

lemma null_ok_Let: "null_ok (f x) \<Longrightarrow> null_ok (let y = x in f y)"
  by simp

lemmas step_rules = null_ok_option
  null_ok_defined [where 'a = "Value list"] null_ok_defined [where 'a = "bytes list"]
  null_ok_defined [where 'a = Value] null_ok_defined [where 'a = "ZipEntry option"]
  null_ok_step [where m = "on_machine f st" for f st] null_ok_step [where m = "on_world f st" for f st]
  null_ok_step [where m = "ReadVarArgs (drop n argv) st" for n argv st] null_ok_step [where m = "ReadValueVarArgs (drop n argv) st" for n argv st]
  null_ok_step [where m = "find_mounted P mp st" for P mp st]
  null_ok_step [where m = "case v of None \<Rightarrow> Some (False, st) | Some a \<Rightarrow> f a" for v st f]
  null_ok_step [where m = "if c then on_machine f st else on_world g st'" for c f g st st']

section \<open>The functions\<close>

interpretation mount_fn: edify_fn "MountFn P"
  by unfold_locales (auto simp: MountFn_def Let_def intro!: null_rules step_rules)

interpretation is_mounted_fn: edify_fn "IsMountedFn P"
  by unfold_locales (auto simp: IsMountedFn_def Let_def intro!: null_rules step_rules)

interpretation unmount_fn: edify_fn "UnmountFn P"
  by unfold_locales (auto simp: UnmountFn_def Let_def intro!: null_rules step_rules)

interpretation show_progress_fn: edify_fn "ShowProgressFn P"
  by unfold_locales (auto simp: ShowProgressFn_def intro!: null_rules)

interpretation set_progress_fn: edify_fn "SetProgressFn P"
  by unfold_locales (auto simp: SetProgressFn_def intro!: null_rules)

interpretation extract_dir_fn: edify_fn "PackageExtractDirFn P"
  by unfold_locales (auto simp: PackageExtractDirFn_def intro!: null_rules step_rules)

interpretation extract_file_fn: edify_fn "PackageExtractFileFn P"
  by unfold_locales (auto simp: PackageExtractFileFn_def intro!: null_rules step_rules)

interpretation write_raw_image_fn: edify_fn "WriteRawImageFn P"
  by unfold_locales (auto simp: WriteRawImageFn_def Let_def intro!: null_rules step_rules)

interpretation apply_patch_space_fn: edify_fn "ApplyPatchSpaceFn P"
  by unfold_locales (auto simp: ApplyPatchSpaceFn_def intro!: null_rules step_rules)

interpretation apply_patch_fn: edify_fn "ApplyPatchFn P"
  by unfold_locales (auto simp: ApplyPatchFn_def intro!: null_rules step_rules)

interpretation apply_patch_check_fn: edify_fn "ApplyPatchCheckFn P"
  by unfold_locales (auto simp: ApplyPatchCheckFn_def intro!: null_rules step_rules)

interpretation read_file_fn: edify_fn "ReadFileFn P"
  by unfold_locales (auto simp: ReadFileFn_def intro!: null_rules step_rules)

interpretation ui_print_fn: edify_fn UIPrintFn
  by unfold_locales (auto simp: UIPrintFn_def Let_def intro!: null_rules)

interpretation run_program_fn: edify_fn "RunProgramFn P"
  by unfold_locales (auto simp: RunProgramFn_def intro!: null_rules step_rules)

interpretation sha1_check_fn: edify_fn "Sha1CheckFn P"
  by unfold_locales (auto simp: Sha1CheckFn_def Let_def intro!: null_rules step_rules)

lemma null_ok_prop [null_rules]:
  "(\<And>l r. null_ok (f l r)) \<Longrightarrow> null_ok (case next_token d s of (None, _) \<Rightarrow> None | (Some l, r) \<Rightarrow> f l r)"
  "null_ok x \<Longrightarrow> (\<And>l. null_ok (g l)) \<Longrightarrow> (\<And>v. null_ok (h v)) \<Longrightarrow>
    null_ok (case p of Skip \<Rightarrow> x | Malformed l \<Rightarrow> g l | Found v \<Rightarrow> h v)"
  by (auto split: prod.split option.split prop_line.split simp: null_ok_def)

interpretation file_getprop_fn: edify_fn "FileGetPropFn P"
  unfolding FileGetPropFn_def Let_def by unfold_locales (auto intro!: null_rules step_rules)

interpretation get_prop_fn: edify_fn "GetPropFn P"
  by unfold_locales (auto simp: GetPropFn_def split: list.split intro!: null_rules)

interpretation symlink_fn: edify_fn "SymlinkFn P"
  by unfold_locales (auto simp: SymlinkFn_def split: list.split intro!: null_rules step_rules)

interpretation set_perm_fn: edify_fn "SetPermFn P"
proof (unfold_locales)
  fix argv :: "updater arg list" and name st
  assume r: "\<forall>a \<in> set argv. reports a"
  show "null_ok (SetPermFn P name argv st)"
    unfolding SetPermFn_def Let_def
    by (intro null_ok_if null_ok_fails null_ok_bind null_ok_ReadVarArgs(1) [OF r] null_ok_option null_ok_not_valid null_ok_gives
        null_ok_step [where m = "on_machine f st" for f st] null_ok_step [where m = "on_world f st" for f st])
qed

lemma delete_paths_null_ok:
  assumes "\<forall>a \<in> set argv. reports a"
  shows "null_ok (delete_paths argv i st)"
  using assms
proof (induction argv arbitrary: i st)
  case (Cons a argv)
  have ev: "null_ok (Evaluate a st)" using Cons.prems by (intro null_ok_Evaluate) simp
  have rest: "null_ok (delete_paths argv j st' \<bind> (\<lambda>(vs, st). Some (map_option f vs, st)))" for j st' and f :: "bytes list \<Rightarrow> bytes list"
    using Cons by (intro null_ok_map(1)) simp
  show ?case
  proof (cases "Evaluate a st")
    case (Some p)
    then show ?thesis using ev rest by (cases p; cases "fst p") (auto simp: null_ok_def)
  qed (simp add: null_ok_def)
qed (simp add: null_ok_def)

interpretation delete_fn: edify_fn "DeleteFn P"
  by unfold_locales (auto simp: DeleteFn_def intro!: null_rules delete_paths_null_ok step_rules)

section \<open>Update scripts\<close>

definition builtin_functions :: "updater Function set" where
  "builtin_functions = {ConcatFn, IfElseFn, AbortFn, AssertFn, StdoutFn, SleepFn, LogicalAndFn, LogicalOrFn, LogicalNotFn,
     SubstringFn, EqualityFn, InequalityFn, SequenceFn, LessThanIntFn, GreaterThanIntFn, Literal}"

lemma installed_fn:
  assumes "(name, f) \<in> set (install_functions P)" and "name \<noteq> str ''format''"
  shows "edify_fn f"
  using assms by (auto simp: install_functions_def intro: mount_fn.edify_fn_axioms is_mounted_fn.edify_fn_axioms
      unmount_fn.edify_fn_axioms show_progress_fn.edify_fn_axioms set_progress_fn.edify_fn_axioms delete_fn.edify_fn_axioms
      extract_dir_fn.edify_fn_axioms extract_file_fn.edify_fn_axioms symlink_fn.edify_fn_axioms set_perm_fn.edify_fn_axioms
      get_prop_fn.edify_fn_axioms file_getprop_fn.edify_fn_axioms write_raw_image_fn.edify_fn_axioms apply_patch_fn.edify_fn_axioms
      apply_patch_check_fn.edify_fn_axioms apply_patch_space_fn.edify_fn_axioms read_file_fn.edify_fn_axioms
      sha1_check_fn.edify_fn_axioms ui_print_fn.edify_fn_axioms run_program_fn.edify_fn_axioms)

lemma builtin_fn: "f \<in> builtin_functions \<Longrightarrow> edify_fn f"
  by (auto simp: builtin_functions_def intro: concat_fn.edify_fn_axioms ifelse_fn.edify_fn_axioms abort_fn.edify_fn_axioms
      assert_fn.edify_fn_axioms stdout_fn.edify_fn_axioms sleep_fn.edify_fn_axioms and_fn.edify_fn_axioms or_fn.edify_fn_axioms
      not_fn.edify_fn_axioms substring_fn.edify_fn_axioms equality_fn.edify_fn_axioms inequality_fn.edify_fn_axioms
      sequence_fn.edify_fn_axioms less_fn.edify_fn_axioms greater_fn.edify_fn_axioms literal_fn.edify_fn_axioms)

text \<open>
  C12: In a script of builtin and installed functions an evaluation that returns \<open>NULL\<close> has set
  the error message, unless it calls \<open>format\<close>: only then can the updater have to print "script
  aborted (no error message)".
\<close>

theorem update_script_reports:
  assumes "\<forall>f \<in> fns e. f \<in> builtin_functions \<or> (\<exists>name. name \<noteq> str ''format'' \<and> (name, f) \<in> set (install_functions P))"
    and "Evaluate (eval_expr e) st = Some (None, st')"
  shows "errmsg st' \<noteq> None"
proof -
  have "\<forall>f \<in> fns e. edify_fn f" using assms(1) installed_fn builtin_fn by blast
  then show ?thesis using null_ok_Evaluate [OF expr_reports, of e st] assms(2) by (auto simp: null_ok_def)
qed

text \<open>An updater on a machine where every call succeeds and nothing is stored.\<close>

definition small_kernel :: "(mtd_state world) kernel" where
  "small_kernel = \<lparr>os_stat = \<lambda>path w. StatNoEnt, os_mkdir = \<lambda>_ _ w. (0, w),
     os_utime = \<lambda>_ _ w. (0, w), k_malloc = \<lambda>_. True, k_nand = small_nand, k_proc_mounts = \<lambda>w. (Some [], w),
     k_mount = \<lambda>_ _ _ _ _ w. (0, w), k_umount = \<lambda>_ w. (0, w), k_system = \<lambda>_ w. (0, w), k_exec = \<lambda>_ w. (0, w),
     k_mode = \<lambda>_ _. Some 0x1FF, k_chmod = \<lambda>_ _ w. (0, w), k_access = \<lambda>path w. False,
     k_rmdir = \<lambda>_ w. w, k_symlink = \<lambda>_ _ w. w, k_make_ext4fs = \<lambda>_ w. (0, w), k_read = \<lambda>path w. (None, w),
     k_write = \<lambda>path append d w. (True, w), k_unlink = \<lambda>path w. (0, w), k_uid = \<lambda>_ _. 0, k_errno = \<lambda>_. 0\<rparr>"

definition small_platform :: "(bytes, bytes, bytes, unit) platform" where
  "small_platform = \<lparr>pl_kernel = small_kernel, pl_env = generous_env,
     pl_tree = \<lparr>t_lstat = \<lambda>_ _. None, t_unlink = \<lambda>_ w. (0, w), t_rmdir = \<lambda>_ w. (0, w), t_opendir = \<lambda>_ _. None,
       t_closedir = \<lambda>_ _. 0, t_chown = \<lambda>_ _ _ w. (0, w), t_chmod = \<lambda>_ _ w. (0, w)\<rparr>,
     pl_xos = \<lparr>os_stat = \<lambda>_ _. StatNoEnt, os_mkdir = \<lambda>_ _ w. (0, w), os_utime = \<lambda>_ _ w. (0, w), os_symlink = \<lambda>_ _ w. (0, w),
       os_creat = \<lambda>_ w. (0, w), os_write = \<lambda>_ d w. ((int (length d), False), w), os_close = \<lambda>_ w. w\<rparr>,
     pl_sha = toy_sha, pl_bz = stored_bz, pl_zimg = toy_zlib, pl_zlib = no_zlib, pl_reader = \<lambda>_ _. None,
     pl_property = \<lambda>_ _. [], pl_float = id, pl_run = \<lambda>_ w. (0, w), pl_stray = 0, pl_use_ext4 = False\<rparr>"

definition small_updater :: updater where
  "small_updater = \<lparr>m_world = flash_world, m_mmc = \<lparr>mmc_partitions = [], mmc_count = -1\<rparr>, m_mounts = [], m_mount_count = 0,
     m_flash_type = UNKNOWN, cmd_pipe = [], package_zip = sample_paths, api_version = 3\<rparr>"

definition start_state :: "updater State" where
  "start_state = \<lparr>cookie = small_updater, script = [], errmsg = None, stdout = [], sleeps = []\<rparr>"

theorem update_script_reports_witness:
  "\<exists>st'. Evaluate (eval_expr (Expr (MountFn small_platform) (str ''mount'') [] 0 7)) start_state = Some (None, st') \<and>
    errmsg st' \<noteq> None"
proof -
  let ?e = "Expr (MountFn small_platform) (str ''mount'') [] 0 7"
  let ?st = "ErrorAbort (str ''mount'' @ str ''() expects '' @ str ''4 args'' @ str '', got '' @ digits 0) start_state"
  have run: "Evaluate (eval_expr ?e) start_state = Some (None, ?st)"
    by (simp add: Evaluate_def MountFn_def expects_def fails_def)
  have "(str ''mount'', MountFn small_platform) \<in> set (install_functions small_platform)" "str ''mount'' \<noteq> str ''format''"
    by (simp_all add: install_functions_def str_def)
  then have "\<exists>name. name \<noteq> str ''format'' \<and> (name, MountFn small_platform) \<in> set (install_functions small_platform)" by metis
  moreover have "fns ?e = {MountFn small_platform}" by simp
  ultimately have fns: "\<forall>f \<in> fns ?e. f \<in> builtin_functions \<or>
      (\<exists>name. name \<noteq> str ''format'' \<and> (name, f) \<in> set (install_functions small_platform))" by simp
  from update_script_reports [OF fns run] run show ?thesis by (intro exI conjI)
qed

text \<open>\<open>format\<close> with an unknown type: \<open>NULL\<close>, and no message.\<close>

lemma format_unsupported_silent:
  "Evaluate (eval_expr (Expr (FormatFn small_platform) (str ''format'')
      [Expr Literal (str ''jffs2'') [] 0 0, Expr Literal (str ''EMMC'') [] 0 0, Expr Literal (str ''x'') [] 0 0] 0 0)) start_state =
    Some (None, start_state)"
  by (simp add: Evaluate_def FormatFn_def reading_args_def ReadArgs_def numeral_3_eq_3 Literal_def StringValue_def str_def
      small_platform_def)

end
