(* ===== verification/PropFile.thy ===== *)
theory PropFile
  imports UpdaterReports
begin

text \<open>
  What \<open>file_getprop\<close> computes: a file of properties, and the value of a key in it.
\<close>

section \<open>Files of properties\<close>

datatype prop_entry = Remark bytes | Prop bytes bytes

primrec entry_line :: "prop_entry \<Rightarrow> bytes" where
  "entry_line (Remark c) = 35 # c"
| "entry_line (Prop k v) = k @ [61] @ v"

definition prop_text :: "prop_entry list \<Rightarrow> bytes" where
  "prop_text es = concat (map (\<lambda>e. entry_line e @ [10]) es)"

definition tight :: "bytes \<Rightarrow> bool" where
  "tight s \<longleftrightarrow> s = [] \<or> (\<not> isspace (hd s) \<and> \<not> isspace (last s))"

primrec entry_fine :: "prop_entry \<Rightarrow> bool" where
  "entry_fine (Remark c) \<longleftrightarrow> 10 \<notin> set c \<and> 0 \<notin> set c"
| "entry_fine (Prop k v) \<longleftrightarrow> k \<noteq> [] \<and> hd k \<noteq> 35 \<and> 61 \<notin> set k \<and> 10 \<notin> set (k @ v) \<and> 0 \<notin> set (k @ v) \<and> tight k \<and> tight v"

text \<open>The value of the first property with the key.\<close>

fun prop_value :: "prop_entry list \<Rightarrow> bytes \<Rightarrow> bytes option" where
  "prop_value [] key = None"
| "prop_value (Remark c # es) key = prop_value es key"
| "prop_value (Prop k v # es) key = (if k = key then Some v else prop_value es key)"

section \<open>The loop\<close>

lemma tight_trim:
  assumes "tight s"
  shows "dropWhile isspace s = s" "trim_end s = s"
proof -
  show "dropWhile isspace s = s" using assms by (cases s) (auto simp: tight_def)
  have "dropWhile isspace (rev s) = rev s" using assms by (cases s rule: rev_cases) (auto simp: tight_def)
  then show "trim_end s = s" by (simp add: trim_end_def)
qed

lemma prop_line_entry:
  assumes "entry_fine e"
  shows "prop_line key (entry_line e) =
    (case e of Remark c \<Rightarrow> Skip | Prop k v \<Rightarrow> if k = key then Found v else Skip)"
proof (cases e)
  case (Remark c)
  then show ?thesis by (simp add: prop_line_def isspace_def)
next
  case (Prop k v)
  then obtain c cs where k: "k = c # cs" "\<not> isspace c" "c \<noteq> 35" "61 \<notin> set k" "tight k" "tight v"
    using assms by (cases k) (auto simp: tight_def)
  have kh: "k \<noteq> []" "hd k \<noteq> 35" using k(1,3) by simp_all
  have d: "dropWhile isspace (k @ 61 # v) = k @ 61 # v" using k(1,2) by simp
  have e: "takeWhile (\<lambda>c. c \<noteq> 61) (k @ 61 # v) = k" "dropWhile (\<lambda>c. c \<noteq> 61) (k @ 61 # v) = 61 # v"
    using k(4) by (auto simp: takeWhile_append dropWhile_append)
  have "prop_line key (k @ 61 # v) = (if trim_end k \<noteq> key then Skip else Found (trim_end (dropWhile isspace (drop 1 (61 # v)))))"
    unfolding prop_line_def Let_def d e using kh by (simp add: hd_append)
  then show ?thesis by (simp add: Prop tight_trim [OF k(5)] tight_trim [OF k(6)])
qed

lemma next_token_entry:
  assumes "entry_fine e"
  shows "next_token [10] (entry_line e @ 10 # rest) = (Some (entry_line e), rest)"
proof -
  have l: "entry_line e \<noteq> []" "10 \<notin> set (entry_line e)" using assms by (cases e; auto)+
  have "dropWhile (\<lambda>c. c \<in> set [10]) (entry_line e @ 10 # rest) = entry_line e @ 10 # rest"
    using l by (cases "entry_line e") auto
  moreover have "takeWhile (\<lambda>c. c \<notin> set [10]) (entry_line e @ 10 # rest) = entry_line e"
    "dropWhile (\<lambda>c. c \<notin> set [10]) (entry_line e @ 10 # rest) = 10 # rest"
    using l(2) by (auto simp: takeWhile_append dropWhile_append)
  ultimately show ?thesis using l(1) by (cases "entry_line e") (auto simp: next_token_def)
qed

lemma prop_lines_entries:
  assumes "\<forall>e \<in> set (e # es). entry_fine e"
  shows "prop_lines key (entry_line e) (prop_text es) = (case prop_value (e # es) key of None \<Rightarrow> Skip | Some v \<Rightarrow> Found v)"
  using assms
proof (induction es arbitrary: e)
  case Nil
  have "next_token [10] (prop_text []) = (None, [])" by (simp add: next_token_def prop_text_def)
  then show ?case using prop_line_entry [of e key] Nil by (subst prop_lines.simps) (cases e; auto)
next
  case (Cons e' es)
  have "next_token [10] (prop_text (e' # es)) = (Some (entry_line e'), prop_text es)"
    using next_token_entry [of e' "prop_text es"] Cons.prems by (simp add: prop_text_def)
  then show ?case using prop_line_entry [of e key] Cons by (subst prop_lines.simps) (cases e; auto)
qed

lemma prop_text_no_nul: "\<forall>e \<in> set es. entry_fine e \<Longrightarrow> 0 \<notin> set (prop_text es)"
proof -
  have "entry_fine e \<Longrightarrow> 0 \<notin> set (entry_line e)" for e by (cases e) auto
  then show "\<forall>e \<in> set es. entry_fine e \<Longrightarrow> 0 \<notin> set (prop_text es)" by (auto simp: prop_text_def)
qed

section \<open>The function\<close>

text \<open>
  C34: On a file of properties, one per line with comment lines between them, that is not empty and
  not larger than 65536 bytes, \<open>file_getprop\<close> returns the value of the first property with the
  key, and the empty string when there is none, provided no system call fails.
\<close>

theorem file_getprop_finds:
  assumes "ReadArgs argv 2 st = Some (Some [file, key], st1)"
    and "fs (m_world (cookie st1)) file = Some f" and "f_data f = prop_text es" and "es \<noteq> []"
    and "\<forall>e \<in> set es. entry_fine e" and "length (prop_text es) \<le> 65536"
    and "\<And>t. granted (pl_env P) t \<and> 65536 \<le> amount (pl_env P) t" and "\<And>n. pl_malloc P n"
  shows "\<exists>st2. FileGetPropFn P name argv st =
    Some (StringValue (Some (case prop_value es key of None \<Rightarrow> [] | Some v \<Rightarrow> v)), st2)"
proof -
  let ?w = "m_world (cookie st1)"
  obtain e es' where es: "es = e # es'" using assms(4) by (cases es) auto
  have stat: "sys_stat (pl_env P) file ?w = (Some f, step_clock ?w)"
    "sys_open (pl_env P) file (step_clock ?w) = (Some f, step_clock (step_clock ?w))"
    using assms(2,7) by (simp_all add: sys_open_def sys_stat_def)
  have "length (prop_text es) \<le> amount (pl_env P) t" for t using assms(6,7) le_trans by blast
  then have read: "sys_read (pl_env P) (prop_text es) 0 (length (prop_text es)) w = (prop_text es, step_clock w)" for w
    by (simp add: sys_read_def)
  have c: "cstring (prop_text es) = prop_text es"
    using prop_text_no_nul [OF assms(5)] by (auto simp: cstring_def takeWhile_eq_all_conv)
  have "next_token [10] (prop_text es) = (Some (entry_line e), prop_text es')"
    using next_token_entry [of e "prop_text es'"] assms(5) by (simp add: prop_text_def es)
  moreover have "prop_lines key (entry_line e) (prop_text es') = (case prop_value es key of None \<Rightarrow> Skip | Some v \<Rightarrow> Found v)"
    using prop_lines_entries [of e es' key] assms(5) by (simp add: es)
  ultimately show ?thesis
    using assms(6,8) by (auto simp: FileGetPropFn_def reading_args_def assms(1,3) on_world_def on_machine_def in_world_def stat read c
        MAX_FILE_GETPROP_SIZE_def gives_def split: option.split)
qed

definition prop_updater :: "updater State" where
  "prop_updater = start_state\<lparr>cookie := small_updater\<lparr>m_world := flash_world\<lparr>fs := [str ''/b.prop'' \<mapsto>
     \<lparr>f_data = prop_text [Remark (str ''x=1''), Prop (str ''x'') (str ''a b''), Prop (str ''x'') (str ''c'')],
      f_regular = True, f_mode = 0, f_uid = 0, f_gid = 0\<rparr>]\<rparr>\<rparr>\<rparr>"

theorem file_getprop_finds_witness:
  "\<exists>st2. FileGetPropFn small_platform (str ''file_getprop'')
     [eval_expr (Expr Literal (str ''/b.prop'') [] 0 0), eval_expr (Expr Literal (str ''x'') [] 0 0)] prop_updater =
       Some (StringValue (Some (str ''a b'')), st2)"
proof -
  let ?es = "[Remark (str ''x=1''), Prop (str ''x'') (str ''a b''), Prop (str ''x'') (str ''c'')]"
  have args: "ReadArgs [eval_expr (Expr Literal (str ''/b.prop'') [] 0 0), eval_expr (Expr Literal (str ''x'') [] 0 0)] 2 prop_updater =
      Some (Some [str ''/b.prop'', str ''x''], prop_updater)"
    by (simp add: ReadArgs_def numeral_2_eq_2 Literal_def Evaluate_def StringValue_def)
  have "list_all entry_fine ?es" by code_simp
  moreover have "length (prop_text ?es) \<le> 65536" by (simp add: prop_text_def str_def)
  moreover have "prop_value ?es (str ''x'') = Some (str ''a b'')" by simp
  moreover have "fs (m_world (cookie prop_updater)) (str ''/b.prop'') =
      Some \<lparr>f_data = prop_text ?es, f_regular = True, f_mode = 0, f_uid = 0, f_gid = 0\<rparr>"
    by (simp add: prop_updater_def small_updater_def)
  moreover have "granted (pl_env small_platform) t \<and> 65536 \<le> amount (pl_env small_platform) t" for t
    by (simp add: small_platform_def generous_env_def)
  moreover have "pl_malloc small_platform n" for n by (simp add: small_platform_def small_kernel_def)
  ultimately show ?thesis
    using file_getprop_finds [OF args, of "\<lparr>f_data = prop_text ?es, f_regular = True, f_mode = 0, f_uid = 0, f_gid = 0\<rparr>" ?es small_platform]
    unfolding list_all_iff by (metis inode.select_convs(1) list.distinct(1) option.simps(5))
qed

end
