(* ===== verification/Verifier.thy ===== *)
theory Verifier
  imports Files
begin

text \<open>
  The verification of update packages, \<open>verifier.c\<close>.

  RSA of \<open>mincrypt\<close> is a parameter: the number of bytes of a signature and the test of a
  signature against a digest.  Files that are too long for the \<open>long\<close> of \<open>ftell\<close> cannot be
  sought in.  The calls of the user interface that show the progress are left out.
\<close>

section \<open>verify\_file\<close>

record 'k rsa =
  rsa_numbytes :: nat
  rsa_verify :: "'k \<Rightarrow> bytes \<Rightarrow> bytes \<Rightarrow> bool"

definition VERIFY_SUCCESS :: int where "VERIFY_SUCCESS = 0"
definition VERIFY_FAILURE :: int where "VERIFY_FAILURE = 1"
definition FOOTER_SIZE :: nat where "FOOTER_SIZE = 6"
definition EOCD_HEADER_SIZE :: nat where "EOCD_HEADER_SIZE = 22"
definition BUFFER_SIZE :: nat where "BUFFER_SIZE = 4096"

text \<open>The position \<open>fseek\<close> finds \<open>n\<close> bytes before the end.\<close>

definition seek_end :: "bytes \<Rightarrow> nat \<Rightarrow> nat option" where
  "seek_end content n = (if length content < n \<or> length content \<ge> 2 ^ 31 then None else Some (length content - n))"

definition eocd_at :: "bytes \<Rightarrow> nat \<Rightarrow> bool" where
  "eocd_at b i \<longleftrightarrow> take 4 (drop i b) = [0x50, 0x4b, 0x05, 0x06]"

text \<open>The digest of the first \<open>left\<close> bytes from \<open>pos\<close> on, in portions of a buffer.\<close>

function hash_loop :: "('h, 'z) sha_scheme \<Rightarrow> env \<Rightarrow> bytes \<Rightarrow> nat \<Rightarrow> nat \<Rightarrow> 'h \<Rightarrow> 'm world \<Rightarrow> 'h option \<times> 'm world" where
  "hash_loop sha env content so_far signed_len ctx w =
     (if \<not> so_far < signed_len then (Some ctx, w)
      else
        let size_of = (if signed_len - so_far < BUFFER_SIZE then signed_len - so_far else BUFFER_SIZE);
            (buffer, w) = sys_read env content so_far size_of w in
        if length buffer \<noteq> size_of then (None, w)
        else hash_loop sha env content (so_far + size_of) signed_len (sha_update sha buffer ctx) w)"
  by pat_completeness auto
termination
  by (relation "measure (\<lambda>(sha, env, content, so_far, signed_len, ctx, w). signed_len - so_far)")
    (auto simp: BUFFER_SIZE_def)

declare hash_loop.simps [simp del]

text \<open>The body once the file is open; an address before the buffer of the record is undefined.\<close>

definition verify_content ::
    "(nat \<Rightarrow> bool) \<Rightarrow> ('h, 'z) sha_scheme \<Rightarrow> ('k, 'y) rsa_scheme \<Rightarrow> env \<Rightarrow> 'k list \<Rightarrow> bytes \<Rightarrow> 'm world \<Rightarrow> (int \<times> 'm world) option" where
  "verify_content malloc sha rsa env pKeys content w =
     (case seek_end content FOOTER_SIZE of
        None \<Rightarrow> Some (VERIFY_FAILURE, w)
      | Some pos \<Rightarrow>
          let (footer, w) = sys_read env content pos FOOTER_SIZE w in
          if length footer \<noteq> FOOTER_SIZE then Some (VERIFY_FAILURE, w)
          else if footer ! 2 \<noteq> 0xff \<or> footer ! 3 \<noteq> 0xff then Some (VERIFY_FAILURE, w)
          else
            let comment_size = unat (footer ! 4) + unat (footer ! 5) * 256;
                signature_start = unat (footer ! 0) + unat (footer ! 1) * 256 in
            if int signature_start - int FOOTER_SIZE < int (rsa_numbytes rsa) then Some (VERIFY_FAILURE, w)
            else
              let eocd_size = comment_size + EOCD_HEADER_SIZE in
              case seek_end content eocd_size of
                None \<Rightarrow> Some (VERIFY_FAILURE, w)
              | Some pos \<Rightarrow>
                  let signed_len = pos + EOCD_HEADER_SIZE - 2 in
                  if \<not> malloc eocd_size then Some (VERIFY_FAILURE, w)
                  else
                    let (eocd, w) = sys_read env content pos eocd_size w in
                    if length eocd \<noteq> eocd_size then Some (VERIFY_FAILURE, w)
                    else if \<not> eocd_at eocd 0 then Some (VERIFY_FAILURE, w)
                    else if list_ex (eocd_at eocd) [4..<eocd_size - 3] then Some (VERIFY_FAILURE, w)
                    else if \<not> malloc BUFFER_SIZE then Some (VERIFY_FAILURE, w)
                    else
                      (case hash_loop sha env content 0 signed_len (sha_init sha) w of
                         (None, w) \<Rightarrow> Some (VERIFY_FAILURE, w)
                       | (Some ctx, w) \<Rightarrow>
                           if pKeys = [] then Some (VERIFY_FAILURE, w)
                           else if eocd_size < 6 + rsa_numbytes rsa then None
                           else
                             let signature = take (rsa_numbytes rsa) (drop (eocd_size - 6 - rsa_numbytes rsa) eocd) in
                             Some (if list_ex (\<lambda>k. rsa_verify rsa k signature (sha_final sha ctx)) pKeys
                                   then VERIFY_SUCCESS else VERIFY_FAILURE, w)))"

definition verify_file ::
    "(nat \<Rightarrow> bool) \<Rightarrow> ('h, 'z) sha_scheme \<Rightarrow> ('k, 'y) rsa_scheme \<Rightarrow> env \<Rightarrow> bytes \<Rightarrow> 'k list \<Rightarrow> 'm world \<Rightarrow> (int \<times> 'm world) option" where
  "verify_file malloc sha rsa env path pKeys w =
     (case sys_open env path w of
        (None, w) \<Rightarrow> Some (VERIFY_FAILURE, w)
      | (Some f, w) \<Rightarrow> verify_content malloc sha rsa env pKeys (f_data f) w)"

section \<open>What a verified package is\<close>

text \<open>
  The number of bytes of the comment the footer announces, and the record it belongs to.  A
  package is \<open>signed\<close> by one of the keys when the last bytes before the footer are a signature
  of everything before the length of the comment.
\<close>

definition comment_len :: "bytes \<Rightarrow> nat" where
  "comment_len c = unat (c ! (length c - 2)) + unat (c ! (length c - 1)) * 256"

definition record_start :: "bytes \<Rightarrow> nat" where
  "record_start c = length c - (comment_len c + EOCD_HEADER_SIZE)"

definition signed :: "('h, 'z) sha_scheme \<Rightarrow> ('k, 'y) rsa_scheme \<Rightarrow> 'k list \<Rightarrow> bytes \<Rightarrow> bool" where
  "signed sha rsa pKeys c \<longleftrightarrow> (\<exists>k \<in> set pKeys.
     rsa_verify rsa k (take (rsa_numbytes rsa) (drop (length c - 6 - rsa_numbytes rsa) c))
       (SHA sha (take (length c - comment_len c - 2) c)))"

text \<open>
  A package is \<open>well_ended\<close> if its last bytes are a footer whose comment is preceded by an
  end-of-central-directory record, which is the last thing in the file that looks like one.
\<close>

definition well_ended :: "('k, 'y) rsa_scheme \<Rightarrow> bytes \<Rightarrow> bool" where
  "well_ended rsa c \<longleftrightarrow> FOOTER_SIZE \<le> length c \<and> length c < 2 ^ 31 \<and>
     c ! (length c - 4) = 0xff \<and> c ! (length c - 3) = 0xff \<and>
     FOOTER_SIZE + rsa_numbytes rsa \<le> unat (c ! (length c - 6)) + unat (c ! (length c - 5)) * 256 \<and>
     comment_len c + EOCD_HEADER_SIZE \<le> length c \<and> eocd_at c (record_start c) \<and>
     (\<forall>i \<ge> record_start c + 4. \<not> eocd_at c i)"

lemma eocd_at_drop: "eocd_at (drop s c) i = eocd_at c (s + i)"
  by (simp add: eocd_at_def add.commute)

lemma eocd_at_short: "length c < i + 4 \<Longrightarrow> \<not> eocd_at c i"
proof
  assume "length c < i + 4" "eocd_at c i"
  then have "length (take 4 (drop i c)) = 4" by (simp add: eocd_at_def)
  with \<open>length c < i + 4\<close> show False by simp
qed

lemma eocd_at_inside: "eocd_at c i \<Longrightarrow> i + 4 \<le> length c"
  using eocd_at_short [of c i] not_less by blast

lemma eocd_at_nth: "eocd_at c i \<longleftrightarrow>
    i + 4 \<le> length c \<and> c ! i = 0x50 \<and> c ! (i + 1) = 0x4b \<and> c ! (i + 2) = 0x05 \<and> c ! (i + 3) = 0x06"
proof (cases "i + 4 \<le> length c")
  case True
  then have "take 4 (drop i c) = [c ! i, c ! (i + 1), c ! (i + 2), c ! (i + 3)]"
    by (intro nth_equalityI) (auto simp: less_Suc_eq numeral_eq_Suc)
  with True show ?thesis by (simp add: eocd_at_def)
qed (auto dest: eocd_at_inside)

lemma sys_read_full: "sys_read env content pos n w = (b, w') \<Longrightarrow> length b = n \<Longrightarrow> b = take n (drop pos content)"
  by (auto simp: sys_read_def min_def split: if_splits)

lemma sys_read_length: "sys_read env content pos n w = (b, w') \<Longrightarrow> n \<le> amount env (clock w) \<Longrightarrow>
    pos + n \<le> length content \<Longrightarrow> length b = n"
  by (auto simp: sys_read_def)

lemma hash_loop_digest:
  "hash_loop sha env content so_far signed_len ctx w = (Some ctx', w') \<Longrightarrow> incremental sha \<Longrightarrow> so_far \<le> signed_len \<Longrightarrow>
    ctx' = sha_update sha (take (signed_len - so_far) (drop so_far content)) ctx"
proof (induction sha env content so_far signed_len ctx w rule: hash_loop.induct)
  case (1 sha env content so_far signed_len ctx w)
  show ?case
  proof (cases "so_far < signed_len")
    case False
    with 1 show ?thesis by (simp add: hash_loop.simps incremental_def)
  next
    case True
    define n where "n = (if signed_len - so_far < BUFFER_SIZE then signed_len - so_far else BUFFER_SIZE)"
    obtain b w1 where b: "sys_read env content so_far n w = (b, w1)" by fastforce
    have run: "hash_loop sha env content so_far signed_len ctx w =
        (if length b \<noteq> n then (None, w1) else hash_loop sha env content (so_far + n) signed_len (sha_update sha b ctx) w1)"
      using True b by (subst hash_loop.simps) (simp add: n_def [symmetric])
    with 1(2) have len: "length b = n" by (auto split: if_splits)
    have le: "so_far + n \<le> signed_len" using True by (auto simp: n_def BUFFER_SIZE_def)
    have ctx: "ctx' = sha_update sha (take (signed_len - (so_far + n)) (drop (so_far + n) content)) (sha_update sha b ctx)"
      by (rule 1(1) [OF _ n_def refl b [symmetric]]) (use True 1(2,3) run len le in auto)
    have "take (signed_len - so_far) (drop so_far content) =
        b @ take (signed_len - (so_far + n)) (drop (so_far + n) content)"
    proof -
      have "signed_len - so_far = n + (signed_len - (so_far + n))" using le by simp
      then show ?thesis using sys_read_full [OF b len]
        by (simp add: take_add add.commute)
    qed
    with ctx 1(3) show ?thesis by (simp add: incremental_def)
  qed
qed

lemma hash_loop_succeeds:
  "signed_len \<le> length content \<Longrightarrow> (\<forall>t. BUFFER_SIZE \<le> amount env t) \<Longrightarrow>
    \<exists>ctx' w'. hash_loop sha env content so_far signed_len ctx w = (Some ctx', w')"
proof (induction sha env content so_far signed_len ctx w rule: hash_loop.induct)
  case (1 sha env content so_far signed_len ctx w)
  show ?case
  proof (cases "so_far < signed_len")
    case False
    then show ?thesis by (simp add: hash_loop.simps)
  next
    case True
    define n where "n = (if signed_len - so_far < BUFFER_SIZE then signed_len - so_far else BUFFER_SIZE)"
    obtain b w1 where b: "sys_read env content so_far n w = (b, w1)" by fastforce
    have "n \<le> BUFFER_SIZE" "so_far + n \<le> length content" using True 1(2) by (auto simp: n_def)
    then have len: "length b = n" using 1(3) by (intro sys_read_length [OF b]) (auto intro: le_trans)
    have "hash_loop sha env content so_far signed_len ctx w =
        hash_loop sha env content (so_far + n) signed_len (sha_update sha b ctx) w1"
      using True b len by (subst hash_loop.simps) (simp add: n_def [symmetric])
    then show ?thesis using 1(1) [OF _ n_def refl b [symmetric]] True len 1(2,3) by simp
  qed
qed

section \<open>What verify\_file accepts\<close>

lemma footer_bytes:
  assumes "footer = take FOOTER_SIZE (drop (length c - FOOTER_SIZE) c)" and "FOOTER_SIZE \<le> length c"
  shows "footer ! 0 = c ! (length c - 6)" "footer ! 1 = c ! (length c - 5)" "footer ! 2 = c ! (length c - 4)"
    "footer ! 3 = c ! (length c - 3)" "footer ! 4 = c ! (length c - 2)" "footer ! 5 = c ! (length c - 1)"
proof -
  have "footer ! i = c ! (length c - 6 + i)" if "i < 6" for i
    using assms that by (simp add: FOOTER_SIZE_def)
  from this [of 0] this [of 1] this [of 2] this [of 3] this [of 4] this [of 5]
  show "footer ! 0 = c ! (length c - 6)" "footer ! 1 = c ! (length c - 5)" "footer ! 2 = c ! (length c - 4)"
    "footer ! 3 = c ! (length c - 3)" "footer ! 4 = c ! (length c - 2)" "footer ! 5 = c ! (length c - 1)"
    using assms(2) by (simp_all add: FOOTER_SIZE_def Suc_diff_le [symmetric] numeral_eq_Suc)
qed

text \<open>The record that has been read decides whether the markers are where they should be.\<close>

lemma record_checks:
  assumes "n + EOCD_HEADER_SIZE \<le> length c" and "eocd = drop (length c - (n + EOCD_HEADER_SIZE)) c"
  shows "eocd_at eocd 0 = eocd_at c (length c - (n + EOCD_HEADER_SIZE))"
    and "list_ex (eocd_at eocd) [4..<n + EOCD_HEADER_SIZE - 3] \<longleftrightarrow>
      (\<exists>i \<ge> length c - (n + EOCD_HEADER_SIZE) + 4. eocd_at c i)"
proof -
  let ?s = "length c - (n + EOCD_HEADER_SIZE)"
  show "eocd_at eocd 0 = eocd_at c ?s" by (simp add: assms(2) eocd_at_drop)
  show "list_ex (eocd_at eocd) [4..<n + EOCD_HEADER_SIZE - 3] \<longleftrightarrow> (\<exists>i \<ge> ?s + 4. eocd_at c i)"
  proof
    assume "list_ex (eocd_at eocd) [4..<n + EOCD_HEADER_SIZE - 3]"
    then obtain i where "4 \<le> i" "eocd_at c (?s + i)" by (auto simp: list_ex_iff assms(2) eocd_at_drop)
    then show "\<exists>i \<ge> ?s + 4. eocd_at c i" by (intro exI [of _ "?s + i"]) simp
  next
    assume "\<exists>i \<ge> ?s + 4. eocd_at c i"
    then obtain i where i: "?s + 4 \<le> i" "eocd_at c i" by blast
    then have "i + 4 \<le> length c" by (simp add: eocd_at_inside)
    then have "i - ?s \<in> set [4..<n + EOCD_HEADER_SIZE - 3]" "eocd_at eocd (i - ?s)"
      using i assms by (auto simp: eocd_at_drop)
    then show "list_ex (eocd_at eocd) [4..<n + EOCD_HEADER_SIZE - 3]" by (auto simp: list_ex_iff)
  qed
qed

text \<open>The result of the checks that come after the record: a key that verifies the signature.\<close>

definition decided :: "('h, 'z) sha_scheme \<Rightarrow> ('k, 'y) rsa_scheme \<Rightarrow> 'k list \<Rightarrow> bytes \<Rightarrow> int option" where
  "decided sha rsa pKeys c =
     (if pKeys = [] then Some VERIFY_FAILURE
      else if comment_len c + EOCD_HEADER_SIZE < FOOTER_SIZE + rsa_numbytes rsa then None
      else Some (if signed sha rsa pKeys c then VERIFY_SUCCESS else VERIFY_FAILURE))"

text \<open>The rest of the function once the record has been read.\<close>

definition judged ::
    "(nat \<Rightarrow> bool) \<Rightarrow> ('h, 'z) sha_scheme \<Rightarrow> ('k, 'y) rsa_scheme \<Rightarrow> env \<Rightarrow> 'k list \<Rightarrow> bytes \<Rightarrow> bytes \<Rightarrow> 'm world \<Rightarrow> (int \<times> 'm world) option" where
  "judged malloc sha rsa env pKeys c eocd w =
    (let n = comment_len c + EOCD_HEADER_SIZE in
     if length eocd \<noteq> n \<or> \<not> eocd_at eocd 0 \<or> list_ex (eocd_at eocd) [4..<n - 3] \<or> \<not> malloc BUFFER_SIZE
     then Some (VERIFY_FAILURE, w)
     else case hash_loop sha env c 0 (record_start c + EOCD_HEADER_SIZE - 2) (sha_init sha) w of
            (None, w) \<Rightarrow> Some (VERIFY_FAILURE, w)
          | (Some ctx, w) \<Rightarrow>
              if pKeys = [] then Some (VERIFY_FAILURE, w)
              else if n < 6 + rsa_numbytes rsa then None
              else
                let signature = take (rsa_numbytes rsa) (drop (n - 6 - rsa_numbytes rsa) eocd) in
                Some (if list_ex (\<lambda>k. rsa_verify rsa k signature (sha_final sha ctx)) pKeys
                      then VERIFY_SUCCESS else VERIFY_FAILURE, w))"

lemma comment_len_alt:
  "unat (c ! (length c - 2)) + unat (c ! (length c - 1)) * 256 = comment_len c"
  "unat (c ! (length c - 2)) + unat (c ! (length c - Suc 0)) * 256 = comment_len c"
  by (simp_all add: comment_len_def)

lemma judged_digest:
  assumes inc: "incremental sha" and size: "comment_len c + EOCD_HEADER_SIZE \<le> length c"
    and rec: "eocd = drop (record_start c) c" and "malloc BUFFER_SIZE"
    and marks: "eocd_at c (record_start c)" "\<forall>i \<ge> record_start c + 4. \<not> eocd_at c i"
    and h: "hash_loop sha env c 0 (record_start c + EOCD_HEADER_SIZE - 2) (sha_init sha) w = (Some ctx, w')"
  shows "judged malloc sha rsa env pKeys c eocd w = map_option (\<lambda>r. (r, w')) (decided sha rsa pKeys c)"
proof -
  let ?n = "comment_len c + EOCD_HEADER_SIZE"
  have ok: "length eocd = ?n" "eocd_at eocd 0" "\<not> list_ex (eocd_at eocd) [4..<?n - 3]"
    using marks record_checks [of "comment_len c" c eocd] rec size by (auto simp: record_start_def)
  have "record_start c + EOCD_HEADER_SIZE - 2 = length c - comment_len c - 2"
    using size by (simp add: record_start_def EOCD_HEADER_SIZE_def)
  then have "sha_final sha ctx = SHA sha (take (length c - comment_len c - 2) c)"
    using hash_loop_digest [OF h inc] by (simp add: SHA_def)
  moreover have "drop (?n - 6 - rsa_numbytes rsa) eocd = drop (length c - 6 - rsa_numbytes rsa) c"
    if "\<not> ?n < 6 + rsa_numbytes rsa" using that size by (simp add: rec record_start_def)
  ultimately show ?thesis
    using ok assms(4) by (simp add: judged_def h decided_def signed_def list_ex_iff FOOTER_SIZE_def Let_def)
qed

lemma judged_decides:
  assumes inc: "incremental sha" and eocd: "sys_read env c (record_start c) (comment_len c + EOCD_HEADER_SIZE) w0 = (eocd, w)"
    and size: "comment_len c + EOCD_HEADER_SIZE \<le> length c"
  shows "(\<exists>w'. judged malloc sha rsa env pKeys c eocd w = Some (VERIFY_FAILURE, w')) \<or>
    eocd_at c (record_start c) \<and> (\<forall>i \<ge> record_start c + 4. \<not> eocd_at c i) \<and>
    (\<exists>w'. judged malloc sha rsa env pKeys c eocd w = map_option (\<lambda>r. (r, w')) (decided sha rsa pKeys c))"
    (is "?early \<or> ?late")
proof (cases ?early)
  case early: False
  let ?n = "comment_len c + EOCD_HEADER_SIZE"
  from early have ok: "length eocd = ?n" "eocd_at eocd 0" "\<not> list_ex (eocd_at eocd) [4..<?n - 3]" "malloc BUFFER_SIZE"
    by (auto simp: judged_def Let_def split: if_splits)
  have rec: "eocd = drop (record_start c) c"
    using sys_read_full [OF eocd ok(1)] size by (simp add: record_start_def)
  have marks: "eocd_at c (record_start c)" "\<forall>i \<ge> record_start c + 4. \<not> eocd_at c i"
    using ok(2,3) record_checks [of "comment_len c" c eocd] rec size by (auto simp: record_start_def)
  obtain h w3 where h: "hash_loop sha env c 0 (record_start c + EOCD_HEADER_SIZE - 2) (sha_init sha) w = (h, w3)" by fastforce
  then obtain ctx where "h = Some ctx" using early ok by (cases h) (auto simp: judged_def Let_def)
  then show ?thesis using judged_digest [where malloc = malloc, OF inc size rec ok(4) marks] h marks by blast
qed simp

lemma judged_generous:
  assumes eocd: "sys_read env c (record_start c) (comment_len c + EOCD_HEADER_SIZE) w0 = (eocd, w)"
    and size: "comment_len c + EOCD_HEADER_SIZE \<le> length c"
    and env: "\<And>t. max BUFFER_SIZE (length c) \<le> amount env t" and "malloc BUFFER_SIZE" and inc: "incremental sha"
    and marks: "eocd_at c (record_start c)" "\<forall>i \<ge> record_start c + 4. \<not> eocd_at c i"
  shows "\<exists>w'. judged malloc sha rsa env pKeys c eocd w = map_option (\<lambda>r. (r, w')) (decided sha rsa pKeys c)"
proof -
  have len: "length eocd = comment_len c + EOCD_HEADER_SIZE"
    using size env [of "clock w0"] by (intro sys_read_length [OF eocd]) (auto simp: record_start_def)
  have rec: "eocd = drop (record_start c) c"
    using sys_read_full [OF eocd len] size by (simp add: record_start_def)
  obtain ctx w3 where h: "hash_loop sha env c 0 (record_start c + EOCD_HEADER_SIZE - 2) (sha_init sha) w = (Some ctx, w3)"
    using hash_loop_succeeds [of "record_start c + EOCD_HEADER_SIZE - 2" c env] size env
    by (fastforce simp: record_start_def EOCD_HEADER_SIZE_def)
  show ?thesis using judged_digest [where malloc = malloc, OF inc size rec assms(4) marks h] ..
qed

text \<open>\<open>footed\<close>: the footer is there, and the record fits before it.\<close>

definition footed :: "('k, 'y) rsa_scheme \<Rightarrow> bytes \<Rightarrow> bool" where
  "footed rsa c \<longleftrightarrow> FOOTER_SIZE \<le> length c \<and> length c < 2 ^ 31 \<and>
     c ! (length c - 4) = 0xff \<and> c ! (length c - 3) = 0xff \<and>
     FOOTER_SIZE + rsa_numbytes rsa \<le> unat (c ! (length c - 6)) + unat (c ! (length c - 5)) * 256 \<and>
     comment_len c + EOCD_HEADER_SIZE \<le> length c"

lemma well_ended_footed: "well_ended rsa c \<longleftrightarrow>
    footed rsa c \<and> eocd_at c (record_start c) \<and> (\<forall>i \<ge> record_start c + 4. \<not> eocd_at c i)"
  by (auto simp: well_ended_def footed_def)

lemma well_ended_code [code]: "well_ended rsa c \<longleftrightarrow> footed rsa c \<and> eocd_at c (record_start c) \<and>
    list_all (\<lambda>i. \<not> eocd_at c i) [record_start c + 4..<length c]"
  using eocd_at_inside [of c] by (fastforce simp: well_ended_footed list_all_iff)

lemma verify_content_run:
  assumes footer: "sys_read env c (length c - FOOTER_SIZE) FOOTER_SIZE w = (footer, w1)"
    and eocd: "sys_read env c (record_start c) (comment_len c + EOCD_HEADER_SIZE) w1 = (eocd, w2)"
  shows "verify_content malloc sha rsa env pKeys c w =
     (if \<not> (FOOTER_SIZE \<le> length c \<and> length c < 2 ^ 31) then Some (VERIFY_FAILURE, w)
      else if length footer \<noteq> FOOTER_SIZE \<or> \<not> footed rsa c \<or> \<not> malloc (comment_len c + EOCD_HEADER_SIZE) then Some (VERIFY_FAILURE, w1)
      else judged malloc sha rsa env pKeys c eocd w2)"
proof (cases "FOOTER_SIZE \<le> length c \<and> length c < 2 ^ 31")
  case False
  then show ?thesis by (auto simp: verify_content_def seek_end_def)
next
  case size: True
  then have seek: "seek_end c FOOTER_SIZE = Some (length c - FOOTER_SIZE)" by (simp add: seek_end_def)
  show ?thesis
  proof (cases "length footer = FOOTER_SIZE")
    case False
    with size show ?thesis by (simp add: verify_content_def seek footer)
  next
    case len: True
    note f0 = footer_bytes [OF sys_read_full [OF footer len] conjunct1 [OF size]]
    note f = f0 f0(2) [unfolded One_nat_def]
    let ?sig = "unat (c ! (length c - 6)) + unat (c ! (length c - 5)) * 256"
    have sig: "int ?sig - int FOOTER_SIZE < int (rsa_numbytes rsa) \<longleftrightarrow> \<not> FOOTER_SIZE + rsa_numbytes rsa \<le> ?sig" by linarith
    have seek2: "seek_end c (comment_len c + EOCD_HEADER_SIZE) =
        (if comment_len c + EOCD_HEADER_SIZE \<le> length c then Some (record_start c) else None)"
      using size by (auto simp: seek_end_def record_start_def)
    show ?thesis
      unfolding verify_content_def seek option.case footer prod.case Let_def len f sig comment_len_alt seek2 judged_def footed_def
      using size eocd by (auto simp: Let_def)
  qed
qed

lemma verify_content_decides:
  assumes inc: "incremental sha"
  shows "(\<exists>w'. verify_content malloc sha rsa env pKeys c w = Some (VERIFY_FAILURE, w')) \<or>
    well_ended rsa c \<and> (\<exists>w'. verify_content malloc sha rsa env pKeys c w = map_option (\<lambda>r. (r, w')) (decided sha rsa pKeys c))"
proof -
  obtain footer w1 where footer: "sys_read env c (length c - FOOTER_SIZE) FOOTER_SIZE w = (footer, w1)" by fastforce
  obtain eocd w2 where eocd: "sys_read env c (record_start c) (comment_len c + EOCD_HEADER_SIZE) w1 = (eocd, w2)" by fastforce
  show ?thesis
  proof (cases "footed rsa c")
    case True
    then have "comment_len c + EOCD_HEADER_SIZE \<le> length c" by (simp add: footed_def)
    from judged_decides [OF inc eocd this, of malloc rsa pKeys] True show ?thesis
      unfolding verify_content_run [OF footer eocd] well_ended_footed by auto
  qed (auto simp: verify_content_run [OF footer eocd])
qed

lemma verify_content_generous:
  assumes inc: "incremental sha" and "\<And>t. max BUFFER_SIZE (length c) \<le> amount env t" and "\<And>n. malloc n"
    and "well_ended rsa c"
  shows "\<exists>w'. verify_content malloc sha rsa env pKeys c w = map_option (\<lambda>r. (r, w')) (decided sha rsa pKeys c)"
proof -
  obtain footer w1 where footer: "sys_read env c (length c - FOOTER_SIZE) FOOTER_SIZE w = (footer, w1)" by fastforce
  obtain eocd w2 where eocd: "sys_read env c (record_start c) (comment_len c + EOCD_HEADER_SIZE) w1 = (eocd, w2)" by fastforce
  have ended: "footed rsa c" "eocd_at c (record_start c)" "\<forall>i \<ge> record_start c + 4. \<not> eocd_at c i"
    using assms(4) by (simp_all add: well_ended_footed)
  have size: "FOOTER_SIZE \<le> length c" "length c < 2 ^ 31" "comment_len c + EOCD_HEADER_SIZE \<le> length c"
    using ended(1) by (simp_all add: footed_def)
  have len: "length footer = FOOTER_SIZE"
    using size(1) assms(2) [of "clock w"] by (intro sys_read_length [OF footer]) (auto simp: FOOTER_SIZE_def)
  have "verify_content malloc sha rsa env pKeys c w = judged malloc sha rsa env pKeys c eocd w2"
    using size len ended(1) assms(3) by (simp add: verify_content_run [OF footer eocd])
  with judged_generous [OF eocd size(3) assms(2,3) inc ended(2,3)] show ?thesis by simp
qed

section \<open>Properties\<close>

lemma verify_file_open:
  "sys_open env path w = (Some f, w1) \<Longrightarrow>
    verify_file malloc sha rsa env path pKeys w = verify_content malloc sha rsa env pKeys (f_data f) w1"
  by (simp add: verify_file_def)

lemma verified_sound:
  assumes "verify_file malloc sha rsa env path pKeys w = Some (VERIFY_SUCCESS, w')" and inc: "incremental sha"
  shows "\<exists>f. fs w path = Some f \<and> well_ended rsa (f_data f) \<and> signed sha rsa pKeys (f_data f)"
proof -
  obtain f where f: "sys_open env path w = (Some f, snd (sys_open env path w))" "fs w path = Some f"
    using assms(1) by (auto simp: verify_file_def sys_open_def sys_stat_def VERIFY_SUCCESS_def VERIFY_FAILURE_def
        split: option.splits if_splits)
  from assms(1) verify_content_decides [OF inc, of malloc rsa env pKeys "f_data f" "snd (sys_open env path w)"]
  show ?thesis
    by (auto simp: verify_file_open [OF f(1)] f(2) decided_def VERIFY_SUCCESS_def VERIFY_FAILURE_def split: if_splits)
qed

text \<open>
  C4: Whatever reads and allocations fail, a file that verify_file accepts exists, ends in an
  end-of-central-directory record that is the last one in the file, and everything before the
  length of the comment is signed by one of the keys.
\<close>

theorem verify_file_sound:
  assumes "verify_file malloc sha rsa env path pKeys w = Some (VERIFY_SUCCESS, w')" and "incremental sha"
  shows "\<exists>f. fs w path = Some f \<and> well_ended rsa (f_data f) \<and> signed sha rsa pKeys (f_data f)"
  by (rule verified_sound [OF assms])

lemma verify_file_generous:
  assumes "fs w path = Some f" and "\<And>t. granted env t"
    and "\<And>t. max BUFFER_SIZE (length (f_data f)) \<le> amount env t" and "\<And>n. malloc n" and inc: "incremental sha"
  shows "\<exists>w'. verify_file malloc sha rsa env path pKeys w = map_option (\<lambda>r. (r, w'))
    (if well_ended rsa (f_data f) then decided sha rsa pKeys (f_data f) else Some VERIFY_FAILURE)"
proof -
  have run: "verify_file malloc sha rsa env path pKeys w = verify_content malloc sha rsa env pKeys (f_data f) (step_clock w)"
    using assms(1,2) by (intro verify_file_open) (simp add: sys_open_def sys_stat_def)
  show ?thesis
    using verify_content_generous [where rsa = rsa and pKeys = pKeys and w = "step_clock w", OF inc assms(3,4)]
      verify_content_decides [OF inc, of malloc rsa env pKeys "f_data f" "step_clock w"]
    by (auto simp: run)
qed

text \<open>
  C6: When nothing fails verify_file decides whether the package is signed; the exception are
  files whose comment is shorter than a signature with its footer: the length of the comment
  is never compared with that of the signature, and reading the signature starts before the buffer.
\<close>

theorem verify_file_decides:
  assumes "fs w path = Some f" and "\<And>t. granted env t"
    and "\<And>t. max BUFFER_SIZE (length (f_data f)) \<le> amount env t" and "\<And>n. malloc n" and "incremental sha"
  shows "\<exists>w'. verify_file malloc sha rsa env path pKeys w = map_option (\<lambda>r. (r, w'))
    (if well_ended rsa (f_data f) then decided sha rsa pKeys (f_data f) else Some VERIFY_FAILURE)"
  by (rule verify_file_generous [OF assms])

text \<open>A package of nothing but the record, for a toy signature of two bytes.\<close>

definition toy_rsa :: "bytes rsa" where
  "toy_rsa = \<lparr>rsa_numbytes = 2, rsa_verify = \<lambda>k sig digest. sig @ k = take 3 digest\<rparr>"

definition signed_package :: bytes where
  "signed_package = [0x50, 0x4b, 0x05, 0x06] @ replicate 16 0 @ [8, 0] @ [0x50, 0x4b] @ [8, 0, 0xff, 0xff, 8, 0]"

text \<open>A comment of no bytes behind which a footer pretends to start: the buffer is too short.\<close>

definition short_package :: bytes where
  "short_package = [0x50, 0x4b, 0x05, 0x06] @ replicate 12 0 @ [8, 1, 0xff, 0xff, 0, 0]"

definition package_world :: "bytes \<Rightarrow> unit world" where
  "package_world c = \<lparr>fs = [str ''/p'' \<mapsto> \<lparr>f_data = c, f_regular = True, f_mode = 0, f_uid = 0, f_gid = 0\<rparr>],
     clock = 0, history = [], scanned = False, mtd = ()\<rparr>"

lemma sample_checks:
  "well_ended toy_rsa signed_package \<and> decided toy_sha toy_rsa [[0x05]] signed_package = Some VERIFY_SUCCESS \<and> length signed_package = 30"
  "well_ended (toy_rsa\<lparr>rsa_numbytes := 256\<rparr>) short_package \<and>
    decided toy_sha (toy_rsa\<lparr>rsa_numbytes := 256\<rparr>) [[0x05]] short_package = None \<and> length short_package = 22"
proof -
  have "FOOTER_SIZE \<le> length signed_package \<and> signed_package ! (length signed_package - 4) = 0xff \<and> signed_package ! (length signed_package - 3) = 0xff \<and>
     FOOTER_SIZE + rsa_numbytes toy_rsa \<le> unat (signed_package ! (length signed_package - 6)) + unat (signed_package ! (length signed_package - 5)) * 256 \<and>
     comment_len signed_package + EOCD_HEADER_SIZE \<le> length signed_package"
    by code_simp
  moreover have "FOOTER_SIZE \<le> length short_package \<and> short_package ! (length short_package - 4) = 0xff \<and> short_package ! (length short_package - 3) = 0xff \<and>
     FOOTER_SIZE + rsa_numbytes (toy_rsa\<lparr>rsa_numbytes := 256\<rparr>) \<le> unat (short_package ! (length short_package - 6)) + unat (short_package ! (length short_package - 5)) * 256 \<and>
     comment_len short_package + EOCD_HEADER_SIZE \<le> length short_package"
    by code_simp
  ultimately have "footed toy_rsa signed_package" "footed (toy_rsa\<lparr>rsa_numbytes := 256\<rparr>) short_package"
    by (simp_all add: footed_def signed_package_def short_package_def)
  moreover have "eocd_at signed_package (record_start signed_package) \<and>
      list_all (\<lambda>i. \<not> eocd_at signed_package i) [record_start signed_package + 4..<length signed_package] \<and>
      decided toy_sha toy_rsa [[0x05]] signed_package = Some VERIFY_SUCCESS \<and> length signed_package = 30"
    by code_simp
  moreover have "eocd_at short_package (record_start short_package) \<and>
      list_all (\<lambda>i. \<not> eocd_at short_package i) [record_start short_package + 4..<length short_package] \<and> length short_package = 22"
    by code_simp
  moreover have "decided toy_sha (toy_rsa\<lparr>rsa_numbytes := 256\<rparr>) [[0x05]] short_package = None"
    by code_simp
  ultimately show "well_ended toy_rsa signed_package \<and> decided toy_sha toy_rsa [[0x05]] signed_package = Some VERIFY_SUCCESS \<and> length signed_package = 30"
    "well_ended (toy_rsa\<lparr>rsa_numbytes := 256\<rparr>) short_package \<and>
      decided toy_sha (toy_rsa\<lparr>rsa_numbytes := 256\<rparr>) [[0x05]] short_package = None \<and> length short_package = 22"
    unfolding well_ended_code by blast+
qed

lemma generous_package:
  "fs (package_world c) (str ''/p'') = Some \<lparr>f_data = c, f_regular = True, f_mode = 0, f_uid = 0, f_gid = 0\<rparr>"
  "granted generous_env t" "amount generous_env t = 2 ^ 32"
  by (simp_all add: package_world_def generous_env_def)

lemma signed_package_accepted:
  "\<exists>w'. verify_file (\<lambda>_. True) toy_sha toy_rsa generous_env (str ''/p'') [[0x05]] (package_world signed_package) = Some (VERIFY_SUCCESS, w')"
  using verify_file_generous [where malloc = "\<lambda>_. True" and sha = toy_sha and rsa = toy_rsa and pKeys = "[[0x05]]"
      and env = generous_env, OF generous_package(1), of signed_package] sample_checks(1)
  by (auto simp: incremental_toy_sha generous_package BUFFER_SIZE_def)

theorem verify_file_sound_witness:
  "\<exists>f. fs (package_world signed_package) (str ''/p'') = Some f \<and> well_ended toy_rsa (f_data f) \<and> signed toy_sha toy_rsa [[0x05]] (f_data f)"
proof -
  obtain w' where "verify_file (\<lambda>_. True) toy_sha toy_rsa generous_env (str ''/p'') [[0x05]] (package_world signed_package) = Some (VERIFY_SUCCESS, w')"
    using signed_package_accepted by blast
  from verify_file_sound [OF this incremental_toy_sha] show ?thesis .
qed

theorem verify_file_decides_witness:
  "verify_file (\<lambda>_. True) toy_sha (toy_rsa\<lparr>rsa_numbytes := 256\<rparr>) generous_env (str ''/p'') [[0x05]] (package_world short_package) = None"
  using verify_file_decides [where malloc = "\<lambda>_. True" and sha = toy_sha and rsa = "toy_rsa\<lparr>rsa_numbytes := 256\<rparr>" and pKeys = "[[0x05]]"
      and env = generous_env, OF generous_package(1), of short_package] sample_checks(2)
  by (auto simp: incremental_toy_sha generous_package BUFFER_SIZE_def)

end
