(* ===== verification/Bootloader.thy ===== *)
theory Bootloader
  imports Volumes MtdRoundtrip
begin

text \<open>
  The bootloader control block, \<open>bootloader.c\<close>: a message of three strings of fixed size on the
  volume \<open>/misc\<close>, either the second page of a flash partition or the beginning of a block device.
\<close>

section \<open>Messages\<close>

record bootloader_message =
  b_command :: bytes
  b_status :: bytes
  b_recovery :: bytes

definition MESSAGE_SIZE :: nat where "MESSAGE_SIZE = 1088"

definition message_bytes :: "bootloader_message \<Rightarrow> bytes" where
  "message_bytes m = b_command m @ b_status m @ b_recovery m"

definition message_of :: "bytes \<Rightarrow> bootloader_message" where
  "message_of d = \<lparr>b_command = take 32 d, b_status = take 32 (drop 32 d), b_recovery = take 1024 (drop 64 d)\<rparr>"

definition message_ok :: "bootloader_message \<Rightarrow> bool" where
  "message_ok m \<longleftrightarrow> length (b_command m) = 32 \<and> length (b_status m) = 32 \<and> length (b_recovery m) = 1024"

definition zero_message :: bootloader_message where
  "zero_message = \<lparr>b_command = replicate 32 0, b_status = replicate 32 0, b_recovery = replicate 1024 0\<rparr>"

lemma message_of_bytes: "message_ok m \<Longrightarrow> message_of (message_bytes m) = m"
  by (simp add: message_ok_def message_of_def message_bytes_def)

lemma length_message_bytes: "message_ok m \<Longrightarrow> length (message_bytes m) = MESSAGE_SIZE"
  by (simp add: message_ok_def message_bytes_def MESSAGE_SIZE_def)

lemma message_of_ok: "length d = MESSAGE_SIZE \<Longrightarrow> message_ok (message_of d)"
  by (simp add: message_ok_def message_of_def MESSAGE_SIZE_def)

lemma zero_message_ok: "message_ok zero_message"
  by (simp add: zero_message_def message_ok_def)

section \<open>On flash\<close>

definition MISC_PAGES :: u32 where "MISC_PAGES = 3"
definition MISC_COMMAND_PAGE :: u32 where "MISC_COMMAND_PAGE = 1"

text \<open>
  The first three pages of the partition, with the partition and the size of a page.  An array of
  negative size is undefined.
\<close>

definition read_misc :: "('w, 'z) kernel_scheme \<Rightarrow> Volume \<Rightarrow> 'w phone \<Rightarrow> ((MtdPartition \<times> u32 \<times> bytes) option \<times> 'w phone) option" where
  "read_misc K v s = do {
     dev \<leftarrow> v_device v;
     (_, m) \<leftarrow> mtd_scan_partitions (k_malloc K) (k_nand K) (flash s);
     let s = s\<lparr>flash := m\<rparr>;
     case mtd_find_partition_by_name dev m of
       None \<Rightarrow> Some (None, s)
     | Some i \<Rightarrow> do {
         part \<leftarrow> partitions m ! i;
         let (info, c) = mtd_partition_info (k_nand K) part (chip m);
         case info of
           None \<Rightarrow> Some (None, s\<lparr>flash := m\<lparr>chip := c\<rparr>\<rparr>)
         | Some (_, _, write_size) \<Rightarrow>
             (let (rctx, c) = mtd_read_partition (k_malloc K) (k_nand K) part c in
              case rctx of
                None \<Rightarrow> Some (None, s\<lparr>flash := m\<lparr>chip := c\<rparr>\<rparr>)
              | Some rctx \<Rightarrow>
                  if sint (write_size * MISC_PAGES) < 0 then None
                  else do {
                    (r, c) \<leftarrow> mtd_read_data (k_nand K) rctx (unat (write_size * MISC_PAGES)) c;
                    Some (map_option (\<lambda>(d, _). (part, write_size, d)) r, s\<lparr>flash := m\<lparr>chip := c\<rparr>\<rparr>) }) } }"

definition get_bootloader_message_mtd ::
    "('w, 'z) kernel_scheme \<Rightarrow> bootloader_message \<Rightarrow> Volume \<Rightarrow> 'w phone \<Rightarrow> (int \<times> bootloader_message \<times> 'w phone) option" where
  "get_bootloader_message_mtd K out v s = do {
     (r, s) \<leftarrow> read_misc K v s;
     case r of
       None \<Rightarrow> Some (-1, out, s)
     | Some (_, write_size, d) \<Rightarrow> do {
         out \<leftarrow> rd_slice d (unat (write_size * MISC_COMMAND_PAGE)) MESSAGE_SIZE;
         Some (0, message_of out, s) } }"

definition set_bootloader_message_mtd ::
    "('w, 'z) kernel_scheme \<Rightarrow> bootloader_message \<Rightarrow> Volume \<Rightarrow> 'w phone \<Rightarrow> (int \<times> 'w phone) option" where
  "set_bootloader_message_mtd K msg v s = do {
     (r, s) \<leftarrow> read_misc K v s;
     case r of
       None \<Rightarrow> Some (-1, s)
     | Some (part, write_size, d) \<Rightarrow> do {
         d \<leftarrow> wr_slice d (unat (write_size * MISC_COMMAND_PAGE)) (message_bytes msg);
         let (wr, c) = mtd_write_partition (k_malloc K) (k_nand K) part (chip (flash s));
         case wr of
           None \<Rightarrow> Some (-1, s\<lparr>flash := (flash s)\<lparr>chip := c\<rparr>\<rparr>)
         | Some wr \<Rightarrow> do {
             (n, wr, c) \<leftarrow> mtd_write_data (k_nand K) wr d c;
             (closed, c) \<leftarrow> mtd_write_close (k_nand K) wr c;
             Some (if n \<noteq> int (length d) \<or> closed \<noteq> 0 then -1 else 0, s\<lparr>flash := (flash s)\<lparr>chip := c\<rparr>\<rparr>) } } }"

section \<open>On a block device\<close>

definition get_bootloader_message_block ::
    "('w, 'z) kernel_scheme \<Rightarrow> bootloader_message \<Rightarrow> Volume \<Rightarrow> 'w phone \<Rightarrow> (int \<times> bootloader_message \<times> 'w phone) option" where
  "get_bootloader_message_block K out v s = do {
     dev \<leftarrow> v_device v;
     let (f, w) = k_read K dev (outside s);
     let s = s\<lparr>outside := w\<rparr>;
     case f of
       None \<Rightarrow> Some (-1, out, s)
     | Some d \<Rightarrow> Some (if length d < MESSAGE_SIZE then (-1, out, s) else (0, message_of d, s)) }"

definition set_bootloader_message_block ::
    "('w, 'z) kernel_scheme \<Rightarrow> bootloader_message \<Rightarrow> Volume \<Rightarrow> 'w phone \<Rightarrow> (int \<times> 'w phone) option" where
  "set_bootloader_message_block K msg v s = do {
     dev \<leftarrow> v_device v;
     let (ok, w) = k_write K dev False (message_bytes msg) (outside s);
     Some (if ok then 0 else -1, s\<lparr>outside := w\<rparr>) }"

section \<open>On either\<close>

definition get_bootloader_message ::
    "('w, 'z) kernel_scheme \<Rightarrow> bootloader_message \<Rightarrow> 'w phone \<Rightarrow> (int \<times> bootloader_message \<times> 'w phone) option" where
  "get_bootloader_message K out s =
     (case volume_for_path (str ''/misc'') s of
        None \<Rightarrow> Some (-1, out, s)
      | Some v \<Rightarrow>
          if v_fs_type v = str ''mtd'' then get_bootloader_message_mtd K out v s
          else if v_fs_type v = str ''emmc'' then get_bootloader_message_block K out v s
          else Some (-1, out, s))"

definition set_bootloader_message ::
    "('w, 'z) kernel_scheme \<Rightarrow> bootloader_message \<Rightarrow> 'w phone \<Rightarrow> (int \<times> 'w phone) option" where
  "set_bootloader_message K msg s =
     (case volume_for_path (str ''/misc'') s of
        None \<Rightarrow> Some (-1, s)
      | Some v \<Rightarrow>
          if v_fs_type v = str ''mtd'' then set_bootloader_message_mtd K msg v s
          else if v_fs_type v = str ''emmc'' then set_bootloader_message_block K msg v s
          else Some (-1, s))"

section \<open>What is set is what is read\<close>

text \<open>Every scan finds the partition under its name, in the same table.\<close>

definition flash_table :: "('w, 'z) kernel_scheme \<Rightarrow> bytes \<Rightarrow> MtdPartition \<Rightarrow> bool" where
  "flash_table K name p \<longleftrightarrow> k_malloc K 512 \<and> (\<exists>ps n i. find_slot name 0 ps = Some i \<and> ps ! i = Some p \<and>
     (\<forall>t. \<exists>text. n_proc (k_nand K) t = Some text \<and> line_loop (k_malloc K) (take 2047 text) (replicate 32 None) 0 = Some (ps, Some n)))"

lemma flash_table_scan:
  assumes "flash_table K name p"
  obtains n ps i where "find_slot name 0 ps = Some i" "ps ! i = Some p"
    "\<And>m. mtd_scan_partitions (k_malloc K) (k_nand K) m =
      Some (n, m\<lparr>partitions := ps, partition_count := n, chip := called (chip m)\<rparr>)"
proof -
  obtain ps n i where t: "find_slot name 0 ps = Some i" "ps ! i = Some p" "k_malloc K 512"
    "\<And>t. \<exists>text. n_proc (k_nand K) t = Some text \<and> line_loop (k_malloc K) (take 2047 text) (replicate 32 None) 0 = Some (ps, Some n)"
    using assms by (auto simp: flash_table_def)
  have "mtd_scan_partitions (k_malloc K) (k_nand K) m = Some (n, m\<lparr>partitions := ps, partition_count := n, chip := called (chip m)\<rparr>)" for m
    using t(3) t(4) [of "Suc (calls (chip m))"] by (auto simp: mtd_scan_partitions_def Let_def called_def)
  with t(1,2) that show thesis by blast
qed

definition page_size :: "('w, 'z) kernel_scheme \<Rightarrow> MtdPartition \<Rightarrow> nat" where
  "page_size K p = (case n_info (k_nand K) (device_index p) of None \<Rightarrow> 0 | Some (_, _, write_size) \<Rightarrow> unat write_size)"

text \<open>
  The volume \<open>/misc\<close> is a flash partition that works, with three good pages of at least half of a message;
  \<open>misc\_contents\<close> is what its good blocks hold.
\<close>

definition misc_ready :: "('w, 'z) kernel_scheme \<Rightarrow> 'w phone \<Rightarrow> MtdPartition \<Rightarrow> bool" where
  "misc_ready K s p \<longleftrightarrow>
     (\<exists>v dev. volume_for_path (str ''/misc'') s = Some v \<and> v_fs_type v = str ''mtd'' \<and> v_device v = Some dev \<and> flash_table K dev p) \<and>
     workable (k_malloc K) (k_nand K) \<and> sound_partition p (cells (chip (flash s)) (device_index p)) \<and>
     MESSAGE_SIZE \<le> page_size K p * 2 \<and> page_size K p * 3 < 2 ^ 31 \<and> page_size K p * 3 \<le> capacity (k_nand K) p"

definition misc_contents :: "('w, 'z) kernel_scheme \<Rightarrow> 'w phone \<Rightarrow> MtdPartition \<Rightarrow> bytes" where
  "misc_contents K s p = stored (k_nand K) p (cells (chip (flash s)) (device_index p)) 0 (block_count p)"

definition misc_holds :: "('w, 'z) kernel_scheme \<Rightarrow> bootloader_message \<Rightarrow> 'w phone \<Rightarrow> bool" where
  "misc_holds K msg s \<longleftrightarrow> message_ok msg \<and> (\<exists>p. misc_ready K s p \<and>
     take MESSAGE_SIZE (drop (page_size K p) (misc_contents K s p)) = message_bytes msg)"

lemma page_sizeE:
  assumes "misc_ready K s p"
  obtains ts es ws where "n_info (k_nand K) (device_index p) = Some (ts, es, ws)" "unat ws = page_size K p"
    "unat (ws * MISC_PAGES) = page_size K p * 3" "\<not> sint (ws * MISC_PAGES) < 0" "unat (ws * MISC_COMMAND_PAGE) = page_size K p"
proof -
  have "page_size K p \<noteq> 0" "page_size K p * 3 < 2 ^ 31" using assms by (auto simp: misc_ready_def MESSAGE_SIZE_def)
  then obtain ts es ws where ws: "n_info (k_nand K) (device_index p) = Some (ts, es, ws)" "unat ws = page_size K p"
    by (auto simp: page_size_def split: option.splits)
  have u: "unat (ws * MISC_PAGES) = page_size K p * 3"
    using ws(2) \<open>page_size K p * 3 < 2 ^ 31\<close> by (simp add: MISC_PAGES_def unat_word_ariths)
  have "\<not> sint (ws * MISC_PAGES) < 0"
  proof -
    have "sint (ws * MISC_PAGES) = int (unat (ws * MISC_PAGES))"
      using u \<open>page_size K p * 3 < 2 ^ 31\<close> by (intro sint_small) simp
    then show ?thesis by linarith
  qed
  with ws u that show thesis by (simp add: MISC_COMMAND_PAGE_def)
qed

lemma length_misc_contents:
  assumes "misc_ready K s p"
  shows "page_size K p * 3 \<le> length (misc_contents K s p)"
  using assms length_stored [of p "cells (chip (flash s)) (device_index p)" "block_count p" "k_nand K" 0]
  by (simp add: misc_ready_def misc_contents_def capacity_def)

lemma read_misc_ok:
  assumes r: "misc_ready K s p" and v: "volume_for_path (str ''/misc'') s = Some v"
  obtains F ws where "read_misc K v s = Some (Some (p, ws, take (page_size K p * 3) (misc_contents K s p)), s\<lparr>flash := F\<rparr>)"
    "cells (chip F) = cells (chip (flash s))" "unat (ws * MISC_COMMAND_PAGE) = page_size K p"
proof -
  let ?N = "k_nand K" let ?c = "misc_contents K s p"
  obtain dev where dev: "v_device v = Some dev" "flash_table K dev p" using r v by (auto simp: misc_ready_def)
  obtain n ps i where t: "find_slot dev 0 ps = Some i" "ps ! i = Some p"
    "\<And>m. mtd_scan_partitions (k_malloc K) ?N m = Some (n, m\<lparr>partitions := ps, partition_count := n, chip := called (chip m)\<rparr>)"
    using dev(2) by (rule flash_table_scan) blast
  obtain ts es ws where ws: "n_info ?N (device_index p) = Some (ts, es, ws)" "unat ws = page_size K p"
    "unat (ws * MISC_PAGES) = page_size K p * 3" "\<not> sint (ws * MISC_PAGES) < 0" "unat (ws * MISC_COMMAND_PAGE) = page_size K p"
    using r by (rule page_sizeE)
  have wk: "\<And>n. k_malloc K n" "quiet ?N" "sound_partition p (cells (chip (flash s)) (device_index p))"
    using r by (simp_all add: misc_ready_def workable_def)
  define m0 where "m0 = (flash s)\<lparr>partitions := ps, partition_count := n, chip := called (chip (flash s))\<rparr>"
  define c1 where "c1 = called (called (chip m0))"
  let ?r = "\<lparr>r_partition = p, r_buffer = [], r_consumed = erase_len p, r_pos = 0\<rparr>"
  have cells: "cells c1 = cells (chip (flash s))" by (simp add: c1_def m0_def called_def)
  have short: "page_size K p * 3 < 2 ^ 31" using r by (auto simp: misc_ready_def)
  have "readable ?N ?r c1 ?c"
    unfolding readable_def Let_def misc_contents_def using wk(3) by (auto simp: cells intro!: exI [of _ 0])
  then obtain r' c' where l: "read_loop ?N ?r (page_size K p * 3) [] c1 = Some (Some (take (page_size K p * 3) ?c, r'), c')"
    using read_loop_ok [OF wk(2), of ?r c1 ?c "[]" "page_size K p * 3"] length_misc_contents [OF r] by auto
  have "cells c' = cells (chip (flash s))" using read_loop_cells [OF l] cells by simp
  moreover have "read_misc K v s = Some (Some (p, ws, take (page_size K p * 3) ?c), s\<lparr>flash := m0\<lparr>chip := c'\<rparr>\<rparr>)"
  proof -
    have scan: "mtd_scan_partitions (k_malloc K) ?N (flash s) = Some (n, m0)" by (simp add: t(3) m0_def)
    have find: "mtd_find_partition_by_name dev m0 = Some i" "partitions m0 ! i = Some p"
      using t(1,2) by (simp_all add: mtd_find_partition_by_name_def m0_def)
    have info: "mtd_partition_info ?N p (chip m0) = (Some (ts, es, ws), called (chip m0))"
      using ws(1) wk(2) by (simp add: mtd_partition_info_def quiet_def)
    have opened: "mtd_read_partition (k_malloc K) ?N p (called (chip m0)) = (Some ?r, c1)"
      using wk(1,2) by (simp add: mtd_read_partition_def quiet_def c1_def)
    show ?thesis
      unfolding read_misc_def dev(1) Option.bind.simps scan prod.case Let_def find option.case info opened phone.simps
      using ws(3,4) l short by (simp add: mtd_read_data_def)
  qed
  ultimately show thesis using that [of ws "m0\<lparr>chip := c'\<rparr>"] ws(5) by simp
qed

text \<open>A store of messages: a message that has been set is got back, as long as nothing else changes it.\<close>

locale message_store =
  fixes get :: "bootloader_message \<Rightarrow> 's \<Rightarrow> (int \<times> bootloader_message \<times> 's) option"
    and set :: "bootloader_message \<Rightarrow> 's \<Rightarrow> (int \<times> 's) option"
    and ready :: "'s \<Rightarrow> bool"
    and holds :: "bootloader_message \<Rightarrow> 's \<Rightarrow> bool"
    and same :: "'s \<Rightarrow> 's \<Rightarrow> bool"
  assumes gets: "holds m s \<Longrightarrow> \<exists>s'. get out s = Some (0, m, s') \<and> same s s'"
    and sets: "ready s \<Longrightarrow> message_ok m \<Longrightarrow> \<exists>s'. set m s = Some (0, s') \<and> holds m s'"
    and held_ready: "holds m s \<Longrightarrow> ready s"
    and keeps: "holds m s \<Longrightarrow> same s s' \<Longrightarrow> holds m s'"
begin

lemma set_get:
  assumes "ready s" and "message_ok m"
  shows "\<exists>s1. set m s = Some (0, s1) \<and> ready s1 \<and>
    (\<forall>s2 out. same s1 s2 \<longrightarrow> (\<exists>s3. get out s2 = Some (0, m, s3) \<and> same s2 s3 \<and> ready s3))"
proof -
  obtain s1 where "set m s = Some (0, s1)" "holds m s1" using sets [OF assms] by blast
  moreover have "\<exists>s3. get out s2 = Some (0, m, s3) \<and> same s2 s3 \<and> ready s3" if "same s1 s2" for s2 out
  proof -
    have "holds m s2" using keeps [OF \<open>holds m s1\<close> that] .
    then obtain s3 where "get out s2 = Some (0, m, s3)" "same s2 s3" using gets by blast
    with keeps [OF \<open>holds m s2\<close>] held_ready show ?thesis by blast
  qed
  ultimately show ?thesis using held_ready by blast
qed

text \<open>The last of several messages is the one that is read.\<close>

lemma last_set_wins:
  assumes "ready s" and "message_ok m" and "message_ok m'"
  shows "\<exists>s1 s2 s3. set m s = Some (0, s1) \<and> set m' s1 = Some (0, s2) \<and> get out s2 = Some (0, m', s3)"
proof -
  obtain s1 where "set m s = Some (0, s1)" "holds m s1" using sets [OF assms(1,2)] by blast
  moreover obtain s2 where "set m' s1 = Some (0, s2)" "holds m' s2"
    using sets [OF held_ready [OF \<open>holds m s1\<close>] assms(3)] by blast
  ultimately show ?thesis using gets by blast
qed

end

subsection \<open>On flash\<close>

definition same_misc :: "'w phone \<Rightarrow> 'w phone \<Rightarrow> bool" where
  "same_misc s s' \<longleftrightarrow> device_volumes s' = device_volumes s \<and> cells (chip (flash s')) = cells (chip (flash s))"

lemma misc_same:
  assumes "same_misc s s'"
  shows "misc_ready K s' p = misc_ready K s p" "misc_contents K s' p = misc_contents K s p" "misc_holds K m s' = misc_holds K m s"
  using assms by (simp_all add: same_misc_def misc_ready_def misc_contents_def misc_holds_def volume_for_path_def)

lemma misc_gets:
  assumes "misc_holds K m s"
  shows "\<exists>s'. get_bootloader_message K out s = Some (0, m, s') \<and> same_misc s s'"
proof -
  obtain p where p: "message_ok m" "misc_ready K s p" "take MESSAGE_SIZE (drop (page_size K p) (misc_contents K s p)) = message_bytes m"
    using assms by (auto simp: misc_holds_def)
  obtain v where v: "volume_for_path (str ''/misc'') s = Some v" "v_fs_type v = str ''mtd''" using p(2) by (auto simp: misc_ready_def)
  obtain F ws where r: "read_misc K v s = Some (Some (p, ws, take (page_size K p * 3) (misc_contents K s p)), s\<lparr>flash := F\<rparr>)"
    "cells (chip F) = cells (chip (flash s))" "unat (ws * MISC_COMMAND_PAGE) = page_size K p"
    using p(2) v(1) by (rule read_misc_ok)
  let ?d = "take (page_size K p * 3) (misc_contents K s p)"
  have sz: "MESSAGE_SIZE \<le> page_size K p * 2" using p(2) by (simp add: misc_ready_def)
  have "page_size K p + MESSAGE_SIZE \<le> length ?d" using sz length_misc_contents [OF p(2)] by simp
  moreover have "take MESSAGE_SIZE (drop (page_size K p) ?d) = message_bytes m"
    using p(3) sz by (simp add: drop_take min_absorb1)
  ultimately have "rd_slice ?d (unat (ws * MISC_COMMAND_PAGE)) MESSAGE_SIZE = Some (message_bytes m)"
    unfolding r(3) by (simp add: rd_slice_def)
  then have "get_bootloader_message K out s = Some (0, m, s\<lparr>flash := F\<rparr>)"
    using p(1) by (simp add: get_bootloader_message_def v get_bootloader_message_mtd_def r(1) message_of_bytes)
  then show ?thesis using r(2) by (auto simp: same_misc_def)
qed

lemma misc_sets:
  assumes r: "misc_ready K s p" and m: "message_ok m"
  shows "\<exists>s'. set_bootloader_message K m s = Some (0, s') \<and> misc_holds K m s'"
proof -
  let ?N = "k_nand K" let ?n = "page_size K p"
  obtain v where v: "volume_for_path (str ''/misc'') s = Some v" "v_fs_type v = str ''mtd''" using r by (auto simp: misc_ready_def)
  obtain F ws where rd: "read_misc K v s = Some (Some (p, ws, take (?n * 3) (misc_contents K s p)), s\<lparr>flash := F\<rparr>)"
    "cells (chip F) = cells (chip (flash s))" "unat (ws * MISC_COMMAND_PAGE) = ?n"
    using r v(1) by (rule read_misc_ok)
  let ?d = "take (?n * 3) (misc_contents K s p)"
  have wk: "\<And>n. k_malloc K n" "dependable ?N" "quiet ?N" and sz: "MESSAGE_SIZE \<le> ?n * 2" "?n * 3 \<le> capacity ?N p"
    and s0: "sound_partition p (cells (chip F) (device_index p))"
    using r rd(2) by (simp_all add: misc_ready_def workable_def)
  have len: "length ?d = ?n * 3" using length_misc_contents [OF r] by simp
  obtain d where d: "wr_slice ?d ?n (message_bytes m) = Some d" "length d = ?n * 3" "d = take ?n ?d @ message_bytes m @ drop (?n + MESSAGE_SIZE) ?d"
    using len sz(1) length_message_bytes [OF m] by (auto simp: wr_slice_def)
  let ?x = "\<lparr>w_partition = p, w_buffer = [], w_pos = 0, bad_block_offsets = []\<rparr>" let ?c = "called (chip F)"
  have open_it: "mtd_write_partition (k_malloc K) ?N p (chip F) = (Some ?x, ?c)"
    using wk by (simp add: mtd_write_partition_def quiet_def)
  have "sound_partition p (cells ?c (device_index p))" using s0 by (simp add: called_def)
  from mtd_stores [OF wk(2) this, of d ?x 0] d(2) sz(2) obtain x1 c1 x2 c2 e where
    w: "mtd_write_data ?N ?x d ?c = Some (int (length d), x1, c1)" "mtd_erase_blocks ?N x1 0 c1 = Some (int e, x2, c2)"
    "w_partition x2 = p" "w_buffer x2 = []" "written ?N x2 c2 (d @ padding x1)" by auto
  have close_it: "mtd_write_close ?N x1 c1 = Some (0, called c2)" using w(2) wk(3) by (simp add: mtd_write_close_def quiet_def)
  let ?s = "s\<lparr>flash := F\<lparr>chip := called c2\<rparr>\<rparr>"
  have run: "set_bootloader_message K m s = Some (0, ?s)"
    unfolding set_bootloader_message_def v option.case set_bootloader_message_mtd_def rd(1) Option.bind.simps prod.case rd(3) d(1) Let_def
    by (simp add: open_it w(1) close_it)
  obtain k where k: "sound_partition p (cells c2 (device_index p))" "k \<le> block_count p"
    "d @ padding x1 = stored ?N p (cells c2 (device_index p)) 0 k"
    using w(3-5) by (auto simp: written_def Let_def)
  have "misc_contents K ?s p = d @ padding x1 @ stored ?N p (cells c2 (device_index p)) k (block_count p)"
    using stored_split [of 0 k "block_count p" ?N p "cells c2 (device_index p)"] k(2) k(3) [symmetric]
    by (simp add: misc_contents_def called_def)
  moreover have "misc_ready K ?s p" using r k(1) by (simp add: misc_ready_def volume_for_path_def called_def)
  moreover have "length (take ?n ?d) = ?n" using len by simp
  ultimately have "misc_holds K m ?s"
    unfolding misc_holds_def d(3) using m length_message_bytes [OF m] by auto
  with run show ?thesis by blast
qed

interpretation misc_flash: message_store "get_bootloader_message K" "set_bootloader_message K"
    "\<lambda>s. \<exists>p. misc_ready K s p" "misc_holds K" same_misc for K
proof unfold_locales
  show "misc_holds K m s \<Longrightarrow> same_misc s s' \<Longrightarrow> misc_holds K m s'" for m s s' by (simp add: misc_same(3))
  show "misc_holds K m s \<Longrightarrow> \<exists>p. misc_ready K s p" for m s by (auto simp: misc_holds_def)
qed (use misc_gets misc_sets in blast)+

subsection \<open>On a block device\<close>

text \<open>
  The volume is a block device: what is written at its start can be read there, and reading
  changes nothing that can be read.
\<close>

definition block_ready :: "('w, 'z) kernel_scheme \<Rightarrow> 'w phone \<Rightarrow> bool" where
  "block_ready K s \<longleftrightarrow> (\<exists>v dev. volume_for_path (str ''/misc'') s = Some v \<and> v_fs_type v = str ''emmc'' \<and> v_device v = Some dev \<and>
     (\<forall>w data. \<exists>w' rest. k_write K dev False data w = (True, w') \<and> fst (k_read K dev w') = Some (data @ rest)) \<and>
     (\<forall>w path. fst (k_read K path (snd (k_read K dev w))) = fst (k_read K path w)))"

definition block_holds :: "('w, 'z) kernel_scheme \<Rightarrow> bootloader_message \<Rightarrow> 'w phone \<Rightarrow> bool" where
  "block_holds K m s \<longleftrightarrow> message_ok m \<and> block_ready K s \<and>
     (\<forall>v dev. volume_for_path (str ''/misc'') s = Some v \<longrightarrow> v_device v = Some dev \<longrightarrow>
        (\<exists>rest. fst (k_read K dev (outside s)) = Some (message_bytes m @ rest)))"

definition same_block :: "('w, 'z) kernel_scheme \<Rightarrow> 'w phone \<Rightarrow> 'w phone \<Rightarrow> bool" where
  "same_block K s s' \<longleftrightarrow> device_volumes s' = device_volumes s \<and>
     (\<forall>path. fst (k_read K path (outside s')) = fst (k_read K path (outside s)))"

lemma message_of_prefix: "message_ok m \<Longrightarrow> message_of (message_bytes m @ rest) = m"
  by (simp add: message_ok_def message_of_def message_bytes_def)

lemma block_gets:
  assumes "block_holds K m s"
  shows "\<exists>s'. get_bootloader_message K out s = Some (0, m, s') \<and> same_block K s s'"
proof -
  obtain v dev rest where v: "message_ok m" "volume_for_path (str ''/misc'') s = Some v" "v_fs_type v = str ''emmc''" "v_device v = Some dev"
    "\<And>w path. fst (k_read K path (snd (k_read K dev w))) = fst (k_read K path w)"
    "fst (k_read K dev (outside s)) = Some (message_bytes m @ rest)"
    using assms by (auto simp: block_holds_def block_ready_def)
  have ne: "str ''emmc'' \<noteq> str ''mtd''" by code_simp
  obtain w where w: "k_read K dev (outside s) = (Some (message_bytes m @ rest), w)" using v(6) by (cases "k_read K dev (outside s)") simp
  have "get_bootloader_message K out s = Some (0, m, s\<lparr>outside := w\<rparr>)"
    using v(1-4) ne length_message_bytes [OF v(1)]
    by (simp add: get_bootloader_message_def get_bootloader_message_block_def w message_of_prefix)
  moreover have "same_block K s (s\<lparr>outside := w\<rparr>)" using v(5) [of _ "outside s"] by (simp add: same_block_def w)
  ultimately show ?thesis by blast
qed

lemma block_sets:
  assumes "block_ready K s" and m: "message_ok m"
  shows "\<exists>s'. set_bootloader_message K m s = Some (0, s') \<and> block_holds K m s'"
proof -
  obtain v dev where v: "volume_for_path (str ''/misc'') s = Some v" "v_fs_type v = str ''emmc''" "v_device v = Some dev"
    "\<And>w data. \<exists>w' rest. k_write K dev False data w = (True, w') \<and> fst (k_read K dev w') = Some (data @ rest)"
    using assms(1) by (auto simp: block_ready_def)
  have ne: "str ''emmc'' \<noteq> str ''mtd''" by code_simp
  obtain w rest where w: "k_write K dev False (message_bytes m) (outside s) = (True, w)" "fst (k_read K dev w) = Some (message_bytes m @ rest)"
    using v(4) by blast
  have "set_bootloader_message K m s = Some (0, s\<lparr>outside := w\<rparr>)"
    using v(1-3) ne by (simp add: set_bootloader_message_def set_bootloader_message_block_def w(1))
  moreover have "block_holds K m (s\<lparr>outside := w\<rparr>)"
    using assms v(1,3) w(2) by (auto simp: block_holds_def block_ready_def volume_for_path_def)
  ultimately show ?thesis by blast
qed

interpretation misc_block: message_store "get_bootloader_message K" "set_bootloader_message K"
    "block_ready K" "block_holds K" "same_block K" for K
proof unfold_locales
  show "block_holds K m s \<Longrightarrow> same_block K s s' \<Longrightarrow> block_holds K m s'" for m s s'
    by (simp add: block_holds_def block_ready_def same_block_def volume_for_path_def)
  show "block_holds K m s \<Longrightarrow> block_ready K s" for m s by (simp add: block_holds_def)
qed (use block_gets block_sets in blast)+

section \<open>Messages survive\<close>

text \<open>
  C21: A message that set_bootloader_message writes to a flash partition, with 0 as the result,
  is what get_bootloader_message reads afterwards, whatever happens in between to anything but the table
  of volumes and the cells of the flash; blocks may be bad and attempts to write may fail.
\<close>

theorem bootloader_message_survives:
  assumes "misc_ready K s p" and "message_ok m"
  shows "\<exists>s1. set_bootloader_message K m s = Some (0, s1) \<and>
    (\<forall>s2 out. same_misc s1 s2 \<longrightarrow> (\<exists>s3. get_bootloader_message K out s2 = Some (0, m, s3) \<and> same_misc s2 s3))"
  using misc_flash.set_get [of K s m] assms by blast

text \<open>A phone with a perfect flash device and one partition on it.\<close>

definition perfect_nand :: nand where
  "perfect_nand = \<lparr>n_ok = \<lambda>_. True, n_ecc = \<lambda>_. False, n_erases = \<lambda>_. True, n_store = \<lambda>_ d. d, n_bad = \<lambda>_ _. 0,
     n_unsupported = False, n_info = \<lambda>_. Some (6144, 2048, 2048),
     n_proc = \<lambda>_. Some (str ''mtd0: 00001800 00000800 '' @ [34] @ str ''misc'' @ [34, 10])\<rparr>"

definition misc_partition :: MtdPartition where
  "misc_partition = \<lparr>device_index = 0, p_size = 6144, p_erase_size = 2048, p_name = str ''misc''\<rparr>"

definition misc_volume :: Volume where
  "misc_volume = \<lparr>v_mount_point = str ''/misc'', v_fs_type = str ''mtd'', v_device = Some (str ''misc''), v_device2 = None,
     v_fs_type2 = None, v_fs_options = None, v_fs_options2 = None\<rparr>"

text \<open>The files of the outside world are a map; everything else succeeds.\<close>

definition simple_kernel :: "(bytes \<rightharpoonup> bytes) kernel" where
  "simple_kernel = \<lparr>os_stat = \<lambda>path w. if w path = None then StatNoEnt else StatOther, os_mkdir = \<lambda>_ _ w. (0, w),
     os_utime = \<lambda>_ _ w. (0, w), k_malloc = \<lambda>_. True, k_nand = perfect_nand, k_proc_mounts = \<lambda>w. (Some [], w),
     k_mount = \<lambda>_ _ _ _ _ w. (0, w), k_umount = \<lambda>_ w. (0, w), k_system = \<lambda>_ w. (0, w), k_exec = \<lambda>_ w. (0, w),
     k_mode = \<lambda>_ _. Some 0x1FF, k_chmod = \<lambda>_ _ w. (0, w), k_access = \<lambda>path w. path = str ''/proc/mtd'',
     k_rmdir = \<lambda>_ w. w, k_symlink = \<lambda>_ _ w. w, k_make_ext4fs = \<lambda>_ w. (0, w), k_read = \<lambda>path w. (w path, w),
     k_write = \<lambda>path append d w. (True, w(path \<mapsto> (if append then (case w path of Some b \<Rightarrow> b | None \<Rightarrow> []) else []) @ d)),
     k_unlink = \<lambda>path w. (0, w(path := None)), k_uid = \<lambda>_ _. 0, k_errno = \<lambda>_. 0\<rparr>"

definition simple_phone :: "(bytes \<rightharpoonup> bytes) phone" where
  "simple_phone = \<lparr>outside = Map.empty,
     flash = \<lparr>partitions = [], partition_count = -1, chip = \<lparr>cells = \<lambda>_. replicate 6144 0, ecc_failed = 0, calls = 0\<rparr>\<rparr>,
     device_volumes = [tmp_volume, misc_volume], mount_table = [], volume_count = 0, the_flash_type = MTD\<rparr>"

lemma simple_table: "flash_table simple_kernel (str ''misc'') misc_partition"
proof -
  let ?ps = "(replicate 32 None)[0 := Some misc_partition]"
  have l: "line_loop (\<lambda>_. True) (take 2047 (str ''mtd0: 00001800 00000800 '' @ [34] @ str ''misc'' @ [34, 10])) (replicate 32 None) 0 =
      Some (?ps, Some 1)" by code_simp
  have "find_slot (str ''misc'') 0 ?ps = Some 0" by code_simp
  moreover have "?ps ! 0 = Some misc_partition" by simp
  ultimately show ?thesis
    unfolding flash_table_def using l
    by (intro conjI exI [of _ ?ps] exI [of _ 1] exI [of _ 0]) (simp_all add: simple_kernel_def perfect_nand_def)
qed

lemma perfect_workable: "workable (\<lambda>_. True) perfect_nand"
proof -
  have "fst (attempts 2 perfect_nand d pos data c)" if "pos + length data \<le> length (cells c d)" for d pos data c
    using that by (simp add: numeral_2_eq_2 io_erase_def io_write_def io_read_def perfect_nand_def called_def overwrite_def Let_def)
  then show ?thesis by (simp add: workable_def dependable_def quiet_def) (simp add: perfect_nand_def)
qed

lemma simple_ready: "misc_ready simple_kernel simple_phone misc_partition"
proof -
  have vol: "find_volume (str ''/misc'') [tmp_volume, misc_volume] = Some misc_volume" by code_simp
  have page: "page_size simple_kernel misc_partition = 2048"
    by (simp add: page_size_def simple_kernel_def perfect_nand_def)
  have "block_count misc_partition = 3" by (simp add: block_count_def misc_partition_def)
  then have "capacity perfect_nand misc_partition = 6144"
    by (simp add: capacity_def usable_block_def perfect_nand_def upt_conv_Cons) (simp add: misc_partition_def)
  moreover have "sound_partition misc_partition (replicate 6144 0)"
    by (simp add: sound_partition_def misc_partition_def)
  ultimately show ?thesis
    unfolding misc_ready_def page using vol simple_table perfect_workable
    by (simp add: simple_phone_def volume_for_path_def MESSAGE_SIZE_def misc_volume_def) (simp add: simple_kernel_def)
qed

theorem bootloader_message_survives_witness:
  "\<exists>s1. set_bootloader_message simple_kernel zero_message simple_phone = Some (0, s1) \<and>
    (\<exists>s3. get_bootloader_message simple_kernel zero_message s1 = Some (0, zero_message, s3))"
proof -
  obtain s1 where s1: "set_bootloader_message simple_kernel zero_message simple_phone = Some (0, s1)"
    "\<And>s2 out. same_misc s1 s2 \<Longrightarrow> \<exists>s3. get_bootloader_message simple_kernel out s2 = Some (0, zero_message, s3) \<and> same_misc s2 s3"
    using bootloader_message_survives [OF simple_ready zero_message_ok] by blast
  have "same_misc s1 s1" by (simp add: same_misc_def)
  with s1 show ?thesis by blast
qed

end
