(* ===== verification/Mounting.thy ===== *)
theory Mounting
  imports Bootloader
begin

text \<open>
  What the table of volumes and the list of mounted volumes hold: the table that is loaded is the one that was
  written, the list has room for what is scanned into it, and it is stale after a mount.
\<close>

section \<open>The table that is written is the one that is loaded\<close>

text \<open>A field has no blanks and no zeros, and \<open>NULL\<close> stands for a missing one.\<close>

definition field :: "bytes \<Rightarrow> bool" where
  "field f \<longleftrightarrow> f \<noteq> [] \<and> (\<forall>c \<in> set f. \<not> isspace c \<and> c \<noteq> 0)"

definition optional :: "bytes option \<Rightarrow> bytes" where
  "optional f = (case f of None \<Rightarrow> str ''NULL'' | Some f \<Rightarrow> f)"

definition fstab_fields :: "Volume \<Rightarrow> bytes list" where
  "fstab_fields v =
     (case v_fs_type2 v of
        None \<Rightarrow> [v_mount_point v, v_fs_type v, the (v_device v), optional (v_device2 v), str ''NULL'', optional (v_fs_options v), str ''NULL'']
      | Some t \<Rightarrow> [v_mount_point v, t, the (v_device v), optional (v_device2 v), v_fs_type v,
          optional (v_fs_options2 v), optional (v_fs_options v)])"

definition fstab_line :: "Volume \<Rightarrow> bytes" where
  "fstab_line v = concat (map (\<lambda>f. f @ [9]) (fstab_fields v)) @ [10]"

definition plain_option :: "bytes option \<Rightarrow> bool" where
  "plain_option f \<longleftrightarrow> (case f of None \<Rightarrow> True | Some f \<Rightarrow> field f \<and> f \<noteq> str ''NULL'')"

definition plain_volume :: "Volume \<Rightarrow> bool" where
  "plain_volume v \<longleftrightarrow> field (v_mount_point v) \<and> hd (v_mount_point v) \<noteq> 35 \<and> field (v_fs_type v) \<and>
     (case v_device v of None \<Rightarrow> False | Some d \<Rightarrow> field d) \<and> plain_option (v_device2 v) \<and> plain_option (v_fs_type2 v) \<and>
     plain_option (v_fs_options v) \<and> plain_option (v_fs_options2 v) \<and>
     (v_fs_type2 v = None \<longrightarrow> v_fs_options2 v = None) \<and> (v_fs_type2 v \<noteq> None \<longrightarrow> v_fs_type v \<noteq> str ''NULL'') \<and>
     length (fstab_line v) \<le> 1022"

lemma NULL_field: "field (str ''NULL'')"
  unfolding field_def by code_simp

lemma next_token_field: "field f \<Longrightarrow> next_token WHITE (f @ 9 # rest) = (Some f, rest)"
proof -
  assume f: "field f"
  have w: "\<And>c. c \<in> set f \<Longrightarrow> c \<notin> set WHITE" using f by (auto simp: field_def WHITE_def isspace_def)
  obtain c cs where c: "f = c # cs" using f by (cases f) (auto simp: field_def)
  have d: "dropWhile (\<lambda>c. c \<in> set WHITE) (f @ 9 # rest) = f @ 9 # rest" using w by (simp add: c)
  have t: "takeWhile (\<lambda>c. c \<notin> set WHITE) (f @ 9 # rest) = f" "dropWhile (\<lambda>c. c \<notin> set WHITE) (f @ 9 # rest) = 9 # rest"
    using w by (simp_all add: takeWhile_append dropWhile_append) (simp_all add: WHITE_def)
  obtain x xs where e: "f @ 9 # rest = x # xs" by (simp add: c)
  show ?thesis unfolding next_token_def d unfolding e list.case unfolding e [symmetric] t by simp
qed

lemma optional_field: "plain_option f \<Longrightarrow> field (optional f)"
  using NULL_field by (auto simp: plain_option_def optional_def split: option.splits)

lemma null_option: "plain_option f \<Longrightarrow> is_null (Some (optional f)) \<longleftrightarrow> f = None" "plain_option f \<Longrightarrow> dupe_string (Some (optional f)) = f"
  by (auto simp: plain_option_def optional_def is_null_def dupe_string_def split: option.splits)

lemma null_NULL: "is_null (Some (str ''NULL''))" "dupe_string (Some (str ''NULL'')) = None"
  by (simp_all add: is_null_def dupe_string_def)

lemma volume_of_fstab_line:
  assumes v: "plain_volume v"
  shows "volume_of_line (fstab_line v) = Some v"
proof -
  obtain d where d: "v_device v = Some d" "field d" using v by (auto simp: plain_volume_def split: option.splits)
  note p = v [unfolded plain_volume_def]
  show ?thesis
  proof (cases "v_fs_type2 v")
    case None
    then show ?thesis
      using p d NULL_field null_option [of "v_device2 v"] null_option [of "v_fs_options v"] optional_field [of "v_device2 v"] optional_field [of "v_fs_options v"]
      by (simp add: volume_of_line_def fstab_line_def fstab_fields_def next_token_field null_NULL)
        (auto simp: optional_def intro!: Volume.equality)
  next
    case (Some t)
    then have "field t" "t \<noteq> str ''NULL''" using p by (auto simp: plain_option_def)
    with Some show ?thesis
      using p d null_option [of "v_device2 v"] null_option [of "v_fs_options v"] null_option [of "v_fs_options2 v"]
        optional_field [of "v_device2 v"] optional_field [of "v_fs_options v"] optional_field [of "v_fs_options2 v"]
      by (simp add: volume_of_line_def fstab_line_def fstab_fields_def next_token_field is_null_def)
        (auto simp: optional_def intro!: Volume.equality)
  qed
qed

lemma field_no_break: "field f \<Longrightarrow> 10 \<notin> set f \<and> 0 \<notin> set f"
proof -
  have "isspace 10" by (simp add: isspace_def)
  then show "field f \<Longrightarrow> 10 \<notin> set f \<and> 0 \<notin> set f" unfolding field_def by blast
qed

lemma fstab_line_facts:
  assumes "plain_volume v"
  shows "10 \<notin> set (butlast (fstab_line v))" "0 \<notin> set (fstab_line v)" "last (fstab_line v) = 10" "fstab_line v \<noteq> []"
    "\<exists>c cs. fstab_line v = c # cs \<and> \<not> isspace c \<and> c \<noteq> 35" "length (fstab_line v) \<le> 1022"
proof -
  note p = assms [unfolded plain_volume_def]
  let ?fs = "concat (map (\<lambda>f. f @ [9]) (fstab_fields v))"
  have f: "field f" if "f \<in> set (fstab_fields v)" for f
    using p that NULL_field optional_field [of "v_device2 v"] optional_field [of "v_fs_options v"] optional_field [of "v_fs_options2 v"]
    by (auto simp: fstab_fields_def plain_option_def split: option.splits)
  then have "10 \<notin> set f \<and> 0 \<notin> set f" if "f \<in> set (fstab_fields v)" for f
    using that field_no_break by blast
  then have s: "10 \<notin> set ?fs" "0 \<notin> set ?fs" by auto
  then show "10 \<notin> set (butlast (fstab_line v))" "0 \<notin> set (fstab_line v)" "last (fstab_line v) = 10" "fstab_line v \<noteq> []"
    unfolding fstab_line_def by simp_all
  show "length (fstab_line v) \<le> 1022" using p by simp
  obtain c cs where "v_mount_point v = c # cs" "\<not> isspace c" "c \<noteq> 35" using p by (cases "v_mount_point v") (auto simp: field_def)
  then show "\<exists>c cs. fstab_line v = c # cs \<and> \<not> isspace c \<and> c \<noteq> 35"
    by (auto simp: fstab_line_def fstab_fields_def split: option.split)
qed

text \<open>A line that fits into the buffer is what \<open>fgets\<close> delivers.\<close>

lemma fgets_line:
  assumes "10 \<notin> set l" and "0 \<notin> set l" and "length l + 1 < room"
  shows "fgets room (l @ 10 # rest) = Some (l @ [10], rest)"
proof -
  have "\<And>c. c \<in> set l \<Longrightarrow> c \<noteq> 10" using assms(1) by auto
  then have "first_line (l @ 10 # rest) = l @ [10]" by (simp add: first_line_def takeWhile_append dropWhile_append)
  then show ?thesis using assms(2,3) by (simp add: fgets_def Let_def cstring_def takeWhile_append)
qed

lemma fstab_loop_lines:
  "list_all plain_volume vs \<Longrightarrow> fstab_loop (concat (map fstab_line vs)) ws = ws @ vs"
proof (induction vs arbitrary: ws)
  case Nil
  then show ?case by (subst fstab_loop.simps) (simp add: fgets_def)
next
  case (Cons v vs)
  then have v: "plain_volume v" "list_all plain_volume vs" by simp_all
  note facts = fstab_line_facts [OF v(1)]
  define l where "l = butlast (fstab_line v)"
  have l: "fstab_line v = l @ [10]" using facts(3,4) by (metis l_def append_butlast_last_id)
  obtain c cs where c: "fstab_line v = c # cs" "\<not> isspace c" "c \<noteq> 35" using facts(5) by blast
  have "fgets 1023 (l @ 10 # concat (map fstab_line vs)) = Some (l @ [10], concat (map fstab_line vs))"
    using facts(1,2,6) l by (intro fgets_line) (auto simp: l_def [symmetric])
  then have g: "fgets 1023 (concat (map fstab_line (v # vs))) = Some (fstab_line v, concat (map fstab_line vs))"
    by (simp add: l)
  have "dropWhile isspace (fstab_line v) = fstab_line v" using c by simp
  then have "fstab_loop (concat (map fstab_line (v # vs))) ws = fstab_loop (concat (map fstab_line vs)) (ws @ [v])"
    using c(1,3) volume_of_fstab_line [OF v(1)] by (subst fstab_loop.simps) (simp only: g option.case prod.case Let_def, simp)
  then show ?case using Cons.IH [OF v(2)] by simp
qed

text \<open>
  C29: Loading a recovery.fstab that lists volumes of plain fields, one per line, with NULL for what is
  missing, gives exactly these volumes behind the one for /tmp, with the second type of a file
  system and its options exchanged with the first as the code does it.
\<close>

theorem load_volume_table_reads:
  assumes "list_all plain_volume vs" and "k_read K (str ''/etc/recovery.fstab'') (outside s) = (Some (concat (map fstab_line vs)), w)"
  shows "load_volume_table K s = s\<lparr>outside := w, device_volumes := tmp_volume # vs\<rparr>"
  using fstab_loop_lines [OF assms(1), of "[tmp_volume]"] assms(2) by (simp add: load_volume_table_def)

definition sample_volumes :: "Volume list" where
  "sample_volumes =
     [\<lparr>v_mount_point = str ''/cache'', v_fs_type = str ''rfs'', v_device = Some (str ''/dev/block/stl11''), v_device2 = None,
        v_fs_type2 = None, v_fs_options = None, v_fs_options2 = None\<rparr>,
      \<lparr>v_mount_point = str ''/data'', v_fs_type = str ''ext4'', v_device = Some (str ''/dev/block/mmcblk0p2''), v_device2 = None,
        v_fs_type2 = Some (str ''rfs''), v_fs_options = Some (str ''noauto_da_alloc''), v_fs_options2 = Some (str ''check=no'')\<rparr>]"

theorem load_volume_table_reads_witness:
  "\<exists>w. device_volumes (load_volume_table (simple_kernel\<lparr>k_read := \<lambda>path w. (Some (concat (map fstab_line sample_volumes)), w)\<rparr>) simple_phone) =
     tmp_volume # sample_volumes"
proof -
  have "list_all plain_volume sample_volumes"
    unfolding plain_volume_def plain_option_def field_def sample_volumes_def by code_simp
  from load_volume_table_reads [OF this, of "simple_kernel\<lparr>k_read := \<lambda>path w. (Some (concat (map fstab_line sample_volumes)), w)\<rparr>" simple_phone]
  show ?thesis by simp
qed

section \<open>Room for what is scanned\<close>

definition line_count :: "bytes \<Rightarrow> nat" where
  "line_count b = length (filter (\<lambda>c. c = 10) b) + (if b = [] \<or> last b = 10 then 0 else 1)"

lemma line_count_eat: "b \<noteq> [] \<Longrightarrow> line_count b = Suc (line_count (eat_line b))"
proof -
  assume b: "b \<noteq> []"
  let ?l = "takeWhile (\<lambda>c. c \<noteq> 10) b" let ?r = "dropWhile (\<lambda>c. c \<noteq> 10) b"
  have "filter (\<lambda>c. c = 10) ?l = []" by (auto simp: filter_empty_conv dest: set_takeWhileD)
  moreover have s: "b = ?l @ ?r" by simp
  ultimately have f: "filter (\<lambda>c. c = 10) b = filter (\<lambda>c. c = 10) ?r" by (metis append_Nil filter_append)
  show ?thesis
  proof (cases ?r)
    case Nil
    then have "\<forall>c \<in> set b. c \<noteq> 10" by simp
    then have "last b \<noteq> 10" "filter (\<lambda>c. c = 10) b = []" using b by (auto simp: filter_empty_conv)
    moreover have "eat_line b = []" unfolding eat_line_def Nil by simp
    ultimately show ?thesis using b by (simp add: line_count_def)
  next
    case (Cons c cs)
    then have "c = 10" using hd_dropWhile [of "\<lambda>c. c \<noteq> 10" b] by simp
    moreover have "last b = (if cs = [] then c else last cs)" using s unfolding Cons by (metis last_ConsL last_ConsR last_appendR list.distinct(1))
    moreover have "eat_line b = cs" unfolding eat_line_def Cons by simp
    ultimately show ?thesis using b f unfolding line_count_def Cons by simp
  qed
qed

lemma mounts_loop_room:
  "n + line_count b \<le> length vs \<Longrightarrow> \<exists>vs' n'. mounts_loop b vs n = Some (vs', n') \<and> length vs' = length vs \<and> n' \<le> n + line_count b"
proof (induction b vs n rule: mounts_loop.induct)
  case (1 b vs n)
  show ?case
  proof (cases "b = []")
    case True
    then show ?thesis by (subst mounts_loop.simps) (simp add: line_count_def)
  next
    case False
    note c = line_count_eat [OF False]
    show ?thesis
    proof (cases "scan_mount b")
      case None
      then show ?thesis using 1(1) [OF False None] 1(3) c False by (subst mounts_loop.simps) fastforce
    next
      case (Some v)
      have n: "\<not> length vs \<le> n" using 1(3) c by simp
      from 1(2) [OF False Some n] 1(3) c
      obtain vs' n' where "mounts_loop (eat_line b) (vs[n := Some v]) (n + 1) = Some (vs', n')" "length vs' = length vs" "n' \<le> n + line_count b"
        by auto
      then show ?thesis using False Some n by (subst mounts_loop.simps) simp
    qed
  qed
qed

definition mounts_ok :: "'w phone \<Rightarrow> bool" where
  "mounts_ok s \<longleftrightarrow> volume_count s \<le> length (mount_table s) \<and> (mount_table s = [] \<or> length (mount_table s) = 32)"

text \<open>
  C30: As long as the first 2047 bytes of /proc/mounts have at most 32 lines, scan_mounted_volumes
  stays inside its table of 32 volumes, whatever the lines say, and keeps its size and the
  number of its entries in bounds; it fails only without memory or without /proc/mounts.
\<close>

theorem scan_mounted_volumes_room:
  assumes "mounts_ok s" and "k_proc_mounts K (outside s) = (content, w)" and "\<And>b. content = Some b \<Longrightarrow> line_count (take 2047 b) \<le> 32"
  shows "\<exists>r s'. scan_mounted_volumes K s = Some (r, s') \<and> mounts_ok s' \<and>
    (r = 0 \<longleftrightarrow> content \<noteq> None \<and> (mount_table s \<noteq> [] \<or> k_malloc K 512)) \<and> (r = 0 \<or> r = -1)"
proof (cases "mount_table s = [] \<and> \<not> k_malloc K 512")
  case True
  then show ?thesis using assms(1) by (auto simp: scan_mounted_volumes_def)
next
  case False
  define table where "table = (if mount_table s = [] then replicate 32 None
      else replicate (volume_count s) None @ drop (volume_count s) (mount_table s))"
  have t: "length table = 32" using assms(1) by (auto simp: table_def mounts_ok_def)
  show ?thesis
  proof (cases content)
    case None
    then show ?thesis using False assms(2) t by (auto simp: scan_mounted_volumes_def Let_def mounts_ok_def table_def [symmetric])
  next
    case (Some b)
    obtain vs n where "mounts_loop (take 2047 b) table 0 = Some (vs, n)" "length vs = 32" "n \<le> 32"
      using mounts_loop_room [of 0 "take 2047 b" table] assms(3) [OF Some] t by fastforce
    then show ?thesis using False assms(2) Some by (auto simp: scan_mounted_volumes_def Let_def mounts_ok_def table_def [symmetric])
  qed
qed

definition mounts_of :: "nat \<Rightarrow> bytes" where
  "mounts_of n = concat (replicate n (str ''a /b c d'' @ [10]))"

theorem scan_mounted_volumes_room_witness:
  "\<exists>s'. scan_mounted_volumes (simple_kernel\<lparr>k_proc_mounts := \<lambda>w. (Some (mounts_of 3), w)\<rparr>) simple_phone = Some (0, s') \<and> mounts_ok s'"
proof -
  let ?K = "simple_kernel\<lparr>k_proc_mounts := \<lambda>w. (Some (mounts_of 3), w)\<rparr>"
  have "mounts_ok simple_phone" by (simp add: mounts_ok_def simple_phone_def)
  moreover have "k_proc_mounts ?K (outside simple_phone) = (Some (mounts_of 3), outside simple_phone)" by simp
  moreover have "line_count (take 2047 (mounts_of 3)) \<le> 32" by code_simp
  ultimately show ?thesis using scan_mounted_volumes_room [of simple_phone ?K "Some (mounts_of 3)"]
    by (auto simp: simple_kernel_def)
qed

section \<open>The list is stale after a mount\<close>

lemma mount_volume_table:
  "mount_volume K path v s = Some (r, s') \<Longrightarrow> mount_table s' = mount_table s \<and> volume_count s' = volume_count s"
  unfolding mount_volume_def Let_def
  by (auto split: if_split_asm option.split_asm Option.bind_split_asm prod.split_asm)

text \<open>
  C40: When ensure_path_mounted has had to mount the volume of a path, the volume is still not
  found by find_mounted_volume_by_mount_point, although 0 was returned: the list was scanned before the mount.
  The main program dereferences the result of exactly this search.
\<close>

theorem fresh_mount_not_found:
  assumes "volume_for_path path s = Some v" and "v_fs_type v \<noteq> str ''ramdisk''"
    and "scan_mounted_volumes K s = Some (0, s1)" and "find_mounted_volume_by_mount_point (v_mount_point v) s1 = None"
    and "ensure_path_mounted K path s = Some (r, s')"
  shows "find_mounted_volume_by_mount_point (v_mount_point v) s' = None"
proof -
  have "mount_volume K path v s1 = Some (r, s')"
    using assms(5) by (subst (asm) ensure_path_mounted.simps) (simp add: assms(1-4))
  then show ?thesis using assms(4) mount_volume_table by (fastforce simp: find_mounted_volume_by_mount_point_def)
qed

definition system_volume :: Volume where
  "system_volume = \<lparr>v_mount_point = str ''/system'', v_fs_type = str ''rfs'', v_device = Some (str ''/dev/block/stl9''), v_device2 = None,
     v_fs_type2 = None, v_fs_options = None, v_fs_options2 = None\<rparr>"

theorem fresh_mount_not_found_witness:
  "\<exists>s'. ensure_path_mounted simple_kernel (str ''/system'') (simple_phone\<lparr>device_volumes := [tmp_volume, system_volume]\<rparr>) = Some (0, s') \<and>
    find_mounted_volume_by_mount_point (str ''/system'') s' = None"
proof -
  let ?s = "simple_phone\<lparr>device_volumes := [tmp_volume, system_volume]\<rparr>"
  have "find_volume (str ''/system'') [tmp_volume, system_volume] = Some system_volume" by code_simp
  then have v: "volume_for_path (str ''/system'') ?s = Some system_volume" by (simp add: volume_for_path_def)
  have t: "v_fs_type system_volume \<noteq> str ''ramdisk''" "v_fs_type system_volume \<noteq> str ''yaffs2''"
    "v_fs_type system_volume \<in> {str ''ext4'', str ''ext3'', str ''rfs'', str ''vfat''}"
    unfolding system_volume_def by code_simp+
  obtain s1 where s1: "scan_mounted_volumes simple_kernel ?s = Some (0, s1)" "find_mounted_volume_by_mount_point (v_mount_point system_volume) s1 = None"
    by (simp add: scan_mounted_volumes_def simple_kernel_def simple_phone_def find_mounted_volume_by_mount_point_def mounts_loop.simps)
  have "mount_volume simple_kernel (str ''/system'') system_volume s1 = Some (0, s1)"
    using t by (simp add: mount_volume_def try_mount_def) (simp add: simple_kernel_def system_volume_def)
  then have e: "ensure_path_mounted simple_kernel (str ''/system'') ?s = Some (0, s1)"
    using v t(1) s1 by (subst ensure_path_mounted.simps) simp
  from fresh_mount_not_found [OF v t(1) s1 e] e show ?thesis by (auto simp: system_volume_def)
qed

end
