(* ===== verification/Recovery.thy ===== *)
theory Recovery
  imports Bootloader
begin

unbundle bit_operations_syntax

text \<open>
  The recovery program, \<open>recovery.c\<close>: where its arguments come from and how they are kept in the bootloader
  control block so that a command that is interrupted is started again, the end of a recovery,
  and the operations its commands are made of.
\<close>

section \<open>Strings in buffers\<close>

text \<open>\<open>strlcpy\<close> and \<open>strlcat\<close> with the size of the destination.\<close>

definition strlcpy_into :: "bytes \<Rightarrow> bytes \<Rightarrow> bytes" where
  "strlcpy_into buf src =
     (let n = min (length src) (length buf - 1) in take n src @ [0] @ drop (n + 1) buf)"

definition strlcat_into :: "bytes \<Rightarrow> bytes \<Rightarrow> bytes" where
  "strlcat_into buf src =
     (let d = length (cstring buf) in
      if d = length buf then buf
      else let n = min (length src) (length buf - 1 - d) in take d buf @ take n src @ [0] @ drop (d + n + 1) buf)"

text \<open>
  \<open>strtok\<close> as it changes its string: the token, what has been passed with the delimiter behind
  the token zeroed, and the rest.
\<close>

definition cut_token :: "bytes \<Rightarrow> bytes \<Rightarrow> bytes option \<times> bytes \<times> bytes" where
  "cut_token delims s =
     (let lead = takeWhile (\<lambda>c. c \<in> set delims) s; t = dropWhile (\<lambda>c. c \<in> set delims) s in
      if t = [] then (None, lead, [])
      else
        let token = takeWhile (\<lambda>c. c \<notin> set delims) t; rest = dropWhile (\<lambda>c. c \<notin> set delims) t in
        (Some token, lead @ token @ (if rest = [] then [] else [0]), drop 1 rest))"

fun cut_tokens :: "nat \<Rightarrow> bytes \<Rightarrow> bytes list \<times> bytes" where
  "cut_tokens 0 s = ([], s)"
| "cut_tokens (Suc n) s =
     (let (token, passed, rest) = cut_token [10] s in
      case token of
        None \<Rightarrow> ([], passed @ rest)
      | Some t \<Rightarrow> let (ts, left) = cut_tokens n rest in (t # ts, passed @ left))"

section \<open>Files\<close>

definition COMMAND_FILE :: bytes where "COMMAND_FILE = str ''/cache/recovery/command''"
definition INTENT_FILE :: bytes where "INTENT_FILE = str ''/cache/recovery/intent''"
definition LOG_FILE :: bytes where "LOG_FILE = str ''/cache/recovery/log''"
definition LAST_LOG_FILE :: bytes where "LAST_LOG_FILE = str ''/cache/recovery/last_log''"
definition TEMPORARY_LOG_FILE :: bytes where "TEMPORARY_LOG_FILE = str ''/tmp/recovery.log''"
definition SIDELOAD_TEMP_DIR :: bytes where "SIDELOAD_TEMP_DIR = str ''/tmp/sideload''"
definition MAX_ARG_LENGTH :: nat where "MAX_ARG_LENGTH = 4096"
definition MAX_ARGS :: nat where "MAX_ARGS = 100"

text \<open>\<open>fopen\_path\<close> for reading, and for writing or appending a string.\<close>

definition fopen_path_read :: "('w, 'z) kernel_scheme \<Rightarrow> bytes \<Rightarrow> 'w phone \<Rightarrow> (bytes option \<times> 'w phone) option" where
  "fopen_path_read K path s = do {
     (r, s) \<leftarrow> ensure_path_mounted K path s;
     if r \<noteq> 0 then Some (None, s)
     else
       let (f, w) = k_read K path (outside s) in
       Some (f, s\<lparr>outside := w\<rparr>) }"

definition fopen_path_write ::
    "('w, 'z) kernel_scheme \<Rightarrow> bytes \<Rightarrow> bool \<Rightarrow> bytes \<Rightarrow> 'w phone \<Rightarrow> (bool \<times> 'w phone) option" where
  "fopen_path_write K path appending text s = do {
     (r, s) \<leftarrow> ensure_path_mounted K path s;
     if r \<noteq> 0 then Some (False, s)
     else do {
       (_, w) \<leftarrow> dirCreateHierarchy (k_malloc K) K path 0x1FF None True (outside s);
       let (ok, w) = k_write K path appending text w;
       Some (ok, s\<lparr>outside := w\<rparr>) } }"

section \<open>Arguments\<close>

text \<open>One argument per line; a blank line makes \<open>strtok\<close> return \<open>NULL\<close>, which \<open>strdup\<close> reads.\<close>

fun command_args :: "nat \<Rightarrow> bytes \<Rightarrow> bytes list option" where
  "command_args 0 f = Some []"
| "command_args (Suc n) f =
     (case fgets MAX_ARG_LENGTH f of
        None \<Rightarrow> Some []
      | Some (line, f) \<Rightarrow>
          (case next_token [13, 10] line of
             (None, _) \<Rightarrow> None
           | (Some arg, _) \<Rightarrow> map_option (\<lambda>args. arg # args) (command_args n f)))"

text \<open>The arguments in a message, and the message as \<open>strtok\<close> leaves it.\<close>

definition boot_args :: "bytes list \<Rightarrow> bootloader_message \<Rightarrow> bytes list \<times> bootloader_message" where
  "boot_args argv boot =
     (let rec = (b_recovery boot)[1023 := 0];
          s = cstring rec;
          (arg, passed, rest) = cut_token [10] s in
      if arg = Some (str ''recovery'') then
        let (args, left) = cut_tokens (MAX_ARGS - 1) rest in
        (str ''recovery'' # args, boot\<lparr>b_recovery := passed @ left @ drop (length s) rec\<rparr>)
      else (argv, boot\<lparr>b_recovery := passed @ rest @ drop (length s) rec\<rparr>))"

definition boot_recovery :: "bytes list \<Rightarrow> bootloader_message \<Rightarrow> bootloader_message" where
  "boot_recovery args boot = boot\<lparr>
     b_command := strlcpy_into (b_command boot) (str ''boot-recovery''),
     b_recovery := foldl (\<lambda>b arg. strlcat_into (strlcat_into b arg) [10])
       (strlcpy_into (b_recovery boot) (str ''recovery'' @ [10])) args\<rparr>"

definition ignore_boot_message :: "('w, 'z) kernel_scheme \<Rightarrow> 'w phone \<Rightarrow> bool" where
  "ignore_boot_message K s \<longleftrightarrow> os_stat K (str ''/tmp/.ignorebootmessage'') (outside s) \<in> {StatDir, StatOther}"

text \<open>\<open>argv\<close> has at least one element.\<close>

definition get_args :: "('w, 'z) kernel_scheme \<Rightarrow> bytes list \<Rightarrow> 'w phone \<Rightarrow> (bytes list \<times> 'w phone) option" where
  "get_args K argv s = do {
     let (flash_type, s) = device_flash_type K s;
     (boot, s) \<leftarrow>
       (if flash_type = MTD then do {
          (_, boot, s) \<leftarrow> get_bootloader_message K zero_message s;
          Some (boot, s) }
        else Some (zero_message, s));
     let (argv, boot) = (if length argv \<le> 1 \<and> \<not> ignore_boot_message K s then boot_args argv boot else (argv, boot));
     (argv, s) \<leftarrow>
       (if length argv \<le> 1 then do {
          (f, s) \<leftarrow> fopen_path_read K COMMAND_FILE s;
          case f of
            None \<Rightarrow> Some (argv, s)
          | Some f \<Rightarrow> do { args \<leftarrow> command_args (MAX_ARGS - 1) f; Some (take 1 argv @ args, s) } }
        else Some (argv, s));
     let boot = boot_recovery (drop 1 argv) boot;
     let (flash_type, s) = device_flash_type K s;
     if flash_type = MTD then do {
       (_, s) \<leftarrow> set_bootloader_message K boot s;
       Some (argv, s) }
     else Some (argv, s) }"

definition set_sdcard_update_bootloader_message :: "('w, 'z) kernel_scheme \<Rightarrow> 'w phone \<Rightarrow> (int \<times> 'w phone) option" where
  "set_sdcard_update_bootloader_message K s = set_bootloader_message K (boot_recovery [] zero_message) s"

section \<open>The end of a recovery\<close>

text \<open>Copying a log line by line; a line ends for \<open>fputs\<close> at its first zero.\<close>

function copy_lines :: "bytes \<Rightarrow> bytes" where
  "copy_lines f = (case fgets 4096 f of None \<Rightarrow> [] | Some (line, f) \<Rightarrow> line @ copy_lines f)"
  by pat_completeness auto
termination
  by (relation "measure length") (auto dest: fgets_shrinks)

declare copy_lines.simps [simp del]

text \<open>\<open>tmplog\_offset\<close> is a parameter and a result.\<close>

definition copy_log_file ::
    "('w, 'z) kernel_scheme \<Rightarrow> bytes \<Rightarrow> bool \<Rightarrow> nat \<Rightarrow> 'w phone \<Rightarrow> (nat \<times> 'w phone) option" where
  "copy_log_file K destination appending tmplog_offset s = do {
     (ok, s) \<leftarrow> fopen_path_write K destination appending [] s;
     if \<not> ok then Some (tmplog_offset, s)
     else
       let (tmplog, w) = k_read K TEMPORARY_LOG_FILE (outside s) in
       case tmplog of
         None \<Rightarrow> Some (tmplog_offset, s\<lparr>outside := w\<rparr>)
       | Some tmplog \<Rightarrow>
           let from = (if appending then tmplog_offset else 0);
               (_, w) = k_write K destination True (copy_lines (drop from tmplog)) w in
           Some (if appending then max from (length tmplog) else tmplog_offset, s\<lparr>outside := w\<rparr>) }"

definition finish_recovery ::
    "('w, 'z) kernel_scheme \<Rightarrow> bytes option \<Rightarrow> nat \<Rightarrow> 'w phone \<Rightarrow> (nat \<times> 'w phone) option" where
  "finish_recovery K send_intent tmplog_offset s = do {
     s \<leftarrow> (case send_intent of
            None \<Rightarrow> Some s
          | Some intent \<Rightarrow> do { (_, s) \<leftarrow> fopen_path_write K INTENT_FILE False intent s; Some s });
     (tmplog_offset, s) \<leftarrow> copy_log_file K LOG_FILE True tmplog_offset s;
     (tmplog_offset, s) \<leftarrow> copy_log_file K LAST_LOG_FILE False tmplog_offset s;
     let s = s\<lparr>outside := snd (k_chmod K LAST_LOG_FILE 0x1A0 (outside s))\<rparr>;
     let (flash_type, s) = device_flash_type K s;
     s \<leftarrow> (if flash_type = MTD then do { (_, s) \<leftarrow> set_bootloader_message K zero_message s; Some s } else Some s);
     (r, s) \<leftarrow> ensure_path_mounted K COMMAND_FILE s;
     Some (tmplog_offset, if r \<noteq> 0 then s else s\<lparr>outside := snd (k_unlink K COMMAND_FILE (outside s))\<rparr>) }"

section \<open>Operations of commands\<close>

definition erase_volume :: "('w, 'z) kernel_scheme \<Rightarrow> bytes \<Rightarrow> nat \<Rightarrow> 'w phone \<Rightarrow> (int \<times> nat \<times> 'w phone) option" where
  "erase_volume K volume tmplog_offset s = do {
     (r, s) \<leftarrow> format_volume K volume s;
     Some (r, if volume = str ''/cache'' then 0 else tmplog_offset, s) }"

definition S_IFMT :: nat where "S_IFMT = 0xF000"
definition S_IFDIR :: nat where "S_IFDIR = 0x4000"
definition EEXIST :: nat where "EEXIST = 17"

text \<open>The path of the copy, \<open>None\<close> for \<open>NULL\<close>.\<close>

definition copy_sideloaded_package ::
    "('w, 'z) kernel_scheme \<Rightarrow> bytes \<Rightarrow> 'w phone \<Rightarrow> (bytes option \<times> 'w phone) option" where
  "copy_sideloaded_package K original_path s = do {
     (r, s) \<leftarrow> ensure_path_mounted K original_path s;
     if r \<noteq> 0 then Some (None, s)
     else do {
       (r, s) \<leftarrow> ensure_path_mounted K SIDELOAD_TEMP_DIR s;
       if r \<noteq> 0 then Some (None, s)
       else
         let (r, w) = os_mkdir K SIDELOAD_TEMP_DIR 0x1C0 (outside s); s = s\<lparr>outside := w\<rparr> in
         if r \<noteq> 0 \<and> k_errno K w \<noteq> EEXIST then Some (None, s)
         else case k_mode K SIDELOAD_TEMP_DIR w of
           None \<Rightarrow> Some (None, s)
         | Some mode \<Rightarrow>
             if mode AND S_IFMT \<noteq> S_IFDIR then Some (None, s)
             else if mode AND 0x1FF \<noteq> 0x1C0 then Some (None, s)
             else if k_uid K SIDELOAD_TEMP_DIR w \<noteq> 0 then Some (None, s)
             else
               let copy_path = SIDELOAD_TEMP_DIR @ str ''/package.zip'' in
               if \<not> k_malloc K 1024 then Some (None, s)
               else
                 let (fin, w) = k_read K original_path w; s = s\<lparr>outside := w\<rparr> in
                 case fin of
                   None \<Rightarrow> Some (None, s)
                 | Some content \<Rightarrow>
                     let (ok, w) = k_write K copy_path False content w; s = s\<lparr>outside := w\<rparr> in
                     if \<not> ok then Some (None, s)
                     else
                       let (r, w) = k_chmod K copy_path 0x100 w; s = s\<lparr>outside := w\<rparr> in
                       Some (if r \<noteq> 0 then None else Some copy_path, s) } }"

end
