(* ===== verification/Restart.thy ===== *)
theory Restart
  imports Recovery
begin

text \<open>
  A command that recovery has begun is started again when the phone is switched off in between,
  and one that is finished is not: what \<open>get\_args\<close> and \<open>finish\_recovery\<close> leave in the bootloader control block.
\<close>

section \<open>Strings in buffers, proved\<close>

lemma cstring_append_zero: "0 \<notin> set s \<Longrightarrow> cstring (s @ 0 # rest) = s"
  unfolding cstring_def by (induction s) auto

lemma cstring_no_zero: "0 \<notin> set (cstring s)"
  unfolding cstring_def by (auto dest: set_takeWhileD)

lemma cstring_id: "0 \<notin> set s \<Longrightarrow> cstring s = s"
  unfolding cstring_def by (induction s) auto

lemma cstring_prefix: "take (length (cstring s)) s = cstring s"
  unfolding cstring_def by (metis takeWhile_eq_take)

lemma length_cstring: "length (cstring s) \<le> length s"
  unfolding cstring_def by (rule length_takeWhile_le)

lemma length_strlcpy: "0 < length buf \<Longrightarrow> length (strlcpy_into buf src) = length buf"
  unfolding strlcpy_into_def Let_def length_append length_take length_drop list.size by linarith

lemma length_strlcat: "length (strlcat_into buf src) = length buf"
  using length_cstring [of buf] by (auto simp: strlcat_into_def Let_def)

lemma cstring_strlcpy:
  "0 \<notin> set src \<Longrightarrow> length src < length buf \<Longrightarrow> cstring (strlcpy_into buf src) = src"
  by (simp add: strlcpy_into_def Let_def min_absorb1 cstring_append_zero)

lemma cstring_strlcat:
  assumes "0 \<notin> set src" and "length (cstring buf) + length src < length buf"
  shows "cstring (strlcat_into buf src) = cstring buf @ src"
proof -
  have "strlcat_into buf src = (cstring buf @ src) @ 0 # drop (length (cstring buf) + length src + 1) buf"
    using assms(2) cstring_prefix [of buf] by (simp add: strlcat_into_def Let_def min_absorb1)
  then show ?thesis using assms(1) cstring_no_zero [of buf] by (simp only: cstring_append_zero set_append Un_iff simp_thms)
qed

text \<open>Arguments as lines.\<close>

definition plain_arg :: "bytes \<Rightarrow> bool" where
  "plain_arg a \<longleftrightarrow> a \<noteq> [] \<and> 10 \<notin> set a \<and> 0 \<notin> set a"

definition args_text :: "bytes list \<Rightarrow> bytes" where
  "args_text args = concat (map (\<lambda>a. a @ [10]) args)"

lemma foldl_strlcat:
  "list_all plain_arg args \<Longrightarrow> length (cstring buf) + length (args_text args) < length buf \<Longrightarrow>
    cstring (foldl (\<lambda>b arg. strlcat_into (strlcat_into b arg) [10]) buf args) = cstring buf @ args_text args"
proof (induction args arbitrary: buf)
  case (Cons a args)
  let ?b = "strlcat_into (strlcat_into buf a) [10]"
  have "cstring (strlcat_into buf a) = cstring buf @ a"
    using Cons(2,3) by (intro cstring_strlcat) (simp_all add: plain_arg_def args_text_def)
  moreover from this have "cstring ?b = cstring (strlcat_into buf a) @ [10]"
    using Cons(3) by (intro cstring_strlcat) (simp_all add: length_strlcat args_text_def)
  ultimately have "cstring ?b = cstring buf @ a @ [10]" by simp
  then show ?case using Cons(1) [of ?b] Cons(2,3) by (simp add: length_strlcat args_text_def)
qed (simp add: args_text_def)

lemma length_foldl_strlcat:
  "length (foldl (\<lambda>b arg. strlcat_into (strlcat_into b arg) [10]) buf args) = length buf"
  by (induction args arbitrary: buf) (simp_all add: length_strlcat)

definition RECOVERY :: bytes where "RECOVERY = str ''recovery''"

lemma RECOVERY_facts: "0 \<notin> set RECOVERY" "10 \<notin> set RECOVERY" "length RECOVERY = 8" "RECOVERY \<noteq> []"
  by code_simp+

lemma boot_recovery_text:
  assumes m: "message_ok m" and args: "list_all plain_arg args" "length (args_text args) \<le> 1014"
  shows "message_ok (boot_recovery args m)" "cstring (b_recovery (boot_recovery args m)) = RECOVERY @ 10 # args_text args"
proof -
  let ?b = "strlcpy_into (b_recovery m) (RECOVERY @ [10])"
  have len: "length ?b = 1024" "length (strlcpy_into (b_command m) c) = 32" for c
    using m by (auto simp: message_ok_def length_strlcpy)
  have c: "cstring ?b = RECOVERY @ [10]"
    using m RECOVERY_facts by (intro cstring_strlcpy) (simp_all add: message_ok_def)
  show "message_ok (boot_recovery args m)"
    using m len by (simp add: message_ok_def boot_recovery_def length_foldl_strlcat RECOVERY_def [symmetric])
  show "cstring (b_recovery (boot_recovery args m)) = RECOVERY @ 10 # args_text args"
    using foldl_strlcat [OF args(1), of ?b] args(2) len(1) RECOVERY_facts
    by (simp add: boot_recovery_def RECOVERY_def [symmetric] c)
qed

section \<open>Reading the arguments back\<close>

lemma cut_token_line: "plain_arg a \<Longrightarrow> cut_token [10] (a @ 10 # rest) = (Some a, a @ [0], rest)"
proof -
  assume a: "plain_arg a"
  then obtain c cs where c: "a = c # cs" "c \<noteq> 10" by (cases a) (auto simp: plain_arg_def)
  have "\<And>x. x \<in> set a \<Longrightarrow> x \<noteq> 10" using a by (auto simp: plain_arg_def)
  then have "takeWhile (\<lambda>c. c \<noteq> 10) (a @ 10 # rest) = a" "dropWhile (\<lambda>c. c \<noteq> 10) (a @ 10 # rest) = 10 # rest"
    by (simp_all add: takeWhile_append dropWhile_append)
  moreover have "takeWhile (\<lambda>c. c = 10) (a @ 10 # rest) = []" "dropWhile (\<lambda>c. c = 10) (a @ 10 # rest) = a @ 10 # rest"
    using c by simp_all
  ultimately show ?thesis by (simp add: cut_token_def Let_def)
qed

lemma cut_tokens_text:
  "list_all plain_arg args \<Longrightarrow> length args \<le> n \<Longrightarrow> fst (cut_tokens n (args_text args)) = args"
proof (induction args arbitrary: n)
  case Nil
  then show ?case by (cases n) (simp_all add: args_text_def cut_token_def Let_def)
next
  case (Cons a args)
  then obtain k where "n = Suc k" "length args \<le> k" by (cases n) auto
  with Cons show ?case
    using cut_token_line [of a "args_text args"] by (simp add: args_text_def split: prod.split) (metis fst_conv)
qed

lemma boot_args_text:
  assumes m: "message_ok m" and r: "cstring (b_recovery m) = RECOVERY @ 10 # args_text args"
    and args: "list_all plain_arg args" "length args \<le> 99" "length (args_text args) \<le> 1014"
  shows "fst (boot_args argv m) = RECOVERY # args"
proof -
  have "length (cstring (b_recovery m)) \<le> 1023" using r args(3) RECOVERY_facts by simp
  then obtain rest where b: "b_recovery m = cstring (b_recovery m) @ 0 # rest"
    using m cstring_prefix [of "b_recovery m"]
  proof -
    let ?n = "length (cstring (b_recovery m))"
    have l: "?n < length (b_recovery m)" using m \<open>?n \<le> 1023\<close> by (simp add: message_ok_def)
    then have "b_recovery m = cstring (b_recovery m) @ (b_recovery m ! ?n) # drop (Suc ?n) (b_recovery m)"
      using cstring_prefix [of "b_recovery m"] by (metis id_take_nth_drop)
    moreover have "b_recovery m ! ?n = 0"
      using l nth_length_takeWhile [of "\<lambda>c. c \<noteq> 0" "b_recovery m"] by (simp add: cstring_def)
    ultimately show thesis using that by metis
  qed
  have "cstring ((b_recovery m)[1023 := 0]) = cstring (b_recovery m)"
  proof -
    have "\<exists>rest'. (b_recovery m)[1023 := 0] = cstring (b_recovery m) @ 0 # rest'"
    proof (cases "length (cstring (b_recovery m)) = 1023")
      case True
      then show ?thesis by (subst b) (simp add: list_update_append)
    next
      case False
      then have "0 < 1023 - length (cstring (b_recovery m))" using \<open>length (cstring (b_recovery m)) \<le> 1023\<close> by simp
      then obtain k where "1023 - length (cstring (b_recovery m)) = Suc k" by (metis gr0_implies_Suc)
      then show ?thesis using False \<open>length (cstring (b_recovery m)) \<le> 1023\<close> by (subst b) (simp add: list_update_append)
    qed
    then show ?thesis using cstring_append_zero [OF cstring_no_zero] by metis
  qed
  moreover have "cut_token [10] (RECOVERY @ 10 # args_text args) = (Some RECOVERY, RECOVERY @ [0], args_text args)"
    using RECOVERY_facts by (intro cut_token_line) (simp add: plain_arg_def)
  ultimately show ?thesis
    using cut_tokens_text [OF args(1), of 99] args(2)
    by (simp add: boot_args_def Let_def r RECOVERY_def [symmetric] MAX_ARGS_def split: prod.split) (metis fst_conv)
qed

section \<open>Where the arguments come from\<close>

lemma token_plain:
  assumes "dropWhile (\<lambda>c. c \<in> set delims) s \<noteq> []" and "0 \<notin> set s" and "10 \<in> set delims"
  shows "plain_arg (takeWhile (\<lambda>c. c \<notin> set delims) (dropWhile (\<lambda>c. c \<in> set delims) s))"
proof -
  obtain c cs where c: "dropWhile (\<lambda>c. c \<in> set delims) s = c # cs" using assms(1) by (cases "dropWhile (\<lambda>c. c \<in> set delims) s") auto
  then have "c \<notin> set delims" using hd_dropWhile [OF assms(1)] by simp
  moreover have "0 \<notin> set (c # cs)" using assms(2) c set_dropWhileD [of 0 "\<lambda>c. c \<in> set delims" s] by metis
  ultimately show ?thesis using assms(3) unfolding c by (auto simp: plain_arg_def dest!: set_takeWhileD)
qed

lemma next_token_plain:
  assumes "next_token delims s = (Some a, r)" and "0 \<notin> set s" and "10 \<in> set delims"
  shows "plain_arg a"
proof (cases "dropWhile (\<lambda>c. c \<in> set delims) s")
  case Nil
  then show ?thesis using assms(1) unfolding next_token_def Nil by simp
next
  case (Cons c cs)
  then have "a = takeWhile (\<lambda>c. c \<notin> set delims) (dropWhile (\<lambda>c. c \<in> set delims) s)"
    using assms(1) unfolding next_token_def by simp
  moreover have "dropWhile (\<lambda>c. c \<in> set delims) s \<noteq> []" unfolding Cons by simp
  ultimately show ?thesis using token_plain assms(2,3) by blast
qed

lemma cut_token_unfold:
  "cut_token [10] s =
     (if dropWhile (\<lambda>c. c = 10) s = [] then (None, takeWhile (\<lambda>c. c = 10) s, [])
      else
        let t = dropWhile (\<lambda>c. c = 10) s; r = dropWhile (\<lambda>c. c \<noteq> 10) t in
        (Some (takeWhile (\<lambda>c. c \<noteq> 10) t),
         takeWhile (\<lambda>c. c = 10) s @ takeWhile (\<lambda>c. c \<noteq> 10) t @ (if r = [] then [] else [0]), drop 1 r))"
  by (simp only: cut_token_def Let_def list.set insert_iff empty_iff simp_thms)

lemma cut_token_spec:
  assumes "cut_token [10] s = (t, passed, rest)"
  shows "length passed + length rest = length s" "0 \<notin> set s \<Longrightarrow> 0 \<notin> set rest" "0 \<notin> set s \<Longrightarrow> t = Some a \<Longrightarrow> plain_arg a"
proof -
  let ?t = "dropWhile (\<lambda>c. c = 10) s" let ?r = "dropWhile (\<lambda>c. c \<noteq> 10) ?t"
  have l: "length (takeWhile (\<lambda>c. c = 10) s) + length ?t = length s" "length (takeWhile (\<lambda>c. c \<noteq> 10) ?t) + length ?r = length ?t"
    unfolding length_append [symmetric] by simp_all
  show "length passed + length rest = length s"
  proof (cases "?t = []")
    case False
    have e: "passed = takeWhile (\<lambda>c. c = 10) s @ takeWhile (\<lambda>c. c \<noteq> 10) ?t @ (if ?r = [] then [] else [0])" "rest = drop 1 ?r"
      using assms unfolding cut_token_unfold if_not_P [OF False] Let_def by (simp_all only: prod.inject)
    have "length (if r = [] then [] else [0::u8]) + length (drop 1 r) = length r" for r :: bytes by (cases r) simp_all
    from this [of ?r] show ?thesis using l unfolding e length_append by linarith
  next
    case True
    then have "passed = takeWhile (\<lambda>c. c = 10) s" "rest = []" using assms unfolding cut_token_unfold if_P [OF True] by simp_all
    moreover have "length ?t = 0" using True by (simp only: list.size)
    ultimately show ?thesis using l(1) by (simp only: list.size)
  qed
  show "0 \<notin> set rest" if z: "0 \<notin> set s"
  proof (cases "?t = []")
    case False
    have "rest = drop 1 ?r" using assms unfolding cut_token_unfold if_not_P [OF False] Let_def by (simp only: prod.inject)
    then show ?thesis using z by (metis in_set_dropD set_dropWhileD)
  qed (use assms in \<open>simp add: cut_token_unfold\<close>)
  have plain: "?t \<noteq> [] \<Longrightarrow> 0 \<notin> set s \<Longrightarrow> plain_arg (takeWhile (\<lambda>c. c \<noteq> 10) ?t)"
    using token_plain [of "[10]" s] by (simp only: list.set insert_iff empty_iff simp_thms)
  show "plain_arg a" if z: "0 \<notin> set s" "t = Some a"
  proof (cases "?t = []")
    case False
    have "a = takeWhile (\<lambda>c. c \<noteq> 10) ?t"
      using assms z(2) unfolding cut_token_unfold if_not_P [OF False] Let_def by (simp only: prod.inject option.inject)
    then show ?thesis using plain [OF False z(1)] by simp
  qed (use assms z(2) in \<open>simp add: cut_token_unfold\<close>)
qed

lemma cut_tokens_spec:
  "length (snd (cut_tokens n s)) = length s \<and> length (fst (cut_tokens n s)) \<le> n \<and>
    (0 \<notin> set s \<longrightarrow> list_all plain_arg (fst (cut_tokens n s)))"
proof (induction n arbitrary: s)
  case (Suc n)
  obtain t passed rest where c: "cut_token [10] s = (t, passed, rest)" by (cases "cut_token [10] s") auto
  note spec = cut_token_spec [OF c]
  obtain ts left where ts: "cut_tokens n rest = (ts, left)" by fastforce
  show ?case using Suc.IH [of rest] spec by (cases t) (auto simp: c ts)
qed simp

lemma command_args_spec: "command_args n f = Some args \<Longrightarrow> list_all plain_arg args \<and> length args \<le> n"
proof (induction n f arbitrary: args rule: command_args.induct)
  case (2 n f)
  show ?case
  proof (cases "fgets MAX_ARG_LENGTH f")
    case None
    then show ?thesis using 2(2) by simp
  next
    case (Some lf)
    obtain line f' where lf: "lf = (line, f')" by fastforce
    have z: "0 \<notin> set line" using Some lf cstring_no_zero by (auto simp: fgets_def Let_def split: if_splits)
    obtain a r where t: "next_token [13, 10] line = (Some a, r)" and rest: "\<exists>as. command_args n f' = Some as \<and> args = a # as"
      using 2(2) Some lf by (auto split: prod.splits option.splits)
    have "plain_arg a" using t z by (rule next_token_plain) simp
    then show ?thesis using rest 2(1) [OF Some lf [symmetric] t [symmetric] refl] by fastforce
  qed
qed simp

lemma boot_args_spec:
  assumes "message_ok m" and "length argv \<le> 1"
  shows "message_ok (snd (boot_args argv m))" "list_all plain_arg (drop 1 (fst (boot_args argv m)))"
    "length (fst (boot_args argv m)) \<le> 100"
proof -
  let ?rec = "(b_recovery m)[1023 := 0]"
  obtain arg passed rest where c: "cut_token [10] (cstring ?rec) = (arg, passed, rest)" by (cases "cut_token [10] (cstring ?rec)") auto
  note spec = cut_token_spec [OF c]
  obtain args left where ts: "cut_tokens 99 rest = (args, left)" by fastforce
  have l: "length (cstring ?rec) \<le> 1024" using length_cstring [of ?rec] assms(1) by (simp add: message_ok_def)
  have "length left = length rest" "length args \<le> 99" "list_all plain_arg args"
    using cut_tokens_spec [of 99 rest] spec(2) [OF cstring_no_zero] by (simp_all add: ts)
  with assms spec(1) l show "message_ok (snd (boot_args argv m))" "list_all plain_arg (drop 1 (fst (boot_args argv m)))"
    "length (fst (boot_args argv m)) \<le> 100"
    by (auto simp: boot_args_def Let_def c ts MAX_ARGS_def message_ok_def)
qed

section \<open>What mounting leaves alone\<close>

definition same_phone :: "'w phone \<Rightarrow> 'w phone \<Rightarrow> bool" where
  "same_phone s s' \<longleftrightarrow> same_misc s s' \<and> the_flash_type s' = the_flash_type s"

lemma same_phone_refl: "same_phone s s"
  by (simp add: same_phone_def same_misc_def)

lemma same_phone_trans: "same_phone a b \<Longrightarrow> same_phone b c \<Longrightarrow> same_phone a c"
  by (simp add: same_phone_def same_misc_def)

lemma same_phone_outside: "same_phone s (s\<lparr>outside := w\<rparr>)" "same_phone s (s\<lparr>mount_table := t, volume_count := n\<rparr>)"
  by (simp_all add: same_phone_def same_misc_def)

lemma scan_keeps_cells: "mtd_scan_partitions malloc N m = Some (n, m') \<Longrightarrow> cells (chip m') = cells (chip m)"
  unfolding mtd_scan_partitions_def Let_def
  by (auto simp: called_def split: if_split_asm option.split_asm Option.bind_split_asm prod.split_asm)

lemma scan_mounted_keeps: "scan_mounted_volumes K s = Some (r, s') \<Longrightarrow> same_phone s s'"
  unfolding scan_mounted_volumes_def Let_def
  by (auto simp: same_phone_def same_misc_def split: if_split_asm option.split_asm Option.bind_split_asm prod.split_asm)

lemma mount_volume_keeps: "mount_volume K path v s = Some (r, s') \<Longrightarrow> same_phone s s'"
  unfolding mount_volume_def Let_def
  by (auto simp: same_phone_def same_misc_def dest!: scan_keeps_cells
      split: if_split_asm option.split_asm Option.bind_split_asm prod.split_asm)

lemma ensure_path_mounted_keeps: "ensure_path_mounted K path s = Some (r, s') \<Longrightarrow> same_phone s s'"
proof (induction K path s arbitrary: r s' rule: ensure_path_mounted.induct)
  case (1 K path s)
  show ?case
  proof (cases "volume_for_path path s")
    case None
    show ?thesis
    proof (cases "take 7 path = str ''/sdcard'' \<and> is_data_media s")
      case True
      have "ensure_path_mounted K path s = do {
            (ret, s) \<leftarrow> ensure_path_mounted K (str ''/data'') s;
            if ret \<noteq> 0 then Some (ret, s) else Some (0, s\<lparr>outside := setup_data_media K (outside s)\<rparr>) }"
        by (subst ensure_path_mounted.simps) (simp only: None option.case True simp_thms if_True)
      then obtain r1 s1 where e: "ensure_path_mounted K (str ''/data'') s = Some (r1, s1)"
          "s' = s1 \<or> s' = s1\<lparr>outside := setup_data_media K (outside s1)\<rparr>"
        using 1(2) by (auto split: Option.bind_split_asm if_split_asm)
      have "same_phone s s1" using 1(1) [OF None True e(1)] .
      then show ?thesis using e(2) same_phone_trans [OF _ same_phone_outside(1)] by auto
    next
      case False
      then show ?thesis using 1(2) None by (subst (asm) ensure_path_mounted.simps) (simp add: same_phone_refl split: if_splits)
    qed
  next
    case (Some v)
    show ?thesis
    proof (cases "v_fs_type v = str ''ramdisk''")
      case True
      then show ?thesis using 1(2) Some by (subst (asm) ensure_path_mounted.simps) (simp add: same_phone_refl)
    next
      case False
      obtain n s1 where n: "scan_mounted_volumes K s = Some (n, s1)"
        "(if n < 0 then Some (-1, s1) else case find_mounted_volume_by_mount_point (v_mount_point v) s1 of
            Some _ \<Rightarrow> Some (0, s1) | None \<Rightarrow> mount_volume K path v s1) = Some (r, s')"
        using 1(2) Some False by (subst (asm) ensure_path_mounted.simps) (auto split: Option.bind_split_asm)
      have "same_phone s1 s'"
        using n(2) by (auto simp: same_phone_refl split: if_split_asm option.split_asm dest: mount_volume_keeps)
      then show ?thesis using scan_mounted_keeps [OF n(1)] same_phone_trans by blast
    qed
  qed
qed

lemma device_flash_type_keeps:
  assumes "device_flash_type K s = (t, s')"
  shows "same_misc s s'" "outside s' = outside s"
  using assms by (auto simp: device_flash_type_def same_misc_def Let_def split: if_splits)

text \<open>A kind that has been found out is remembered.\<close>

lemma device_flash_type_again:
  assumes "device_flash_type K s = (t, s')" and "the_flash_type s'' = the_flash_type s'"
  shows "device_flash_type K s'' = (t, s'')"
  using assms by (auto simp: device_flash_type_def Let_def UNKNOWN_def BML_def MMC_def MTD_def UNSUPPORTED_def split: if_splits)

lemma fopen_path_read_keeps: "fopen_path_read K path s = Some (f, s') \<Longrightarrow> same_phone s s'"
  unfolding fopen_path_read_def
  by (auto split: Option.bind_split_asm if_split_asm prod.split_asm dest!: ensure_path_mounted_keeps
      intro: same_phone_trans [OF _ same_phone_outside(1)])

section \<open>A command is started again\<close>

lemma bytes_of_message: "length d = MESSAGE_SIZE \<Longrightarrow> message_bytes (message_of d) = d"
proof -
  assume "length d = MESSAGE_SIZE"
  then have "take 1024 (drop 64 d) = drop 64 d" by (simp add: MESSAGE_SIZE_def)
  moreover have "take 32 (drop 32 d) @ drop 64 d = drop 32 d"
    using append_take_drop_id [of 32 "drop 32 d"] by simp
  ultimately show ?thesis by (simp add: message_bytes_def message_of_def)
qed

lemma ready_holds: "misc_ready K s p \<Longrightarrow> \<exists>m. misc_holds K m s"
proof -
  assume r: "misc_ready K s p"
  let ?d = "take MESSAGE_SIZE (drop (page_size K p) (misc_contents K s p))"
  have "MESSAGE_SIZE \<le> page_size K p * 2" using r by (simp add: misc_ready_def)
  then have "length ?d = MESSAGE_SIZE" using length_misc_contents [OF r] by simp
  then have "misc_holds K (message_of ?d) s"
    using r message_of_ok [of ?d] bytes_of_message [of ?d] by (auto simp: misc_holds_def)
  then show ?thesis ..
qed

lemma get_args_stores:
  assumes mtd: "fst (device_flash_type K s) = MTD" and ready: "misc_ready K s p" and run: "get_args K [prog] s = Some (argv, s1)"
  shows "list_all plain_arg (drop 1 argv)" "length argv \<le> 100"
    "length (args_text (drop 1 argv)) \<le> 1014 \<Longrightarrow>
      \<exists>m. misc_holds K m s1 \<and> cstring (b_recovery m) = RECOVERY @ 10 # args_text (drop 1 argv)"
proof -
  obtain sa where sa: "device_flash_type K s = (MTD, sa)" using mtd by (cases "device_flash_type K s") auto
  note keep_a = device_flash_type_keeps [OF sa]
  have "misc_ready K sa p" using ready misc_same(1) [OF keep_a(1), of K p] by iprover
  then obtain m0 where "misc_holds K m0 sa" using ready_holds by blast
  then obtain sb where sb: "get_bootloader_message K zero_message sa = Some (0, m0, sb)" "same_misc sa sb" and m0: "message_ok m0"
    using misc_gets [of K m0 sa zero_message] by (auto simp: misc_holds_def)
  have "the_flash_type sb = the_flash_type sa"
    using sb(1) unfolding get_bootloader_message_def get_bootloader_message_mtd_def get_bootloader_message_block_def read_misc_def Let_def
    by (auto split: Option.bind_split_asm option.split_asm if_split_asm prod.split_asm)
  define argv1 where "argv1 = (if \<not> ignore_boot_message K sb then fst (boot_args [prog] m0) else [prog])"
  define m1 where "m1 = (if \<not> ignore_boot_message K sb then snd (boot_args [prog] m0) else m0)"
  have one: "(if length [prog] \<le> 1 \<and> \<not> ignore_boot_message K sb then boot_args [prog] m0 else ([prog], m0)) = (argv1, m1)"
    by (simp add: argv1_def m1_def)
  have a1: "list_all plain_arg (drop 1 argv1)" "length argv1 \<le> 100" "message_ok m1"
    using boot_args_spec [OF m0, of "[prog]"] m0 by (auto simp: argv1_def m1_def)
  obtain sc where sc: "(if length argv1 \<le> 1 then do {
          (f, s) \<leftarrow> fopen_path_read K COMMAND_FILE sb;
          case f of
            None \<Rightarrow> Some (argv1, s)
          | Some f \<Rightarrow> do { args \<leftarrow> command_args (MAX_ARGS - 1) f; Some (take 1 argv1 @ args, s) } }
        else Some (argv1, sb)) = Some (argv, sc)"
      and rest: "(let boot = boot_recovery (drop 1 argv) m1; (flash_type, s) = device_flash_type K sc in
     if flash_type = MTD then do { (_, s) \<leftarrow> set_bootloader_message K boot s; Some (argv, s) } else Some (argv, s)) = Some (argv, s1)"
    using run unfolding get_args_def sa Let_def prod.case sb(1) Option.bind.simps one if_P [OF refl]
    by (auto split: Option.bind_split_asm prod.split_asm if_split_asm)
  have argv: "list_all plain_arg (drop 1 argv) \<and> length argv \<le> 100 \<and> same_phone sb sc"
  proof (cases "length argv1 \<le> 1")
    case False
    then show ?thesis using sc a1 by (simp add: same_phone_refl)
  next
    case True
    then obtain f where f: "fopen_path_read K COMMAND_FILE sb = Some (f, sc)"
      "(case f of None \<Rightarrow> argv = argv1 | Some f \<Rightarrow> \<exists>args. command_args 99 f = Some args \<and> argv = take 1 argv1 @ args)"
      using sc by (auto simp: MAX_ARGS_def split: Option.bind_split_asm option.split_asm)
    have "drop 1 (take 1 argv1 @ args) = args \<or> take 1 argv1 = []" for args by (cases argv1) auto
    moreover have "argv1 \<noteq> []" by (auto simp: argv1_def boot_args_def Let_def split: prod.split)
    ultimately have "drop 1 (take 1 argv1 @ args) = args" for args by simp
    then show ?thesis
      using f(2) a1 fopen_path_read_keeps [OF f(1)] command_args_spec [of 99 "the f"]
      by (cases f) (auto simp: \<open>argv1 \<noteq> []\<close>)
  qed
  then show "list_all plain_arg (drop 1 argv)" "length argv \<le> 100" by simp_all
  assume short: "length (args_text (drop 1 argv)) \<le> 1014"
  have again: "device_flash_type K sc = (MTD, sc)"
    using device_flash_type_again [OF sa, of sc] argv \<open>the_flash_type sb = the_flash_type sa\<close> by (simp add: same_phone_def)
  have "misc_ready K sc p"
    using \<open>misc_ready K sa p\<close> misc_same(1) [OF sb(2), of K p] argv misc_same(1) [of sb sc K p] by (simp add: same_phone_def)
  moreover note b = boot_recovery_text [OF a1(3), of "drop 1 argv"]
  ultimately obtain s2 where s2: "set_bootloader_message K (boot_recovery (drop 1 argv) m1) sc = Some (0, s2)"
    "misc_holds K (boot_recovery (drop 1 argv) m1) s2" using misc_sets argv short by blast
  have "s2 = s1" using rest unfolding Let_def again prod.case if_P [OF refl] s2(1) Option.bind.simps by simp
  then show "\<exists>m. misc_holds K m s1 \<and> cstring (b_recovery m) = RECOVERY @ 10 # args_text (drop 1 argv)"
    using s2(2) b(2) argv short by blast
qed

lemma restarted:
  assumes mtd: "fst (device_flash_type K s) = MTD" and plain: "\<not> ignore_boot_message K s" and held: "misc_holds K m s"
    and m: "cstring (b_recovery m) = RECOVERY @ 10 # args_text args"
    and args: "list_all plain_arg args" "length args \<le> 99" "length (args_text args) \<le> 1014" "args \<noteq> []"
  shows "\<exists>s'. get_args K [prog] s = Some (RECOVERY # args, s')"
proof -
  obtain sa where sa: "device_flash_type K s = (MTD, sa)" using mtd by (cases "device_flash_type K s") auto
  note keep_a = device_flash_type_keeps [OF sa]
  have ha: "misc_holds K m sa" using held misc_same(3) [OF keep_a(1), of K m] by iprover
  then obtain sb where sb: "get_bootloader_message K zero_message sa = Some (0, m, sb)" "same_misc sa sb" and ok: "message_ok m"
    using misc_gets [of K m sa zero_message] by (auto simp: misc_holds_def)
  have frame: "outside sb = outside sa" "the_flash_type sb = the_flash_type sa"
    using sb(1) ha unfolding get_bootloader_message_def get_bootloader_message_mtd_def read_misc_def Let_def
    by (auto simp: misc_holds_def misc_ready_def split: Option.bind_split_asm option.split_asm if_split_asm prod.split_asm)
  have ig: "\<not> ignore_boot_message K sb" using plain frame(1) keep_a(2) by (simp add: ignore_boot_message_def)
  obtain m1 where b: "boot_args [prog] m = (RECOVERY # args, m1)"
    using boot_args_text [OF ok m args(1,2,3), of "[prog]"] by (cases "boot_args [prog] m") auto
  have m1: "message_ok m1" using boot_args_spec(1) [OF ok, of "[prog]"] b by simp
  have two: "\<not> length (RECOVERY # args) \<le> 1" using args(4) by (cases args) auto
  have again: "device_flash_type K sb = (MTD, sb)" by (rule device_flash_type_again [OF sa frame(2)])
  obtain p where "misc_ready K sa p" using ha by (auto simp: misc_holds_def)
  then have "misc_ready K sb p" using misc_same(1) [OF sb(2), of K p] by iprover
  moreover have "message_ok (boot_recovery (drop 1 (RECOVERY # args)) m1)"
    using m1 args(1,3) by (intro boot_recovery_text(1)) simp_all
  ultimately obtain s2 where s2: "set_bootloader_message K (boot_recovery (drop 1 (RECOVERY # args)) m1) sb = Some (0, s2)"
    using misc_sets by blast
  have "length [prog] \<le> 1 \<and> \<not> ignore_boot_message K sb" using ig by simp
  then have "get_args K [prog] s = Some (RECOVERY # args, s2)"
    unfolding get_args_def sa Let_def prod.case sb(1) Option.bind.simps if_P [OF refl]
    by (simp only: simp_thms if_True b prod.case again Option.bind.simps if_not_P [OF two] s2)
  then show ?thesis ..
qed

section \<open>A finished command is not repeated\<close>

lemma fopen_path_write_keeps: "fopen_path_write K path a text s = Some (ok, s') \<Longrightarrow> same_phone s s'"
  unfolding fopen_path_write_def Let_def
  by (auto split: Option.bind_split_asm if_split_asm prod.split_asm dest!: ensure_path_mounted_keeps
      intro: same_phone_trans [OF _ same_phone_outside(1)])

lemma copy_log_file_keeps: "copy_log_file K d a off s = Some (off', s') \<Longrightarrow> same_phone s s'"
  unfolding copy_log_file_def Let_def
  by (auto split: Option.bind_split_asm if_split_asm prod.split_asm option.split_asm dest!: fopen_path_write_keeps
      intro: same_phone_trans [OF _ same_phone_outside(1)])

lemma known_flash_type: "the_flash_type s = MTD \<Longrightarrow> device_flash_type K s = (MTD, s)"
  by (simp add: device_flash_type_def UNKNOWN_def MTD_def)

lemma finish_recovery_clears:
  assumes mtd: "the_flash_type s = MTD" and ready: "misc_ready K s p"
    and run: "finish_recovery K intent off s = Some (off', s')"
  shows "misc_holds K zero_message s'"
proof -
  obtain sa where a: "(case intent of None \<Rightarrow> Some s | Some intent \<Rightarrow> do { (_, s) \<leftarrow> fopen_path_write K INTENT_FILE False intent s; Some s }) = Some sa"
    using run by (auto simp: finish_recovery_def split: Option.bind_split_asm)
  then have ka: "same_phone s sa"
    by (auto split: option.split_asm Option.bind_split_asm simp: same_phone_refl dest: fopen_path_write_keeps)
  obtain o1 sb where b: "copy_log_file K LOG_FILE True off sa = Some (o1, sb)"
    using run by (auto simp: finish_recovery_def a split: Option.bind_split_asm)
  obtain o2 sc where c: "copy_log_file K LAST_LOG_FILE False o1 sb = Some (o2, sc)"
    using run by (auto simp: finish_recovery_def a b split: Option.bind_split_asm)
  define sd where "sd = sc\<lparr>outside := snd (k_chmod K LAST_LOG_FILE 0x1A0 (outside sc))\<rparr>"
  have kd: "same_misc s sd" "the_flash_type sd = MTD"
    using ka copy_log_file_keeps [OF b] copy_log_file_keeps [OF c] mtd by (simp_all add: same_phone_def same_misc_def sd_def)
  have "misc_ready K sd p" using ready misc_same(1) [OF kd(1), of K p] by iprover
  then obtain se where e: "set_bootloader_message K zero_message sd = Some (0, se)" "misc_holds K zero_message se"
    using misc_sets zero_message_ok by blast
  obtain r sf where f: "ensure_path_mounted K COMMAND_FILE se = Some (r, sf)"
    "s' = (if r \<noteq> 0 then sf else sf\<lparr>outside := snd (k_unlink K COMMAND_FILE (outside sf))\<rparr>)"
    using run known_flash_type [OF kd(2), of K] e(1)
    by (auto simp: finish_recovery_def a b c Let_def sd_def [symmetric] split: Option.bind_split_asm)
  have "same_misc se s'"
    using ensure_path_mounted_keeps [OF f(1)] f(2) by (auto simp: same_phone_def same_misc_def)
  then show ?thesis using e(2) misc_same(3) [of se s' K zero_message] by simp
qed

lemma boot_args_zero: "fst (boot_args argv zero_message) = argv"
proof -
  have "(replicate 1024 (0::u8))[1023 := 0] = replicate 1024 0" by (simp add: list_eq_iff_nth_eq nth_list_update)
  then have "cstring ((replicate 1024 0)[1023 := 0]) = []" by (simp add: cstring_def)
  then show ?thesis by (simp add: boot_args_def zero_message_def cut_token_def Let_def)
qed

lemma nothing_left:
  assumes mtd: "fst (device_flash_type K s) = MTD" and held: "misc_holds K zero_message s"
    and gone: "\<And>w. fst (k_read K COMMAND_FILE w) = None"
    and returns: "\<And>s'. same_misc s s' \<Longrightarrow> ensure_path_mounted K COMMAND_FILE s' \<noteq> None"
  shows "\<exists>s'. get_args K [prog] s = Some ([prog], s')"
proof -
  obtain sa where sa: "device_flash_type K s = (MTD, sa)" using mtd by (cases "device_flash_type K s") auto
  note keep_a = device_flash_type_keeps [OF sa]
  have ha: "misc_holds K zero_message sa" using held misc_same(3) [OF keep_a(1), of K zero_message] by iprover
  obtain sb where sb: "get_bootloader_message K zero_message sa = Some (0, zero_message, sb)" "same_misc sa sb"
    using misc_gets [OF ha, of zero_message] by blast
  have tb: "the_flash_type sb = the_flash_type sa"
    using sb(1) ha unfolding get_bootloader_message_def get_bootloader_message_mtd_def read_misc_def Let_def
    by (auto simp: misc_holds_def misc_ready_def split: Option.bind_split_asm option.split_asm if_split_asm prod.split_asm)
  define m1 where "m1 = (if \<not> ignore_boot_message K sb then snd (boot_args [prog] zero_message) else zero_message)"
  have one: "(if length [prog] \<le> 1 \<and> \<not> ignore_boot_message K sb then boot_args [prog] zero_message else ([prog], zero_message)) = ([prog], m1)"
    using boot_args_zero [of "[prog]"] by (cases "boot_args [prog] zero_message") (auto simp: m1_def)
  have m1: "message_ok m1" using boot_args_spec(1) [OF zero_message_ok, of "[prog]"] zero_message_ok by (simp add: m1_def)
  have "same_misc s sb" using keep_a(1) sb(2) by (simp add: same_misc_def)
  then obtain r sc where "ensure_path_mounted K COMMAND_FILE sb = Some (r, sc)" using returns by fastforce
  then obtain sd where d: "fopen_path_read K COMMAND_FILE sb = Some (None, sd)"
    using gone [of "outside sc"] by (cases "k_read K COMMAND_FILE (outside sc)", cases "r = 0") (auto simp: fopen_path_read_def)
  note kd = fopen_path_read_keeps [OF d]
  have again: "device_flash_type K sd = (MTD, sd)"
    using kd tb by (intro device_flash_type_again [OF sa]) (simp add: same_phone_def)
  obtain p where "misc_ready K sa p" using ha by (auto simp: misc_holds_def)
  then have "misc_ready K sd p"
    using misc_same(1) [OF sb(2), of K p] misc_same(1) [of sb sd K p] kd by (simp add: same_phone_def)
  moreover have "message_ok (boot_recovery (drop 1 [prog]) m1)" by (rule boot_recovery_text(1) [OF m1]) (simp_all add: args_text_def)
  ultimately obtain s2 where s2: "set_bootloader_message K (boot_recovery (drop 1 [prog]) m1) sd = Some (0, s2)"
    using misc_sets by blast
  have "length [prog] \<le> 1" by simp
  then have "get_args K [prog] s = Some ([prog], s2)"
    unfolding get_args_def sa Let_def prod.case sb(1) Option.bind.simps one if_P [OF refl] if_P [OF \<open>length [prog] \<le> 1\<close>]
    by (simp only: d Option.bind.simps prod.case option.case again if_True simp_thms s2)
  then show ?thesis ..
qed

section \<open>The scenarios of the documentation\<close>

text \<open>
  C19: Once get_args has returned arguments from the command file or the control block, on flash
  that works and with arguments that fit into the message, every later get_args without
  arguments of its own returns the same arguments, whatever happens in between to anything but
  the table of volumes and the cells of the flash: the command is started again after a reset.
\<close>

theorem interrupted_command_restarts:
  assumes "fst (device_flash_type K s) = MTD" and "misc_ready K s p" and "get_args K [prog] s = Some (argv, s1)"
    and "drop 1 argv \<noteq> []" and "length (args_text (drop 1 argv)) \<le> 1014"
    and "same_misc s1 s2" and "fst (device_flash_type K s2) = MTD" and "\<not> ignore_boot_message K s2"
  shows "\<exists>s3. get_args K [prog'] s2 = Some (RECOVERY # drop 1 argv, s3)"
proof -
  note a = get_args_stores [OF assms(1-3)]
  obtain m where m: "misc_holds K m s1" "cstring (b_recovery m) = RECOVERY @ 10 # args_text (drop 1 argv)"
    using a(3) assms(5) by blast
  have "misc_holds K m s2" using m(1) misc_same(3) [OF assms(6), of K m] by simp
  moreover have "length (drop 1 argv) \<le> 99" using a(2) by simp
  ultimately show ?thesis using restarted [OF assms(7,8)] m(2) a(1) assms(4,5) by blast
qed

text \<open>
  C20: After finish_recovery, and with the command file gone, get_args finds no arguments any more:
  the message in the control block is all zero, so the command is not repeated.
\<close>

theorem finished_command_not_repeated:
  assumes "the_flash_type s = MTD" and "misc_ready K s p" and "finish_recovery K intent off s = Some (off', s1)"
    and "same_misc s1 s2" and "fst (device_flash_type K s2) = MTD" and "\<And>w. fst (k_read K COMMAND_FILE w) = None"
    and "\<And>s'. same_misc s2 s' \<Longrightarrow> ensure_path_mounted K COMMAND_FILE s' \<noteq> None"
  shows "\<exists>s3. get_args K [prog] s2 = Some ([prog], s3)"
proof -
  have "misc_holds K zero_message s1" by (rule finish_recovery_clears [OF assms(1-3)])
  then have "misc_holds K zero_message s2" using misc_same(3) [OF assms(4), of K zero_message] by simp
  then show ?thesis using nothing_left [OF assms(5)] assms(6,7) by blast
qed

text \<open>Examples on the simple phone.\<close>

definition wipe_args :: "bytes list" where "wipe_args = [str ''--wipe_data'']"

theorem interrupted_command_restarts_witness:
  "\<exists>s s1 s3. get_args simple_kernel [str ''/sbin/recovery''] s = Some (RECOVERY # wipe_args, s1) \<and>
    get_args simple_kernel [str ''/sbin/recovery''] (s1\<lparr>outside := Map.empty, the_flash_type := MTD\<rparr>) = Some (RECOVERY # wipe_args, s3)"
proof -
  let ?m = "boot_recovery wipe_args zero_message" let ?prog = "str ''/sbin/recovery''"
  have w: "list_all plain_arg wipe_args" "length (args_text wipe_args) \<le> 1014" "length wipe_args \<le> 99" "wipe_args \<noteq> []"
    unfolding wipe_args_def plain_arg_def args_text_def by code_simp+
  note m = boot_recovery_text [OF zero_message_ok w(1,2)]
  obtain s0 where s0: "misc_holds simple_kernel ?m s0" using misc_sets [OF simple_ready m(1)] by blast
  define s where "s = s0\<lparr>outside := Map.empty, the_flash_type := MTD\<rparr>"
  have holds: "misc_holds simple_kernel ?m s" using s0 misc_same(3) [of s0 s simple_kernel ?m] by (simp add: s_def same_misc_def)
  then obtain p where p: "misc_ready simple_kernel s p" by (auto simp: misc_holds_def)
  have known: "fst (device_flash_type simple_kernel t) = MTD" if "the_flash_type t = MTD" for t :: "(bytes \<rightharpoonup> bytes) phone"
    using that by (simp add: known_flash_type)
  have plain: "\<not> ignore_boot_message simple_kernel t" if "outside t = Map.empty" for t
    using that by (simp add: ignore_boot_message_def simple_kernel_def)
  have s: "fst (device_flash_type simple_kernel s) = MTD" "\<not> ignore_boot_message simple_kernel s"
    by (rule known, simp add: s_def, rule plain, simp add: s_def)
  obtain s1 where run: "get_args simple_kernel [?prog] s = Some (RECOVERY # wipe_args, s1)"
    using restarted [OF s holds m(2) w(1,3,2,4)] by blast
  let ?s2 = "s1\<lparr>outside := Map.empty, the_flash_type := MTD\<rparr>"
  have "drop 1 (RECOVERY # wipe_args) \<noteq> []" "length (args_text (drop 1 (RECOVERY # wipe_args))) \<le> 1014" "same_misc s1 ?s2"
    "fst (device_flash_type simple_kernel ?s2) = MTD" "\<not> ignore_boot_message simple_kernel ?s2"
    using w known [of ?s2] plain [of ?s2] by (simp_all add: same_misc_def)
  from interrupted_command_restarts [OF s(1) p run this, of ?prog] run show ?thesis by auto
qed

lemma simple_no_cache:
  assumes "device_volumes s = [tmp_volume, misc_volume]" and "path \<in> {COMMAND_FILE, LOG_FILE, LAST_LOG_FILE}"
  shows "ensure_path_mounted K path s = Some (-1, s)"
proof -
  have "find_volume COMMAND_FILE [tmp_volume, misc_volume] = None \<and> find_volume LOG_FILE [tmp_volume, misc_volume] = None \<and>
      find_volume LAST_LOG_FILE [tmp_volume, misc_volume] = None"
    by code_simp
  moreover have "take 7 COMMAND_FILE \<noteq> str ''/sdcard'' \<and> take 7 LOG_FILE \<noteq> str ''/sdcard'' \<and> take 7 LAST_LOG_FILE \<noteq> str ''/sdcard''"
    by code_simp
  ultimately have "volume_for_path path s = None" "take 7 path \<noteq> str ''/sdcard''"
    using assms by (auto simp: volume_for_path_def simp del: find_volume.simps)
  then show ?thesis by (subst ensure_path_mounted.simps) simp
qed

theorem finished_command_not_repeated_witness:
  "\<exists>off s1 s3. finish_recovery (simple_kernel\<lparr>k_read := \<lambda>path w. (None, w)\<rparr>) None 0 simple_phone = Some (off, s1) \<and>
    get_args (simple_kernel\<lparr>k_read := \<lambda>path w. (None, w)\<rparr>) [str ''/sbin/recovery''] s1 = Some ([str ''/sbin/recovery''], s3)"
proof -
  let ?K = "simple_kernel\<lparr>k_read := \<lambda>path w. (None, w)\<rparr>"
  have ready: "misc_ready ?K simple_phone misc_partition"
    using simple_ready by (simp add: misc_ready_def flash_table_def page_size_def)
  have v: "device_volumes simple_phone = [tmp_volume, misc_volume]" "the_flash_type simple_phone = MTD" by (simp_all add: simple_phone_def)
  let ?s = "simple_phone\<lparr>outside := snd (k_chmod ?K LAST_LOG_FILE 0x1A0 (outside simple_phone))\<rparr>"
  have log: "copy_log_file ?K d a 0 simple_phone = Some (0, simple_phone)" if "d \<in> {LOG_FILE, LAST_LOG_FILE}" for d a
    using simple_no_cache [OF v(1), of d ?K] that by (auto simp: copy_log_file_def fopen_path_write_def)
  have "misc_ready ?K ?s misc_partition" using ready misc_same(1) [of simple_phone ?s ?K misc_partition] by (simp add: same_misc_def)
  then obtain s1 where set: "set_bootloader_message ?K zero_message ?s = Some (0, s1)" "misc_holds ?K zero_message s1"
    using misc_sets zero_message_ok by blast
  have keep: "device_volumes s1 = [tmp_volume, misc_volume] \<and> the_flash_type s1 = MTD"
    using set(1) v unfolding set_bootloader_message_def set_bootloader_message_mtd_def set_bootloader_message_block_def read_misc_def Let_def
    by (auto split: Option.bind_split_asm option.split_asm if_split_asm prod.split_asm)
  have run: "finish_recovery ?K None 0 simple_phone = Some (0, s1)"
    using known_flash_type [of ?s ?K] v(2) set(1) simple_no_cache [of s1 COMMAND_FILE ?K] keep
    by (simp add: finish_recovery_def log)
  have "ensure_path_mounted ?K COMMAND_FILE s' \<noteq> None" if "same_misc s1 s'" for s'
    using that keep simple_no_cache [of s' COMMAND_FILE ?K] by (simp add: same_misc_def)
  moreover have "same_misc s1 s1" by (simp add: same_misc_def)
  moreover have "fst (device_flash_type ?K s1) = MTD" using keep by (simp add: known_flash_type)
  moreover have "fst (k_read ?K COMMAND_FILE w) = None" for w by simp
  ultimately have "\<exists>s3. get_args ?K [str ''/sbin/recovery''] s1 = Some ([str ''/sbin/recovery''], s3)"
    using finished_command_not_repeated [OF v(2) ready run, of s1 "str ''/sbin/recovery''"] by blast
  with run show ?thesis by blast
qed

end
