(* ===== verification/Ui.thy ===== *)
theory Ui
  imports Complex_Main Volumes
begin

text \<open>
  The state of the user interface (\<open>ui.c\<close>, \<open>default_recovery_ui.c\<close>) and the choice from a menu
  (\<open>recovery.c\<close>): the log text, the menu, the queue of keys and the progress bar.

  The threads of \<open>ui.c\<close> hold a mutex while they work, so each call, each event of the input thread
  and each round of the progress thread is one step on the state.  What is drawn is modelled as
  the lines of text and their rows; colours, fills, icons and the pages of the frame buffer are
  left out, and \<open>float\<close> is taken to be exact.
\<close>

section \<open>The state\<close>

definition MAX_COLS :: nat where "MAX_COLS = 96"
definition MAX_ROWS :: nat where "MAX_ROWS = 32"
definition MENU_MAX_COLS :: nat where "MENU_MAX_COLS = 64"
definition MENU_MAX_ROWS :: nat where "MENU_MAX_ROWS = 250"

definition CHAR_WIDTH :: nat where "CHAR_WIDTH = 10"
definition CHAR_HEIGHT :: nat where "CHAR_HEIGHT = 18"

datatype ProgressBarType = PROGRESSBAR_TYPE_NONE | PROGRESSBAR_TYPE_INDETERMINATE | PROGRESSBAR_TYPE_NORMAL

text \<open>
  \<open>text_table\<close> and \<open>menu_table\<close> are the arrays \<open>text\<close> and \<open>menu\<close>; an access outside of a row is
  undefined.
\<close>

record ui =
  text_table :: "bytes list"
  text_cols :: nat
  text_rows :: nat
  text_col :: nat
  text_row :: nat
  text_top :: nat
  show_text :: bool
  menu_table :: "bytes list"
  show_menu :: bool
  menu_top :: int
  menu_items :: int
  menu_sel :: int
  menu_show_start :: int
  gShowBackButton :: bool
  allow_display_toggle :: bool
  key_queue :: "int list"
  key_pressed :: "int list"
  gCurrentIcon :: nat
  gProgressBarType :: ProgressBarType
  gProgressScopeStart :: rat
  gProgressScopeSize :: rat
  gProgress :: rat
  gProgressScopeTime :: int
  gProgressScopeDuration :: int

definition ui_init :: "nat \<Rightarrow> nat \<Rightarrow> ui \<Rightarrow> ui" where
  "ui_init fb_width fb_height u =
     u\<lparr>text_col := 0, text_row := 0, text_rows := min (fb_height div CHAR_HEIGHT) MAX_ROWS, text_top := 1,
       text_cols := min (fb_width div CHAR_WIDTH) (MAX_COLS - 1)\<rparr>"

section \<open>The log text\<close>

definition put_char :: "nat \<Rightarrow> nat \<Rightarrow> u8 \<Rightarrow> ui \<Rightarrow> ui option" where
  "put_char row col c u = do {
     line \<leftarrow> rd (text_table u) row;
     line \<leftarrow> wr_slice line col [c];
     Some (u\<lparr>text_table := (text_table u)[row := line]\<rparr>) }"

definition new_line :: "ui \<Rightarrow> ui option" where
  "new_line u = do {
     u \<leftarrow> put_char (text_row u) (text_col u) 0 u;
     let row = (text_row u + 1) mod text_rows u;
     Some (u\<lparr>text_col := 0, text_row := row,
       text_top := (if row = text_top u then (text_top u + 1) mod text_rows u else text_top u)\<rparr>) }"

fun print_chars :: "bytes \<Rightarrow> ui \<Rightarrow> ui option" where
  "print_chars [] u = Some u"
| "print_chars (c # cs) u = do {
     u \<leftarrow> (if c = 10 \<or> text_cols u \<le> text_col u then new_line u else Some u);
     u \<leftarrow> (if c \<noteq> 10 then do {
            u \<leftarrow> put_char (text_row u) (text_col u) c u;
            Some (u\<lparr>text_col := text_col u + 1\<rparr>) }
          else Some u);
     print_chars cs u }"

text \<open>The text that is printed has been formatted into a buffer of 256 bytes.\<close>

definition ui_print :: "bytes \<Rightarrow> ui \<Rightarrow> ui option" where
  "ui_print s u =
     (if 0 < text_rows u \<and> 0 < text_cols u then do {
        u \<leftarrow> print_chars (take 255 (cstring s)) u;
        put_char (text_row u) (text_col u) 0 u }
      else Some u)"

definition ui_reset_text_col :: "ui \<Rightarrow> ui" where
  "ui_reset_text_col u = u\<lparr>text_col := 0\<rparr>"

definition ui_text_visible :: "ui \<Rightarrow> bool" where
  "ui_text_visible u = show_text u"

definition ui_show_text :: "bool \<Rightarrow> ui \<Rightarrow> ui" where
  "ui_show_text visible u = u\<lparr>show_text := visible\<rparr>"

definition ui_set_show_text :: "bool \<Rightarrow> ui \<Rightarrow> ui" where
  "ui_set_show_text value u = u\<lparr>show_text := value\<rparr>"

section \<open>Menus\<close>

definition strncpy_at :: "bytes \<Rightarrow> nat \<Rightarrow> bytes \<Rightarrow> nat \<Rightarrow> bytes option" where
  "strncpy_at m p s n = wr_slice m p (take n s @ replicate (n - length s) 0)"

fun put_headers :: "nat \<Rightarrow> nat \<Rightarrow> nat \<Rightarrow> bytes list \<Rightarrow> bytes list \<Rightarrow> (nat \<times> bytes list) option" where
  "put_headers cols rows i [] m = Some (i, m)"
| "put_headers cols rows i (h # hs) m =
     (if rows \<le> i then Some (i, m)
      else do {
        row \<leftarrow> rd m i;
        row \<leftarrow> strncpy_at row 0 h (cols - 1);
        row \<leftarrow> wr_slice row (cols - 1) [0];
        put_headers cols rows (i + 1) hs (m[i := row]) })"

definition MENU_ITEM_HEADER :: bytes where
  "MENU_ITEM_HEADER = str '' ''"

text \<open>The room for an item is a number of 32 bits without sign.\<close>

definition item_room :: "nat \<Rightarrow> nat" where
  "item_room cols = unat (of_nat (cols - 1) - of_nat (length MENU_ITEM_HEADER) :: u32)"

fun put_items :: "nat \<Rightarrow> nat \<Rightarrow> bytes list \<Rightarrow> bytes list \<Rightarrow> (nat \<times> bytes list) option" where
  "put_items cols i [] m = Some (i, m)"
| "put_items cols i (s # ss) m =
     (if MENU_MAX_ROWS \<le> i then Some (i, m)
      else do {
        row \<leftarrow> rd m i;
        row \<leftarrow> wr_slice row 0 (MENU_ITEM_HEADER @ [0]);
        row \<leftarrow> strncpy_at row (length MENU_ITEM_HEADER) s (item_room cols);
        row \<leftarrow> wr_slice row (cols - 1) [0];
        put_items cols (i + 1) ss (m[i := row]) })"

definition BACK_ITEM :: bytes where
  "BACK_ITEM = str '' - +++++Go Back+++++''"

text \<open>The row behind the items is written whether or not there is one.\<close>

definition put_back :: "nat \<Rightarrow> bytes list \<Rightarrow> (nat \<times> bytes list) option" where
  "put_back i m = do {
     row \<leftarrow> rd m i;
     row \<leftarrow> wr_slice row 0 (BACK_ITEM @ [0]);
     Some (i + 1, m[i := row]) }"

definition ui_start_menu :: "bytes list \<Rightarrow> bytes list \<Rightarrow> int \<Rightarrow> ui \<Rightarrow> (int \<times> ui) option" where
  "ui_start_menu headers items initial_selection u = do {
     u \<leftarrow> (if 0 < text_rows u \<and> 0 < text_cols u then do {
            (top, m) \<leftarrow> put_headers (text_cols u) (text_rows u) 0 headers (menu_table u);
            (i, m) \<leftarrow> put_items (text_cols u) top items m;
            (i, m) \<leftarrow> (if gShowBackButton u then put_back i m else Some (i, m));
            Some (u\<lparr>menu_table := m, menu_top := int top, menu_items := int i - int top, show_menu := True,
              menu_sel := initial_selection, menu_show_start := initial_selection\<rparr>) }
          else Some u);
     Some (if gShowBackButton u then menu_items u - 1 else menu_items u, u) }"

definition ui_menu_select :: "int \<Rightarrow> ui \<Rightarrow> int \<times> ui" where
  "ui_menu_select sel u =
     (if show_menu u then
        let sel = (if sel < 0 then menu_items u + sel else sel);
            sel = (if menu_items u \<le> sel then sel - menu_items u else sel);
            start = menu_show_start u;
            start = (if sel < start \<and> 0 < start then sel else start);
            start = (if int (text_rows u) \<le> sel - start + menu_top u then sel + menu_top u - int (text_rows u) + 1 else start)
        in (sel, u\<lparr>menu_sel := sel, menu_show_start := start\<rparr>)
      else (sel, u))"

definition ui_end_menu :: "ui \<Rightarrow> ui" where
  "ui_end_menu u = (if show_menu u \<and> 0 < text_rows u \<and> 0 < text_cols u then u\<lparr>show_menu := False\<rparr> else u)"

definition ui_set_showing_back_button :: "bool \<Rightarrow> ui \<Rightarrow> ui" where
  "ui_set_showing_back_button b u = u\<lparr>gShowBackButton := b\<rparr>"

definition ui_get_showing_back_button :: "ui \<Rightarrow> bool" where
  "ui_get_showing_back_button u = gShowBackButton u"

section \<open>What is drawn\<close>

text \<open>The rows and texts that \<open>draw_screen_locked\<close> draws, in order.  Empty texts are not drawn.\<close>

definition menu_row :: "ui \<Rightarrow> nat \<Rightarrow> bytes" where
  "menu_row u i = cstring (menu_table u ! i)"

definition menu_count :: "ui \<Rightarrow> int" where
  "menu_count u =
     (if int MAX_ROWS \<le> menu_items u - menu_show_start u + menu_top u then int MAX_ROWS - menu_top u
      else menu_items u - menu_show_start u)"

definition draw_menu :: "ui \<Rightarrow> (int \<times> bytes) list" where
  "draw_menu u =
     (if show_menu u then
        map (\<lambda>i. (i, menu_row u (nat i))) [0..menu_top u - 1] @
        map (\<lambda>i. (i - menu_show_start u, menu_row u (nat i)))
          [menu_show_start u + menu_top u..menu_show_start u + menu_top u + menu_count u - 1]
      else [])"

definition draw_screen :: "ui \<Rightarrow> (int \<times> bytes) list" where
  "draw_screen u =
     (if show_text u then
        filter (\<lambda>(row, t). t \<noteq> [])
          (draw_menu u @
           map (\<lambda>row. (int row, cstring (text_table u ! ((row + text_top u) mod text_rows u)))) [length (draw_menu u) + 1..<text_rows u])
      else [])"

section \<open>Keys\<close>

definition EV_SYN :: nat where "EV_SYN = 0"
definition EV_KEY :: nat where "EV_KEY = 1"
definition EV_REL :: nat where "EV_REL = 2"
definition REL_Y :: nat where "REL_Y = 1"
definition KEY_UP :: nat where "KEY_UP = 103"
definition KEY_DOWN :: nat where "KEY_DOWN = 108"
definition KEY_L :: nat where "KEY_L = 38"
definition KEY_LEFTALT :: nat where "KEY_LEFTALT = 56"
definition KEY_RIGHTALT :: nat where "KEY_RIGHTALT = 100"
definition KEY_MENU :: nat where "KEY_MENU = 139"
definition KEY_BACK :: nat where "KEY_BACK = 158"

record input_event =
  ev_type :: nat
  ev_code :: nat
  ev_value :: int

definition device_toggle_display :: "ui \<Rightarrow> nat \<Rightarrow> bool" where
  "device_toggle_display u key_code =
     (if (key_pressed u ! KEY_LEFTALT \<noteq> 0 \<or> key_pressed u ! KEY_RIGHTALT \<noteq> 0) \<and> key_code = KEY_L then True
      else if ui_get_showing_back_button u then False
      else allow_display_toggle u \<and> (key_code = KEY_MENU \<or> key_code = KEY_BACK))"

definition QUEUE_MAX :: nat where "QUEUE_MAX = 256"

text \<open>
  A key event that has been accepted; one that is made up leaves the table of pressed keys alone.
  The table has a \<open>char\<close> for every key, which is unsigned on the ARM processor of the phone.
\<close>

definition accept_key :: "bool \<Rightarrow> nat \<Rightarrow> int \<Rightarrow> ui \<Rightarrow> ui" where
  "accept_key fake code value u =
     (let u = (if fake then u else u\<lparr>key_pressed := (key_pressed u)[code := value mod 256]\<rparr>);
          u = (if 0 < value \<and> length (key_queue u) < QUEUE_MAX then u\<lparr>key_queue := key_queue u @ [int code]\<rparr> else u) in
      if 0 < value \<and> device_toggle_display u code then u\<lparr>show_text := \<not> show_text u\<rparr> else u)"

text \<open>
  One event in the loop of \<open>input_thread\<close>, with its variable \<open>rel_sum\<close>; the table of pressed keys
  has \<open>KEY_MAX + 1\<close> entries.
\<close>

definition input_step :: "input_event \<Rightarrow> int \<times> ui \<Rightarrow> int \<times> ui" where
  "input_step ev = (\<lambda>(rel_sum, u).
     if ev_type ev = EV_SYN then (rel_sum, u)
     else if ev_type ev = EV_REL then
       (if ev_code ev \<noteq> REL_Y then (rel_sum, u)
        else let rel_sum = rel_sum + ev_value ev in
          if rel_sum > 3 then (0, accept_key True KEY_DOWN 1 u)
          else if rel_sum < -3 then (0, accept_key True KEY_UP 1 u)
          else (rel_sum, u))
     else if ev_type ev \<noteq> EV_KEY \<or> length (key_pressed u) \<le> ev_code ev then (0, u)
     else (0, accept_key False (ev_code ev) (ev_value ev) u))"

text \<open>Waiting for a key: nothing happens while the queue is empty.\<close>

definition ui_wait_key :: "ui \<Rightarrow> (int \<times> ui) option" where
  "ui_wait_key u = (case key_queue u of [] \<Rightarrow> None | key # keys \<Rightarrow> Some (key, u\<lparr>key_queue := keys\<rparr>))"

definition ui_key_pressed :: "nat \<Rightarrow> ui \<Rightarrow> int option" where
  "ui_key_pressed key u = rd (key_pressed u) key"

definition ui_clear_key_queue :: "ui \<Rightarrow> ui" where
  "ui_clear_key_queue u = u\<lparr>key_queue := []\<rparr>"

section \<open>The progress bar\<close>

definition ui_set_background :: "nat \<Rightarrow> ui \<Rightarrow> ui" where
  "ui_set_background icon u = u\<lparr>gCurrentIcon := icon\<rparr>"

definition ui_show_indeterminate_progress :: "ui \<Rightarrow> ui" where
  "ui_show_indeterminate_progress u = u\<lparr>gProgressBarType := PROGRESSBAR_TYPE_INDETERMINATE\<rparr>"

definition ui_show_progress :: "rat \<Rightarrow> int \<Rightarrow> int \<Rightarrow> ui \<Rightarrow> ui" where
  "ui_show_progress portion seconds now u =
     u\<lparr>gProgressBarType := PROGRESSBAR_TYPE_NORMAL, gProgressScopeStart := gProgressScopeStart u + gProgressScopeSize u,
       gProgressScopeSize := portion, gProgressScopeTime := now, gProgressScopeDuration := seconds, gProgress := 0\<rparr>"

definition to_int :: "rat \<Rightarrow> int" where
  "to_int r = (if 0 \<le> r then floor r else ceiling r)"

definition ui_set_progress :: "nat \<Rightarrow> rat \<Rightarrow> ui \<Rightarrow> ui" where
  "ui_set_progress width fraction u =
     (let fraction = (if fraction < 0 then 0 else fraction);
          fraction = (if fraction > 1 then 1 else fraction);
          scale = of_nat width * gProgressScopeSize u in
      if gProgressBarType u = PROGRESSBAR_TYPE_NORMAL \<and> gProgress u < fraction \<and>
         to_int (gProgress u * scale) \<noteq> to_int (fraction * scale)
      then u\<lparr>gProgress := fraction\<rparr> else u)"

definition ui_reset_progress :: "ui \<Rightarrow> ui" where
  "ui_reset_progress u =
     u\<lparr>gProgressBarType := PROGRESSBAR_TYPE_NONE, gProgressScopeStart := 0, gProgressScopeSize := 0,
       gProgressScopeTime := 0, gProgressScopeDuration := 0, gProgress := 0\<rparr>"

text \<open>One round of \<open>progress_thread\<close>.\<close>

definition progress_round :: "int \<Rightarrow> ui \<Rightarrow> ui" where
  "progress_round now u =
     (let duration = gProgressScopeDuration u in
      if gProgressBarType u = PROGRESSBAR_TYPE_NORMAL \<and> 0 < duration then
        let elapsed = now - gProgressScopeTime u;
            fraction = of_int elapsed / of_int duration;
            fraction = (if fraction > 1 then 1 else fraction) in
        if gProgress u < fraction then u\<lparr>gProgress := fraction\<rparr> else u
      else u)"

text \<open>The end of the filled part of a bar, in pixels, as \<open>draw_progress_locked\<close> computes it.\<close>

definition progress_pos :: "nat \<Rightarrow> ui \<Rightarrow> int" where
  "progress_pos width u = to_int ((gProgressScopeStart u + gProgress u * gProgressScopeSize u) * of_nat width)"

section \<open>Choosing from a menu\<close>

definition NO_ACTION :: int where "NO_ACTION = -1"
definition HIGHLIGHT_UP :: int where "HIGHLIGHT_UP = -2"
definition HIGHLIGHT_DOWN :: int where "HIGHLIGHT_DOWN = -3"
definition SELECT_ITEM :: int where "SELECT_ITEM = -4"
definition GO_BACK :: int where "GO_BACK = -5"

text \<open>The codes of keys: caps lock, down, volume down; menu, left shift, up, volume up; home; back; power.\<close>

definition device_handle_key :: "int \<Rightarrow> bool \<Rightarrow> ui \<Rightarrow> int" where
  "device_handle_key key_code visible u =
     (if visible then
        if key_code \<in> {58, int KEY_DOWN, 114} then HIGHLIGHT_DOWN
        else if key_code \<in> {int KEY_MENU, 42, int KEY_UP, 115} then HIGHLIGHT_UP
        else if key_code = 102 then SELECT_ITEM
        else if key_code = int KEY_BACK then GO_BACK
        else if key_code = 116 then
          if ui_get_showing_back_button u then SELECT_ITEM
          else if \<not> allow_display_toggle u then GO_BACK
          else NO_ACTION
        else NO_ACTION
      else NO_ACTION)"

text \<open>
  One round of the loop of \<open>get_menu_selection\<close>, on the key that \<open>ui_wait_key\<close> has returned and
  whether the text was visible then: the chosen item, the selected one, and how often the
  selection has wrapped around.
\<close>

definition menu_round :: "bool \<Rightarrow> int \<Rightarrow> int \<Rightarrow> bool \<Rightarrow> int \<times> nat \<Rightarrow> ui \<Rightarrow> (int \<times> (int \<times> nat) \<times> ui) option" where
  "menu_round menu_only item_count key visible = (\<lambda>(selected, wrap_count) u. do {
     let action = device_handle_key key visible u;
     let (sel, u) = (if action = HIGHLIGHT_UP then ui_menu_select (selected - 1) u
                     else if action = HIGHLIGHT_DOWN then ui_menu_select (selected + 1) u
                     else (selected, u));
     let chosen = (if action < 0 then
                     if action = SELECT_ITEM then
                       if ui_get_showing_back_button u \<and> sel = item_count then GO_BACK else sel
                     else if action = GO_BACK then GO_BACK
                     else -1
                   else if \<not> menu_only then action
                   else -1);
     let wrap_count = (if \<bar>sel - selected\<bar> > 1 then wrap_count + 1 else wrap_count);
     (wrap_count, u) \<leftarrow>
       (if \<bar>sel - selected\<bar> > 1 \<and> wrap_count = 3 then
          if ui_get_showing_back_button u
          then do { u \<leftarrow> ui_print (str ''Back menu button disabled.'' @ [10]) u; Some (0, ui_set_showing_back_button False u) }
          else do { u \<leftarrow> ui_print (str ''Back menu button enabled.'' @ [10]) u; Some (0, ui_set_showing_back_button True u) }
        else Some (wrap_count, u));
     Some (chosen, (sel, wrap_count), u) })"

text \<open>
  The loop, on the keys that \<open>ui_wait_key\<close> will return one after the other.  The result is
  \<open>None\<close> for an access outside of a table, and \<open>Some None\<close> while it waits for another key.
\<close>

fun menu_loop :: "bool \<Rightarrow> int \<Rightarrow> (int \<times> bool) list \<Rightarrow> int \<times> nat \<Rightarrow> ui \<Rightarrow> (int \<times> ui) option option" where
  "menu_loop menu_only item_count [] s u = Some None"
| "menu_loop menu_only item_count ((key, visible) # keys) s u = do {
     (chosen, s, u) \<leftarrow> menu_round menu_only item_count key visible s u;
     if chosen < 0 \<and> chosen \<noteq> GO_BACK then menu_loop menu_only item_count keys s u
     else Some (Some (chosen, u)) }"

definition get_menu_selection ::
    "bytes list \<Rightarrow> bytes list \<Rightarrow> bool \<Rightarrow> int \<Rightarrow> (int \<times> bool) list \<Rightarrow> ui \<Rightarrow> (int \<times> ui) option option" where
  "get_menu_selection headers items menu_only initial_selection keys u = do {
     (item_count, u) \<leftarrow> ui_start_menu headers items initial_selection (ui_clear_key_queue u);
     r \<leftarrow> menu_loop menu_only item_count keys (initial_selection, 0) u;
     Some (map_option (\<lambda>(chosen_item, u). (chosen_item, ui_clear_key_queue (ui_end_menu u))) r) }"

definition prepend_title :: "bytes list \<Rightarrow> bytes list" where
  "prepend_title headers = [str ''MIDNIGHT KERNEL / CWM4 BASED RECOVERY'', []] @ headers"

end
