(* ===== verification/UiText.thy ===== *)
theory UiText
  imports Ui
begin

text \<open>
  The log text as it is seen: the ring of rows that \<open>ui_print\<close> writes shows the last lines of
  everything that has been printed, broken where the screen ends.
\<close>

section \<open>The lines of a text\<close>

text \<open>The finished lines, and the one that is being written.\<close>

type_synonym text_lines = "bytes list \<times> bytes"

definition end_line :: "text_lines \<Rightarrow> text_lines" where
  "end_line = (\<lambda>(ls, l). (ls @ [l], []))"

fun add_char :: "nat \<Rightarrow> u8 \<Rightarrow> text_lines \<Rightarrow> text_lines" where
  "add_char cols c t =
     (let t = (if c = 10 \<or> cols \<le> length (snd t) then end_line t else t) in
      if c \<noteq> 10 then (fst t, snd t @ [c]) else t)"

definition add_text :: "nat \<Rightarrow> bytes \<Rightarrow> text_lines \<Rightarrow> text_lines" where
  "add_text cols s t = fold (add_char cols) s t"

text \<open>What a screen of so many rows shows of it: its first row stays empty.\<close>

definition last_lines :: "nat \<Rightarrow> text_lines \<Rightarrow> bytes list" where
  "last_lines n t = (let ls = replicate n [] @ fst t @ [snd t] in drop (length ls - n) ls)"

definition screen :: "ui \<Rightarrow> bytes list" where
  "screen u = map (\<lambda>row. cstring (text_table u ! ((row + text_top u) mod text_rows u))) [1..<text_rows u]"

section \<open>The table and the lines\<close>

text \<open>
  The row of a line is its number modulo the number of rows.  The line being written need not
  be terminated.
\<close>

definition table_ok :: "ui \<Rightarrow> bool" where
  "table_ok u \<longleftrightarrow> length (text_table u) = MAX_ROWS \<and> (\<forall>l \<in> set (text_table u). length l = MAX_COLS) \<and>
     2 \<le> text_rows u \<and> text_rows u \<le> MAX_ROWS \<and> 0 < text_cols u \<and> text_cols u < MAX_COLS"

definition holds_lines :: "ui \<Rightarrow> text_lines \<Rightarrow> bool" where
  "holds_lines u t \<longleftrightarrow> (let n = length (fst t) in
     text_row u = n mod text_rows u \<and> text_top u = (n + 1) mod text_rows u \<and> text_col u = length (snd t) \<and>
     length (snd t) \<le> text_cols u \<and> 0 \<notin> set (snd t) \<and> take (text_col u) (text_table u ! text_row u) = snd t \<and>
     (\<forall>k < n. n < k + text_rows u \<longrightarrow> cstring (text_table u ! (k mod text_rows u)) = fst t ! k) \<and>
     (\<forall>r < text_rows u. n < r \<longrightarrow> cstring (text_table u ! r) = []))"

text \<open>The line being written is terminated, as it is after \<open>ui_print\<close>.\<close>

definition shown :: "ui \<Rightarrow> text_lines \<Rightarrow> bool" where
  "shown u t \<longleftrightarrow> cstring (text_table u ! text_row u) = snd t"

lemma cstring_take: "k < length l \<Longrightarrow> 0 \<notin> set (take k l) \<Longrightarrow> l ! k = 0 \<Longrightarrow> cstring l = take k l"
proof (induction k arbitrary: l)
  case 0
  then show ?case by (cases l) (simp_all add: cstring_def)
next
  case (Suc k)
  then show ?case by (cases l) (auto simp: cstring_def)
qed

lemma put_char_Some:
  assumes "table_ok u" and "row < text_rows u" and "col \<le> text_cols u"
  shows "put_char row col c u = Some (u\<lparr>text_table := (text_table u)[row := (text_table u ! row)[col := c]]\<rparr>)"
proof -
  have "row < length (text_table u)" using assms by (simp add: table_ok_def)
  moreover from this have "length (text_table u ! row) = MAX_COLS" using assms by (simp add: table_ok_def)
  moreover have "col < MAX_COLS" using assms by (simp add: table_ok_def)
  ultimately show ?thesis
    by (simp add: put_char_def rd_def wr_slice_def upd_conv_take_nth_drop Let_def)
qed

lemma table_ok_update:
  "table_ok u \<Longrightarrow> row < text_rows u \<Longrightarrow> table_ok (u\<lparr>text_table := (text_table u)[row := (text_table u ! row)[col := c]]\<rparr>)"
proof -
  assume t: "table_ok u" and "row < text_rows u"
  then have "row < length (text_table u)" by (simp add: table_ok_def)
  then have "length (text_table u ! row) = MAX_COLS" using t by (simp add: table_ok_def)
  then show "table_ok (u\<lparr>text_table := (text_table u)[row := (text_table u ! row)[col := c]]\<rparr>)"
    using t by (auto simp: table_ok_def dest!: set_update_subset_insert [THEN subsetD])
qed

lemma holds_linesD:
  assumes "holds_lines u t"
  shows "text_row u = length (fst t) mod text_rows u" "text_top u = (length (fst t) + 1) mod text_rows u"
    "text_col u = length (snd t)" "length (snd t) \<le> text_cols u" "0 \<notin> set (snd t)"
    "take (text_col u) (text_table u ! text_row u) = snd t"
    "\<And>k. k < length (fst t) \<Longrightarrow> length (fst t) < k + text_rows u \<Longrightarrow> cstring (text_table u ! (k mod text_rows u)) = fst t ! k"
    "\<And>r. r < text_rows u \<Longrightarrow> length (fst t) < r \<Longrightarrow> cstring (text_table u ! r) = []"
  using assms unfolding holds_lines_def Let_def by blast+

lemma row_facts:
  assumes "table_ok u" and "holds_lines u t"
  shows "text_row u < text_rows u" "text_row u < length (text_table u)" "text_col u \<le> text_cols u"
    "text_col u < length (text_table u ! text_row u)"
proof -
  show row: "text_row u < text_rows u" using assms(1) holds_linesD(1) [OF assms(2)] by (simp add: table_ok_def)
  then show table: "text_row u < length (text_table u)" using assms(1) by (simp add: table_ok_def)
  show col: "text_col u \<le> text_cols u" using holds_linesD(3,4) [OF assms(2)] by simp
  have "length (text_table u ! text_row u) = MAX_COLS" using assms(1) table by (simp add: table_ok_def)
  then show "text_col u < length (text_table u ! text_row u)" using assms(1) col by (simp add: table_ok_def)
qed

lemma mod_neq:
  assumes "k < n" and "n < k + (m :: nat)"
  shows "k mod m \<noteq> n mod m"
proof
  assume "k mod m = n mod m"
  then have "m dvd n - k" using mod_eq_dvd_iff_nat [of k n m] assms(1) by simp
  then show False using assms by (auto dest: dvd_imp_le)
qed

text \<open>Writing a character behind the line that is being written leaves the others alone.\<close>

lemma other_rows:
  fixes c :: u8
  assumes t: "table_ok u" "holds_lines u t"
  defines "T \<equiv> (text_table u)[text_row u := (text_table u ! text_row u)[text_col u := c]]"
  shows "k < length (fst t) \<Longrightarrow> length (fst t) < k + text_rows u \<Longrightarrow> cstring (T ! (k mod text_rows u)) = fst t ! k"
    and "r < text_rows u \<Longrightarrow> length (fst t) < r \<Longrightarrow> cstring (T ! r) = []"
    and "T ! text_row u = (text_table u ! text_row u)[text_col u := c]"
    and "take (text_col u) (T ! text_row u) = snd t"
proof -
  note r = row_facts [OF t] and h = holds_linesD [OF t(2)]
  show "T ! text_row u = (text_table u ! text_row u)[text_col u := c]" using r by (simp add: T_def)
  then show "take (text_col u) (T ! text_row u) = snd t" using h(6) by simp
  show "cstring (T ! (k mod text_rows u)) = fst t ! k" if "k < length (fst t)" "length (fst t) < k + text_rows u"
    using mod_neq [OF that] h(7) [OF that] by (simp add: T_def h(1))
  show "cstring (T ! r) = []" if "r < text_rows u" "length (fst t) < r"
  proof -
    have "text_row u \<noteq> r" using h(1) that by auto
    then show ?thesis using h(8) [OF that] by (simp add: T_def)
  qed
qed

lemma terminated:
  assumes t: "table_ok u" "holds_lines u t"
  defines "v \<equiv> u\<lparr>text_table := (text_table u)[text_row u := (text_table u ! text_row u)[text_col u := 0]]\<rparr>"
  shows "put_char (text_row u) (text_col u) 0 u = Some v" "table_ok v" "holds_lines v t" "shown v t"
proof -
  note r = row_facts [OF t] and h = holds_linesD [OF t(2)] and o = other_rows [OF t, where c = 0]
  show "put_char (text_row u) (text_col u) 0 u = Some v" "table_ok v"
    using put_char_Some [OF t(1) r(1,3)] table_ok_update [OF t(1) r(1)] by (simp_all add: v_def)
  have "cstring (text_table v ! text_row u) = take (text_col u) (text_table v ! text_row u)"
    using r h(5) o(3,4) by (intro cstring_take) (simp_all add: v_def)
  then show "shown v t" using o(4) by (simp add: shown_def v_def)
  show "holds_lines v t" unfolding holds_lines_def Let_def
    using h o by (simp add: v_def)
qed


text \<open>The text that is shown keeps its dimensions.\<close>

definition same_size :: "ui \<Rightarrow> ui \<Rightarrow> bool" where
  "same_size u v \<longleftrightarrow> text_rows v = text_rows u \<and> text_cols v = text_cols u"

lemma new_line_holds:
  assumes t: "table_ok u" "holds_lines u t"
  shows "\<exists>v. new_line u = Some v \<and> table_ok v \<and> holds_lines v (end_line t) \<and> same_size u v"
proof -
  let ?n = "length (fst t)"
  obtain w where w: "put_char (text_row u) (text_col u) 0 u = Some w" "table_ok w" "holds_lines w t" "shown w t"
    and w': "w = u\<lparr>text_table := (text_table u)[text_row u := (text_table u ! text_row u)[text_col u := 0]]\<rparr>"
    using terminated [OF t] by blast
  note h = holds_linesD [OF w(3)]
  have rows: "2 \<le> text_rows w" "text_rows w = text_rows u" using w(2) by (simp_all add: table_ok_def w')
  define v where "v = w\<lparr>text_col := 0, text_row := (?n + 1) mod text_rows w, text_top := (?n + 2) mod text_rows w\<rparr>"
  have top: "(text_row w + 1) mod text_rows w = (?n + 1) mod text_rows w" "text_top w = (?n + 1) mod text_rows w"
    "(text_top w + 1) mod text_rows w = (?n + 2) mod text_rows w"
    unfolding h(1,2) by (simp_all add: mod_Suc_eq)
  have "new_line u = Some v"
    unfolding new_line_def w(1) by (simp add: Let_def v_def top(3)) (use top in \<open>simp add: w'\<close>)
  moreover have "table_ok v" using w(2) by (simp add: table_ok_def v_def)
  moreover have "same_size u v" by (simp add: same_size_def v_def w')
  moreover have "cstring (text_table v ! (k mod text_rows v)) = fst (end_line t) ! k"
    if "k < length (fst (end_line t))" "length (fst (end_line t)) < k + text_rows v" for k
  proof (cases "k = ?n")
    case True
    then show ?thesis using w(4) h(1) by (simp add: shown_def v_def end_line_def split_def nth_append)
  next
    case False
    then show ?thesis using h(7) that by (simp add: v_def end_line_def split_def nth_append)
  qed
  moreover have "cstring (text_table v ! r) = []" if "r < text_rows v" "length (fst (end_line t)) < r" for r
    using h(8) that by (simp add: v_def end_line_def split_def)
  ultimately show ?thesis
    by (intro exI [of _ v]) (simp add: holds_lines_def Let_def v_def end_line_def split_def)
qed

lemma put_holds:
  assumes t: "table_ok u" "holds_lines u t" and c: "c \<noteq> 0" and room: "length (snd t) < text_cols u"
  defines "v \<equiv> u\<lparr>text_table := (text_table u)[text_row u := (text_table u ! text_row u)[text_col u := c]], text_col := text_col u + 1\<rparr>"
  shows "put_char (text_row u) (text_col u) c u \<bind> (\<lambda>u. Some (u\<lparr>text_col := text_col u + 1\<rparr>)) = Some v"
    "table_ok v" "holds_lines v (fst t, snd t @ [c])" "same_size u v"
proof -
  note r = row_facts [OF t] and h = holds_linesD [OF t(2)] and o = other_rows [OF t, where c = c]
  show "put_char (text_row u) (text_col u) c u \<bind> (\<lambda>u. Some (u\<lparr>text_col := text_col u + 1\<rparr>)) = Some v"
    using put_char_Some [OF t(1) r(1,3)] by (simp add: v_def)
  show "table_ok v" using table_ok_update [OF t(1) r(1), of "text_col u" c] by (simp add: table_ok_def v_def)
  show "same_size u v" by (simp add: same_size_def v_def)
  have "take (text_col u + 1) (text_table v ! text_row u) = snd t @ [c]"
    using o(3,4) r(4) by (simp add: v_def take_Suc_conv_app_nth)
  then show "holds_lines v (fst t, snd t @ [c])" unfolding holds_lines_def Let_def
    using h(1-5) o(1,2) c room by (simp add: v_def)
qed

lemma print_chars_holds:
  assumes "table_ok u" and "holds_lines u t" and "0 \<notin> set s"
  shows "\<exists>v. print_chars s u = Some v \<and> table_ok v \<and> holds_lines v (add_text (text_cols u) s t) \<and> same_size u v"
  using assms
proof (induction s arbitrary: u t)
  case Nil
  then show ?case by (simp add: add_text_def same_size_def)
next
  case (Cons c s)
  let ?wrap = "c = 10 \<or> text_cols u \<le> length (snd t)"
  define t1 where "t1 = (if ?wrap then end_line t else t)"
  obtain v where v: "(if c = 10 \<or> text_cols u \<le> text_col u then new_line u else Some u) = Some v"
    "table_ok v" "holds_lines v t1" "same_size u v"
    using new_line_holds [OF Cons.prems(1,2)] Cons.prems holds_linesD(3) [OF Cons.prems(2)]
    by (cases ?wrap) (auto simp: t1_def same_size_def)
  have cols: "text_cols v = text_cols u" using v(4) by (simp add: same_size_def)
  have "0 < text_cols u" using Cons.prems(1) by (simp add: table_ok_def)
  then have room: "length (snd t1) < text_cols v" by (auto simp: cols t1_def end_line_def split_def)
  have add: "add_char (text_cols u) c t = (if c \<noteq> 10 then (fst t1, snd t1 @ [c]) else t1)"
    by (simp add: t1_def Let_def)
  obtain w where w: "(if c \<noteq> 10 then put_char (text_row v) (text_col v) c v \<bind> (\<lambda>u. Some (u\<lparr>text_col := text_col u + 1\<rparr>)) else Some v) = Some w"
    "table_ok w" "holds_lines w (add_char (text_cols u) c t)" "same_size v w"
    using put_holds [OF v(2,3) _ room, of c] Cons.prems(3) v(2,3) add
    by (cases "c = 10") (auto simp: same_size_def simp del: add_char.simps)
  have cols': "text_cols w = text_cols u" using w(4) cols by (simp add: same_size_def)
  from Cons.IH [OF w(2,3)] Cons.prems(3) obtain x where
    "print_chars s w = Some x" "table_ok x" "holds_lines x (add_text (text_cols w) s (add_char (text_cols u) c t))" "same_size w x"
    by auto
  then show ?case using v(1,4) w(1,4) cols' by (simp add: add_text_def same_size_def del: add_char.simps)
qed

definition printed :: "bytes \<Rightarrow> bytes" where
  "printed s = take 255 (cstring s)"

lemma cstring_no_nul [simp]: "0 \<notin> set (cstring s)"
  by (auto simp: cstring_def dest: set_takeWhileD)

lemma ui_print_holds:
  assumes "table_ok u" and "holds_lines u t"
  shows "\<exists>v. ui_print s u = Some v \<and> table_ok v \<and> holds_lines v (add_text (text_cols u) (printed s) t) \<and>
    shown v (add_text (text_cols u) (printed s) t) \<and> same_size u v"
proof -
  have "0 \<notin> set (printed s)" unfolding printed_def by (meson cstring_no_nul in_set_takeD)
  from print_chars_holds [OF assms this] obtain v where
    v: "print_chars (printed s) u = Some v" "table_ok v" "holds_lines v (add_text (text_cols u) (printed s) t)" "same_size u v" by blast
  moreover have "0 < text_rows u \<and> 0 < text_cols u" using assms(1) by (simp add: table_ok_def)
  ultimately show ?thesis using terminated [OF v(2,3)] by (auto simp: ui_print_def printed_def same_size_def)
qed

lemma reset_holds: "holds_lines u t \<Longrightarrow> holds_lines (ui_reset_text_col u) (fst t, [])"
  by (simp add: holds_lines_def ui_reset_text_col_def Let_def)

section \<open>The screen\<close>

lemma screen_shows:
  assumes "table_ok u" and "holds_lines u t" and "shown u t"
  shows "screen u = last_lines (text_rows u - 1) t"
proof (rule nth_equalityI)
  show len: "length (screen u) = length (last_lines (text_rows u - 1) t)"
    by (simp add: screen_def last_lines_def Let_def)
  fix i assume "i < length (screen u)"
  then have i: "i + 1 < text_rows u" by (simp add: screen_def)
  note h = holds_linesD [OF assms(2)]
  let ?n = "length (fst t)" and ?m = "text_rows u"
  let ?r = "(i + 2 + ?n) mod ?m"
  have "(1 + i + text_top u) mod ?m = ?r"
    using mod_add_right_eq [of "1 + i" "?n + 1" ?m] unfolding h(2) by (simp add: add.commute)
  moreover have "[1..<?m] ! i = 1 + i" using i by (simp only: nth_upt)
  ultimately have left: "screen u ! i = cstring (text_table u ! ?r)" using i by (simp add: screen_def del: upt_Suc)
  have right: "last_lines (?m - 1) t ! i = (replicate (?m - 1) [] @ fst t @ [snd t]) ! (?n + 1 + i)"
  proof -
    define ls where "ls = replicate (?m - 1) [] @ fst t @ [snd t]"
    have "length ls - (?m - 1) = ?n + 1" "?n + 1 \<le> length ls" by (simp_all add: ls_def)
    then have "last_lines (?m - 1) t = drop (?n + 1) ls" "?n + 1 \<le> length ls" by (simp_all only: last_lines_def Let_def ls_def)
    then show ?thesis by (simp only: nth_drop ls_def)
  qed
  show "screen u ! i = last_lines (?m - 1) t ! i"
  proof (cases "i + 2 + ?n < ?m")
    case True
    then have "(replicate (?m - 1) [] @ fst t @ [snd t]) ! (?n + 1 + i) = []"
      by (subst nth_append) (simp only: length_replicate nth_replicate if_True, simp)
    then show ?thesis unfolding left right using True h(8) [of "i + 2 + ?n"] by simp
  next
    case False
    define k where "k = i + 2 + ?n - ?m"
    have k: "i + 2 + ?n = k + ?m" "k \<le> ?n" using False i by (simp_all add: k_def)
    then have r: "?r = k mod ?m" by simp
    have right': "last_lines (?m - 1) t ! i = (fst t @ [snd t]) ! k"
    proof -
      have "?n + 1 + i = length (replicate (?m - 1) ([] :: bytes)) + k" using k(1) i by simp
      then show ?thesis unfolding right by (simp only: nth_append_length_plus)
    qed
    show ?thesis
    proof (cases "k = ?n")
      case True
      then show ?thesis unfolding left right' using assms(3) h(1) r by (simp add: shown_def)
    next
      case False
      then have "k < ?n" "?n < k + ?m" using k i by simp_all
      then show ?thesis unfolding left right' using h(7) r by (simp add: nth_append)
    qed
  qed
qed

end
