(* ===== verification/UiMenu.thy ===== *)
theory UiMenu
  imports UiText
begin

text \<open>
  The user interface as a machine of calls: what is drawn is what a simple specification says, no
  sequence of calls leaves the tables, and the selected item of a menu is always on the screen.
\<close>

section \<open>The rows of a menu\<close>

definition rows_ok :: "bytes list \<Rightarrow> bool" where
  "rows_ok m \<longleftrightarrow> length m = MENU_MAX_ROWS \<and> (\<forall>r \<in> set m. length r = MENU_MAX_COLS)"

lemma rows_ok_update: "rows_ok m \<Longrightarrow> length r = MENU_MAX_COLS \<Longrightarrow> rows_ok (m[i := r])"
  by (auto simp: rows_ok_def dest!: set_update_subset_insert [THEN subsetD])

lemma cstring_upto_zero: "0 \<notin> set s \<Longrightarrow> cstring (s @ 0 # r) = s"
  by (induction s) (auto simp: cstring_def)

lemma strncpy_at_Some:
  assumes "p + n \<le> length m"
  shows "strncpy_at m p s n = Some (take p m @ (take n s @ replicate (n - length s) 0) @ drop (p + n) m)"
proof -
  have "length (take n s @ replicate (n - length s) (0 :: u8)) = n" by simp
  then show ?thesis unfolding strncpy_at_def wr_slice_def using assms by (simp only: if_True)
qed

lemma cstring_padded: "0 \<notin> set s \<Longrightarrow> cstring ((take n s @ replicate (n - length s) 0) @ 0 # r) = take n s"
proof (cases "n \<le> length s")
  case True
  assume "0 \<notin> set s"
  then show ?thesis using True by (auto intro!: cstring_upto_zero dest: in_set_takeD)
next
  case False
  assume "0 \<notin> set s"
  moreover obtain k where "n - length s = Suc k" using False by (metis Suc_diff_Suc not_le)
  ultimately show ?thesis using False by (auto intro!: cstring_upto_zero)
qed

lemma header_row:
  assumes "length row = MENU_MAX_COLS" and "2 \<le> cols" and "cols \<le> MENU_MAX_COLS" and "0 \<notin> set h"
  shows "\<exists>r. (strncpy_at row 0 h (cols - 1) \<bind> (\<lambda>row. wr_slice row (cols - 1) [0])) = Some r \<and>
    length r = MENU_MAX_COLS \<and> cstring r = take (cols - 1) h"
proof -
  define x where "x = take (cols - 1) h @ replicate (cols - 1 - length h) (0 :: u8)"
  have len: "length x = cols - 1" by (simp add: x_def)
  have "strncpy_at row 0 h (cols - 1) = Some (x @ drop (cols - 1) row)"
    using assms(1-3) strncpy_at_Some [of 0 "cols - 1" row h] by (simp add: x_def)
  moreover have "wr_slice (x @ drop (cols - 1) row) (cols - 1) [0] = Some (x @ 0 # drop cols row)"
    using assms(1-3) len by (simp add: wr_slice_def)
  moreover have "cstring (x @ 0 # drop cols row) = take (cols - 1) h"
    unfolding x_def by (rule cstring_padded [OF assms(4)])
  ultimately show ?thesis using assms(1-3) len by (intro exI [of _ "x @ 0 # drop cols row"]) simp
qed

lemma item_room_eq: "2 \<le> cols \<Longrightarrow> cols \<le> MENU_MAX_COLS \<Longrightarrow> item_room cols = cols - 2"
proof -
  assume c: "2 \<le> cols" "cols \<le> MENU_MAX_COLS"
  then have "of_nat (cols - 1) - of_nat (length MENU_ITEM_HEADER) = (of_nat (cols - 2) :: u32)"
    by (simp add: MENU_ITEM_HEADER_def str_def of_nat_diff)
  moreover have "cols - 2 < 2 ^ 32" using c(2) by (simp add: MENU_MAX_COLS_def)
  ultimately show ?thesis by (simp add: item_room_def)
qed

definition item_text :: "bytes \<Rightarrow> bytes" where
  "item_text s = MENU_ITEM_HEADER @ s"

lemma item_row:
  assumes "length row = MENU_MAX_COLS" and "2 \<le> cols" and "cols \<le> MENU_MAX_COLS" and "0 \<notin> set s"
  shows "\<exists>r. (wr_slice row 0 (MENU_ITEM_HEADER @ [0]) \<bind> (\<lambda>row. strncpy_at row (length MENU_ITEM_HEADER) s (item_room cols) \<bind>
      (\<lambda>row. wr_slice row (cols - 1) [0]))) = Some r \<and>
    length r = MENU_MAX_COLS \<and> cstring r = take (cols - 1) (item_text s)"
proof -
  define x where "x = take (cols - 2) s @ replicate (cols - 2 - length s) (0 :: u8)"
  have len: "length x = cols - 2" by (simp add: x_def)
  have h: "MENU_ITEM_HEADER = [32]" by (simp add: MENU_ITEM_HEADER_def str_def)
  have "wr_slice row 0 (MENU_ITEM_HEADER @ [0]) = Some (32 # 0 # drop 2 row)"
    using assms(1-3) by (simp add: h wr_slice_def numeral_2_eq_2)
  moreover define y where "y = drop (cols - 2) (0 # drop 2 row)"
  then have leny: "length y = MENU_MAX_COLS + 1 - cols" using assms(1-3) by simp
  have "strncpy_at (32 # 0 # drop 2 row) (length MENU_ITEM_HEADER) s (item_room cols) = Some (32 # x @ y)"
    using assms(1-3) strncpy_at_Some [of 1 "cols - 2" "32 # 0 # drop 2 row" s]
    by (cases cols; cases "cols - 1") (auto simp: item_room_eq h x_def y_def)
  moreover have "wr_slice (32 # x @ y) (cols - 1) [0] = Some (32 # x @ 0 # drop 1 y)"
    using assms(1-3) len leny by (cases cols; cases "cols - 1") (auto simp: wr_slice_def)
  moreover have "cstring (32 # x @ 0 # drop 1 y) = take (cols - 1) (item_text s)"
    using cstring_padded [OF assms(4), of "cols - 2" "drop 1 y"] assms(2)
    by (cases cols; cases "cols - 1") (auto simp: item_text_def h x_def cstring_def)
  ultimately show ?thesis using assms(1-3) len leny by (intro exI [of _ "32 # x @ 0 # drop 1 y"]) simp
qed

text \<open>The rows from a position on that hold the given texts.\<close>

definition rows_show :: "bytes list \<Rightarrow> nat \<Rightarrow> bytes list \<Rightarrow> bool" where
  "rows_show m i ts \<longleftrightarrow> (\<forall>k < length ts. cstring (m ! (i + k)) = ts ! k)"

lemma rows_show_append: "rows_show m i (ts @ us) \<longleftrightarrow> rows_show m i ts \<and> rows_show m (i + length ts) us"
proof -
  have "(\<forall>k < length (ts @ us). cstring (m ! (i + k)) = (ts @ us) ! k) \<longleftrightarrow>
      (\<forall>k < length ts. cstring (m ! (i + k)) = ts ! k) \<and> (\<forall>k < length us. cstring (m ! (i + (length ts + k))) = us ! k)"
    (is "?l \<longleftrightarrow> ?r1 \<and> ?r2")
  proof (intro iffI conjI allI impI)
    show "cstring (m ! (i + k)) = ts ! k" if ?l "k < length ts" for k
      using that(1) [rule_format, of k] that(2) by (simp add: nth_append)
    show "cstring (m ! (i + (length ts + k))) = us ! k" if ?l "k < length us" for k
      using that(1) [rule_format, of "length ts + k"] that(2) by simp
    show "cstring (m ! (i + k)) = (ts @ us) ! k" if "?r1 \<and> ?r2" "k < length (ts @ us)" for k
    proof (cases "k < length ts")
      case True
      then show ?thesis using that by (simp add: nth_append)
    next
      case False
      then obtain j where "k = length ts + j" by (metis le_Suc_ex not_less)
      then show ?thesis using that by simp
    qed
  qed
  then show ?thesis by (simp add: rows_show_def add.assoc)
qed

lemma rows_show_cong: "rows_show m i ts \<Longrightarrow> \<forall>k < n. m' ! k = m ! k \<Longrightarrow> i + length ts \<le> n \<Longrightarrow> rows_show m' i ts"
  by (simp add: rows_show_def)

lemma put_headers_show:
  assumes "2 \<le> cols" and "cols \<le> MENU_MAX_COLS" and "\<forall>h \<in> set hs. 0 \<notin> set h"
    and "rows_ok m" and "i + length hs \<le> rows" and "rows \<le> MENU_MAX_ROWS"
  shows "\<exists>m'. put_headers cols rows i hs m = Some (i + length hs, m') \<and> rows_ok m' \<and>
    rows_show m' i (map (take (cols - 1)) hs) \<and> (\<forall>k < i. m' ! k = m ! k)"
  using assms(3-5)
proof (induction hs arbitrary: i m)
  case Nil
  then show ?case by (simp add: rows_show_def)
next
  case (Cons h hs)
  have i: "i < length m" "\<not> rows \<le> i" using Cons.prems assms(6) by (simp_all add: rows_ok_def)
  then have row: "length (m ! i) = MENU_MAX_COLS" using Cons.prems(2) by (simp add: rows_ok_def)
  obtain r where r: "(strncpy_at (m ! i) 0 h (cols - 1) \<bind> (\<lambda>row. wr_slice row (cols - 1) [0])) = Some r"
    "length r = MENU_MAX_COLS" "cstring r = take (cols - 1) h"
    using header_row [OF row assms(1,2)] Cons.prems(1) by auto
  have "rows_ok (m[i := r])" by (rule rows_ok_update [OF Cons.prems(2) r(2)])
  with Cons.IH [of "m[i := r]" "i + 1"] Cons.prems obtain m' where
    m': "put_headers cols rows (i + 1) hs (m[i := r]) = Some (i + 1 + length hs, m')" "rows_ok m'"
    "rows_show m' (i + 1) (map (take (cols - 1)) hs)" "\<forall>k < i + 1. m' ! k = m[i := r] ! k" by auto
  have "put_headers cols rows i (h # hs) m = Some (i + length (h # hs), m')"
    using r(1) m'(1) i by (simp add: rd_def bind_eq_Some_conv) blast
  moreover have "rows_show m' i (map (take (cols - 1)) (h # hs))"
    unfolding rows_show_def
  proof (intro allI impI)
    fix k assume "k < length (map (take (cols - 1)) (h # hs))"
    then show "cstring (m' ! (i + k)) = map (take (cols - 1)) (h # hs) ! k"
      using m'(3,4) r(3) i(1) by (cases k) (auto simp: rows_show_def)
  qed
  ultimately show ?case using m'(2,4) by auto
qed


lemma put_items_show:
  assumes "2 \<le> cols" and "cols \<le> MENU_MAX_COLS" and "\<forall>s \<in> set ss. 0 \<notin> set s"
    and "rows_ok m" and "i + length ss \<le> MENU_MAX_ROWS"
  shows "\<exists>m'. put_items cols i ss m = Some (i + length ss, m') \<and> rows_ok m' \<and>
    rows_show m' i (map (\<lambda>s. take (cols - 1) (item_text s)) ss) \<and> (\<forall>k < i. m' ! k = m ! k)"
  using assms(3-5)
proof (induction ss arbitrary: i m)
  case Nil
  then show ?case by (simp add: rows_show_def)
next
  case (Cons s ss)
  have i: "i < length m" "\<not> MENU_MAX_ROWS \<le> i" using Cons.prems by (simp_all add: rows_ok_def)
  then have row: "length (m ! i) = MENU_MAX_COLS" using Cons.prems(2) by (simp add: rows_ok_def)
  obtain r where r: "(wr_slice (m ! i) 0 (MENU_ITEM_HEADER @ [0]) \<bind>
      (\<lambda>row. strncpy_at row (length MENU_ITEM_HEADER) s (item_room cols) \<bind> (\<lambda>row. wr_slice row (cols - 1) [0]))) = Some r"
    "length r = MENU_MAX_COLS" "cstring r = take (cols - 1) (item_text s)"
    using item_row [OF row assms(1,2), of s] Cons.prems(1) by auto
  have "rows_ok (m[i := r])" by (rule rows_ok_update [OF Cons.prems(2) r(2)])
  with Cons.IH [of "m[i := r]" "i + 1"] Cons.prems obtain m' where
    m': "put_items cols (i + 1) ss (m[i := r]) = Some (i + 1 + length ss, m')" "rows_ok m'"
    "rows_show m' (i + 1) (map (\<lambda>s. take (cols - 1) (item_text s)) ss)" "\<forall>k < i + 1. m' ! k = m[i := r] ! k" by auto
  have "put_items cols i (s # ss) m = Some (i + length (s # ss), m')"
    using r(1) m'(1) i by (simp add: rd_def bind_eq_Some_conv) blast
  moreover have "rows_show m' i (map (\<lambda>s. take (cols - 1) (item_text s)) (s # ss))"
    unfolding rows_show_def
  proof (intro allI impI)
    fix k assume "k < length (map (\<lambda>s. take (cols - 1) (item_text s)) (s # ss))"
    then show "cstring (m' ! (i + k)) = map (\<lambda>s. take (cols - 1) (item_text s)) (s # ss) ! k"
      using m'(3,4) r(3) i(1) by (cases k) (auto simp: rows_show_def)
  qed
  ultimately show ?case using m'(2,4) by auto
qed

lemma put_back_show:
  assumes "rows_ok m" and "i < MENU_MAX_ROWS"
  shows "\<exists>m'. put_back i m = Some (i + 1, m') \<and> rows_ok m' \<and> cstring (m' ! i) = BACK_ITEM \<and> (\<forall>k < i. m' ! k = m ! k)"
proof -
  have i: "i < length m" and row: "length (m ! i) = MENU_MAX_COLS" using assms by (simp_all add: rows_ok_def)
  have b: "length BACK_ITEM = 20" "0 \<notin> set BACK_ITEM" by (simp_all add: BACK_ITEM_def str_def)
  define r where "r = BACK_ITEM @ 0 # drop 21 (m ! i)"
  have "wr_slice (m ! i) 0 (BACK_ITEM @ [0]) = Some r" using row b by (simp add: wr_slice_def r_def MENU_MAX_COLS_def)
  moreover have "length r = MENU_MAX_COLS" using row b by (simp add: r_def MENU_MAX_COLS_def)
  moreover have "cstring r = BACK_ITEM" unfolding r_def by (rule cstring_upto_zero [OF b(2)])
  ultimately show ?thesis using i rows_ok_update [OF assms(1)] by (intro exI [of _ "m[i := r]"]) (simp add: put_back_def rd_def)
qed

section \<open>Calls and their specification\<close>

datatype ui_call =
    UiPrint bytes | UiResetCol | UiShowText bool
  | UiStartMenu "bytes list" "bytes list" int | UiSelect int | UiEndMenu | UiBackButton bool
  | UiKey input_event | UiWaitKey | UiClearKeys
  | UiBackground nat | UiIndeterminate | UiProgress rat int int | UiSetProgress nat rat | UiResetProgress | UiRound int

text \<open>The state is \<open>rel_sum\<close> of the input thread and the shared one.\<close>

fun ui_do :: "ui_call \<Rightarrow> int \<times> ui \<Rightarrow> (int \<times> ui) option" where
  "ui_do (UiPrint s) (r, u) = map_option (Pair r) (ui_print s u)"
| "ui_do UiResetCol (r, u) = Some (r, ui_reset_text_col u)"
| "ui_do (UiShowText b) (r, u) = Some (r, ui_show_text b u)"
| "ui_do (UiStartMenu hs ss i) (r, u) = map_option (\<lambda>(n, u). (r, u)) (ui_start_menu hs ss i u)"
| "ui_do (UiSelect i) (r, u) = Some (r, snd (ui_menu_select i u))"
| "ui_do UiEndMenu (r, u) = Some (r, ui_end_menu u)"
| "ui_do (UiBackButton b) (r, u) = Some (r, ui_set_showing_back_button b u)"
| "ui_do (UiKey ev) (r, u) = Some (input_step ev (r, u))"
| "ui_do UiWaitKey (r, u) = map_option (\<lambda>(k, u). (r, u)) (ui_wait_key u)"
| "ui_do UiClearKeys (r, u) = Some (r, ui_clear_key_queue u)"
| "ui_do (UiBackground i) (r, u) = Some (r, ui_set_background i u)"
| "ui_do UiIndeterminate (r, u) = Some (r, ui_show_indeterminate_progress u)"
| "ui_do (UiProgress p s t) (r, u) = Some (r, ui_show_progress p s t u)"
| "ui_do (UiSetProgress w f) (r, u) = Some (r, ui_set_progress w f u)"
| "ui_do UiResetProgress (r, u) = Some (r, ui_reset_progress u)"
| "ui_do (UiRound t) (r, u) = Some (r, progress_round t u)"

text \<open>
  The specification keeps the lines that have been printed, and of a menu its headers, its items
  and the selected one.
\<close>

record ui_spec =
  sp_lines :: text_lines
  sp_menu :: "(bytes list \<times> bytes list \<times> int) option"
  sp_back :: bool

fun spec_do :: "nat \<Rightarrow> ui_call \<Rightarrow> ui_spec \<Rightarrow> ui_spec" where
  "spec_do cols (UiPrint s) p = p\<lparr>sp_lines := add_text cols (printed s) (sp_lines p)\<rparr>"
| "spec_do cols UiResetCol p = p\<lparr>sp_lines := (fst (sp_lines p), [])\<rparr>"
| "spec_do cols (UiStartMenu hs ss i) p =
     p\<lparr>sp_menu := Some (map (take (cols - 1)) hs,
        map (\<lambda>s. take (cols - 1) (item_text s)) ss @ (if sp_back p then [BACK_ITEM] else []), i)\<rparr>"
| "spec_do cols (UiSelect i) p = p\<lparr>sp_menu := map_option (\<lambda>(hs, ss, j). (hs, ss, i mod int (length ss))) (sp_menu p)\<rparr>"
| "spec_do cols UiEndMenu p = p\<lparr>sp_menu := None\<rparr>"
| "spec_do cols (UiBackButton b) p = p\<lparr>sp_back := b\<rparr>"
| "spec_do cols c p = p"

text \<open>
  What a caller has to see to: menus whose rows fit the table and the screen, with an item to
  select; and selecting an item next to the menu's ones.
\<close>

fun allowed :: "ui_call \<Rightarrow> ui \<Rightarrow> bool" where
  "allowed (UiStartMenu hs ss i) u \<longleftrightarrow>
     (\<forall>s \<in> set (hs @ ss). 0 \<notin> set s) \<and> length hs < text_rows u \<and> length hs + length ss < MENU_MAX_ROWS \<and>
     0 \<le> i \<and> i < int (length ss)"
| "allowed (UiSelect i) u \<longleftrightarrow> - menu_items u \<le> i \<and> i < 2 * menu_items u"
| "allowed UiWaitKey u \<longleftrightarrow> key_queue u \<noteq> []"
| "allowed c u \<longleftrightarrow> True"

inductive ui_runs :: "int \<times> ui \<Rightarrow> ui_call list \<Rightarrow> int \<times> ui \<Rightarrow> bool" for c where
  start: "ui_runs c [] c"
| call: "ui_runs c cs (r, u) \<Longrightarrow> allowed a u \<Longrightarrow> ui_do a (r, u) = Some d \<Longrightarrow> ui_runs c (cs @ [a]) d"


section \<open>The invariant\<close>

definition menu_ok :: "ui \<Rightarrow> (bytes list \<times> bytes list \<times> int) option \<Rightarrow> bool" where
  "menu_ok u p \<longleftrightarrow> show_menu u = (p \<noteq> None) \<and>
     (case p of None \<Rightarrow> True
      | Some (hs, ss, i) \<Rightarrow>
          menu_top u = int (length hs) \<and> menu_items u = int (length ss) \<and> menu_sel u = i \<and>
          length hs < text_rows u \<and> length hs + length ss \<le> MENU_MAX_ROWS \<and> rows_show (menu_table u) 0 (hs @ ss) \<and>
          0 \<le> i \<and> i < int (length ss) \<and> 0 \<le> menu_show_start u \<and> menu_show_start u \<le> i \<and>
          i - menu_show_start u + int (length hs) < int (text_rows u))"

definition ui_ok :: "ui \<Rightarrow> ui_spec \<Rightarrow> bool" where
  "ui_ok u p \<longleftrightarrow> table_ok u \<and> 2 \<le> text_cols u \<and> text_cols u \<le> MENU_MAX_COLS \<and> holds_lines u (sp_lines p) \<and>
     gShowBackButton u = sp_back p \<and> rows_ok (menu_table u) \<and> menu_ok u (sp_menu p) \<and>
     length (key_queue u) \<le> QUEUE_MAX \<and> 0 \<le> gProgress u \<and> gProgress u \<le> 1"

lemma menu_ok_frame:
  assumes "menu_ok u m" and "show_menu v = show_menu u" "menu_top v = menu_top u" "menu_items v = menu_items u"
    "menu_sel v = menu_sel u" "menu_show_start v = menu_show_start u" "text_rows v = text_rows u" "menu_table v = menu_table u"
  shows "menu_ok v m"
  using assms by (cases m) (simp_all add: menu_ok_def)

lemma ui_ok_frame:
  assumes "ui_ok u p" and "text_table v = text_table u" "text_rows v = text_rows u" "text_cols v = text_cols u"
    "text_row v = text_row u" "text_col v = text_col u" "text_top v = text_top u" "gShowBackButton v = gShowBackButton u"
    "menu_table v = menu_table u" "show_menu v = show_menu u" "menu_top v = menu_top u" "menu_items v = menu_items u"
    "menu_sel v = menu_sel u" "menu_show_start v = menu_show_start u"
    "length (key_queue v) \<le> QUEUE_MAX" "0 \<le> gProgress v" "gProgress v \<le> 1"
  shows "ui_ok v p"
  using assms menu_ok_frame [of u "sp_menu p" v] by (simp add: ui_ok_def table_ok_def holds_lines_def)

lemma ui_okD: "ui_ok u p \<Longrightarrow> length (key_queue u) \<le> QUEUE_MAX" "ui_ok u p \<Longrightarrow> 0 \<le> gProgress u" "ui_ok u p \<Longrightarrow> gProgress u \<le> 1"
  by (simp_all add: ui_ok_def)

lemma ui_ok_keys:
  "ui_ok u p \<Longrightarrow> length q \<le> QUEUE_MAX \<Longrightarrow> ui_ok (u\<lparr>key_queue := q, key_pressed := k, show_text := b\<rparr>) p"
  by (frule ui_okD(2), frule ui_okD(3), erule ui_ok_frame) simp_all

lemma ui_ok_fraction: "ui_ok u p \<Longrightarrow> 0 \<le> f \<Longrightarrow> f \<le> 1 \<Longrightarrow> ui_ok (u\<lparr>gProgress := f\<rparr>) p"
  by (frule ui_okD(1), erule ui_ok_frame) simp_all

lemma accept_key_ok: "ui_ok u p \<Longrightarrow> ui_ok (accept_key fake code value u) p"
proof -
  assume u: "ui_ok u p"
  define q where "q = (if 0 < value \<and> length (key_queue u) < QUEUE_MAX then key_queue u @ [int code] else key_queue u)"
  have "length q \<le> QUEUE_MAX" using u by (auto simp: q_def ui_ok_def)
  then have "ui_ok (u\<lparr>key_queue := q, key_pressed := k, show_text := b\<rparr>) p" for k b by (rule ui_ok_keys [OF u])
  moreover have "\<exists>k b. accept_key fake code value u = u\<lparr>key_queue := q, key_pressed := k, show_text := b\<rparr>"
    by (intro exI [of _ "key_pressed (accept_key fake code value u)"] exI [of _ "show_text (accept_key fake code value u)"])
       (simp add: accept_key_def q_def Let_def)
  ultimately show ?thesis by metis
qed

lemma input_step_ok: "ui_ok u p \<Longrightarrow> ui_ok (snd (input_step ev (r, u))) p"
  by (simp add: input_step_def Let_def accept_key_ok)


text \<open>Printing touches nothing but the log text.\<close>

definition only_text :: "ui \<Rightarrow> ui \<Rightarrow> bool" where
  "only_text u v \<longleftrightarrow> v\<lparr>text_table := [], text_col := 0, text_row := 0, text_top := 0\<rparr> =
     u\<lparr>text_table := [], text_col := 0, text_row := 0, text_top := 0\<rparr>"

lemma only_textD:
  "only_text u v \<Longrightarrow> v = u\<lparr>text_table := text_table v, text_col := text_col v, text_row := text_row v, text_top := text_top v\<rparr>"
  by (cases u; cases v) (simp add: only_text_def)

lemma only_text_refl: "only_text u u"
  by (simp add: only_text_def)

lemma only_text_trans: "only_text u v \<Longrightarrow> only_text v w \<Longrightarrow> only_text u w"
  by (simp add: only_text_def)

lemma put_char_only: "put_char row col c u = Some v \<Longrightarrow> only_text u v"
  by (auto simp: put_char_def bind_eq_Some_conv only_text_def)

lemma only_text_fields: "only_text u v \<Longrightarrow> only_text u (v\<lparr>text_col := c\<rparr>)"
  "only_text u v \<Longrightarrow> only_text u (v\<lparr>text_col := c, text_row := r, text_top := tp\<rparr>)"
  by (simp_all add: only_text_def)

lemma new_line_only: "new_line u = Some v \<Longrightarrow> only_text u v"
  by (auto simp: new_line_def bind_eq_Some_conv Let_def intro: only_text_fields dest: put_char_only)

lemma print_chars_only: "print_chars s u = Some v \<Longrightarrow> only_text u v"
proof (induction s arbitrary: u)
  case (Cons c s)
  then obtain w x where w: "(if c = 10 \<or> text_cols u \<le> text_col u then new_line u else Some u) = Some w"
    and x: "(if c \<noteq> 10 then put_char (text_row w) (text_col w) c w \<bind> (\<lambda>u. Some (u\<lparr>text_col := text_col u + 1\<rparr>)) else Some w) = Some x"
    and v: "print_chars s x = Some v" by (auto simp: bind_eq_Some_conv simp del: Suc_eq_plus1 add_Suc_right)
  have "only_text u w" using w new_line_only only_text_refl by (auto split: if_splits)
  moreover have "only_text w x" using x only_text_fields(1) put_char_only only_text_refl
    by (auto split: if_splits simp: bind_eq_Some_conv)
  ultimately show ?case using Cons.IH [OF v] only_text_trans by blast
qed (simp add: only_text_refl)

lemma ui_print_only: "ui_print s u = Some v \<Longrightarrow> only_text u v"
  by (auto simp: ui_print_def bind_eq_Some_conv only_text_refl split: if_splits
      dest!: print_chars_only put_char_only intro: only_text_trans)

lemma print_ok:
  assumes "ui_ok u p"
  shows "\<exists>v. ui_print s u = Some v \<and> ui_ok v (spec_do (text_cols u) (UiPrint s) p) \<and> same_size u v \<and>
    screen v = last_lines (text_rows u - 1) (sp_lines (spec_do (text_cols u) (UiPrint s) p))"
proof -
  have t: "table_ok u" "holds_lines u (sp_lines p)" using assms by (simp_all add: ui_ok_def)
  obtain v where v: "ui_print s u = Some v" "table_ok v" "holds_lines v (add_text (text_cols u) (printed s) (sp_lines p))"
    "shown v (add_text (text_cols u) (printed s) (sp_lines p))" "same_size u v" using ui_print_holds [OF t] by blast
  define tt c r tp where "tt = text_table v" and "c = text_col v" and "r = text_row v" and "tp = text_top v"
  then have "v = u\<lparr>text_table := tt, text_col := c, text_row := r, text_top := tp\<rparr>"
    using only_textD [OF ui_print_only [OF v(1)]] by simp
  then have "ui_ok v (spec_do (text_cols u) (UiPrint s) p)"
    using assms v(2,3) menu_ok_frame [of u "sp_menu p" v] by (simp add: ui_ok_def)
  then show ?thesis using v screen_shows [OF v(2-4)] by (auto simp: same_size_def)
qed

lemma start_menu_ok:
  assumes "ui_ok u p" and "allowed (UiStartMenu hs ss i) u"
  shows "\<exists>n v. ui_start_menu hs ss i u = Some (n, v) \<and> ui_ok v (spec_do (text_cols u) (UiStartMenu hs ss i) p) \<and>
    same_size u v \<and> n = int (length ss) \<and> menu_items v = int (length ss) + of_bool (sp_back p)"
proof -
  let ?cols = "text_cols u"
  have c: "2 \<le> ?cols" "?cols \<le> MENU_MAX_COLS" "text_rows u \<le> MENU_MAX_ROWS" "0 < text_rows u" and m: "rows_ok (menu_table u)"
    using assms(1) by (simp_all add: ui_ok_def table_ok_def MAX_ROWS_def MENU_MAX_ROWS_def)
  have a: "\<forall>h \<in> set hs. 0 \<notin> set h" "\<forall>s \<in> set ss. 0 \<notin> set s" "length hs < text_rows u" "length hs + length ss < MENU_MAX_ROWS"
    "0 \<le> i" "i < int (length ss)" using assms(2) by auto
  obtain m1 where m1: "put_headers ?cols (text_rows u) 0 hs (menu_table u) = Some (length hs, m1)" "rows_ok m1"
    "rows_show m1 0 (map (take (?cols - 1)) hs)"
    using put_headers_show [OF c(1,2) a(1) m, of 0 "text_rows u"] a(3) c(3) by auto
  obtain m2 where m2: "put_items ?cols (length hs) ss m1 = Some (length hs + length ss, m2)" "rows_ok m2"
    "rows_show m2 (length hs) (map (\<lambda>s. take (?cols - 1) (item_text s)) ss)" "\<forall>k < length hs. m2 ! k = m1 ! k"
    using put_items_show [OF c(1,2) a(2) m1(2), of "length hs"] a(4) by auto
  let ?hs = "map (take (?cols - 1)) hs" and ?ss = "map (\<lambda>s. take (?cols - 1) (item_text s)) ss"
  have show2: "rows_show m2 0 (?hs @ ?ss)"
    using rows_show_cong [OF m1(3) m2(4)] m2(3) by (simp add: rows_show_append)
  obtain m3 where m3: "(if gShowBackButton u then put_back (length hs + length ss) m2 else Some (length hs + length ss, m2)) =
      Some (length hs + length ss + of_bool (sp_back p), m3)" "rows_ok m3"
      "rows_show m3 0 (?hs @ ?ss @ (if sp_back p then [BACK_ITEM] else []))"
  proof (cases "gShowBackButton u")
    case True
    then have b: "sp_back p" using assms(1) by (simp add: ui_ok_def)
    obtain m3 where m3: "put_back (length hs + length ss) m2 = Some (length hs + length ss + 1, m3)" "rows_ok m3"
      "cstring (m3 ! (length hs + length ss)) = BACK_ITEM" "\<forall>k < length hs + length ss. m3 ! k = m2 ! k"
      using put_back_show [OF m2(2) a(4)] by auto
    have "rows_show m3 0 (?hs @ ?ss)" by (rule rows_show_cong [OF show2 m3(4)]) simp
    moreover have "rows_show m3 (length hs + length ss) [BACK_ITEM]" using m3(3) by (simp add: rows_show_def)
    ultimately have "rows_show m3 0 ((?hs @ ?ss) @ [BACK_ITEM])" by (simp add: rows_show_append)
    then show thesis using m3 b True by (intro that [of m3]) simp_all
  next
    case False
    then show thesis using m2(1,2) show2 assms(1) by (intro that [of m2]) (simp_all add: ui_ok_def)
  qed
  define v where "v = u\<lparr>menu_table := m3, menu_top := int (length hs), menu_items := int (length ss) + of_bool (sp_back p),
    show_menu := True, menu_sel := i, menu_show_start := i\<rparr>"
  have "ui_start_menu hs ss i u = Some (int (length ss), v)"
    using c m1(1) m2(1) m3(1) assms(1) by (simp add: ui_start_menu_def v_def ui_ok_def)
  moreover have "menu_ok v (Some (?hs, ?ss @ (if sp_back p then [BACK_ITEM] else []), i))"
    using a m3(3) by (auto simp: menu_ok_def v_def)
  then have "ui_ok v (spec_do ?cols (UiStartMenu hs ss i) p)"
    using assms(1) m3(2) by (simp add: ui_ok_def v_def table_ok_def holds_lines_def)
  ultimately show ?thesis by (intro exI [of _ "int (length ss)"] exI [of _ v]) (simp add: same_size_def v_def)
qed


lemma wrapped:
  fixes i n :: int
  assumes "- n \<le> i" and "i < 2 * n"
  shows "(let s = (if i < 0 then n + i else i) in if n \<le> s then s - n else s) = i mod n"
proof -
  consider "i < 0" | "0 \<le> i \<and> i < n" | "n \<le> i" by linarith
  then show ?thesis
  proof cases
    case 1
    then have "i mod n = n + i" using assms mod_pos_pos_trivial [of "n + i" n] mod_add_self1 [of n i] by simp
    then show ?thesis using 1 assms by simp
  next
    case 2
    then show ?thesis by simp
  next
    case 3
    then have "i mod n = i - n" using assms mod_pos_pos_trivial [of "i - n" n] minus_mod_self2 [of i n] by simp
    then show ?thesis using 3 assms by simp
  qed
qed

lemma select_ok:
  assumes "ui_ok u p" and "sp_menu p = Some (hs, ss, j)" and "- menu_items u \<le> i" and "i < 2 * menu_items u"
  shows "\<exists>v. ui_menu_select i u = (i mod int (length ss), v) \<and> ui_ok v (spec_do (text_cols u) (UiSelect i) p) \<and>
    same_size u v \<and> menu_items v = menu_items u \<and> gShowBackButton v = gShowBackButton u"
proof -
  have m: "menu_ok u (Some (hs, ss, j))" using assms(1,2) by (simp add: ui_ok_def)
  let ?n = "int (length ss)" and ?s = "i mod int (length ss)"
  have n: "menu_items u = ?n" "0 < ?n" "show_menu u" using m by (auto simp: menu_ok_def)
  have s: "0 \<le> ?s" "?s < ?n" using n by simp_all
  have w: "(let s = (if i < 0 then menu_items u + i else i) in if menu_items u \<le> s then s - menu_items u else s) = ?s"
    using wrapped [of ?n i] assms(3,4) by (simp only: n)
  define st where "st = (if ?s < menu_show_start u \<and> 0 < menu_show_start u then ?s else menu_show_start u)"
  define start where "start = (if int (text_rows u) \<le> ?s - st + menu_top u then ?s + menu_top u - int (text_rows u) + 1 else st)"
  define v where "v = u\<lparr>menu_sel := ?s, menu_show_start := start\<rparr>"
  have "ui_menu_select i u = (?s, v)"
    using w n(3) by (simp add: ui_menu_select_def v_def start_def st_def Let_def)
  moreover have "menu_ok v (Some (hs, ss, ?s))"
    using m s by (auto simp: menu_ok_def v_def start_def st_def)
  then have "ui_ok v (spec_do (text_cols u) (UiSelect i) p)"
    using assms(1,2) by (simp add: ui_ok_def v_def table_ok_def holds_lines_def)
  ultimately show ?thesis by (intro exI [of _ v]) (simp add: same_size_def v_def)
qed

lemma set_progress_ok: "ui_ok u p \<Longrightarrow> ui_ok (ui_set_progress w f u) p"
proof -
  assume u: "ui_ok u p"
  then have b: "0 \<le> gProgress u" "gProgress u \<le> 1" by (simp_all add: ui_ok_def)
  obtain g where "ui_set_progress w f u = u\<lparr>gProgress := g\<rparr>" "0 \<le> g" "g \<le> 1"
  proof (cases "ui_set_progress w f u = u")
    case True
    then show ?thesis using b by (intro that [of "gProgress u"]) simp_all
  next
    case False
    define g where "g = (if (if f < 0 then 0 else f) > 1 then 1 else if f < 0 then 0 else f)"
    have "ui_set_progress w f u = u\<lparr>gProgress := g\<rparr>" using False unfolding ui_set_progress_def Let_def g_def by presburger
    then show ?thesis by (intro that [of g]) (simp_all add: g_def)
  qed
  then show ?thesis
    using ui_ok_fraction [OF u, of g] by simp
qed

lemma round_ok: "ui_ok u p \<Longrightarrow> ui_ok (progress_round t u) p"
proof -
  assume u: "ui_ok u p"
  then have b: "0 \<le> gProgress u" "gProgress u \<le> 1" by (simp_all add: ui_ok_def)
  obtain g where "progress_round t u = u\<lparr>gProgress := g\<rparr>" "0 \<le> g" "g \<le> 1"
  proof (cases "progress_round t u = u")
    case True
    then show ?thesis using b by (intro that [of "gProgress u"]) simp_all
  next
    case False
    define g where "g = (let f = rat_of_int (t - gProgressScopeTime u) / rat_of_int (gProgressScopeDuration u) in if f > 1 then 1 else f)"
    have "progress_round t u = u\<lparr>gProgress := g\<rparr>" "gProgress u < g"
      using False unfolding progress_round_def Let_def g_def by presburger+
    then show ?thesis using b by (intro that [of g]) (simp_all add: g_def Let_def)
  qed
  then show ?thesis
    using ui_ok_fraction [OF u, of g] by simp
qed


lemma set_progress_size: "same_size u (ui_set_progress w f u)" "same_size u (progress_round t u)"
  by (simp_all add: same_size_def ui_set_progress_def progress_round_def Let_def)

lemma input_step_size: "same_size u (snd (input_step ev (r, u)))"
  by (simp add: same_size_def input_step_def accept_key_def Let_def)

lemma same_bar_ok:
  assumes "ui_ok u p"
  shows "ui_ok (u\<lparr>gCurrentIcon := i\<rparr>) p" "ui_ok (u\<lparr>gProgressBarType := ty\<rparr>) p"
    "ui_ok (u\<lparr>gProgressBarType := ty, gProgressScopeStart := a, gProgressScopeSize := b, gProgressScopeTime := t, gProgressScopeDuration := d,
       gProgress := 0\<rparr>) p"
  by (rule ui_ok_frame [OF assms]; simp add: ui_okD [OF assms])+

lemma do_ok:
  assumes "ui_ok u p" and "allowed a u"
  shows "\<exists>r' v. ui_do a (r, u) = Some (r', v) \<and> ui_ok v (spec_do (text_cols u) a p) \<and> same_size u v"
proof (cases a)
  case (UiPrint s)
  then show ?thesis using print_ok [OF assms(1), of s] by auto
next
  case (UiStartMenu hs ss i)
  then show ?thesis using start_menu_ok [OF assms(1) assms(2) [unfolded UiStartMenu]] by (auto simp del: spec_do.simps)
next
  case (UiSelect i)
  show ?thesis
  proof (cases "sp_menu p")
    case None
    then have "\<not> show_menu u" using assms(1) by (simp add: ui_ok_def menu_ok_def)
    then show ?thesis using None assms(1) UiSelect by (simp add: ui_menu_select_def same_size_def ui_ok_def)
  next
    case (Some m)
    obtain hs ss j where m: "m = (hs, ss, j)" by (cases m)
    then show ?thesis using select_ok [OF assms(1), of hs ss j i] assms(2) UiSelect Some by (auto simp del: spec_do.simps)
  qed
next
  case (UiKey ev)
  obtain r' v where "input_step ev (r, u) = (r', v)" by fastforce
  then show ?thesis using UiKey input_step_ok [OF assms(1), of ev r] input_step_size [of u ev r] by simp
next
  case UiWaitKey
  then obtain k ks where q: "key_queue u = k # ks" using assms(2) by (cases "key_queue u") auto
  then have "ui_ok (u\<lparr>key_queue := ks, key_pressed := key_pressed u, show_text := show_text u\<rparr>) p"
    using assms(1) by (intro ui_ok_keys) (auto simp: ui_ok_def)
  then show ?thesis using UiWaitKey q by (simp add: ui_wait_key_def same_size_def)
next
  case (UiSetProgress w f)
  then show ?thesis using set_progress_ok [OF assms(1)] set_progress_size by simp
next
  case (UiRound t)
  then show ?thesis using round_ok [OF assms(1)] set_progress_size by simp
next
  case UiResetCol
  have "holds_lines (ui_reset_text_col u) (fst (sp_lines p), [])" using assms(1) by (intro reset_holds) (simp add: ui_ok_def)
  then have "ui_ok (ui_reset_text_col u) (p\<lparr>sp_lines := (fst (sp_lines p), [])\<rparr>)"
    using assms(1) menu_ok_frame [of u "sp_menu p" "ui_reset_text_col u"]
    by (simp add: ui_ok_def table_ok_def ui_reset_text_col_def)
  then show ?thesis using UiResetCol by (simp add: same_size_def ui_reset_text_col_def)
next
  case UiEndMenu
  have "ui_ok (ui_end_menu u) (p\<lparr>sp_menu := None\<rparr>)" using assms(1)
    by (simp add: ui_ok_def table_ok_def holds_lines_def menu_ok_def ui_end_menu_def)
  then show ?thesis using UiEndMenu by (simp add: same_size_def ui_end_menu_def)
next
  case (UiBackButton b)
  have "ui_ok (ui_set_showing_back_button b u) (p\<lparr>sp_back := b\<rparr>)"
    using assms(1) menu_ok_frame [of u "sp_menu p" "ui_set_showing_back_button b u"]
    by (simp add: ui_ok_def table_ok_def holds_lines_def ui_set_showing_back_button_def)
  then show ?thesis using UiBackButton by (simp add: same_size_def ui_set_showing_back_button_def)
next
  case (UiShowText b)
  have "ui_ok (ui_show_text b u) p"
    using ui_ok_keys [OF assms(1), where q = "key_queue u" and k = "key_pressed u" and b = b] assms(1)
    by (simp add: ui_show_text_def ui_ok_def)
  then show ?thesis using UiShowText by (simp add: same_size_def ui_show_text_def)
next
  case UiClearKeys
  have "ui_ok (ui_clear_key_queue u) p"
    using ui_ok_keys [OF assms(1), where q = "[]" and k = "key_pressed u" and b = "show_text u"] by (simp add: ui_clear_key_queue_def)
  then show ?thesis using UiClearKeys by (simp add: same_size_def ui_clear_key_queue_def)
next
  case (UiBackground i)
  then show ?thesis using same_bar_ok [OF assms(1)] by (simp add: same_size_def ui_set_background_def)
next
  case UiIndeterminate
  then show ?thesis using same_bar_ok [OF assms(1)] by (simp add: same_size_def ui_show_indeterminate_progress_def)
next
  case (UiProgress x t now)
  then show ?thesis using same_bar_ok [OF assms(1)] by (simp add: same_size_def ui_show_progress_def)
next
  case UiResetProgress
  then show ?thesis using same_bar_ok [OF assms(1)] by (simp add: same_size_def ui_reset_progress_def)
qed

section \<open>From the start\<close>

definition ui_statics :: "bool \<Rightarrow> bool \<Rightarrow> nat \<Rightarrow> ui" where
  "ui_statics back toggle keys =
     \<lparr>text_table = replicate MAX_ROWS (replicate MAX_COLS 0), text_cols = 0, text_rows = 0, text_col = 0, text_row = 0,
      text_top = 0, show_text = False, menu_table = replicate MENU_MAX_ROWS (replicate MENU_MAX_COLS 0), show_menu = False,
      menu_top = 0, menu_items = 0, menu_sel = 0, menu_show_start = 0, gShowBackButton = back,
      allow_display_toggle = toggle, key_queue = [], key_pressed = replicate keys 0, gCurrentIcon = 0,
      gProgressBarType = PROGRESSBAR_TYPE_NONE, gProgressScopeStart = 0, gProgressScopeSize = 0, gProgress = 0,
      gProgressScopeTime = 0, gProgressScopeDuration = 0\<rparr>"

definition started :: "nat \<Rightarrow> nat \<Rightarrow> bool \<Rightarrow> bool \<Rightarrow> nat \<Rightarrow> int \<times> ui" where
  "started width height back toggle keys = (0, ui_init width height (ui_statics back toggle keys))"

definition spec_run :: "nat \<Rightarrow> bool \<Rightarrow> ui_call list \<Rightarrow> ui_spec" where
  "spec_run cols back cs = fold (spec_do cols) cs \<lparr>sp_lines = ([], []), sp_menu = None, sp_back = back\<rparr>"

text \<open>A screen of at least two rows and columns, and of at most the 64 columns that a menu has.\<close>

definition usual_screen :: "nat \<Rightarrow> nat \<Rightarrow> bool" where
  "usual_screen width height \<longleftrightarrow> 2 \<le> height div CHAR_HEIGHT \<and> 2 \<le> width div CHAR_WIDTH \<and> width div CHAR_WIDTH \<le> MENU_MAX_COLS"

lemma started_ok:
  assumes "usual_screen width height"
  shows "ui_ok (snd (started width height back toggle keys)) (spec_run (width div CHAR_WIDTH) back [])"
    and "text_cols (snd (started width height back toggle keys)) = width div CHAR_WIDTH"
    and "text_rows (snd (started width height back toggle keys)) = min (height div CHAR_HEIGHT) MAX_ROWS"
proof -
  have c: "min (width div CHAR_WIDTH) (MAX_COLS - 1) = width div CHAR_WIDTH" "width div CHAR_WIDTH < MAX_COLS"
    using assms by (simp_all add: usual_screen_def MENU_MAX_COLS_def MAX_COLS_def)
  then show "text_cols (snd (started width height back toggle keys)) = width div CHAR_WIDTH"
    "text_rows (snd (started width height back toggle keys)) = min (height div CHAR_HEIGHT) MAX_ROWS"
    by (simp_all add: started_def ui_init_def)
  have r: "2 \<le> min (height div CHAR_HEIGHT) MAX_ROWS" using assms by (simp add: usual_screen_def MAX_ROWS_def)
  have t: "length (replicate MAX_ROWS (replicate MAX_COLS 0)) = MAX_ROWS" "0 < MAX_COLS" "0 < MAX_ROWS"
    by (simp_all add: MAX_ROWS_def MAX_COLS_def)
  have z: "cstring (replicate n 0) = []" for n by (cases n) (simp_all add: cstring_def)
  define rows where "rows = min (height div CHAR_HEIGHT) MAX_ROWS"
  have rows: "2 \<le> rows" "rows \<le> MAX_ROWS" using r by (simp_all add: rows_def)
  show "ui_ok (snd (started width height back toggle keys)) (spec_run (width div CHAR_WIDTH) back [])"
    unfolding started_def ui_init_def spec_run_def rows_def [symmetric] c(1)
    using rows assms c(2) t z
    by (simp add: ui_ok_def table_ok_def holds_lines_def menu_ok_def rows_ok_def ui_statics_def usual_screen_def)
qed

lemma runs_ok:
  assumes "ui_runs (started width height back toggle keys) cs c" and "usual_screen width height"
  shows "ui_ok (snd c) (spec_run (width div CHAR_WIDTH) back cs) \<and> text_cols (snd c) = width div CHAR_WIDTH \<and>
    text_rows (snd c) = min (height div CHAR_HEIGHT) MAX_ROWS"
  using assms(1)
proof (induction rule: ui_runs.induct)
  case start
  then show ?case using started_ok [OF assms(2)] by simp
next
  case (call cs r u a d)
  then show ?case using do_ok [of u "spec_run (width div CHAR_WIDTH) back cs" a r]
    by (auto simp: spec_run_def same_size_def)
qed

lemma runs_more:
  assumes "ui_runs (started width height back toggle keys) cs (r, u)" and "usual_screen width height" and "allowed a u"
  shows "\<exists>r' v. ui_runs (started width height back toggle keys) (cs @ [a]) (r', v)"
  using do_ok [of u _ a r] runs_ok [OF assms(1,2)] assms ui_runs.call by fastforce

inductive_cases runs_printedE: "ui_runs c (cs @ [UiPrint s]) d"

text \<open>
  C11: after any sequence of calls and events that ends with printing, the rows of the log on the
  screen are the last lines of everything that has been printed, broken at the width of the screen.
\<close>

theorem log_text_shown:
  assumes "ui_runs (started width height back toggle keys) (cs @ [UiPrint s]) (r, u)" and "usual_screen width height"
  shows "screen u = last_lines (text_rows u - 1) (sp_lines (spec_run (width div CHAR_WIDTH) back (cs @ [UiPrint s])))"
proof -
  from assms(1) obtain r' v where v: "ui_runs (started width height back toggle keys) cs (r', v)"
    "ui_do (UiPrint s) (r', v) = Some (r, u)" by (cases rule: ui_runs.cases) auto
  have ok: "ui_ok v (spec_run (width div CHAR_WIDTH) back cs)" "text_cols v = width div CHAR_WIDTH"
    using runs_ok [OF v(1) assms(2)] by simp_all
  show ?thesis using print_ok [OF ok(1), of s] v(2) ok(2) by (auto simp: spec_run_def same_size_def)
qed

theorem log_text_shown_witness:
  "\<exists>r u. ui_runs (started 480 800 False True 512) [UiPrint (str ''one'' @ [10] @ str ''t''), UiResetCol, UiPrint (str ''two'')] (r, u) \<and>
    drop 29 (screen u) = [str ''one'', str ''two'']"
proof -
  let ?c = "started 480 800 False True 512" and ?s = "str ''one'' @ [10] @ str ''t''"
  have size: "usual_screen 480 800" by (simp add: usual_screen_def CHAR_HEIGHT_def CHAR_WIDTH_def MENU_MAX_COLS_def)
  have "ui_runs ?c [] (0, snd ?c)" using ui_runs.start [of ?c] by (simp add: started_def)
  from runs_more [OF this size, of "UiPrint ?s"] obtain r1 u1 where "ui_runs ?c [UiPrint ?s] (r1, u1)" by auto
  then obtain r2 u2 where "ui_runs ?c [UiPrint ?s, UiResetCol] (r2, u2)" using runs_more [OF _ size, of False True 512 "[UiPrint ?s]" r1 u1 UiResetCol]
    by auto
  then obtain r u where run: "ui_runs ?c [UiPrint ?s, UiResetCol, UiPrint (str ''two'')] (r, u)"
    using runs_more [OF _ size, of False True 512 "[UiPrint ?s, UiResetCol]" r2 u2 "UiPrint (str ''two'')"] by auto
  have rows: "text_rows u = 32" using runs_ok [OF run size] by (simp add: CHAR_HEIGHT_def MAX_ROWS_def)
  have "sp_lines (spec_run 48 False [UiPrint ?s, UiResetCol, UiPrint (str ''two'')]) = ([str ''one''], str ''two'')"
    by code_simp
  then have "screen u = last_lines 31 ([str ''one''], str ''two'')"
    using log_text_shown [of 480 800 False True 512 "[UiPrint ?s, UiResetCol]" "str ''two''" r u] run size rows
    by (simp add: CHAR_WIDTH_def)
  then have "drop 29 (screen u) = drop 29 (last_lines 31 ([str ''one''], str ''two''))" by (rule arg_cong)
  moreover have "drop 29 (last_lines 31 ([str ''one''], str ''two'')) = [str ''one'', str ''two'']" by code_simp
  ultimately show ?thesis using run by auto
qed


text \<open>
  C14: after any sequence of calls and events every further call is defined: no call reads or writes
  outside of the tables of text and menu rows, as long as menus fit and the screen has at most 64
  columns.  While a menu is shown its selected item is within the screen and drawn in its row.
\<close>

theorem selected_item_drawn:
  assumes "ui_runs (started width height back toggle keys) cs (r, u)" and "usual_screen width height"
  shows "(allowed a u \<longrightarrow> ui_do a (r, u) \<noteq> None) \<and>
    (\<forall>hs ss i. show_text u \<and> sp_menu (spec_run (width div CHAR_WIDTH) back cs) = Some (hs, ss, i) \<and> ss ! nat i \<noteq> [] \<longrightarrow>
      (\<exists>row. 0 \<le> row \<and> row < int (text_rows u) \<and> (row, ss ! nat i) \<in> set (draw_screen u)))"
proof (intro conjI allI impI)
  have ok: "ui_ok u (spec_run (width div CHAR_WIDTH) back cs)" using runs_ok [OF assms] by simp
  then show "ui_do a (r, u) \<noteq> None" if "allowed a u" using do_ok [OF ok that, of r] by auto
  fix hs ss i
  assume m: "show_text u \<and> sp_menu (spec_run (width div CHAR_WIDTH) back cs) = Some (hs, ss, i) \<and> ss ! nat i \<noteq> []"
  then have o: "menu_ok u (Some (hs, ss, i))" using ok by (simp add: ui_ok_def)
  have rows: "text_rows u \<le> MAX_ROWS" using ok by (simp add: ui_ok_def table_ok_def)
  define row where "row = menu_top u + i - menu_show_start u"
  have i: "0 \<le> i" "i < int (length ss)" "0 \<le> menu_show_start u" "menu_show_start u \<le> i" "menu_top u = int (length hs)"
    "menu_items u = int (length ss)" "i - menu_show_start u + int (length hs) < int (text_rows u)" "show_menu u"
    "rows_show (menu_table u) 0 (hs @ ss)"
    using o by (auto simp: menu_ok_def)
  have "menu_row u (nat (menu_top u + i)) = ss ! nat i"
  proof -
    have "nat (menu_top u + i) = length hs + nat i" using i by simp
    moreover have "cstring (menu_table u ! (length hs + nat i)) = ss ! nat i"
    proof -
      have "nat i < length ss" using i(1,2) by simp
      then show ?thesis using i(9) by (simp add: rows_show_append) (simp add: rows_show_def)
    qed
    ultimately show ?thesis by (simp add: menu_row_def)
  qed
  moreover have "i - menu_show_start u < menu_count u" using i rows by (auto simp: menu_count_def)
  then have "menu_top u + i \<in> {menu_show_start u + menu_top u..menu_show_start u + menu_top u + menu_count u - 1}" using i by simp
  ultimately have "(row, ss ! nat i) \<in> set (draw_menu u)"
    using i(8) by (auto simp: draw_menu_def row_def intro!: image_eqI [of _ _ "menu_top u + i"])
  then have "(row, ss ! nat i) \<in> set (draw_screen u)" using m by (simp add: draw_screen_def)
  moreover have "0 \<le> row" "row < int (text_rows u)" using i by (simp_all add: row_def)
  ultimately show "\<exists>row. 0 \<le> row \<and> row < int (text_rows u) \<and> (row, ss ! nat i) \<in> set (draw_screen u)" by blast
qed

lemma runs_select:
  assumes "ui_runs (started width height back toggle keys) cs (r, u)" and "usual_screen width height"
    and "sp_menu (spec_run (width div CHAR_WIDTH) back cs) = Some (hs, ss, j)"
    and "- int (length ss) \<le> i" and "i < 2 * int (length ss)"
  shows "\<exists>r' v. ui_runs (started width height back toggle keys) (cs @ [UiSelect i]) (r', v)"
proof -
  have "menu_ok u (Some (hs, ss, j))" using runs_ok [OF assms(1,2)] assms(3) by (simp add: ui_ok_def)
  then have "allowed (UiSelect i) u" using assms(4,5) by (auto simp: menu_ok_def)
  then show ?thesis by (rule runs_more [OF assms(1,2)])
qed

lemma start_menu_visible: "ui_start_menu hs ss i u = Some (n, v) \<Longrightarrow> show_text v = show_text u"
  by (auto simp: ui_start_menu_def bind_eq_Some_conv split: if_splits)

lemma sample_spec:
  "sp_menu (spec_run 48 False [UiShowText True, UiStartMenu [str ''menu''] [str ''a'', str ''b''] 0]) =
    Some ([str ''menu''], [str '' a'', str '' b''], 0)"
  "sp_menu (spec_run 48 False [UiShowText True, UiStartMenu [str ''menu''] [str ''a'', str ''b''] 0, UiSelect (-1)]) =
    Some ([str ''menu''], [str '' a'', str '' b''], 1)"
  by (simp_all add: spec_run_def item_text_def MENU_ITEM_HEADER_def str_def)

theorem selected_item_drawn_witness:
  "\<exists>r u. ui_runs (started 480 800 False True 512)
      [UiShowText True, UiStartMenu [str ''menu''] [str ''a'', str ''b''] 0, UiSelect (-1)] (r, u) \<and>
    (\<exists>row. 0 \<le> row \<and> row < int (text_rows u) \<and> (row, str '' b'') \<in> set (draw_screen u))"
proof -
  let ?c = "started 480 800 False True 512" and ?m = "UiStartMenu [str ''menu''] [str ''a'', str ''b''] 0"
  have size: "usual_screen 480 800" by (simp add: usual_screen_def CHAR_HEIGHT_def CHAR_WIDTH_def MENU_MAX_COLS_def)
  have "ui_runs ?c [] (0, snd ?c)" using ui_runs.start [of ?c] by (simp add: started_def)
  then have "ui_runs ?c [UiShowText True] (0, ui_show_text True (snd ?c))"
    using ui_runs.call [of ?c "[]" 0 "snd ?c" "UiShowText True"] by simp
  moreover define w where "w = ui_show_text True (snd ?c)"
  ultimately have w: "ui_runs ?c [UiShowText True] (0, w)" "show_text w" "text_rows w = 32"
    by (simp_all add: ui_show_text_def started_def ui_init_def CHAR_HEIGHT_def MAX_ROWS_def)
  have a: "allowed ?m w" using w(3) by (simp add: str_def MENU_MAX_ROWS_def)
  have "ui_ok w (spec_run (480 div CHAR_WIDTH) False [UiShowText True])"
    using conjunct1 [OF runs_ok [OF w(1) size]] unfolding snd_conv .
  from start_menu_ok [OF this a] obtain n v where
    v: "ui_start_menu [str ''menu''] [str ''a'', str ''b''] 0 w = Some (n, v)" by (elim exE conjE)
  have "ui_runs ?c ([UiShowText True] @ [?m]) (0, v)" by (rule ui_runs.call [OF w(1) a]) (simp add: v)
  then have v': "ui_runs ?c [UiShowText True, ?m] (0, v)" by simp
  have show_v: "show_text v" using start_menu_visible [OF v] w(2) by simp
  define u where "u = snd (ui_menu_select (-1) v)"
  have "menu_ok v (Some ([str ''menu''], [str '' a'', str '' b''], 0))"
    using runs_ok [OF v' size] sample_spec(1) by (simp add: ui_ok_def CHAR_WIDTH_def)
  then have "allowed (UiSelect (-1)) v" by (simp add: menu_ok_def)
  then have "ui_runs ?c ([UiShowText True, ?m] @ [UiSelect (-1)]) (0, u)" by (rule ui_runs.call [OF v']) (simp add: u_def)
  then have run: "ui_runs ?c [UiShowText True, ?m, UiSelect (-1)] (0, u)" by simp
  have "show_text u" using show_v by (simp add: u_def ui_menu_select_def Let_def)
  then show ?thesis using run selected_item_drawn [OF run size, of UiClearKeys] sample_spec(2)
    by (intro exI [of _ 0] exI [of _ u]) (auto simp: CHAR_WIDTH_def str_def)
qed

end
