(* ===== verification/MenuChoice.thy ===== *)
theory MenuChoice
  imports UiMenu
begin

text \<open>
  What \<open>get_menu_selection\<close> of \<open>recovery.c\<close> returns: an item of the menu or \<open>GO_BACK\<close>, but for one
  case: the item that goes back, when the button has been switched off while the menu was shown.
\<close>

text \<open>The menu that is shown while the loop runs, and the item that is selected.\<close>

definition choosing :: "ui \<Rightarrow> nat \<Rightarrow> bool \<Rightarrow> int \<Rightarrow> bool" where
  "choosing u n back selected \<longleftrightarrow>
     (\<exists>p hs ss. ui_ok u p \<and> sp_menu p = Some (hs, ss, selected) \<and> length ss = n + of_bool back)"

lemma choosing_range: "choosing u n back s \<Longrightarrow> 0 \<le> s \<and> s < int n + of_bool back"
  by (auto simp: choosing_def ui_ok_def menu_ok_def)

lemma choosing_select:
  assumes "choosing u n back s" and "d = 1 \<or> d = -1"
  shows "\<exists>s' v. ui_menu_select (s + d) u = (s', v) \<and> choosing v n back s' \<and> gShowBackButton v = gShowBackButton u"
proof -
  obtain p hs ss where p: "ui_ok u p" "sp_menu p = Some (hs, ss, s)" "length ss = n + of_bool back"
    using assms(1) by (auto simp: choosing_def)
  then have "menu_ok u (Some (hs, ss, s))" by (simp add: ui_ok_def)
  then have "menu_items u = int (length ss)" "0 \<le> s" "s < int (length ss)" by (simp_all add: menu_ok_def)
  then have "- menu_items u \<le> s + d" "s + d < 2 * menu_items u" using assms(2) by auto
  from select_ok [OF p(1,2) this] obtain v where
    "ui_menu_select (s + d) u = ((s + d) mod int (length ss), v)" "ui_ok v (spec_do (text_cols u) (UiSelect (s + d)) p)"
    "gShowBackButton v = gShowBackButton u" by blast
  then show ?thesis using p(2,3) by (intro exI [of _ "(s + d) mod int (length ss)"] exI [of _ v]) (auto simp: choosing_def)
qed

lemma choosing_print:
  assumes "choosing u n back s"
  shows "\<exists>v. ui_print m u = Some v \<and> choosing (ui_set_showing_back_button b v) n back s \<and> choosing v n back s"
proof -
  obtain p hs ss where p: "ui_ok u p" "sp_menu p = Some (hs, ss, s)" "length ss = n + of_bool back"
    using assms by (auto simp: choosing_def)
  obtain v where v: "ui_print m u = Some v" "ui_ok v (spec_do (text_cols u) (UiPrint m) p)" using print_ok [OF p(1)] by blast
  have "\<exists>w. ui_do (UiBackButton b) (0, v) = Some (0, w) \<and>
      ui_ok w (spec_do (text_cols v) (UiBackButton b) (spec_do (text_cols u) (UiPrint m) p))"
    using do_ok [OF v(2), of "UiBackButton b" 0] by auto
  then have "ui_ok (ui_set_showing_back_button b v) (spec_do (text_cols v) (UiBackButton b) (spec_do (text_cols u) (UiPrint m) p))"
    by simp
  then show ?thesis using v p(2,3) unfolding choosing_def by (intro exI [of _ v] conjI) (auto intro!: exI)
qed

definition valid_choice :: "nat \<Rightarrow> bool \<Rightarrow> int \<Rightarrow> ui \<Rightarrow> bool" where
  "valid_choice n back c v \<longleftrightarrow>
     c = GO_BACK \<or> (0 \<le> c \<and> c < int n) \<or> (c = int n \<and> back \<and> \<not> gShowBackButton v)"

lemma handle_key_cases:
  "device_handle_key k visible u \<in> {NO_ACTION, HIGHLIGHT_UP, HIGHLIGHT_DOWN, SELECT_ITEM, GO_BACK}"
  by (simp add: device_handle_key_def)

lemmas action_defs = NO_ACTION_def HIGHLIGHT_UP_def HIGHLIGHT_DOWN_def SELECT_ITEM_def GO_BACK_def

lemma menu_round_ok:
  assumes "choosing u n back selected"
  shows "\<exists>c s w v. menu_round menu_only (int n) key visible (selected, wraps) u = Some (c, (s, w), v) \<and> choosing v n back s \<and>
    (0 \<le> c \<or> c = GO_BACK \<longrightarrow> valid_choice n back c v) \<and>
    (device_handle_key key visible u = SELECT_ITEM \<or> device_handle_key key visible u = GO_BACK \<longrightarrow> 0 \<le> c \<or> c = GO_BACK)"
proof -
  let ?a = "device_handle_key key visible u"
  have range: "0 \<le> selected" "selected < int n + of_bool back" using choosing_range [OF assms] by simp_all
  consider "?a = HIGHLIGHT_UP \<or> ?a = HIGHLIGHT_DOWN" | "?a = SELECT_ITEM" | "?a = GO_BACK" | "?a = NO_ACTION"
    using handle_key_cases [of key visible u] by auto
  then show ?thesis
  proof cases
    case 1
    then obtain s v where s: "(if ?a = HIGHLIGHT_UP then ui_menu_select (selected - 1) u
        else if ?a = HIGHLIGHT_DOWN then ui_menu_select (selected + 1) u else (selected, u)) = (s, v)" "choosing v n back s"
      using choosing_select [OF assms, of 1] choosing_select [OF assms, of "-1"] by (auto simp: action_defs)
    obtain x y where x: "ui_print (str ''Back menu button disabled.'' @ [10]) v = Some x" "choosing (ui_set_showing_back_button False x) n back s"
      and y: "ui_print (str ''Back menu button enabled.'' @ [10]) v = Some y" "choosing (ui_set_showing_back_button True y) n back s"
      using choosing_print [OF s(2)] by metis
    from 1 show ?thesis using s x y unfolding menu_round_def by (auto simp: Let_def action_defs)
  next
    case 2
    have "valid_choice n back selected u" if "\<not> (ui_get_showing_back_button u \<and> selected = int n)"
      using that range by (cases "back") (auto simp: valid_choice_def ui_get_showing_back_button_def)
    moreover have "valid_choice n back GO_BACK u" by (simp add: valid_choice_def)
    ultimately show ?thesis using 2 range assms unfolding menu_round_def by (auto simp: Let_def action_defs)
  next
    case 3
    then show ?thesis using assms unfolding menu_round_def by (auto simp: Let_def action_defs valid_choice_def)
  next
    case 4
    then show ?thesis using assms unfolding menu_round_def by (auto simp: Let_def action_defs)
  qed
qed


lemma menu_loop_ok:
  assumes "choosing u n back selected"
  shows "\<exists>r. menu_loop menu_only (int n) keys (selected, wraps) u = Some r \<and>
    (\<forall>c v. r = Some (c, v) \<longrightarrow> valid_choice n back c v \<and> (\<exists>s. choosing v n back s))"
  using assms
proof (induction keys arbitrary: selected wraps u)
  case Nil
  then show ?case by simp
next
  case (Cons kv keys)
  obtain key visible where kv: "kv = (key, visible)" by (cases kv)
  from menu_round_ok [OF Cons.prems] obtain c s w v where
    round: "menu_round menu_only (int n) key visible (selected, wraps) u = Some (c, (s, w), v)" "choosing v n back s"
      "0 \<le> c \<or> c = GO_BACK \<longrightarrow> valid_choice n back c v" by blast
  show ?case using round(2) Cons.IH [OF round(2), of w] round(1,3) by (auto simp: kv)
qed

lemma menu_loop_ends:
  assumes "choosing u n back selected" and "(102, True) \<in> set keys"
  shows "menu_loop menu_only (int n) keys (selected, wraps) u \<noteq> Some None"
  using assms
proof (induction keys arbitrary: selected wraps u)
  case (Cons kv keys)
  obtain key visible where kv: "kv = (key, visible)" by (cases kv)
  from menu_round_ok [OF Cons.prems(1)] obtain c s w v where
    round: "menu_round menu_only (int n) key visible (selected, wraps) u = Some (c, (s, w), v)" "choosing v n back s"
      "device_handle_key key visible u = SELECT_ITEM \<longrightarrow> 0 \<le> c \<or> c = GO_BACK" by metis
  have home: "device_handle_key 102 True u = SELECT_ITEM" by (simp add: device_handle_key_def KEY_DOWN_def KEY_MENU_def KEY_UP_def)
  show ?case
  proof (cases "c < 0 \<and> c \<noteq> GO_BACK")
    case True
    then have "kv \<noteq> (102, True)" using round(3) home by (auto simp: kv)
    then show ?thesis using Cons.IH [OF round(2), of w] Cons.prems(2) round(1) True by (auto simp: kv)
  qed (use round(1) in \<open>auto simp: kv\<close>)
qed simp

section \<open>The choice\<close>

lemma start_choosing:
  assumes "ui_ok u p" and "allowed (UiStartMenu headers items i) u"
  shows "\<exists>v. ui_start_menu headers items i (ui_clear_key_queue u) = Some (int (length items), v) \<and>
    choosing v (length items) (gShowBackButton u) i"
proof -
  have ok: "ui_ok (ui_clear_key_queue u) p" and a: "allowed (UiStartMenu headers items i) (ui_clear_key_queue u)"
    using do_ok [OF assms(1), of UiClearKeys 0] assms(2) by (simp_all add: ui_clear_key_queue_def)
  have b: "sp_back p = gShowBackButton u" using assms(1) by (simp add: ui_ok_def)
  from start_menu_ok [OF ok a] obtain v where
    "ui_start_menu headers items i (ui_clear_key_queue u) = Some (int (length items), v)"
    "ui_ok v (spec_do (text_cols u) (UiStartMenu headers items i) p)" by (auto simp: ui_clear_key_queue_def)
  then show ?thesis using b unfolding choosing_def by (intro exI [of _ v]) (auto intro!: exI)
qed

text \<open>
  C33: \<open>get_menu_selection\<close> never leaves a table, returns at the latest when the select key is
  pressed while the menu is visible, and what it returns is \<open>GO_BACK\<close> or the number of an item, unless the
  back button was shown when the menu came up and has been switched off meanwhile: then it can be the
  number behind the last item.
\<close>

theorem menu_choice_valid:
  assumes "ui_runs (started width height back toggle table) cs (r, u)" and "usual_screen width height"
    and "allowed (UiStartMenu headers items i) u"
  shows "\<exists>choice. get_menu_selection headers items menu_only i keys u = Some choice \<and>
    ((102, True) \<in> set keys \<longrightarrow> choice \<noteq> None) \<and>
    (\<forall>c v. choice = Some (c, v) \<longrightarrow> \<not> show_menu v \<and>
      (c = GO_BACK \<or> (0 \<le> c \<and> c < int (length items)) \<or>
       (c = int (length items) \<and> gShowBackButton u \<and> \<not> gShowBackButton v)))"
proof -
  have ok: "ui_ok u (spec_run (width div CHAR_WIDTH) back cs)" using runs_ok [OF assms(1,2)] by simp
  obtain v where v: "ui_start_menu headers items i (ui_clear_key_queue u) = Some (int (length items), v)"
    "choosing v (length items) (gShowBackButton u) i" using start_choosing [OF ok assms(3)] by blast
  from menu_loop_ok [OF v(2)] obtain r where
    r: "menu_loop menu_only (int (length items)) keys (i, 0) v = Some r"
      "\<And>c w. r = Some (c, w) \<Longrightarrow> valid_choice (length items) (gShowBackButton u) c w \<and>
        (\<exists>s. choosing w (length items) (gShowBackButton u) s)" by blast
  have sel: "get_menu_selection headers items menu_only i keys u =
      Some (map_option (\<lambda>(c, u). (c, ui_clear_key_queue (ui_end_menu u))) r)"
    using v(1) r(1) by (simp add: get_menu_selection_def)
  moreover have "(102, True) \<in> set keys \<longrightarrow> r \<noteq> None" using menu_loop_ends [OF v(2), of keys menu_only 0] r(1) by (cases r) auto
  moreover have "gShowBackButton (ui_clear_key_queue (ui_end_menu w)) = gShowBackButton w" for w
    by (simp add: ui_clear_key_queue_def ui_end_menu_def)
  moreover have "\<not> show_menu (ui_clear_key_queue (ui_end_menu w))" if "r = Some (c, w)" for c w
  proof -
    have "table_ok w" using r(2) [OF that] by (auto simp: choosing_def ui_ok_def)
    then show ?thesis by (simp add: table_ok_def ui_clear_key_queue_def ui_end_menu_def)
  qed
  ultimately show ?thesis using r(2) by (auto simp: valid_choice_def)
qed


theorem menu_choice_valid_witness:
  "\<exists>c v. get_menu_selection [str ''menu''] [str ''a'', str ''b''] True 0 [(108, True), (102, True)]
      (snd (started 480 800 False True 512)) = Some (Some (c, v)) \<and> (c = GO_BACK \<or> (0 \<le> c \<and> c < 2))"
proof -
  let ?u = "snd (started 480 800 False True 512)"
  have size: "usual_screen 480 800" by (simp add: usual_screen_def CHAR_HEIGHT_def CHAR_WIDTH_def MENU_MAX_COLS_def)
  have run: "ui_runs (started 480 800 False True 512) [] (0, ?u)"
    using ui_runs.start [of "started 480 800 False True 512"] by (simp add: started_def)
  have "text_rows ?u = 32" "\<not> gShowBackButton ?u"
    by (simp_all add: started_def ui_init_def ui_statics_def CHAR_HEIGHT_def MAX_ROWS_def)
  moreover from this have "allowed (UiStartMenu [str ''menu''] [str ''a'', str ''b''] 0) ?u"
    by (simp add: str_def MENU_MAX_ROWS_def)
  ultimately show ?thesis
    using menu_choice_valid [OF run size, of "[str ''menu'']" "[str ''a'', str ''b'']" 0 True "[(108, True), (102, True)]"] by fastforce
qed

text \<open>
  The one case: two items and the back button; up, down and up again wrap around three times and
  switch the button off, and the item it had left behind is chosen: number 2 of two.
\<close>

definition small_ui :: ui where
  "small_ui = \<lparr>text_table = replicate 2 (replicate 48 0), text_cols = 40, text_rows = 2, text_col = 0, text_row = 0,
      text_top = 1, show_text = True, menu_table = replicate 3 (replicate 64 0), show_menu = False,
      menu_top = 0, menu_items = 0, menu_sel = 0, menu_show_start = 0, gShowBackButton = True,
      allow_display_toggle = True, key_queue = [], key_pressed = [], gCurrentIcon = 0,
      gProgressBarType = PROGRESSBAR_TYPE_NONE, gProgressScopeStart = 0, gProgressScopeSize = 0, gProgress = 0,
      gProgressScopeTime = 0, gProgressScopeDuration = 0\<rparr>"

lemma stale_back_item_chosen:
  "map_option (map_option fst) (get_menu_selection [] [str ''a'', str ''b''] True 0
     [(103, True), (108, True), (103, True), (102, True)] small_ui) = Some (Some 2)"
  by code_simp

end
