(* ===== verification/Install.thy ===== *)
theory Install
  imports UpdaterReports Verifier MenuChoice
begin

unbundle bit_operations_syntax

text \<open>
  Installing a package: \<open>install.c\<close>, opening an archive (\<open>minzip/Zip.c\<close>), and the program of the
  package that runs the script (\<open>updater/updater.c\<close>).

  An \<open>installer\<close> is the recovery program: the machine, its table of volumes and the user
  interface.  \<open>ran\<close> is a ghost: it lists the update programs that \<open>try_update_binary\<close> has started, with
  their arguments; the shell commands with which \<open>roots.c\<close> mounts a volume are steps of the machine and
  not listed.  \<open>archives\<close> counts the archives that are open.  A \<open>host\<close> adds to the \<open>platform\<close> what this program needs: RSA, the
  arithmetic of \<open>safe_iop\<close>, the program that is started, a clock, and reading numbers with a fraction.
  A program runs to its end before what it has written to the pipe is read.
\<close>

section \<open>The state\<close>

record RSAPublicKey =
  k_len :: int
  k_n0inv :: u32
  k_n :: "u32 list"
  k_rr :: "u32 list"

record installer = machine +
  volumes :: "Volume list"
  the_ui :: ui
  signature_check :: bool
  ran :: "bytes list list"
  archives :: nat

text \<open>\<open>h_child\<close> runs a program: what it writes, and its exit status unless it has been killed.\<close>

record ('h, 's, 'd, 'z) host = "('h, 's, 'd, 'z) platform" +
  h_rsa :: "RSAPublicKey rsa"
  h_numwords :: nat
  h_safe_ptr :: "u32 \<Rightarrow> u32 \<Rightarrow> bool"
  h_safe_long :: "u32 \<Rightarrow> u32 \<Rightarrow> bool"
  h_addr :: u32
  h_reader :: "bytes \<Rightarrow> reader"
  h_pipe :: nat
  h_child :: "bytes list \<Rightarrow> mtd_state world \<Rightarrow> (bytes \<times> int option) \<times> mtd_state world"
  h_time :: "mtd_state world \<Rightarrow> int"
  h_strtof :: "bytes \<Rightarrow> rat"
  h_bar :: nat
  h_icons :: "nat \<times> nat"

definition in_volumes ::
    "((mtd_state world) phone \<Rightarrow> ('a \<times> (mtd_state world) phone) option) \<Rightarrow> installer \<Rightarrow> ('a \<times> installer) option" where
  "in_volumes f r = do {
     (a, s) \<leftarrow> f ((phone_of r)\<lparr>device_volumes := volumes r\<rparr>);
     Some (a, set_phone s r) }"

definition on_ui :: "(ui \<Rightarrow> ui) \<Rightarrow> installer \<Rightarrow> installer" where
  "on_ui f r = r\<lparr>the_ui := f (the_ui r)\<rparr>"

definition say :: "bytes \<Rightarrow> installer \<Rightarrow> installer option" where
  "say s r = do { u \<leftarrow> ui_print s (the_ui r); Some (r\<lparr>the_ui := u\<rparr>) }"

text \<open>Messages on the screen; the texts of \<open>strerror\<close> are left out.\<close>

definition LOGE :: "bytes \<Rightarrow> installer \<Rightarrow> installer option" where
  "LOGE s = say (str ''E:'' @ s)"

section \<open>Archives\<close>

text \<open>A mapping of the whole file.\<close>

definition sysMapFileInShmem :: "env \<Rightarrow> bytes \<Rightarrow> 'm world \<Rightarrow> bytes option \<times> 'm world" where
  "sysMapFileInShmem env content w =
     (if content = [] \<or> \<not> granted env (clock w) then None else Some content, step_clock w)"

datatype zip_error = CannotOpen | Bad

definition mzOpenZipArchive ::
    "('h, 's, 'd, 'z, 'x) host_scheme \<Rightarrow> bytes \<Rightarrow> mtd_state world \<Rightarrow> ((zip_error + ZipArchive) \<times> mtd_state world) option" where
  "mzOpenZipArchive H path w =
     (case sys_open (pl_env H) path w of
        (None, w) \<Rightarrow> Some (Inl CannotOpen, w)
      | (Some f, w) \<Rightarrow>
          (case sysMapFileInShmem (pl_env H) (f_data f) w of
             (None, w) \<Rightarrow> Some (Inl Bad, w)
           | (Some mapping, w) \<Rightarrow>
               if length mapping < ENDHDR then Some (Inl Bad, w)
               else do {
                 r \<leftarrow> parseZipArchive (k_malloc (pl_kernel H)) (h_safe_ptr H) (h_safe_long H) (h_addr H) mapping;
                 case r of
                   Inl err \<Rightarrow> if internal_fault err then None else Some (Inl Bad, w)
                 | Inr za \<Rightarrow> Some (Inr za, w) }))"

definition mzCloseZipArchive :: "installer \<Rightarrow> installer" where
  "mzCloseZipArchive r = r\<lparr>archives := archives r - 1\<rparr>"

section \<open>Results\<close>

definition INSTALL_SUCCESS :: int where "INSTALL_SUCCESS = 0"
definition INSTALL_ERROR :: int where "INSTALL_ERROR = 1"
definition INSTALL_CORRUPT :: int where "INSTALL_CORRUPT = 2"
definition INSTALL_UPDATE_SCRIPT_MISSING :: int where "INSTALL_UPDATE_SCRIPT_MISSING = 3"
definition INSTALL_UPDATE_BINARY_MISSING :: int where "INSTALL_UPDATE_BINARY_MISSING = 4"

definition ASSUMED_UPDATE_BINARY_NAME :: bytes where
  "ASSUMED_UPDATE_BINARY_NAME = str ''META-INF/com/google/android/update-binary''"

definition ASSUMED_UPDATE_SCRIPT_NAME :: bytes where
  "ASSUMED_UPDATE_SCRIPT_NAME = str ''META-INF/com/google/android/update-script''"

definition PUBLIC_KEYS_FILE :: bytes where
  "PUBLIC_KEYS_FILE = str ''/res/keys''"

definition RECOVERY_API_VERSION :: bytes where
  "RECOVERY_API_VERSION = str ''2''"

definition VERIFICATION_PROGRESS_TIME :: int where "VERIFICATION_PROGRESS_TIME = 60"
definition VERIFICATION_PROGRESS_FRACTION :: rat where "VERIFICATION_PROGRESS_FRACTION = 1 / 4"

section \<open>Firmware\<close>

definition in_package :: "bytes \<Rightarrow> bool" where
  "in_package filename \<longleftrightarrow> take 8 filename = str ''PACKAGE:''"

text \<open>Reading the data of the firmware, which are then dropped: whether it succeeded.\<close>

definition read_firmware ::
    "('h, 's, 'd, 'z, 'x) host_scheme \<Rightarrow> bytes \<Rightarrow> ZipArchive \<Rightarrow> ZipEntry option \<Rightarrow> nat \<Rightarrow> installer \<Rightarrow> (int \<times> installer) option" where
  "read_firmware H filename za entry data_size r =
     (case entry of
        Some e \<Rightarrow> do {
          (ok, _) \<leftarrow> mzReadZipEntry (pl_zlib H) (h_reader H (arcMap za)) e (replicate data_size 0) (int data_size);
          if ok then Some (INSTALL_SUCCESS, r)
          else do { r \<leftarrow> LOGE (str ''Failed to read '' @ quoted (drop 8 filename) @ str '' from package'') r; Some (INSTALL_ERROR, r) } }
      | None \<Rightarrow> do {
          (f, r) \<leftarrow> in_world (\<lambda>w. Some (sys_open (pl_env H) filename w)) r;
          case f of
            None \<Rightarrow> do { r \<leftarrow> LOGE (str ''Failed to open '' @ filename @ str '': '' @ [10]) r; Some (INSTALL_ERROR, r) }
          | Some f \<Rightarrow> do {
              (d, r) \<leftarrow> in_world (\<lambda>w. Some (sys_read (pl_env H) (f_data f) 0 data_size w)) r;
              if length d \<noteq> data_size
              then do { r \<leftarrow> LOGE (str ''Failed to read firmware data: '' @ [10]) r; Some (INSTALL_ERROR, r) }
              else Some (INSTALL_SUCCESS, r) } })"

definition handle_firmware_update ::
    "('h, 's, 'd, 'z, 'x) host_scheme \<Rightarrow> bytes \<Rightarrow> bytes \<Rightarrow> ZipArchive \<Rightarrow> installer \<Rightarrow> (int \<times> installer) option" where
  "handle_firmware_update H type filename za r =
     (let load = (\<lambda>entry data_size r.
            if \<not> k_malloc (pl_kernel H) data_size then Some (INSTALL_ERROR, r)
            else read_firmware H filename za entry data_size r) in
      if in_package filename then do {
        entry \<leftarrow> package_entry za (drop 8 filename);
        case entry of
          None \<Rightarrow> do { r \<leftarrow> LOGE (str ''Failed to find '' @ quoted (drop 8 filename) @ str '' in package'') r; Some (INSTALL_ERROR, r) }
        | Some e \<Rightarrow> load (Some e) (unat (uncompLen e)) r }
      else do {
        (f, r) \<leftarrow> in_world (\<lambda>w. Some (sys_stat (pl_env H) filename w)) r;
        case f of
          None \<Rightarrow> do { r \<leftarrow> LOGE (str ''Error stat'' @ [39] @ str ''ing '' @ filename @ str '': '' @ [10]) r; Some (INSTALL_ERROR, r) }
        | Some f \<Rightarrow> load None (unat (of_nat (length (f_data f)) :: u32)) r })"

section \<open>The commands of the update program\<close>

definition DELIMS :: bytes where "DELIMS = [32, 10]"

text \<open>
  One line from the pipe, as \<open>fgets\<close> has put it into the buffer.  A number that is missing makes
  \<open>strtof\<close> or \<open>strtol\<close> read through a null pointer.
\<close>

definition pipe_command ::
    "('h, 's, 'd, 'z, 'x) host_scheme \<Rightarrow> bytes \<Rightarrow> (bytes \<times> bytes) option \<times> installer \<Rightarrow>
     ((bytes \<times> bytes) option \<times> installer) option" where
  "pipe_command H buffer = (\<lambda>(firmware, r).
     let (command, rest) = next_token DELIMS buffer in
     case command of
       None \<Rightarrow> Some (firmware, r)
     | Some c \<Rightarrow>
         if c = str ''progress'' then do {
           let (fraction_s, rest) = next_token DELIMS rest;
           let (seconds_s, rest) = next_token DELIMS rest;
           fraction_s \<leftarrow> fraction_s;
           seconds_s \<leftarrow> seconds_s;
           Some (firmware, on_ui (ui_show_progress (h_strtof H fraction_s * (1 - VERIFICATION_PROGRESS_FRACTION))
                   (fst (strtol10 seconds_s)) (h_time H (m_world r))) r) }
         else if c = str ''set_progress'' then do {
           fraction_s \<leftarrow> fst (next_token DELIMS rest);
           Some (firmware, on_ui (ui_set_progress (h_bar H) (h_strtof H fraction_s)) r) }
         else if c = str ''firmware'' then
           (let (type, rest) = next_token DELIMS rest; (filename, rest) = next_token DELIMS rest in
            case (type, filename) of
              (Some type, Some filename) \<Rightarrow>
                if firmware \<noteq> None
                then do { r \<leftarrow> LOGE (str ''ignoring attempt to do multiple firmware updates'') r; Some (firmware, r) }
                else Some (Some (type, filename), r)
            | _ \<Rightarrow> Some (firmware, r))
         else if c = str ''ui_print'' then do {
           r \<leftarrow> say (case fst (next_token [10] rest) of Some s \<Rightarrow> s | None \<Rightarrow> [10]) r;
           Some (firmware, r) }
         else do { r \<leftarrow> LOGE (str ''unknown command ['' @ c @ str '']'' @ [10]) r; Some (firmware, r) })"

function pipe_loop ::
    "('h, 's, 'd, 'z, 'x) host_scheme \<Rightarrow> bytes \<Rightarrow> (bytes \<times> bytes) option \<times> installer \<Rightarrow>
     ((bytes \<times> bytes) option \<times> installer) option" where
  "pipe_loop H stream s =
     (case fgets 1024 stream of
        None \<Rightarrow> Some s
      | Some (buffer, stream) \<Rightarrow> do { s \<leftarrow> pipe_command H buffer s; pipe_loop H stream s })"
  by pat_completeness auto
termination
  by (relation "measure (\<lambda>(H, stream, s). length stream)") (auto dest: fgets_shrinks fgets_shrinks [OF sym])

declare pipe_loop.simps [simp del]

definition UPDATE_BINARY :: bytes where
  "UPDATE_BINARY = str ''/tmp/update_binary''"

definition extract_binary ::
    "('h, 's, 'd, 'z, 'x) host_scheme \<Rightarrow> ZipArchive \<Rightarrow> ZipEntry \<Rightarrow> installer \<Rightarrow> (bool option \<times> installer) option" where
  "extract_binary H za e = in_world (\<lambda>w.
     let (fd, w) = os_creat (pl_xos H) UPDATE_BINARY (snd (t_unlink (pl_tree H) UPDATE_BINARY w)) in
     if fd < 0 then Some (None, w)
     else do {
       (ok, w) \<leftarrow> mzExtractZipEntryToFile (pl_zlib H) (pl_xos H) (h_reader H (arcMap za)) e fd w;
       Some (Some ok, os_close (pl_xos H) fd w) })"

text \<open>A program has static variables of its own.\<close>

definition run_child ::
    "('h, 's, 'd, 'z, 'x) host_scheme \<Rightarrow> bytes list \<Rightarrow> mtd_state world \<Rightarrow> (bytes \<times> int option) \<times> mtd_state world" where
  "run_child H args w =
     (let m = mtd w;
          (result, v) = h_child H args (w\<lparr>mtd := m\<lparr>partitions := [], partition_count := -1\<rparr>, scanned := False\<rparr>) in
      (result, v\<lparr>mtd := m\<lparr>chip := chip (mtd v)\<rparr>, scanned := scanned w\<rparr>))"

definition try_update_binary ::
    "('h, 's, 'd, 'z, 'x) host_scheme \<Rightarrow> bytes \<Rightarrow> ZipArchive \<Rightarrow> installer \<Rightarrow> (int \<times> installer) option" where
  "try_update_binary H path za r = do {
     entry \<leftarrow> package_entry za ASSUMED_UPDATE_BINARY_NAME;
     case entry of
       None \<Rightarrow> do {
         script_entry \<leftarrow> package_entry za ASSUMED_UPDATE_SCRIPT_NAME;
         if script_entry \<noteq> None then do {
           r \<leftarrow> say (str ''Amend scripting (update-script) is no longer supported.'' @ [10]) r;
           r \<leftarrow> say (str ''Amend scripting was deprecated by Google in Android 1.5.'' @ [10]) r;
           r \<leftarrow> say (str ''It was necessary to remove it when upgrading to the ClockworkMod 3.0 Gingerbread based recovery.'' @ [10]) r;
           r \<leftarrow> say (str ''Please switch to Edify scripting (updater-script and update-binary) to create working update za packages.'' @ [10]) r;
           Some (INSTALL_UPDATE_BINARY_MISSING, r) }
         else Some (INSTALL_UPDATE_BINARY_MISSING, mzCloseZipArchive r) }
     | Some e \<Rightarrow> do {
         (ok, r) \<leftarrow> extract_binary H za e r;
         case ok of
           None \<Rightarrow> do { r \<leftarrow> LOGE (str ''Can'' @ [39] @ str ''t make '' @ UPDATE_BINARY @ [10]) (mzCloseZipArchive r); Some (1, r) }
         | Some False \<Rightarrow> do {
             r \<leftarrow> LOGE (str ''Can'' @ [39] @ str ''t copy '' @ ASSUMED_UPDATE_BINARY_NAME @ [10]) r;
             Some (1, mzCloseZipArchive r) }
         | Some True \<Rightarrow> do {
             let args = [UPDATE_BINARY, RECOVERY_API_VERSION, digits (h_pipe H), path];
             ((output, status), r) \<leftarrow> in_world (\<lambda>w. Some (run_child H args w)) (r\<lparr>ran := ran r @ [args]\<rparr>);
             (firmware, r) \<leftarrow> pipe_loop H output (None, r);
             if status \<noteq> Some 0 then do {
               r \<leftarrow> LOGE (str ''Error in '' @ path @ [10] @ str ''(Status '' @ decimal_string (case status of None \<Rightarrow> 0 | Some s \<Rightarrow> s) @ str '')'' @ [10]) r;
               Some (INSTALL_ERROR, mzCloseZipArchive r) }
             else
               (case firmware of
                  Some (type, filename) \<Rightarrow> do {
                    (ret, r) \<leftarrow> handle_firmware_update H type filename za r;
                    Some (ret, mzCloseZipArchive r) }
                | None \<Rightarrow> Some (INSTALL_SUCCESS, r)) } } }"

section \<open>Keys\<close>

text \<open>
  \<open>fscanf\<close> on what a stream still delivers: blanks in the format, a character, and the conversions
  \<open>%i\<close> and \<open>%u\<close> (\<open>%x\<close> is \<open>scan_x\<close>); numbers that are too large saturate.
\<close>

definition scan_char :: "u8 \<Rightarrow> bytes \<Rightarrow> bytes option" where
  "scan_char c s = (case s of d # s \<Rightarrow> if d = c then Some s else None | [] \<Rightarrow> None)"

definition scan_i :: "bytes \<Rightarrow> (int \<times> bytes) option" where
  "scan_i s = do {
     let (sign, t) = scan_sign (scan_blanks s);
     let hex = (length t > 2 \<and> hd t = 48 \<and> (t ! 1 = 120 \<or> t ! 1 = 88) \<and> hexadecimal_digit (t ! 2) \<noteq> None);
     (v, t) \<leftarrow> (if hex then scan_number 16 hexadecimal_digit (drop 2 t)
                else if t \<noteq> [] \<and> hd t = 48 then scan_number 8 octal_digit t
                else scan_number 10 decimal_digit t);
     Some (max (- (2 ^ 31)) (min (2 ^ 31 - 1) (sign * v)), t) }"

definition scan_u :: "bytes \<Rightarrow> (u32 \<times> bytes) option" where
  "scan_u s = do {
     let (sign, t) = scan_sign (scan_blanks s);
     (v, t) \<leftarrow> scan_number 10 decimal_digit t;
     Some (if v > ULONG_MAX then of_int ULONG_MAX else of_int (sign * v), t) }"

text \<open>A blank in the format, a character, another blank.\<close>

definition scan_mark :: "u8 \<Rightarrow> bytes \<Rightarrow> bytes option" where
  "scan_mark c s = map_option scan_blanks (scan_char c (scan_blanks s))"

abbreviation OPEN :: u8 where "OPEN \<equiv> 123"
abbreviation CLOSE :: u8 where "CLOSE \<equiv> 125"
abbreviation COMMA :: u8 where "COMMA \<equiv> 44"

text \<open>The numbers of an array behind the first one.\<close>

fun scan_words :: "nat \<Rightarrow> bytes \<Rightarrow> (u32 list \<times> bytes) option" where
  "scan_words 0 s = Some ([], s)"
| "scan_words (Suc n) s = do {
     s \<leftarrow> scan_mark COMMA s;
     (v, s) \<leftarrow> scan_u s;
     (vs, s) \<leftarrow> scan_words n s;
     Some (v # vs, s) }"

text \<open>The format of the end of a key, the result of which is ignored.\<close>

definition scan_end :: "bytes \<Rightarrow> bytes" where
  "scan_end s =
     (case scan_mark CLOSE s of
        None \<Rightarrow> scan_blanks s
      | Some s \<Rightarrow> (case scan_mark CLOSE s of None \<Rightarrow> scan_blanks s | Some s \<Rightarrow> s))"

text \<open>A key, or the length that does not match; \<open>None\<close> when the file ends or something else is there.\<close>

definition scan_key :: "nat \<Rightarrow> bytes \<Rightarrow> ((int + RSAPublicKey) \<times> bytes) option" where
  "scan_key numwords s = do {
     s \<leftarrow> scan_mark OPEN s;
     (len, s) \<leftarrow> scan_i s;
     s \<leftarrow> scan_mark COMMA s;
     s \<leftarrow> scan_literal ''0x'' s;
     (n0inv, s) \<leftarrow> scan_x s;
     s \<leftarrow> scan_mark COMMA s;
     s \<leftarrow> scan_mark OPEN s;
     (n0, s) \<leftarrow> scan_u s;
     if len \<noteq> int numwords then Some (Inl len, s)
     else do {
       (n, s) \<leftarrow> scan_words (nat len - 1) s;
       s \<leftarrow> scan_mark CLOSE s;
       s \<leftarrow> scan_mark COMMA s;
       s \<leftarrow> scan_mark OPEN s;
       (rr0, s) \<leftarrow> scan_u s;
       (rr, s) \<leftarrow> scan_words (nat len - 1) s;
       Some (Inr \<lparr>k_len = len, k_n0inv = n0inv, k_n = n0 # n, k_rr = rr0 # rr\<rparr>, scan_end s) } }"

lemma number_value_le: "number_value base digit v s = (w, rest) \<Longrightarrow> length rest \<le> length s"
proof (induction s arbitrary: v)
  case (Cons c s)
  show ?case
  proof (cases "digit c")
    case (Some d)
    then show ?thesis using Cons.IH [of "v * base + d"] Cons.prems by simp
  qed (use Cons.prems in auto)
qed simp

lemma scan_number_le: "scan_number base digit s = Some (w, rest) \<Longrightarrow> length rest \<le> length s"
  by (auto simp: scan_number_def split: list.splits if_splits dest!: number_value_le)

lemma scan_blanks_le: "length (scan_blanks s) \<le> length s"
  by (simp add: scan_blanks_def length_dropWhile_le)

lemma scan_sign_le: "scan_sign s = (sign, t) \<Longrightarrow> length t \<le> length s"
  by (auto simp: scan_sign_def split: list.splits if_splits)

lemma scan_mark_less: "scan_mark c s = Some t \<Longrightarrow> length t < length s"
proof -
  assume "scan_mark c s = Some t"
  then obtain d u where d: "scan_blanks s = d # u" "t = scan_blanks u"
    by (auto simp: scan_mark_def scan_char_def split: list.splits if_splits)
  then show ?thesis using scan_blanks_le [of u] scan_blanks_le [of s] by simp
qed

lemma scan_signed_le: "scan_sign (scan_blanks s) = (sign, t) \<Longrightarrow> length t \<le> length s"
  using scan_sign_le [of "scan_blanks s" sign t] scan_blanks_le [of s] by simp

lemma scan_i_le: "scan_i s = Some (v, rest) \<Longrightarrow> length rest \<le> length s"
  by (auto simp: scan_i_def Let_def bind_eq_Some_conv split: prod.splits if_splits dest!: scan_number_le scan_signed_le)

lemma scan_u_le: "scan_u s = Some (v, rest) \<Longrightarrow> length rest \<le> length s"
  by (auto simp: scan_u_def Let_def bind_eq_Some_conv split: prod.splits if_splits dest!: scan_number_le scan_signed_le)

lemma scan_x_le: "scan_x s = Some (v, rest) \<Longrightarrow> length rest \<le> length s"
  by (auto simp: scan_x_def Let_def bind_eq_Some_conv split: prod.splits if_splits dest!: scan_number_le scan_signed_le)

lemma scan_literal_le: "scan_literal l s = Some rest \<Longrightarrow> length rest \<le> length s"
  by (auto simp: scan_literal_def split: if_splits)

lemma scan_words_le: "scan_words n s = Some (vs, rest) \<Longrightarrow> length rest \<le> length s"
proof (induction n arbitrary: s vs)
  case (Suc n)
  then obtain t v u us where "scan_mark COMMA s = Some t" "scan_u t = Some (v, u)" "scan_words n u = Some (us, rest)"
    by (auto simp: bind_eq_Some_conv)
  then show ?case using Suc.IH [of u us] scan_mark_less [of COMMA s t] scan_u_le [of t v u] by simp
qed simp

lemma scan_end_le: "length (scan_end s) \<le> length s"
  by (auto simp: scan_end_def scan_blanks_le split: option.splits dest!: scan_mark_less intro: order.trans [OF scan_blanks_le])

lemma scan_key_shrinks: "scan_key numwords s = Some (key, rest) \<Longrightarrow> length rest < length s"
  by (auto simp: scan_key_def bind_eq_Some_conv split: if_splits
      dest!: scan_mark_less scan_i_le scan_u_le scan_x_le scan_literal_le scan_words_le)
    (rule le_less_trans [OF scan_end_le], linarith)

definition key_size :: "nat \<Rightarrow> nat" where
  "key_size numwords = 8 + 8 * numwords"

datatype key_error = Unreadable | WrongLength int | UnexpectedCharacter

text \<open>
  The loop over the keys of a file; \<open>numKeys\<close> have been read.  A failed \<open>realloc\<close> is not noticed
  and the key is written through a null pointer: undefined.
\<close>

function load_loop :: "(nat \<Rightarrow> bool) \<Rightarrow> nat \<Rightarrow> nat \<Rightarrow> bytes \<Rightarrow> (key_error + RSAPublicKey list) option" where
  "load_loop realloc numwords numKeys s =
     (if \<not> realloc ((numKeys + 1) * key_size numwords) then None
      else
        (case scan_key numwords s of
           None \<Rightarrow> Some (Inl Unreadable)
         | Some (Inl len, _) \<Rightarrow> Some (Inl (WrongLength len))
         | Some (Inr key, []) \<Rightarrow> Some (Inr [key])
         | Some (Inr key, c # rest) \<Rightarrow>
             if c = COMMA then map_option (map_sum id ((#) key)) (load_loop realloc numwords (numKeys + 1) rest)
             else Some (Inl UnexpectedCharacter)))"
  by pat_completeness auto
termination
  by (relation "measure (\<lambda>(realloc, numwords, numKeys, s). length s)") (auto dest: scan_key_shrinks)

declare load_loop.simps [simp del]

text \<open>The keys of a file, or \<open>None\<close>.\<close>

definition load_keys ::
    "('h, 's, 'd, 'z, 'x) host_scheme \<Rightarrow> bytes \<Rightarrow> installer \<Rightarrow> (RSAPublicKey list option \<times> installer) option" where
  "load_keys H filename r = do {
     (f, r) \<leftarrow> in_world (\<lambda>w. Some (sys_open (pl_env H) filename w)) r;
     case f of
       None \<Rightarrow> do { r \<leftarrow> LOGE (str ''opening '' @ filename @ str '': '' @ [10]) r; Some (None, r) }
     | Some f \<Rightarrow> do {
         (content, r) \<leftarrow> in_world (\<lambda>w. Some (sys_read (pl_env H) (f_data f) 0 (length (f_data f)) w)) r;
         keys \<leftarrow> load_loop (k_malloc (pl_kernel H)) (h_numwords H) 0 content;
         case keys of
           Inr keys \<Rightarrow> Some (Some keys, r)
         | Inl Unreadable \<Rightarrow> Some (None, r)
         | Inl (WrongLength len) \<Rightarrow> do {
             r \<leftarrow> LOGE (str ''key length ('' @ decimal_string len @ str '') does not match expected size'' @ [10]) r;
             Some (None, r) }
         | Inl UnexpectedCharacter \<Rightarrow> do {
             r \<leftarrow> LOGE (str ''unexpected character between keys'' @ [10]) r;
             Some (None, r) } } }"

section \<open>Installing\<close>

text \<open>Whether the package may be installed.\<close>

definition verify_package ::
    "('h, 's, 'd, 'z, 'x) host_scheme \<Rightarrow> bytes \<Rightarrow> installer \<Rightarrow> (bool \<times> installer) option" where
  "verify_package H path r =
     (if \<not> signature_check r then Some (True, r)
      else do {
        (loadedKeys, r) \<leftarrow> load_keys H PUBLIC_KEYS_FILE r;
        case loadedKeys of
          None \<Rightarrow> do { r \<leftarrow> LOGE (str ''Failed to load keys'' @ [10]) r; Some (False, r) }
        | Some keys \<Rightarrow> do {
            r \<leftarrow> say (str ''Verifying update package...'' @ [10]) r;
            let r = on_ui (ui_show_progress VERIFICATION_PROGRESS_FRACTION VERIFICATION_PROGRESS_TIME (h_time H (m_world r))) r;
            (err, r) \<leftarrow> in_world (verify_file (k_malloc (pl_kernel H)) (pl_sha H) (h_rsa H) (pl_env H) path keys) r;
            if err \<noteq> VERIFY_SUCCESS
            then do { r \<leftarrow> LOGE (str ''signature verification failed'' @ [10]) r; Some (False, r) }
            else Some (True, r) } })"

definition install_opened ::
    "('h, 's, 'd, 'z, 'x) host_scheme \<Rightarrow> bytes \<Rightarrow> installer \<Rightarrow> (int \<times> installer) option" where
  "install_opened H path r = do {
     (za, r) \<leftarrow> in_world (mzOpenZipArchive H path) r;
     case za of
       Inl err \<Rightarrow> do {
         r \<leftarrow> LOGE (str ''Can'' @ [39] @ str ''t open '' @ path @ [10] @ str ''('' @ (if err = Bad then str ''bad'' else []) @ str '')'' @ [10]) r;
         Some (INSTALL_CORRUPT, r) }
     | Inr za \<Rightarrow> do {
         r \<leftarrow> say (str ''Installing update...'' @ [10]) (r\<lparr>archives := archives r + 1\<rparr>);
         try_update_binary H path za r } }"

definition install_package ::
    "('h, 's, 'd, 'z, 'x) host_scheme \<Rightarrow> bytes \<Rightarrow> installer \<Rightarrow> (int \<times> installer) option" where
  "install_package H path r = do {
     let r = on_ui (ui_set_background (fst (h_icons H))) r;
     r \<leftarrow> say (str ''Finding update package...'' @ [10]) r;
     let r = on_ui ui_show_indeterminate_progress r;
     (mounted, r) \<leftarrow> in_volumes (ensure_path_mounted (pl_kernel H) path) r;
     if mounted \<noteq> 0 then do { r \<leftarrow> LOGE (str ''Can'' @ [39] @ str ''t mount '' @ path @ [10]) r; Some (INSTALL_CORRUPT, r) }
     else do {
       r \<leftarrow> say (str ''Opening update package...'' @ [10]) r;
       (verified, r) \<leftarrow> verify_package H path r;
       if \<not> verified then Some (INSTALL_CORRUPT, r) else install_opened H path r } }"

section \<open>The update program\<close>

definition SCRIPT_NAME :: bytes where
  "SCRIPT_NAME = str ''META-INF/com/google/android/updater-script''"

text \<open>
  \<open>parser\<close> is the parser that bison makes of the grammar, on the functions that have been registered;
  \<open>extensions\<close> registers those of the device.  The result is what has been written to the pipe, and the
  exit status.
\<close>

definition read_script ::
    "('h, 's, 'd, 'z, 'x) host_scheme \<Rightarrow> ZipArchive \<Rightarrow> ZipEntry \<Rightarrow> bytes option option" where
  "read_script H za e = do {
     let script = replicate (unat (uncompLen e + 1)) 0;
     if \<not> k_malloc (pl_kernel H) (length script) then None
     else do {
       (ok, script) \<leftarrow> mzReadZipEntry (pl_zlib H) (h_reader H (arcMap za)) e script (int (unat (uncompLen e)));
       if \<not> ok then Some None
       else do { script \<leftarrow> wr_slice script (unat (uncompLen e)) [0]; Some (Some (cstring script)) } } }"

definition new_updater :: "mtd_state world \<Rightarrow> ZipArchive \<Rightarrow> bytes \<Rightarrow> updater" where
  "new_updater w za version =
     \<lparr>m_world = w, m_mmc = \<lparr>mmc_partitions = [], mmc_count = -1\<rparr>, m_mounts = [], m_mount_count = 0, m_flash_type = UNKNOWN,
      cmd_pipe = [], package_zip = za, api_version = fst (strtol10 version)\<rparr>"

definition updater_functions ::
    "('h, 's, 'd, 'z, 'x) host_scheme \<Rightarrow> (updater fn_table \<Rightarrow> updater fn_table) \<Rightarrow> ZipArchive \<Rightarrow> updater fn_table" where
  "updater_functions H extensions za =
     FinishRegistration (extensions (RegisterInstallFunctions ((platform.truncate H)\<lparr>pl_reader := h_reader H (arcMap za)\<rparr>)
       (RegisterBuiltins [])))"

definition run_script :: "updater Expr \<Rightarrow> updater State \<Rightarrow> (int \<times> updater State) option" where
  "run_script expr st = do {
     (result, st) \<leftarrow> Evaluate (eval_expr expr) st;
     case result of
       None \<Rightarrow> Some (7, to_pipe (case errmsg st of
                  None \<Rightarrow> str ''ui_print script aborted (no error message)'' @ [10]
                | Some msg \<Rightarrow> ui_lines msg @ str ''ui_print'' @ [10]) st)
     | Some result \<Rightarrow> Some (0, st) }"

definition updater_main ::
    "('h, 's, 'd, 'z, 'x) host_scheme \<Rightarrow> (bytes \<Rightarrow> (bytes \<Rightarrow> updater Function option) \<Rightarrow> updater Expr option) \<Rightarrow>
     (updater fn_table \<Rightarrow> updater fn_table) \<Rightarrow> bytes list \<Rightarrow> mtd_state world \<Rightarrow> ((bytes \<times> int) \<times> mtd_state world) option" where
  "updater_main H parser extensions argv w =
     (if length argv \<noteq> 4 then Some (([], 1), w)
      else if argv ! 1 \<notin> {str ''1'', str ''2'', str ''3''} then Some (([], 2), w)
      else do {
        (za, w) \<leftarrow> mzOpenZipArchive H (argv ! 3) w;
        case za of
          Inl _ \<Rightarrow> Some (([], 3), w)
        | Inr za \<Rightarrow> do {
            script_entry \<leftarrow> package_entry za SCRIPT_NAME;
            case script_entry of
              None \<Rightarrow> Some (([], 4), w)
            | Some e \<Rightarrow> do {
                contents \<leftarrow> read_script H za e;
                case contents of
                  None \<Rightarrow> Some (([], 5), w)
                | Some contents \<Rightarrow>
                    (case parser contents (FindFunction (updater_functions H extensions za)) of
                       None \<Rightarrow> Some (([], 6), w)
                     | Some expr \<Rightarrow> do {
                         (code, st) \<leftarrow> run_script expr
                           \<lparr>cookie = new_updater w za (argv ! 1), script = contents, errmsg = None, stdout = [], sleeps = []\<rparr>;
                         Some ((cmd_pipe (cookie st), code), m_world (cookie st)) }) } } })"

end
