(* ===== verification/InstallSafety.thy ===== *)
theory InstallSafety
  imports Install
begin

text \<open>
  Nothing of a package runs before its signature has been accepted (\<open>install.c\<close>): what the steps of
  \<open>install_package\<close> leave alone, and where the one program that is run comes from.
\<close>

section \<open>What stays the same\<close>

text \<open>Messages and the progress bar leave everything but the user interface alone.\<close>

definition same_but_ui :: "installer \<Rightarrow> installer \<Rightarrow> bool" where
  "same_but_ui r s \<longleftrightarrow> s = r\<lparr>the_ui := the_ui s\<rparr>"

lemma same_but_ui_refl [simp]: "same_but_ui r r"
  by (simp add: same_but_ui_def)

lemma same_but_ui_fields:
  "same_but_ui r s \<Longrightarrow> m_world s = m_world r \<and> ran s = ran r \<and> signature_check s = signature_check r"
proof -
  define u where "u = the_ui s"
  assume "same_but_ui r s"
  then have "s = r\<lparr>the_ui := u\<rparr>" by (simp add: same_but_ui_def u_def)
  then show ?thesis by simp
qed

lemma say_same: "say s r = Some r' \<Longrightarrow> same_but_ui r r'"
  by (auto simp: say_def bind_eq_Some_conv same_but_ui_def)

lemma LOGE_same: "LOGE s r = Some r' \<Longrightarrow> same_but_ui r r'"
  unfolding LOGE_def by (rule say_same)

lemma on_ui_same: "same_but_ui r (on_ui f r)"
  by (simp add: on_ui_def same_but_ui_def)


text \<open>Reading leaves the files alone.\<close>

lemma reads_keep [simp]:
  "fs (snd (sys_stat env p w)) = fs w" "fs (snd (sys_open env p w)) = fs w" "fs (snd (sys_read env c i n w)) = fs w"
  "fs (step_clock w) = fs w"
  by (simp_all add: sys_stat_def sys_open_def sys_read_def step_clock_def)

lemma hash_loop_keeps: "fs (snd (hash_loop sha env content a n ctx w)) = fs w"
proof (induction sha env content a n ctx w rule: hash_loop.induct)
  case (1 sha env content a n ctx w)
  show ?case
  proof (cases "a < n")
    case True
    define k where "k = (if n - a < BUFFER_SIZE then n - a else BUFFER_SIZE)"
    obtain b v where r: "sys_read env content a k w = (b, v)" by fastforce
    then have "fs v = fs w" using reads_keep(3) [of env content a k w] by simp
    then show ?thesis using 1 [of k "(b, v)" b v] True r by (subst hash_loop.simps) (simp add: Let_def k_def)
  qed (simp add: hash_loop.simps)
qed

lemma verify_content_keeps: "verify_content malloc sha rsa env keys c w = Some (x, v) \<Longrightarrow> fs v = fs w"
proof -
  have h: "hash_loop sha env c a n ctx u = (y, v) \<Longrightarrow> fs v = fs u" for a n ctx u y v
    using hash_loop_keeps [of sha env c a n ctx u] by simp
  have r: "sys_read env c i n u = (b, v) \<Longrightarrow> fs v = fs u" for i n u b v
    using reads_keep(3) [of env c i n u] by simp
  show "verify_content malloc sha rsa env keys c w = Some (x, v) \<Longrightarrow> fs v = fs w"
    unfolding verify_content_def Let_def
    by (auto split: option.splits prod.splits if_splits dest!: h r)
qed

lemma verify_file_keeps: "verify_file malloc sha rsa env path keys w = Some (x, v) \<Longrightarrow> fs v = fs w"
proof -
  obtain f u where u: "sys_open env path w = (f, u)" by fastforce
  then have "fs u = fs w" using reads_keep(2) [of env path w] by simp
  moreover assume "verify_file malloc sha rsa env path keys w = Some (x, v)"
  ultimately show ?thesis using u by (auto simp: verify_file_def split: option.splits dest!: verify_content_keeps)
qed

lemma in_world_Some: "in_world f r = Some (a, r') \<longleftrightarrow> (\<exists>w. f (m_world r) = Some (a, w) \<and> r' = r\<lparr>m_world := w\<rparr>)"
  by (auto simp: in_world_def bind_eq_Some_conv)

text \<open>The state of the file system, of the programs that have been run, and of the check.\<close>

definition quiet_step :: "installer \<Rightarrow> installer \<Rightarrow> bool" where
  "quiet_step r s \<longleftrightarrow> fs (m_world s) = fs (m_world r) \<and> ran s = ran r \<and> signature_check s = signature_check r"

lemma quiet_refl [simp]: "quiet_step r r"
  by (simp add: quiet_step_def)

lemma quiet_trans: "quiet_step r s \<Longrightarrow> quiet_step s t \<Longrightarrow> quiet_step r t"
  by (simp add: quiet_step_def)

lemma quiet_say: "say m r = Some s \<Longrightarrow> quiet_step r s" "LOGE m r = Some s \<Longrightarrow> quiet_step r s" "quiet_step r (on_ui f r)"
  using same_but_ui_fields [OF say_same] same_but_ui_fields [OF LOGE_same] same_but_ui_fields [OF on_ui_same]
  by (simp_all add: quiet_step_def)

lemma quiet_world: "fs w = fs (m_world r) \<Longrightarrow> quiet_step r (r\<lparr>m_world := w\<rparr>)"
  by (simp add: quiet_step_def)

definition keys_of :: "('h, 's, 'd, 'z, 'x) host_scheme \<Rightarrow> bytes \<Rightarrow> RSAPublicKey list \<Rightarrow> bool" where
  "keys_of H c keys \<longleftrightarrow> (\<exists>n. load_loop (k_malloc (pl_kernel H)) (h_numwords H) 0 (take n c) = Some (Inr keys))"

lemma load_keys_facts:
  assumes "load_keys H name r = Some (keys, s)"
  shows "quiet_step r s" "keys = Some ks \<Longrightarrow> \<exists>f. fs (m_world r) name = Some f \<and> keys_of H (f_data f) ks"
proof -
  obtain f w where o: "sys_open (pl_env H) name (m_world r) = (f, w)" by fastforce
  have w: "fs w = fs (m_world r)" using reads_keep(2) [of "pl_env H" name "m_world r"] o by simp
  have q: "quiet_step r (r\<lparr>m_world := w\<rparr>)" by (rule quiet_world [OF w])
  have "quiet_step r s \<and> (keys = Some ks \<longrightarrow> (\<exists>f. fs (m_world r) name = Some f \<and> keys_of H (f_data f) ks))"
  proof (cases f)
    case None
    then have "keys = None" "quiet_step (r\<lparr>m_world := w\<rparr>) s"
      using assms o quiet_say(2) by (auto simp: load_keys_def in_world_def bind_eq_Some_conv)
    then show ?thesis using quiet_trans [OF q] by simp
  next
    case (Some i)
    have i: "fs (m_world r) name = Some i" using o Some by (auto simp: sys_open_def sys_stat_def split: if_splits)
    obtain c v where c: "sys_read (pl_env H) (f_data i) 0 (length (f_data i)) w = (c, v)" by fastforce
    then have v: "fs v = fs w" "\<exists>n. c = take n (f_data i)"
      using reads_keep(3) [of "pl_env H" "f_data i" 0 "length (f_data i)" w] by (auto simp: sys_read_def)
    have q2: "quiet_step r (r\<lparr>m_world := v\<rparr>)" using v(1) w by (intro quiet_world) simp
    obtain k where k: "load_loop (k_malloc (pl_kernel H)) (h_numwords H) 0 c = Some k"
      using assms o Some c by (auto simp: load_keys_def in_world_def bind_eq_Some_conv)
    show ?thesis
    proof (cases k)
      case (Inr ks')
      then have "keys = Some ks'" "s = r\<lparr>m_world := v\<rparr>" using assms o Some c k by (auto simp: load_keys_def in_world_def)
      then show ?thesis using q2 i v(2) k Inr by (auto simp: keys_of_def)
    next
      case (Inl e)
      then have "keys = None" "quiet_step (r\<lparr>m_world := v\<rparr>) s"
        using assms o Some c k quiet_say(2)
        by (auto simp: load_keys_def in_world_def bind_eq_Some_conv split: key_error.splits)
      then show ?thesis using quiet_trans [OF q2] by simp
    qed
  qed
  then show "quiet_step r s" "keys = Some ks \<Longrightarrow> \<exists>f. fs (m_world r) name = Some f \<and> keys_of H (f_data f) ks" by blast+
qed

section \<open>Verified before anything is run\<close>

definition accepted :: "('h, 's, 'd, 'z, 'x) host_scheme \<Rightarrow> bytes \<Rightarrow> files \<Rightarrow> bool" where
  "accepted H path fs0 \<longleftrightarrow> (\<exists>f kf keys. fs0 path = Some f \<and> fs0 PUBLIC_KEYS_FILE = Some kf \<and> keys_of H (f_data kf) keys \<and>
     well_ended (h_rsa H) (f_data f) \<and> signed (pl_sha H) (h_rsa H) keys (f_data f))"

lemma verify_package_sound:
  assumes "verify_package H path r = Some (True, s)" and "incremental (pl_sha H)"
  shows "quiet_step r s" "signature_check r \<Longrightarrow> accepted H path (fs (m_world r))"
proof -
  have "quiet_step r s \<and> (signature_check r \<longrightarrow> accepted H path (fs (m_world r)))"
  proof (cases "signature_check r")
    case False
    then show ?thesis using assms(1) by (simp add: verify_package_def)
  next
    case True
    then obtain keys r1 r2 w where k: "load_keys H PUBLIC_KEYS_FILE r = Some (Some keys, r1)"
      and r2: "say (str ''Verifying update package...'' @ [10]) r1 = Some r2"
      and v: "verify_file (k_malloc (pl_kernel H)) (pl_sha H) (h_rsa H) (pl_env H) path keys (m_world r2) = Some (VERIFY_SUCCESS, w)"
      and s: "s = (on_ui (ui_show_progress VERIFICATION_PROGRESS_FRACTION VERIFICATION_PROGRESS_TIME (h_time H (m_world r2))) r2)\<lparr>m_world := w\<rparr>"
      using assms(1) by (auto simp: verify_package_def in_world_Some bind_eq_Some_conv on_ui_def split: option.splits if_splits)
    obtain kf where kf: "fs (m_world r) PUBLIC_KEYS_FILE = Some kf" "keys_of H (f_data kf) keys"
      using load_keys_facts(2) [OF k] by blast
    have q: "quiet_step r r2" using load_keys_facts(1) [OF k] quiet_say(1) [OF r2] quiet_trans by blast
    have w: "fs w = fs (m_world r2)" by (rule verify_file_keeps [OF v])
    then have "quiet_step r2 s" unfolding s by (simp add: quiet_step_def on_ui_def)
    moreover obtain f where "fs (m_world r2) path = Some f" "well_ended (h_rsa H) (f_data f)" "signed (pl_sha H) (h_rsa H) keys (f_data f)"
      using verified_sound [OF v assms(2)] by blast
    ultimately show ?thesis using q kf quiet_trans [OF q] by (auto simp: accepted_def quiet_step_def)
  qed
  then show "quiet_step r s" "signature_check r \<Longrightarrow> accepted H path (fs (m_world r))" by blast+
qed


abbreviation parse_package :: "('h, 's, 'd, 'z, 'x) host_scheme \<Rightarrow> bytes \<Rightarrow> (zip_bail + ZipArchive) option" where
  "parse_package H c \<equiv> parseZipArchive (k_malloc (pl_kernel H)) (h_safe_ptr H) (h_safe_long H) (h_addr H) c"

lemma opened_archive:
  assumes "mzOpenZipArchive H path w = Some (za, v)"
  shows "fs v = fs w" "za = Inr a \<Longrightarrow> \<exists>f. fs w path = Some f \<and> parse_package H (f_data f) = Some (Inr a)"
proof -
  obtain f u where o: "sys_open (pl_env H) path w = (f, u)" by fastforce
  have u: "fs u = fs w" using reads_keep(2) [of "pl_env H" path w] o by simp
  have "fs v = fs w \<and> (za = Inr a \<longrightarrow> (\<exists>f. fs w path = Some f \<and> parse_package H (f_data f) = Some (Inr a)))"
  proof (cases f)
    case None
    then show ?thesis using assms o u by (auto simp: mzOpenZipArchive_def)
  next
    case (Some i)
    have "fs w path = Some i" using o Some by (auto simp: sys_open_def sys_stat_def split: if_splits)
    moreover obtain p where "parse_package H (f_data i) = Some p \<or> za = Inl Bad \<and> fs v = fs u"
      using assms o Some by (auto simp: mzOpenZipArchive_def sysMapFileInShmem_def bind_eq_Some_conv split: if_splits)
    ultimately show ?thesis using assms o u Some
      by (cases p) (auto simp: mzOpenZipArchive_def sysMapFileInShmem_def split: if_splits)
  qed
  then show "fs v = fs w" "za = Inr a \<Longrightarrow> \<exists>f. fs w path = Some f \<and> parse_package H (f_data f) = Some (Inr a)" by blast+
qed

text \<open>Nothing but \<open>try_update_binary\<close> runs a program.\<close>

lemma ran_simps [simp]: "ran (on_ui f r) = ran r" "ran (mzCloseZipArchive r) = ran r" "ran (r\<lparr>m_world := w\<rparr>) = ran r"
  by (simp_all add: on_ui_def mzCloseZipArchive_def)

lemma ran_say: "say m r = Some s \<Longrightarrow> ran s = ran r" "LOGE m r = Some s \<Longrightarrow> ran s = ran r"
  using same_but_ui_fields [OF say_same] same_but_ui_fields [OF LOGE_same] by simp_all

lemma ran_in_world: "in_world f r = Some (a, s) \<Longrightarrow> ran s = ran r"
  by (auto simp: in_world_Some)

lemma ran_read_firmware: "read_firmware H n za e k r = Some (x, s) \<Longrightarrow> ran s = ran r"
  by (auto simp: read_firmware_def bind_eq_Some_conv split: option.splits if_splits dest!: ran_say ran_in_world)

lemma ran_firmware: "handle_firmware_update H t n za r = Some (x, s) \<Longrightarrow> ran s = ran r"
  by (auto simp: handle_firmware_update_def Let_def bind_eq_Some_conv split: option.splits if_splits
      dest!: ran_say ran_in_world ran_read_firmware)

lemma ran_pipe_command: "pipe_command H b (fw, r) = Some (fw', s) \<Longrightarrow> ran s = ran r"
  by (auto simp: pipe_command_def Let_def bind_eq_Some_conv split: prod.splits option.splits if_splits dest!: ran_say)

lemma pipe_loop_cases:
  assumes "pipe_loop H out s = Some t"
  obtains "fgets 1024 out = None" "t = s"
  | b rest u where "fgets 1024 out = Some (b, rest)" "pipe_command H b s = Some u" "pipe_loop H rest u = Some t"
proof (cases "fgets 1024 out")
  case None
  then show ?thesis using assms that(1) by (simp add: pipe_loop.simps)
next
  case (Some p)
  obtain b rest where p: "p = (b, rest)" by (cases p)
  have "pipe_command H b s \<bind> (\<lambda>u. pipe_loop H rest u) = Some t"
    using assms Some unfolding p by (subst (asm) pipe_loop.simps) simp
  then show ?thesis using that(2) [of b rest] Some unfolding p bind_eq_Some_conv by blast
qed

lemma ran_pipe_loop: "pipe_loop H out (fw, r) = Some (fw', s) \<Longrightarrow> ran s = ran r"
proof (induction "length out" arbitrary: out fw r rule: less_induct)
  case less
  from less.prems show ?case
  proof (cases rule: pipe_loop_cases)
    case (2 b rest u)
    obtain fw1 r1 where u: "u = (fw1, r1)" by (cases u)
    have "length rest < length out" using fgets_shrinks [OF 2(1)] by simp
    then show ?thesis using less.hyps [OF _ 2(3) [unfolded u]] ran_pipe_command [OF 2(2) [unfolded u]] by simp
  qed simp
qed

definition program_args :: "('h, 's, 'd, 'z, 'x) host_scheme \<Rightarrow> bytes \<Rightarrow> bytes list" where
  "program_args H path = [UPDATE_BINARY, RECOVERY_API_VERSION, digits (h_pipe H), path]"

lemma try_update_binary_runs:
  assumes "try_update_binary H path za r = Some (code, s)" and "ran s \<noteq> ran r"
  shows "\<exists>e r1. package_entry za ASSUMED_UPDATE_BINARY_NAME = Some (Some e) \<and> extract_binary H za e r = Some (Some True, r1) \<and>
    ran s = ran r @ [program_args H path]"
proof -
  obtain e where e: "package_entry za ASSUMED_UPDATE_BINARY_NAME = Some (Some e)"
    using assms by (auto simp: try_update_binary_def bind_eq_Some_conv split: option.splits if_splits dest!: ran_say)
  obtain ok r1 where x: "extract_binary H za e r = Some (ok, r1)" "ran r1 = ran r"
    using assms(1) e by (auto simp: try_update_binary_def bind_eq_Some_conv extract_binary_def in_world_Some)
  then have ok: "ok = Some True"
    using assms e by (auto simp: try_update_binary_def bind_eq_Some_conv split: option.splits bool.splits dest!: ran_say)
  obtain out st r2 fw r3 where run: "in_world (\<lambda>w. Some (run_child H (program_args H path) w)) (r1\<lparr>ran := ran r1 @ [program_args H path]\<rparr>) = Some ((out, st), r2)"
    "pipe_loop H out (None, r2) = Some (fw, r3)"
    using assms(1) e x ok by (auto simp: try_update_binary_def bind_eq_Some_conv program_args_def Let_def in_world_Some)
  have r3: "ran r3 = ran r @ [program_args H path]"
    using ran_in_world [OF run(1)] ran_pipe_loop [OF run(2)] x(2) by simp
  have "ran s = ran r3"
    using assms(1) e x ok run
    by (auto simp: try_update_binary_def bind_eq_Some_conv program_args_def Let_def split: if_splits option.splits
        dest!: ran_say ran_firmware)
  then show ?thesis using e x ok r3 by auto
qed


lemma ran_in_volumes: "in_volumes f r = Some (a, s) \<Longrightarrow> ran s = ran r \<and> signature_check s = signature_check r"
  by (auto simp: in_volumes_def bind_eq_Some_conv set_phone_def)

lemma install_opened_runs:
  assumes "install_opened H path r = Some (code, s)" and "ran s \<noteq> ran r"
  shows "\<exists>f za e r1 r2. fs (m_world r) path = Some f \<and> parse_package H (f_data f) = Some (Inr za) \<and>
    package_entry za ASSUMED_UPDATE_BINARY_NAME = Some (Some e) \<and> fs (m_world r1) = fs (m_world r) \<and>
    extract_binary H za e r1 = Some (Some True, r2) \<and> ran s = ran r @ [program_args H path]"
proof -
  obtain za w where o: "mzOpenZipArchive H path (m_world r) = Some (za, w)"
    using assms(1) by (auto simp: install_opened_def in_world_Some bind_eq_Some_conv)
  obtain a where a: "za = Inr a"
    using assms o by (cases za) (auto simp: install_opened_def in_world_def bind_eq_Some_conv dest!: ran_say)
  obtain r1 where r1: "say (str ''Installing update...'' @ [10]) (r\<lparr>m_world := w, archives := archives r + 1\<rparr>) = Some r1"
    "try_update_binary H path a r1 = Some (code, s)"
    using assms(1) o a by (auto simp: install_opened_def in_world_def bind_eq_Some_conv)
  have q: "fs (m_world r1) = fs w" "ran r1 = ran r" using quiet_say(1) [OF r1(1)] by (simp_all add: quiet_step_def)
  have "ran s \<noteq> ran r1" using assms(2) q(2) by simp
  from try_update_binary_runs [OF r1(2) this] obtain e r2 where
    "package_entry a ASSUMED_UPDATE_BINARY_NAME = Some (Some e)" "extract_binary H a e r1 = Some (Some True, r2)"
    "ran s = ran r1 @ [program_args H path]" by blast
  then show ?thesis using opened_archive [OF o] q a by metis
qed

lemma ran_load_keys: "load_keys H name r = Some (k, s) \<Longrightarrow> ran s = ran r"
  by (drule load_keys_facts(1)) (simp add: quiet_step_def)

lemma ran_verify_package: "verify_package H path r = Some (ok, s) \<Longrightarrow> ran s = ran r"
  by (auto simp: verify_package_def Let_def bind_eq_Some_conv split: if_splits option.splits
      dest!: ran_say ran_in_world ran_load_keys)

text \<open>
  C2: with the signature check switched on \<open>install_package\<close> starts no program of a package unless, once the
  volume of the package was mounted, the package was signed by a key of \<open>/res/keys\<close> and well-ended; the one
  program that is started then is the update binary, extracted from the archive that this very file holds.
  The \<open>mount\<close> commands that mounting the volume runs through the shell before that are of the system, not
  of the package, and not counted.
\<close>

theorem install_runs_only_signed:
  assumes "install_package H path r = Some (code, s)" and "ran s \<noteq> ran r"
    and "signature_check r" and "incremental (pl_sha H)"
  shows "\<exists>r0 r1 r2 r3 f za e. in_volumes (ensure_path_mounted (pl_kernel H) path) r0 = Some (0, r1) \<and>
    m_world r0 = m_world r \<and> accepted H path (fs (m_world r1)) \<and> fs (m_world r1) path = Some f \<and>
    parse_package H (f_data f) = Some (Inr za) \<and> package_entry za ASSUMED_UPDATE_BINARY_NAME = Some (Some e) \<and>
    fs (m_world r2) = fs (m_world r1) \<and> extract_binary H za e r2 = Some (Some True, r3) \<and>
    ran s = ran r @ [program_args H path]"
proof -
  obtain r0 where r0: "say (str ''Finding update package...'' @ [10]) (on_ui (ui_set_background (fst (h_icons H))) r) = Some r0"
    using assms(1) by (auto simp: install_package_def Let_def bind_eq_Some_conv)
  let ?r0 = "on_ui ui_show_indeterminate_progress r0"
  have q0: "quiet_step r ?r0" using quiet_trans [OF quiet_say(3) quiet_trans [OF quiet_say(1) [OF r0] quiet_say(3)]] .
  have w0: "m_world ?r0 = m_world r"
    using same_but_ui_fields [OF say_same [OF r0]] by (simp add: on_ui_def)
  obtain mounted r1 where m: "in_volumes (ensure_path_mounted (pl_kernel H) path) ?r0 = Some (mounted, r1)"
    using assms(1) r0 by (auto simp: install_package_def Let_def bind_eq_Some_conv)
  have ran1: "ran r1 = ran r" "signature_check r1" using ran_in_volumes [OF m] q0 assms(3) by (simp_all add: quiet_step_def)
  have m0: "mounted = 0"
    using assms(1,2) r0 m ran1 by (auto simp: install_package_def Let_def bind_eq_Some_conv split: if_splits dest!: ran_say(2))
  obtain r2 where r2: "say (str ''Opening update package...'' @ [10]) r1 = Some r2"
    using assms(1) r0 m m0 by (auto simp: install_package_def Let_def bind_eq_Some_conv)
  have q2: "quiet_step r1 r2" by (rule quiet_say(1) [OF r2])
  obtain ok r3 where v: "verify_package H path r2 = Some (ok, r3)"
    using assms(1) r0 m m0 r2 by (auto simp: install_package_def Let_def bind_eq_Some_conv)
  have rest: "(if \<not> ok then Some (INSTALL_CORRUPT, r3) else install_opened H path r3) = Some (code, s)"
    using assms(1) r0 m m0 r2 v by (simp add: install_package_def Let_def)
  have ok: ok
  proof (rule ccontr)
    assume "\<not> ok"
    then have False if "ran r3 = ran r2" using that rest ran1 q2 assms(2) by (auto simp: quiet_step_def)
    then show False using ran_verify_package [OF v] by blast
  qed
  have q3: "quiet_step r2 r3" "accepted H path (fs (m_world r2))"
    using verify_package_sound [OF v [unfolded eqTrueI [OF ok]] assms(4)] q2 ran1(2) by (auto simp: quiet_step_def)
  have "ran s \<noteq> ran r3" using assms(2) ran1 q2 q3(1) by (simp add: quiet_step_def)
  moreover have "install_opened H path r3 = Some (code, s)" using rest ok by simp
  ultimately obtain f za e r4 r5 where *: "fs (m_world r3) path = Some f" "parse_package H (f_data f) = Some (Inr za)"
    "package_entry za ASSUMED_UPDATE_BINARY_NAME = Some (Some e)" "fs (m_world r4) = fs (m_world r3)"
    "extract_binary H za e r4 = Some (Some True, r5)" "ran s = ran r3 @ [program_args H path]"
    using install_opened_runs by blast
  have "fs (m_world r3) = fs (m_world r1)" "ran r3 = ran r" "fs (m_world r2) = fs (m_world r1)"
    using q2 q3(1) ran1 by (simp_all add: quiet_step_def)
  then show ?thesis using m m0 w0 q3(2) * by metis
qed

section \<open>A package that is installed\<close>

text \<open>
  A signed package with an empty update binary, a file of one key, and a machine where every call
  succeeds; the user interface has not been started.
\<close>

definition demo_package :: bytes where
  "demo_package =
     [80, 75, 3, 4, 0, 0, 0, 0, 0, 0, 0, 0, 0, 0, 0, 0, 0, 0, 0, 0, 0, 0, 0, 0, 0, 0, 0, 0, 0, 0,
      80, 75, 1, 2, 0, 3, 0, 0, 0, 0, 0, 0, 0, 0, 0, 0, 0, 0, 0, 0, 0, 0, 0, 0, 0, 0, 0, 0, 41, 0,
      0, 0, 0, 0, 0, 0, 0, 0, 0, 0, 0, 0, 0, 0, 0, 0, 77, 69, 84, 65, 45, 73, 78, 70, 47, 99, 111,
      109, 47, 103, 111, 111, 103, 108, 101, 47, 97, 110, 100, 114, 111, 105, 100, 47, 117, 112,
      100, 97, 116, 101, 45, 98, 105, 110, 97, 114, 121, 80, 75, 5, 6, 0, 0, 0, 0, 1, 0, 1, 0, 87,
      0, 0, 0, 30, 0, 0, 0, 8, 0, 80, 75, 8, 0, 255, 255, 8, 0]"

definition demo_entry :: ZipEntry where
  "demo_entry = \<lparr>fileNameLen = 41, fileName = 76, offset = 30, compLen = 0, uncompLen = 0,
    compression = 0, modTime = 0, crc32 = 0, versionMadeBy = 0x0300, externalFileAttributes = 0\<rparr>"

lemma demo_parts:
  "length demo_package = 147" "get4LE demo_package 0 = Some LOCSIG"
  "find_eocd demo_package 125 = Some (Some 117)"
  "get2LE demo_package (117 + ENDSUB) = Some 1" "get4LE demo_package (117 + ENDOFF) = Some 30"
proof -
  show "length demo_package = 147" by (simp add: demo_package_def)
  have "find_eocd demo_package (Suc (Suc (Suc (Suc (Suc (Suc (Suc (Suc 117)))))))) = Some (Some 117)"
    by (subst find_eocd.simps, simp add: parse_simps demo_package_def)+
  then show "find_eocd demo_package 125 = Some (Some 117)" by simp
qed (simp_all add: parse_simps demo_package_def)

lemma demo_parse: "parse_entry no_overflow no_signed_overflow 4096 demo_package [] 30 = Some (Inr ([demo_entry], 117))"
  by (simp add: parse_simps demo_package_def find_target_def insert_at_def demo_entry_def)

lemma demo_nowrap: "nowrap 4096 demo_package"
proof -
  have "case get4LE demo_package p of None \<Rightarrow> True
       | Some v \<Rightarrow> unat (4096 :: u32) + unat v < 2 ^ 32 \<longrightarrow> unat (4096 :: u32) + unat v + LOCHDR < 2 ^ 32" for p
  proof -
    consider "p < 140" | "p \<in> {140, 141, 142, 143}" | "143 < p" by force
    then show ?thesis
    proof cases
      case 1
      then have "get4LE (take 143 demo_package) p = get4LE demo_package p"
        by (simp add: get4LE_def rd_def demo_parts(1))
      moreover have "255 \<notin> set (take 143 demo_package)" by (simp add: demo_package_def)
      ultimately show ?thesis using get4LE_no_ff [of "take 143 demo_package" p] by (fastforce simp: LOCHDR_def split: option.splits)
    next
      case 2
      then show ?thesis by (elim insertE emptyE) (simp_all add: get4LE_def rd_def demo_package_def LOCHDR_def)
    next
      case 3
      then have "length demo_package < p + 4" by (simp add: demo_parts(1))
      then have none: "get4LE demo_package p = None" using get4_eq_None(1) by simp
      show ?thesis unfolding none by simp
    qed
  qed
  then show ?thesis unfolding nowrap_def list_all_iff by (simp add: demo_parts(1))
qed

lemma demo_parses:
  obtains za where "parseZipArchive (\<lambda>_. True) no_overflow no_signed_overflow 4096 demo_package = Some (Inr za)"
    "arcMap za = demo_package" "package_entry za ASSUMED_UPDATE_BINARY_NAME = Some (Some demo_entry)"
proof -
  have es: "parse_entries (parse_entry no_overflow no_signed_overflow 4096 demo_package) (unat (1 :: u16)) [] 30 =
      Some (Inr [demo_entry])"
  proof -
    have "unat (1 :: u16) = Suc 0" by simp
    then show ?thesis by (simp only: parse_entries.simps demo_parse option.case sum.case prod.case)
  qed
  have ok: "\<forall>e \<in> set [demo_entry]. entry_ok no_signed_overflow demo_package e" "sorted_names demo_package [demo_entry]"
    using parse_entries_returns [of no_overflow 4096 demo_package "[]" no_signed_overflow 1 30]
      demo_nowrap sorted_names_Nil es
    by (simp_all add: no_overflow_def returns_def)
  obtain t :: "nat HashTable" where t: "mzHashTableCreate (\<lambda>_. True) (of_nat (mzHashSize 1)) False = Inr (Some t)"
    by (simp add: mzHashTableCreate_def mzHashSize_def load_defs Let_def calloc_slots_def SLOT_BYTES_def roundUpPower2_def)
  let ?za = "\<lambda>t'. \<lparr>arcEntries = [demo_entry], arcHash = t', arcMap = demo_package\<rparr>"
  have "length [demo_entry] = 1" "length [demo_entry] < 2 ^ 16" by simp_all
  then obtain t' where t': "add_entries (\<lambda>_. True) demo_package [demo_entry] t = Some (Inr t')" "archive_ok no_signed_overflow (?za t')"
    using t add_entries_ok [OF ok, of "\<lambda>_. True" t] by metis
  have "parseZipArchive (\<lambda>_. True) no_overflow no_signed_overflow 4096 demo_package = Some (Inr (?za t'))"
    using es t t' by (simp add: parseZipArchive_def demo_parts ENDHDR_def LOCSIG_def ENDSIG_def)
  moreover have "package_entry (?za t') ASSUMED_UPDATE_BINARY_NAME = Some (Some demo_entry)"
  proof -
    have "entry_name demo_package demo_entry = ASSUMED_UPDATE_BINARY_NAME" "length ASSUMED_UPDATE_BINARY_NAME < 2 ^ 32"
      by (simp_all add: entry_name_def demo_entry_def demo_package_def ASSUMED_UPDATE_BINARY_NAME_def str_def)
    then have "mzFindZipEntry (?za t') ASSUMED_UPDATE_BINARY_NAME = Some (Inr (Ptr 0))"
      using t'(2) by (simp add: archive_ok_def)
    then show ?thesis by (simp add: package_entry_def rd_def)
  qed
  ultimately show thesis using that [of "?za t'"] by simp
qed

definition demo_rsa :: "RSAPublicKey rsa" where
  "demo_rsa = \<lparr>rsa_numbytes = 2, rsa_verify = \<lambda>k sig digest. sig = take 2 digest \<and> k_n k = [3]\<rparr>"

definition demo_keys :: "RSAPublicKey list" where
  "demo_keys = [\<lparr>k_len = 1, k_n0inv = 5, k_n = [3], k_rr = [4]\<rparr>]"

lemma demo_signed:
  "well_ended demo_rsa demo_package" "decided toy_sha demo_rsa demo_keys demo_package = Some VERIFY_SUCCESS"
proof -
  have "FOOTER_SIZE \<le> length demo_package \<and> demo_package ! (length demo_package - 4) = 0xff \<and> demo_package ! (length demo_package - 3) = 0xff \<and>
     FOOTER_SIZE + rsa_numbytes demo_rsa \<le> unat (demo_package ! (length demo_package - 6)) + unat (demo_package ! (length demo_package - 5)) * 256 \<and>
     comment_len demo_package + EOCD_HEADER_SIZE \<le> length demo_package"
    by code_simp
  then have "footed demo_rsa demo_package" by (simp add: footed_def demo_package_def)
  moreover have "eocd_at demo_package (record_start demo_package) \<and>
      list_all (\<lambda>i. \<not> eocd_at demo_package i) [record_start demo_package + 4..<length demo_package]"
    by code_simp
  ultimately show "well_ended demo_rsa demo_package" unfolding well_ended_code by blast
  show "decided toy_sha demo_rsa demo_keys demo_package = Some VERIFY_SUCCESS" by code_simp
qed

definition demo_host :: "(bytes, bytes, bytes, unit) host" where
  "demo_host = platform.extend small_platform (host.fields demo_rsa 1 no_overflow no_signed_overflow 4096
     (\<lambda>c pos n. Some (take n (drop pos c))) 4 (\<lambda>_ w. (([], Some 0), w)) (\<lambda>_. 0) (\<lambda>_. 0) 100 (1, 2))"

definition demo_file :: "bytes \<Rightarrow> inode" where
  "demo_file c = \<lparr>f_data = c, f_regular = True, f_mode = 0, f_uid = 0, f_gid = 0\<rparr>"

definition key_text :: bytes where
  "key_text = str ''{1,0x5,{3},{4}}''"

definition demo_path :: bytes where
  "demo_path = str ''/tmp/p''"

definition demo_installer :: installer where
  "demo_installer = \<lparr>m_world = flash_world\<lparr>fs := [demo_path \<mapsto> demo_file demo_package, PUBLIC_KEYS_FILE \<mapsto> demo_file key_text]\<rparr>,
     m_mmc = \<lparr>mmc_partitions = [], mmc_count = -1\<rparr>, m_mounts = [], m_mount_count = 0, m_flash_type = UNKNOWN,
     volumes = [tmp_volume], the_ui = small_ui\<lparr>text_rows := 0\<rparr>, signature_check = True, ran = [], archives = 0\<rparr>"

lemma demo_host_fields [simp]:
  "pl_kernel demo_host = small_kernel" "pl_env demo_host = generous_env" "pl_sha demo_host = toy_sha"
  "h_rsa demo_host = demo_rsa" "h_numwords demo_host = 1" "h_safe_ptr demo_host = no_overflow"
  "h_safe_long demo_host = no_signed_overflow" "h_addr demo_host = 4096" "h_child demo_host = (\<lambda>_ w. (([], Some 0), w))"
  "h_reader demo_host = (\<lambda>c pos n. Some (take n (drop pos c)))" "k_malloc small_kernel = (\<lambda>_. True)"
  "pl_zlib demo_host = no_zlib" "pl_xos demo_host = pl_xos small_platform" "pl_tree demo_host = pl_tree small_platform"
  by (simp_all add: demo_host_def platform.extend_def host.fields_def small_platform_def small_kernel_def)

lemma demo_keys_load: "load_loop (\<lambda>_. True) 1 0 key_text = Some (Inr demo_keys)"
  by code_simp

lemma demo_files [simp]:
  "fs (m_world demo_installer) demo_path = Some (demo_file demo_package)"
  "fs (m_world demo_installer) PUBLIC_KEYS_FILE = Some (demo_file key_text)"
  "f_data (demo_file c) = c"
  by (simp_all add: demo_installer_def demo_path_def PUBLIC_KEYS_FILE_def demo_file_def str_def)

lemma silent [simp]:
  assumes "text_rows (the_ui r) = 0"
  shows "say m r = Some r" "LOGE m r = Some r"
  using assms by (simp_all add: LOGE_def say_def ui_print_def)

lemma demo_mounted:
  assumes "volumes r = [tmp_volume]"
  shows "\<exists>s. in_volumes (ensure_path_mounted K demo_path) r = Some (0, s) \<and> m_world s = m_world r \<and> the_ui s = the_ui r \<and>
    signature_check s = signature_check r \<and> ran s = ran r"
proof -
  have "in_volume demo_path (str ''/tmp'')" "v_fs_type tmp_volume = str ''ramdisk''" "v_mount_point tmp_volume = str ''/tmp''"
    by (simp_all add: in_volume_def demo_path_def str_def tmp_volume_def)
  then show ?thesis using assms
    by (simp add: in_volumes_def ensure_path_mounted.simps volume_for_path_def phone_of_def set_phone_def)
qed

lemma demo_opens: "sys_open generous_env p w = (fs w p, step_clock w)"
  by (simp add: sys_open_def sys_stat_def generous_env_def)

lemma demo_grants [simp]: "granted generous_env t"
  by (simp add: generous_env_def)

lemma demo_loads:
  assumes "fs (m_world r) PUBLIC_KEYS_FILE = Some (demo_file key_text)"
  shows "\<exists>w. load_keys demo_host PUBLIC_KEYS_FILE r = Some (Some demo_keys, r\<lparr>m_world := w\<rparr>) \<and> fs w = fs (m_world r)"
proof -
  have "length key_text = 15" by (simp add: key_text_def str_def)
  then have "\<exists>v. sys_read generous_env key_text 0 (length key_text) w = (key_text, v) \<and> fs v = fs w" for w :: "mtd_state world"
    by (simp add: sys_read_def generous_env_def)
  then obtain v where v: "sys_read generous_env key_text 0 (length key_text) (step_clock (m_world r)) = (key_text, v)"
    "fs v = fs (step_clock (m_world r))" by blast
  then show ?thesis using assms
    by (intro exI [of _ v]) (simp add: load_keys_def in_world_def demo_opens demo_keys_load [unfolded One_nat_def])
qed

lemma demo_verifies:
  assumes "fs (m_world r) PUBLIC_KEYS_FILE = Some (demo_file key_text)" "fs (m_world r) demo_path = Some (demo_file demo_package)"
    and "text_rows (the_ui r) = 0" "signature_check r"
  shows "\<exists>s. verify_package demo_host demo_path r = Some (True, s) \<and> fs (m_world s) = fs (m_world r) \<and>
    text_rows (the_ui s) = 0 \<and> ran s = ran r"
proof -
  obtain w where w: "load_keys demo_host PUBLIC_KEYS_FILE r = Some (Some demo_keys, r\<lparr>m_world := w\<rparr>)" "fs w = fs (m_world r)"
    using demo_loads [OF assms(1)] by blast
  have "fs w demo_path = Some (demo_file demo_package)" using w(2) assms(2) by simp
  from verify_file_generous [where malloc = "\<lambda>_. True" and sha = toy_sha and rsa = demo_rsa and pKeys = demo_keys
      and env = generous_env, OF this]
  obtain v where v: "verify_file (\<lambda>_. True) toy_sha demo_rsa generous_env demo_path demo_keys w = Some (VERIFY_SUCCESS, v)"
    using demo_signed by (auto simp: incremental_toy_sha generous_env_def BUFFER_SIZE_def demo_parts(1))
  then show ?thesis using w assms verify_file_keeps [OF v]
    by (simp add: verify_package_def in_world_def on_ui_def ui_show_progress_def)
qed

lemma demo_extracts: "\<exists>w. extract_binary demo_host za demo_entry r = Some (Some True, r\<lparr>m_world := w\<rparr>)"
  by (intro exI [of _ "m_world r"], cases r)
    (simp add: extract_binary_def in_world_def small_platform_def mzExtractZipEntryToFile_def mzProcessZipEntryContents_def
      demo_entry_def STORED_def processStoredEntry_def processStored.simps)

lemma demo_installs:
  assumes "fs (m_world r) demo_path = Some (demo_file demo_package)" "text_rows (the_ui r) = 0"
  shows "\<exists>s. install_opened demo_host demo_path r = Some (INSTALL_SUCCESS, s) \<and> ran s = ran r @ [program_args demo_host demo_path]"
proof -
  obtain za where za: "parseZipArchive (\<lambda>_. True) no_overflow no_signed_overflow 4096 demo_package = Some (Inr za)"
    "package_entry za ASSUMED_UPDATE_BINARY_NAME = Some (Some demo_entry)"
    using demo_parses .
  have "demo_package \<noteq> []" by (simp add: demo_package_def)
  then have "\<exists>w. mzOpenZipArchive demo_host demo_path (m_world r) = Some (Inr za, w)"
    using assms(1) za(1) by (simp add: mzOpenZipArchive_def demo_opens sysMapFileInShmem_def demo_parts(1) ENDHDR_def)
  then obtain w where w: "mzOpenZipArchive demo_host demo_path (m_world r) = Some (Inr za, w)" by blast
  let ?r = "r\<lparr>m_world := w, archives := archives r + 1\<rparr>"
  obtain v where v: "extract_binary demo_host za demo_entry ?r = Some (Some True, ?r\<lparr>m_world := v\<rparr>)"
    using demo_extracts by blast
  have "pipe_loop demo_host [] (None, q) = Some (None, q)" for q by (simp add: pipe_loop.simps fgets_def)
  then have "\<exists>s. try_update_binary demo_host demo_path za ?r = Some (INSTALL_SUCCESS, s) \<and> ran s = ran r @ [program_args demo_host demo_path]"
    using za(2) v by (simp add: try_update_binary_def in_world_def run_child_def Let_def program_args_def)
  then show ?thesis using w assms(2) by (simp add: install_opened_def in_world_def)
qed

lemma demo_run:
  "\<exists>s. install_package demo_host demo_path demo_installer = Some (INSTALL_SUCCESS, s) \<and> ran s = [program_args demo_host demo_path]"
proof -
  have d: "text_rows (the_ui demo_installer) = 0" "volumes demo_installer = [tmp_volume]" "signature_check demo_installer" "ran demo_installer = []"
    by (simp_all add: demo_installer_def)
  let ?r0 = "on_ui ui_show_indeterminate_progress (on_ui (ui_set_background (fst (h_icons demo_host))) demo_installer)"
  have 0: "m_world ?r0 = m_world demo_installer" "text_rows (the_ui ?r0) = 0" "volumes ?r0 = [tmp_volume]" "signature_check ?r0" "ran ?r0 = []"
    using d by (simp_all add: on_ui_def ui_show_indeterminate_progress_def ui_set_background_def)
  obtain r1 where r1: "in_volumes (ensure_path_mounted small_kernel demo_path) ?r0 = Some (0, r1)" "m_world r1 = m_world demo_installer"
    "text_rows (the_ui r1) = 0" "signature_check r1" "ran r1 = []"
    using demo_mounted [OF 0(3), of small_kernel] 0 by auto
  obtain r2 where r2: "verify_package demo_host demo_path r1 = Some (True, r2)" "fs (m_world r2) = fs (m_world r1)"
    "text_rows (the_ui r2) = 0" "ran r2 = []"
    using demo_verifies [of r1] r1 by auto
  obtain s where s: "install_opened demo_host demo_path r2 = Some (INSTALL_SUCCESS, s)" "ran s = [program_args demo_host demo_path]"
    using demo_installs [of r2] r2 r1 by auto
  show ?thesis using d 0 r1 r2 s by (simp add: install_package_def on_ui_def ui_set_background_def)
qed

theorem install_runs_only_signed_witness:
  "\<exists>s r0 r1 r2 r3 f za e. install_package demo_host demo_path demo_installer = Some (INSTALL_SUCCESS, s) \<and>
    in_volumes (ensure_path_mounted (pl_kernel demo_host) demo_path) r0 = Some (0, r1) \<and>
    m_world r0 = m_world demo_installer \<and> accepted demo_host demo_path (fs (m_world r1)) \<and> fs (m_world r1) demo_path = Some f \<and>
    parse_package demo_host (f_data f) = Some (Inr za) \<and> package_entry za ASSUMED_UPDATE_BINARY_NAME = Some (Some e) \<and>
    fs (m_world r2) = fs (m_world r1) \<and> extract_binary demo_host za e r2 = Some (Some True, r3) \<and>
    ran s = ran demo_installer @ [program_args demo_host demo_path]"
proof -
  obtain s where s: "install_package demo_host demo_path demo_installer = Some (INSTALL_SUCCESS, s)"
    "ran s = [program_args demo_host demo_path]" using demo_run by blast
  have "ran s \<noteq> ran demo_installer" "signature_check demo_installer" "incremental (pl_sha demo_host)"
    using s(2) by (simp_all add: demo_installer_def incremental_toy_sha)
  from install_runs_only_signed [OF s(1) this] s(1) show ?thesis by metis
qed

end
