(* ===== verification/Spec2Isabelle.thy ===== *)
theory Spec2Isabelle
  imports Bytes MzHash NameIndex Zip DirUtil ZipExtract Edify Bspatch Bsdiff Imgpatch Freecache Applypatch PatchSafety
    DirTree Mmc MmcSafety Mtd MtdRoundtrip MtdTotal FlashPatch FlashUtils Updater UpdaterReports PropFile Verifier Volumes Mounting Bootloader Recovery Restart
    Ui UiText UiMenu MenuChoice Install InstallSafety
begin

unbundle bit_operations_syntax

text \<open>
  Verification of the recovery system of an Android phone (a ClockworkMod recovery).

  A recovery image boots instead of the system, finds out from a command file and the
  bootloader control block what it has been asked to do, mounts volumes, checks the signature of
  an update package, unpacks it, and runs the script in it, which patches files and partitions.

  The theories, with the code they model:

  \<^item> \<open>Prelude\<close>: accesses to buffers that are undefined outside of them (\<open>rd\<close>, \<open>rd_slice\<close>,
    \<open>wr_slice\<close>), and \<open>returns m P\<close>: a computation in the option monad is defined and its result
    satisfies \<open>P\<close>.
  \<^item> \<open>Bytes\<close>: \<open>minzip/Bits.h\<close> and \<open>applypatch/utils.c\<close>, fixed-width integers in buffers.
  \<^item> \<open>MzHash\<close>: the open-addressing hash table of \<open>minzip/Hash.c\<close>, its invariant under every
    sequence of operations, presizing and the iterator.  \<open>NameIndex\<close>: adding keyed items.
  \<^item> \<open>Zip\<close>, \<open>ZipExtract\<close>: \<open>minzip/Zip.c\<close>; parsing an archive never leaves its mapping, the table
    of entries is sorted and indexed by name, and extraction.
  \<^item> \<open>DirUtil\<close>, \<open>DirTree\<close>: \<open>minzip/DirUtil.c\<close>, making directories, and walking a tree of them to
    delete it or set its permissions.
  \<^item> \<open>Edify\<close>: the script language of \<open>edify/\<close>, its evaluator against a reference semantics.
  \<^item> \<open>Bspatch\<close>, \<open>Bsdiff\<close>, \<open>Imgpatch\<close>: making and applying binary patches
    (\<open>applypatch/bspatch.c\<close>, \<open>bsdiff.c\<close>, \<open>imgpatch.c\<close>).  \<open>bsdiff\<close> and \<open>ApplyBSDiffPatchMem\<close> are
    inverse to each other; \<open>ApplyBSDiffPatchMem\<close> computes what the patch format says.
  \<^item> \<open>Files\<close>: the file system as a map from paths to files, system calls that an environment may
    refuse, and the history of all file systems of the past, the states in which power may be lost.
  \<^item> \<open>Freecache\<close>, \<open>Applypatch\<close>, \<open>PatchSafety\<close>: \<open>applypatch/freecache.c\<close> and \<open>applypatch.c\<close>.  At
    every moment of a run of \<open>applypatch\<close> on files the target is patched, or the source or its
    saved copy is intact, so that the update can be started again.
  \<^item> \<open>Mtd\<close>: \<open>mtdutils/mtdutils.c\<close>, reading and writing raw flash around bad blocks, on a driver
    that may fail at any call.  \<open>MtdRoundtrip\<close>: what is written is read back.  \<open>MtdTotal\<close>: every
    call comes back.  \<open>FlashPatch\<close>: the locale of what \<open>applypatch\<close> needs of a store of partitions,
    interpreted on \<open>Mtd\<close>.
  \<^item> \<open>Mmc\<close>, \<open>MmcSafety\<close>: \<open>mmcutils/mmcutils.c\<close> and \<open>bmlutils/bmlutils.c\<close>, the partition table of a
    card, whose scan ends and stays in its table, and raw images.  \<open>FlashUtils\<close>: \<open>flashutils/\<close>, the
    choice between the kinds of flash.
  \<^item> \<open>Verifier\<close>: \<open>verifier.c\<close>.  An accepted package is signed, and the record its signature
    belongs to is the one minzip finds (at the end of this theory).
  \<^item> \<open>Volumes\<close>: \<open>roots.c\<close>, \<open>mounts.c\<close> and what they call: the table of volumes, mounting, unmounting,
    formatting.  \<open>Mounting\<close>: the table is loaded as written, the list of mounts stays in its table,
    and is stale after a mount.
  \<^item> \<open>Bootloader\<close>: \<open>bootloader.c\<close>, messages on flash or on a block device; a locale of stores of
    messages, interpreted on both.
  \<^item> \<open>Recovery\<close>, \<open>Restart\<close>: of \<open>recovery.c\<close> the arguments, the end of a recovery, and the operations of
    commands.  A command that is interrupted is started again; one that is finished is not.
  \<^item> \<open>Updater\<close>: \<open>updater/install.c\<close>, every function an update script may call.  \<open>UpdaterReports\<close>: a
    script that fails says why.  \<open>PropFile\<close>: \<open>file_getprop\<close> reads a file of properties.
  \<^item> \<open>Ui\<close>: \<open>ui.c\<close>, \<open>default_recovery_ui.c\<close> and the choice from a menu in \<open>recovery.c\<close>.  \<open>UiText\<close>:
    the ring of rows implements the list of all lines that were printed.  \<open>UiMenu\<close>: sequences of
    calls and events, and their invariant.  \<open>MenuChoice\<close>: what \<open>get_menu_selection\<close> may return.
  \<^item> \<open>Install\<close>: \<open>install.c\<close>, opening archives (\<open>minzip/Zip.c\<close>), and the main function of the
    updater (\<open>updater/updater.c\<close>).  \<open>InstallSafety\<close>: with the signature check on, nothing but the
    update binary of a signed package is run.

  Conventions.  A C integer is a word where its width matters (\<open>u8\<close> to \<open>u64\<close>; a signed one is
  read with \<open>sint\<close>), and a natural number or an integer otherwise.  A string is its bytes
  without the terminator.  An access outside a buffer, a failed assertion that is not
  reported, and every other undefined behaviour is \<open>None\<close>; so is a loop that does not end, as
  \<open>partial_function (option)\<close> has it.  Errors the code reports are values of a sum type or
  the number the code returns.  Calls that may fail take their results from a parameter
  (\<open>malloc\<close>, an environment, a record of operations).  There is no fuel: loops are recursive
  functions with a termination proof, or partial functions with a lemma that they return.

  Parameters that stand for code not in the repository: zlib, libbz2, mincrypt, \<open>make\_ext4fs\<close>,
  \<open>safe\_iop\<close>, the kernel and the programs it runs, the parser that bison generates for edify (the
  actions of its grammar are modelled).

  Not modelled: the main loop of recovery and the menus of \<open>extendedcommands.c\<close> and \<open>midnight.c\<close>,
  which choose shell commands to run; \<open>nandroid.c\<close>, which runs backup programs; drawing and input
  devices (\<open>minui/\<close>); logging; tools of the host (\<open>imgdiff.c\<close>, \<open>dedupe\<close>).
  Crash safety of \<open>applypatch\<close> is stated for patches in the bsdiff format on plain files; its
  other paths are modelled, and their behaviour without failures is proved.  That the suffix
  sort of \<open>bsdiff\<close> sorts is not proved; the round trip does not need it.
\<close>

section \<open>The verified record is the one minzip finds\<close>

lemma four_bytes:
  fixes b0 b1 b2 b3 :: u8 and v :: u32
  assumes "ucast b0 OR push_bit 8 (ucast b1) OR push_bit 16 (ucast b2) OR push_bit 24 (ucast b3) = v"
  shows "b0 = ucast v" "b1 = ucast (drop_bit 8 v)" "b2 = ucast (drop_bit 16 v)" "b3 = ucast (drop_bit 24 v)"
  by (rule bit_eqI, use assms in \<open>auto simp: bit_simps dest: bit_imp_le_length\<close>)+

lemma get4LE_ENDSIG: "get4LE c i = Some ENDSIG \<longleftrightarrow> eocd_at c i"
proof
  assume v: "get4LE c i = Some ENDSIG"
  then have len: "i + 4 \<le> length c" using get4_eq_None(1) [of c i] by (simp add: not_less [symmetric])
  then have "ucast (c ! i) OR push_bit 8 (ucast (c ! (i + 1))) OR push_bit 16 (ucast (c ! (i + 2))) OR push_bit 24 (ucast (c ! (i + 3))) = ENDSIG"
    using v by (simp add: get4LE_def rd_Some)
  note b = four_bytes [OF this]
  show "eocd_at c i" using len by (simp only: eocd_at_nth b) (simp add: ENDSIG_def)
next
  assume "eocd_at c i"
  then show "get4LE c i = Some ENDSIG" by (simp add: eocd_at_nth get4LE_def rd_Some ENDSIG_def)
qed

lemma find_eocd_last:
  assumes "eocd_at c p" and "p \<le> ptr" and "ptr + 4 \<le> length c" and "\<forall>i. p < i \<longrightarrow> i \<le> ptr \<longrightarrow> \<not> eocd_at c i"
  shows "find_eocd c ptr = Some (Some p)"
  using assms
proof (induction ptr)
  case 0
  then have "get4LE c 0 = Some ENDSIG" "c ! 0 = 0x50" by (simp_all add: get4LE_ENDSIG eocd_at_nth)
  moreover have "rd c 0 = Some (c ! 0)" using 0 by (intro rd_Some) linarith
  ultimately show ?case using 0 by (subst find_eocd.simps) (simp add: ENDSIG_def)
next
  case (Suc ptr)
  obtain v where v: "get4LE c (Suc ptr) = Some v" using get4LE_in [of "Suc ptr" c] Suc.prems by auto
  show ?case
  proof (cases "p = Suc ptr")
    case True
    then have "get4LE c (Suc ptr) = Some ENDSIG" "c ! Suc ptr = 0x50" using Suc.prems by (simp_all add: get4LE_ENDSIG eocd_at_nth)
    with True Suc.prems show ?thesis by (subst find_eocd.simps) (simp add: rd_Some ENDSIG_def)
  next
    case False
    then have "\<not> eocd_at c (Suc ptr)" "find_eocd c ptr = Some (Some p)" using Suc by simp_all
    then show ?thesis using v Suc.prems get4LE_ENDSIG [of c "Suc ptr"] by (subst find_eocd.simps) (simp add: rd_Some)
  qed
qed

lemma well_ended_found:
  assumes "well_ended rsa c"
  shows "find_eocd c (length c - ENDHDR) = Some (Some (record_start c))"
proof (rule find_eocd_last)
  have w: "footed rsa c" "eocd_at c (record_start c)" "\<forall>i \<ge> record_start c + 4. \<not> eocd_at c i"
    using assms by (simp_all add: well_ended_footed)
  then show "eocd_at c (record_start c)" by simp
  show "record_start c \<le> length c - ENDHDR" "length c - ENDHDR + 4 \<le> length c"
    using w(1) by (simp_all add: record_start_def footed_def ENDHDR_def EOCD_HEADER_SIZE_def)
  show "\<forall>i. record_start c < i \<longrightarrow> i \<le> length c - ENDHDR \<longrightarrow> \<not> eocd_at c i"
  proof (intro allI impI)
    fix i assume i: "record_start c < i"
    show "\<not> eocd_at c i"
    proof (cases "record_start c + 4 \<le> i")
      case False
      then have "i = record_start c + 1 \<or> i = record_start c + 2 \<or> i = record_start c + 3" using i by auto
      then show ?thesis using w(2) by (auto simp: eocd_at_nth)
    qed (use w(3) in simp)
  qed
qed

text \<open>
  C5: In a package that verify_file accepts, the scan of parseZipArchive finds the very record
  whose position the signature was checked against, so the archive that is installed is the
  one that was signed.
\<close>

theorem verified_record_found:
  assumes "verify_file malloc sha rsa env path pKeys w = Some (VERIFY_SUCCESS, w')" and "incremental sha"
  shows "\<exists>f. fs w path = Some f \<and> signed sha rsa pKeys (f_data f) \<and>
    find_eocd (f_data f) (length (f_data f) - ENDHDR) = Some (Some (record_start (f_data f)))"
  using verified_sound [OF assms] well_ended_found by blast

theorem verified_record_found_witness:
  "\<exists>f. fs (package_world signed_package) (str ''/p'') = Some f \<and> signed toy_sha toy_rsa [[0x05]] (f_data f) \<and>
    find_eocd (f_data f) (length (f_data f) - ENDHDR) = Some (Some (record_start (f_data f)))"
proof -
  obtain w' where "verify_file (\<lambda>_. True) toy_sha toy_rsa generous_env (str ''/p'') [[0x05]] (package_world signed_package) = Some (VERIFY_SUCCESS, w')"
    using signed_package_accepted by blast
  from verified_record_found [OF this incremental_toy_sha] show ?thesis .
qed

end
